(* ===== verification/Prelude.thy ===== *)
theory Prelude
  imports Main "HOL-Library.Word"
begin

text \<open>
  Shared vocabulary of the development: the error monad in which every fallible operation of
  the code is written, the theorem collections the component theories extend, and the generic
  facts on lists, division by powers of two and finite maps that several components use.
\<close>

section \<open>Theorem collections\<close>

named_theorems res_simps "evaluation and inversion of the error monad"
named_theorems bytes_simps "lengths and positional facts of byte encodings"
named_theorems merkle_simps "node equations of the Merkle tree specification"

section \<open>Results of fallible operations\<close>

text \<open>
  A call that may throw returns a value of \<open>'e + 'a\<close>: \<open>Inl\<close> carries what was thrown, \<open>Inr\<close>
  the returned value. \<open>bindE\<close> is sequential composition: the first exception ends the call.
\<close>

definition bindE :: "'e + 'a \<Rightarrow> ('a \<Rightarrow> 'e + 'b) \<Rightarrow> 'e + 'b" where
  "bindE m f = (case m of Inl e \<Rightarrow> Inl e | Inr a \<Rightarrow> f a)"

definition guardE :: "bool \<Rightarrow> 'e \<Rightarrow> 'e + unit" where
  "guardE b e = (if b then Inr () else Inl e)"

definition optE :: "'e \<Rightarrow> 'a option \<Rightarrow> 'e + 'a" where
  "optE e x = (case x of None \<Rightarrow> Inl e | Some a \<Rightarrow> Inr a)"

lemma bindE_simps [simp]:
  "bindE (Inl e) f = Inl e"
  "bindE (Inr a) f = f a"
  by (simp_all add: bindE_def)

lemma guardE_simps [simp]:
  "guardE True e = Inr ()"
  "guardE False e = Inl e"
  by (simp_all add: guardE_def)

lemma optE_simps [simp]:
  "optE e None = Inl e"
  "optE e (Some a) = Inr a"
  by (simp_all add: optE_def)

lemma bindE_Inr_iff [res_simps]: "bindE m f = Inr b \<longleftrightarrow> (\<exists>a. m = Inr a \<and> f a = Inr b)"
  by (cases m) auto

lemma bindE_Inl_iff [res_simps]:
  "bindE m f = Inl e \<longleftrightarrow> m = Inl e \<or> (\<exists>a. m = Inr a \<and> f a = Inl e)"
  by (cases m) auto

lemma guardE_Inr_iff [res_simps]: "guardE b e = Inr u \<longleftrightarrow> b"
  by (cases b) auto

lemma guardE_Inl_iff [res_simps]: "guardE b e = Inl e' \<longleftrightarrow> \<not> b \<and> e' = e"
  by (cases b) auto

lemma optE_Inr_iff [res_simps]: "optE e x = Inr a \<longleftrightarrow> x = Some a"
  by (cases x) auto

lemma optE_Inl_iff [res_simps]: "optE e x = Inl e' \<longleftrightarrow> x = None \<and> e' = e"
  by (cases x) auto

text \<open>A \<open>for\<close> loop whose body may throw, over the elements of a list.\<close>

fun foldE :: "('a \<Rightarrow> 's \<Rightarrow> 'e + 's) \<Rightarrow> 'a list \<Rightarrow> 's \<Rightarrow> 'e + 's" where
  "foldE f [] s = Inr s"
| "foldE f (x # xs) s = bindE (f x s) (foldE f xs)"

lemma foldE_append [simp]: "foldE f (xs @ ys) s = bindE (foldE f xs s) (foldE f ys)"
  by (induction xs arbitrary: s) (auto simp: bindE_def split: sum.splits)

text \<open>An invariant of the body is an invariant of the loop.\<close>

lemma foldE_invariant:
  assumes "foldE f xs s = Inr s'" and "I s"
    and "\<And>x s t. x \<in> set xs \<Longrightarrow> I s \<Longrightarrow> f x s = Inr t \<Longrightarrow> I t"
  shows "I s'"
  using assms
proof (induction xs arbitrary: s)
  case Nil
  then show ?case by simp
next
  case (Cons x xs)
  from Cons.prems(1) obtain t where t: "f x s = Inr t" "foldE f xs t = Inr s'"
    by (auto simp: res_simps)
  have "I t" using Cons.prems(2,3) t(1) by auto
  with t(2) Cons.prems(3) Cons.IH show ?case by (metis list.set_intros(2))
qed

section \<open>Lists\<close>

lemma nth_map_upt0: "i < n \<Longrightarrow> map f [0..<n] ! i = f i"
  by simp

lemma list_eq_take_drop_nth:
  "i < length xs \<Longrightarrow> take i xs @ xs ! i # drop (Suc i) xs = xs"
  by (simp add: id_take_nth_drop [symmetric])

lemma sum_list_filter_neq:
  fixes f :: "'a \<Rightarrow> int"
  assumes "distinct xs" and "x \<in> set xs"
  shows "sum_list (map f (filter (\<lambda>y. y \<noteq> x) xs)) = sum_list (map f xs) - f x"
  using assms
proof (induction xs)
  case Nil
  then show ?case by simp
next
  case (Cons a xs)
  show ?case
  proof (cases "a = x")
    case True
    with Cons.prems have "filter (\<lambda>y. y \<noteq> x) xs = xs" by (auto simp: filter_id_conv)
    with True show ?thesis by simp
  next
    case False
    with Cons show ?thesis by auto
  qed
qed

section \<open>Division by powers of two\<close>

lemma Suc_div_two_power:
  fixes n k :: nat
  shows "Suc n div 2 ^ k = (if 2 ^ k dvd Suc n then Suc (n div 2 ^ k) else n div 2 ^ k)"
  by (simp add: div_Suc dvd_eq_mod_eq_0)

lemma div_two_power_Suc:
  fixes n k :: nat
  shows "n div 2 ^ Suc k = n div 2 ^ k div 2"
  by (simp add: power_Suc2 div_mult2_eq del: power_Suc)

lemma less_two_power_div_0:
  fixes n k :: nat
  shows "n < 2 ^ k \<Longrightarrow> n div 2 ^ k = 0"
  by simp

end
