(* ===== verification/JsBase.thy ===== *)
theory JsBase
  imports Prelude
begin

unbundle bit_operations_syntax

text \<open>
  The part of the JavaScript value model the code relies on: byte arrays (\<open>Uint8Array\<close>,
  \<open>Buffer\<close>), their big- and little-endian integer views, \<open>TypedArray.set\<close> and \<open>slice\<close>, the
  32-bit integer operators of the Number type, and the rounding of integers to the nearest
  double. A \<open>bigint\<close> is an \<open>int\<close>; a Number holding an integer is an \<open>int\<close> too, and every
  arithmetic result that can leave the 53-bit range passes through \<open>dbl\<close>.
\<close>

type_synonym byte = "8 word"
type_synonym bytes = "8 word list"

section \<open>Big-endian and little-endian views\<close>

text \<open>
  \<open>be_step\<close> is the loop body \<open>n = (n << 8n) | BigInt(b)\<close> that \<open>be32ToFieldDec\<close>,
  \<open>pubkeyToFieldString\<close> and \<open>beToBigInt\<close> share.
\<close>

definition be_step :: "nat \<Rightarrow> byte \<Rightarrow> nat" where
  "be_step n b = (push_bit 8 n OR unat b)"

definition be_val :: "bytes \<Rightarrow> nat" where
  "be_val bs = foldl be_step 0 bs"

fun be_bytes :: "nat \<Rightarrow> nat \<Rightarrow> bytes" where
  "be_bytes 0 x = []"
| "be_bytes (Suc n) x = be_bytes n (x div 256) @ [word_of_nat x]"

fun le_val :: "bytes \<Rightarrow> nat" where
  "le_val [] = 0"
| "le_val (b # bs) = unat b + 256 * le_val bs"

fun le_bytes :: "nat \<Rightarrow> nat \<Rightarrow> bytes" where
  "le_bytes 0 x = []"
| "le_bytes (Suc n) x = word_of_nat x # le_bytes n (x div 256)"

lemma unat_byte_less [simp]: "unat (b :: byte) < 256"
  using unsigned_less [of b] by simp

lemma unat_word_of_nat_byte [simp]: "unat (word_of_nat x :: byte) = x mod 256"
  by (simp add: unat_of_nat)

lemma word_of_nat_unat_byte: "unat (b :: byte) = x mod 256 \<Longrightarrow> word_of_nat x = b"
  by (metis unat_word_of_nat_byte word_unat_eq_iff)

lemma be_step_eq: "be_step n b = 256 * n + unat b"
proof -
  have low: "take_bit 8 (unat b) = unat b"
    using unat_byte_less [of b] by (simp add: take_bit_nat_eq_self)
  have "push_bit 8 n AND unat b = 0"
    by (subst low [symmetric]) (rule bit_eqI, auto simp: bit_simps)
  then show ?thesis
    by (simp add: be_step_def push_bit_eq_mult disjunctive_add_eq_or [symmetric])
qed

lemma be_val_Nil [simp]: "be_val [] = 0"
  by (simp add: be_val_def)

lemma be_val_snoc [simp]: "be_val (bs @ [b]) = 256 * be_val bs + unat b"
  by (simp add: be_val_def be_step_eq)

lemma length_be_bytes [simp]: "length (be_bytes n x) = n"
  by (induction n arbitrary: x) auto

lemma length_le_bytes [simp]: "length (le_bytes n x) = n"
  by (induction n arbitrary: x) auto

lemma be_val_be_bytes: "be_val (be_bytes n x) = x mod 256 ^ n"
proof (induction n arbitrary: x)
  case 0
  then show ?case by simp
next
  case (Suc n)
  have "256 * (x div 256 mod 256 ^ n) + x mod 256 = x mod 256 ^ Suc n"
    by (simp add: mod_mult2_eq)
  with Suc show ?case by simp
qed

lemma be_val_less: "be_val bs < 256 ^ length bs"
proof (induction bs rule: rev_induct)
  case Nil
  then show ?case by simp
next
  case (snoc b bs)
  then have "256 * be_val bs + 256 \<le> 256 * 256 ^ length bs" by simp
  moreover note unat_byte_less [of b]
  ultimately have "256 * be_val bs + unat b < 256 * 256 ^ length bs" by linarith
  then show ?case by simp
qed

lemma be_bytes_be_val: "length bs = n \<Longrightarrow> be_bytes n (be_val bs) = bs"
proof (induction bs arbitrary: n rule: rev_induct)
  case Nil
  then show ?case by simp
next
  case (snoc b bs)
  then obtain m where n: "n = Suc m" "length bs = m" by auto
  have "word_of_nat (256 * be_val bs + unat b) = b"
    by (rule word_of_nat_unat_byte) simp
  with n snoc.IH [of m] show ?case by simp
qed

lemma be_val_inject: "length bs = length cs \<Longrightarrow> be_val bs = be_val cs \<longleftrightarrow> bs = cs"
  by (metis be_bytes_be_val)

lemma be_bytes_inject: "x < 256 ^ n \<Longrightarrow> y < 256 ^ n \<Longrightarrow> be_bytes n x = be_bytes n y \<longleftrightarrow> x = y"
  by (metis be_val_be_bytes mod_less)

lemma le_val_le_bytes: "le_val (le_bytes n x) = x mod 256 ^ n"
proof (induction n arbitrary: x)
  case 0
  then show ?case by simp
next
  case (Suc n)
  have "x mod 256 + 256 * (x div 256 mod 256 ^ n) = x mod 256 ^ Suc n"
    by (simp add: mod_mult2_eq)
  with Suc show ?case by simp
qed

lemma le_val_less: "le_val bs < 256 ^ length bs"
proof (induction bs)
  case Nil
  then show ?case by simp
next
  case (Cons b bs)
  then have "256 * le_val bs + 256 \<le> 256 * 256 ^ length bs" by simp
  moreover note unat_byte_less [of b]
  ultimately have "unat b + 256 * le_val bs < 256 * 256 ^ length bs" by linarith
  then show ?case by simp
qed

lemma le_bytes_le_val: "length bs = n \<Longrightarrow> le_bytes n (le_val bs) = bs"
proof (induction bs arbitrary: n)
  case Nil
  then show ?case by simp
next
  case (Cons b bs)
  then obtain m where n: "n = Suc m" "length bs = m" by auto
  have "word_of_nat (unat b + 256 * le_val bs) = b"
    by (rule word_of_nat_unat_byte) simp
  with n Cons.IH [of m] show ?case by simp
qed

lemma le_bytes_mod: "le_bytes n (x mod 256 ^ n) = le_bytes n x"
  by (metis le_bytes_le_val le_val_le_bytes length_le_bytes)

lemma be_bytes_mod: "be_bytes n (x mod 256 ^ n) = be_bytes n x"
  by (metis be_bytes_be_val be_val_be_bytes length_be_bytes)

section \<open>Typed arrays\<close>

text \<open>
  \<open>zeros n\<close> is \<open>new Uint8Array(n)\<close>. \<open>ta_set src off dst\<close> is \<open>dst.set(src, off)\<close>, which throws a
  \<open>RangeError\<close> (\<open>None\<close>) when the source does not fit. \<open>slice b e xs\<close> is \<open>xs.slice(b, e)\<close> or
  \<open>xs.subarray(b, e)\<close> for non-negative bounds: both ends are clamped to the length.
\<close>

definition zeros :: "nat \<Rightarrow> bytes" where
  "zeros n = replicate n 0"

definition ta_set :: "bytes \<Rightarrow> nat \<Rightarrow> bytes \<Rightarrow> bytes option" where
  "ta_set src off dst =
     (if off + length src \<le> length dst
      then Some (take off dst @ src @ drop (off + length src) dst) else None)"

definition slice :: "nat \<Rightarrow> nat \<Rightarrow> 'a list \<Rightarrow> 'a list" where
  "slice b e xs = take (e - b) (drop b xs)"

definition index_get :: "'a list \<Rightarrow> nat \<Rightarrow> 'a option" where
  "index_get xs i = (if i < length xs then Some (xs ! i) else None)"

lemma length_zeros [simp]: "length (zeros n) = n"
  by (simp add: zeros_def)

lemma ta_set_fits [simp]:
  "off + length src \<le> length dst \<Longrightarrow>
     ta_set src off dst = Some (take off dst @ src @ drop (off + length src) dst)"
  by (simp add: ta_set_def)

lemma ta_set_length: "ta_set src off dst = Some dst' \<Longrightarrow> length dst' = length dst"
  by (auto simp: ta_set_def split: if_splits)

text \<open>
  The way every instruction builder fills its buffer: consecutive \<open>set\<close> calls, each starting
  where the previous one ended. \<open>pack\<close> replays the calls; it returns the concatenation exactly
  when the parts fit the allocation.
\<close>

fun pack :: "bytes list \<Rightarrow> nat \<Rightarrow> bytes \<Rightarrow> bytes option" where
  "pack [] off dst = Some dst"
| "pack (p # ps) off dst =
     (case ta_set p off dst of None \<Rightarrow> None | Some dst' \<Rightarrow> pack ps (off + length p) dst')"

lemma pack_fills:
  "off + length (concat ps) \<le> length dst \<Longrightarrow>
     pack ps off dst = Some (take off dst @ concat ps @ drop (off + length (concat ps)) dst)"
proof (induction ps arbitrary: off dst)
  case Nil
  then show ?case by simp
next
  case (Cons p ps)
  let ?d = "take off dst @ p @ drop (off + length p) dst"
  have off: "off \<le> length dst" and "off + length p + length (concat ps) \<le> length ?d"
    using Cons.prems by auto
  then have "pack ps (off + length p) ?d =
      Some (take (off + length p) ?d @ concat ps
            @ drop (off + length p + length (concat ps)) ?d)"
    using Cons.IH by simp
  with Cons.prems off show ?case by (simp add: drop_append ac_simps)
qed

lemma pack_exact:
  "length (concat ps) = n \<Longrightarrow> pack ps 0 (zeros n) = Some (concat ps)"
  by (simp add: pack_fills)

lemma length_slice [simp]: "length (slice b e xs) = min (e - b) (length xs - b)"
  by (auto simp: slice_def min_def)

lemma slice_append_mid [bytes_simps]:
  "length xs = b \<Longrightarrow> length ys = e - b \<Longrightarrow> b \<le> e \<Longrightarrow> slice b e (xs @ ys @ zs) = ys"
  by (simp add: slice_def)

lemma slice_append_left [bytes_simps]: "e \<le> length xs \<Longrightarrow> slice b e (xs @ ys) = slice b e xs"
  by (auto simp: slice_def)

lemma slice_append_right [bytes_simps]:
  "length xs \<le> b \<Longrightarrow> slice b e (xs @ ys) = slice (b - length xs) (e - length xs) ys"
  by (auto simp: slice_def)

lemma slice_full [bytes_simps]: "e = length xs \<Longrightarrow> slice 0 e xs = xs"
  by (simp add: slice_def)

section \<open>Number: the 32-bit operators and rounding to doubles\<close>

text \<open>
  \<open>&\<close>, \<open>^\<close> and \<open>>>\<close> on Numbers convert both operands to 32-bit two's complement first.
\<close>

definition to_int32 :: "int \<Rightarrow> 32 word" where
  "to_int32 n = word_of_int n"

definition js_and :: "int \<Rightarrow> int \<Rightarrow> int" where
  "js_and a b = sint (to_int32 a AND to_int32 b)"

definition js_xor :: "int \<Rightarrow> int \<Rightarrow> int" where
  "js_xor a b = sint (to_int32 a XOR to_int32 b)"

definition js_shr :: "int \<Rightarrow> nat \<Rightarrow> int" where
  "js_shr a k = sint (signed_drop_bit k (to_int32 a))"

text \<open>Storing a Number into a byte cell (\<open>Uint8Array\<close>, \<open>n & 0xff\<close>) keeps its value modulo 256.\<close>

definition to_u8 :: "int \<Rightarrow> byte" where
  "to_u8 n = word_of_int n"

lemma sint_word32_small:
  assumes "- (2 ^ 31) \<le> n" "n < 2 ^ 31"
  shows "sint (word_of_int n :: 32 word) = n"
  using assms by (simp add: signed_of_int signed_take_bit_int_eq_self)

lemma js_and_small:
  assumes "0 \<le> a" "a < 2 ^ 31" "0 \<le> b" "b < 2 ^ 31"
  shows "js_and a b = a AND b"
proof -
  have "a AND b \<le> a" using assms by (simp add: AND_upper1)
  moreover have "0 \<le> a AND b" using assms by simp
  ultimately have "sint (word_of_int (a AND b) :: 32 word) = a AND b"
    using \<open>a AND b \<le> a\<close> assms by (intro sint_word32_small) linarith+
  then show ?thesis by (simp add: js_and_def to_int32_def of_int_and_eq)
qed

lemma js_xor_small:
  assumes "0 \<le> a" "a < 2 ^ 31" "0 \<le> b" "b < 2 ^ 31"
  shows "js_xor a b = a XOR b"
proof -
  have "a XOR b < 2 ^ 31" using assms by (intro XOR_upper) auto
  moreover have "0 \<le> a XOR b" using assms by simp
  ultimately have "sint (word_of_int (a XOR b) :: 32 word) = a XOR b"
    by (intro sint_word32_small) linarith+
  then show ?thesis by (simp add: js_xor_def to_int32_def of_int_xor_eq)
qed

lemma js_shr_small:
  assumes "0 \<le> a" "a < 2 ^ 31"
  shows "js_shr a k = drop_bit k a"
proof -
  have "sint (word_of_int a :: 32 word) = a" using assms by (intro sint_word32_small) auto
  then show ?thesis
    by (simp add: js_shr_def to_int32_def sint_signed_drop_bit_eq)
qed

text \<open>The three idioms of a Merkle path: parity, sibling and parent of a node index.\<close>

lemma js_index_ops:
  assumes "i < 2 ^ 31"
  shows "js_and (int i) 1 = int (i mod 2)"
    and "js_xor (int i) 1 = int (if even i then Suc i else i - 1)"
    and "js_shr (int i) (Suc 0) = int (i div 2)"
proof -
  have i: "0 \<le> int i" "int i < 2 ^ 31" using assms by (auto simp flip: of_nat_less_iff)
  show "js_and (int i) 1 = int (i mod 2)"
    using js_and_small [OF i] by (simp add: and_one_eq zmod_int)
  show "js_xor (int i) 1 = int (if even i then Suc i else i - 1)"
    using js_xor_small [OF i] by (auto simp: xor_one_eq of_nat_diff dest: odd_pos)
  show "js_shr (int i) (Suc 0) = int (i div 2)"
    using js_shr_small [OF i] by (simp add: drop_bit_eq_div zdiv_int)
qed

text \<open>
  \<open>dbl n\<close> is the double nearest to the integer \<open>n\<close>, ties to even: \<open>Number(bigint)\<close> and the
  result of \<open>+\<close>, \<open>-\<close>, \<open>*\<close> on integer-valued Numbers (below the overflow threshold).
\<close>

fun bitlen :: "nat \<Rightarrow> nat" where
  "bitlen n = (if n = 0 then 0 else Suc (bitlen (n div 2)))"

declare bitlen.simps [simp del]

definition round_half_even :: "nat \<Rightarrow> nat \<Rightarrow> nat" where
  "round_half_even n d =
     (let q = n div d; r = n mod d
      in if 2 * r < d then q else if 2 * r > d then q + 1
         else if even q then q else q + 1)"

definition dbl_nat :: "nat \<Rightarrow> nat" where
  "dbl_nat n = (let e = bitlen n - 53 in round_half_even n (2 ^ e) * 2 ^ e)"

definition dbl :: "int \<Rightarrow> int" where
  "dbl n = (if n < 0 then - int (dbl_nat (nat (- n))) else int (dbl_nat (nat n)))"

definition safe_int :: "int \<Rightarrow> bool" where
  "safe_int n \<longleftrightarrow> \<bar>n\<bar> < 2 ^ 53"

lemma bitlen_le: "n < 2 ^ k \<Longrightarrow> bitlen n \<le> k"
proof (induction n arbitrary: k rule: bitlen.induct)
  case (1 n)
  show ?case
  proof (cases "n = 0")
    case True
    then show ?thesis by (simp add: bitlen.simps)
  next
    case False
    with "1.prems" obtain j where j: "k = Suc j" by (cases k) auto
    have "bitlen (n div 2) \<le> j" using False "1.prems" j by (intro "1.IH") auto
    with False j show ?thesis by (simp add: bitlen.simps [of n])
  qed
qed

lemma dbl_safe: "safe_int n \<Longrightarrow> dbl n = n"
  using bitlen_le [of "nat n" 53] bitlen_le [of "nat (- n)" 53]
  by (auto simp: safe_int_def dbl_def dbl_nat_def round_half_even_def)

lemma safe_int_mono: "safe_int b \<Longrightarrow> \<bar>a\<bar> \<le> \<bar>b\<bar> \<Longrightarrow> safe_int a"
  by (auto simp: safe_int_def)

end
