(* ===== verification/JsString.thy ===== *)
theory JsString
  imports JsBase
begin

text \<open>
  The JavaScript string functions the code applies to numbers: digit strings in a radix,
  \<open>BigInt(s)\<close>, \<open>n.toString(radix)\<close>, \<open>parseInt(s, 16)\<close>, \<open>padStart\<close>, \<open>slice\<close> and \<open>trim\<close>. A string is
  a list of characters with codes below 256, which covers every string these functions meet
  (digit strings, hexadecimal and base64 text).
\<close>

section \<open>Digits\<close>

definition char_code :: "char \<Rightarrow> nat" where
  "char_code c = of_char c"

definition digit_char :: "nat \<Rightarrow> char" where
  "digit_char d = (if d < 10 then char_of (48 + d) else char_of (87 + d))"

definition digit_of :: "char \<Rightarrow> nat option" where
  "digit_of c = (let n = char_code c in
     if 48 \<le> n \<and> n \<le> 57 then Some (n - 48)
     else if 97 \<le> n \<and> n \<le> 122 then Some (n - 87)
     else if 65 \<le> n \<and> n \<le> 90 then Some (n - 55)
     else None)"

definition is_digit :: "nat \<Rightarrow> char \<Rightarrow> bool" where
  "is_digit b c = (case digit_of c of None \<Rightarrow> False | Some d \<Rightarrow> d < b)"

definition digit_val :: "char \<Rightarrow> nat" where
  "digit_val c = (case digit_of c of None \<Rightarrow> 0 | Some d \<Rightarrow> d)"

definition digits_val :: "nat \<Rightarrow> string \<Rightarrow> nat" where
  "digits_val b s = foldl (\<lambda>n c. b * n + digit_val c) 0 s"

lemma char_code_char_of: "n < 256 \<Longrightarrow> char_code (char_of n) = n"
  by (simp add: char_code_def)

lemma digit_of_char: "d < 36 \<Longrightarrow> digit_of (digit_char d) = Some d"
  by (auto simp: digit_of_def digit_char_def char_code_char_of Let_def)

lemma digit_val_char [simp]: "d < 36 \<Longrightarrow> digit_val (digit_char d) = d"
  by (simp add: digit_val_def digit_of_char)

lemma is_digit_char: "d < b \<Longrightarrow> b \<le> 36 \<Longrightarrow> is_digit b (digit_char d)"
  by (simp add: is_digit_def digit_of_char)

lemma digits_val_Nil [simp]: "digits_val b [] = 0"
  by (simp add: digits_val_def)

lemma digits_val_snoc [simp]: "digits_val b (s @ [c]) = b * digits_val b s + digit_val c"
  by (simp add: digits_val_def)

lemma digits_val_append: "digits_val b (s @ t) = digits_val b s * b ^ length t + digits_val b t"
  by (induction t rule: rev_induct) (simp_all add: algebra_simps flip: append_assoc)

section \<open>toString(radix)\<close>

function nat_str :: "nat \<Rightarrow> nat \<Rightarrow> string" where
  "nat_str b n =
     (if b < 2 \<or> n < b then [digit_char n] else nat_str b (n div b) @ [digit_char (n mod b)])"
  by pat_completeness auto
termination
  by (relation "measure snd") auto

declare nat_str.simps [simp del]

definition int_str :: "nat \<Rightarrow> int \<Rightarrow> string" where
  "int_str b n = (if n < 0 then CHR ''-'' # nat_str b (nat (- n)) else nat_str b (nat n))"

lemma nat_str_nonempty [simp]: "nat_str b n \<noteq> []"
  by (subst nat_str.simps) simp

lemma digits_val_nat_str: "2 \<le> b \<Longrightarrow> b \<le> 36 \<Longrightarrow> digits_val b (nat_str b n) = n"
proof (induction b n rule: nat_str.induct)
  case (1 b n)
  then have "n mod b < 36" by (intro less_le_trans [OF mod_less_divisor]) auto
  with "1" show ?case
    by (subst nat_str.simps) (auto simp: digits_val_def [of _ "[_]"])
qed

lemma nat_str_digits: "2 \<le> b \<Longrightarrow> b \<le> 36 \<Longrightarrow> list_all (is_digit b) (nat_str b n)"
proof (induction b n rule: nat_str.induct)
  case (1 b n)
  then show ?case
    by (subst nat_str.simps) (auto simp: is_digit_char)
qed

lemma nat_str_inject: "2 \<le> b \<Longrightarrow> b \<le> 36 \<Longrightarrow> nat_str b m = nat_str b n \<longleftrightarrow> m = n"
  by (metis digits_val_nat_str)

lemma digits_val_less: "list_all (is_digit b) s \<Longrightarrow> 0 < b \<Longrightarrow> digits_val b s < b ^ length s"
proof (induction s rule: rev_induct)
  case Nil
  then show ?case by simp
next
  case (snoc c s)
  then have "b * digits_val b s + b \<le> b * b ^ length s"
    by (metis Suc_leI list_all_append mult_Suc_right add.commute mult_le_mono2)
  moreover have "digit_val c < b"
    using snoc.prems by (auto simp: is_digit_def digit_val_def split: option.splits)
  ultimately have "b * digits_val b s + digit_val c < b * b ^ length s" by linarith
  then show ?case by simp
qed

section \<open>Fixed-width hexadecimal\<close>

fun hexpad :: "nat \<Rightarrow> nat \<Rightarrow> string" where
  "hexpad 0 n = []"
| "hexpad (Suc k) n = hexpad k (n div 16) @ [digit_char (n mod 16)]"

definition pad_start :: "nat \<Rightarrow> char \<Rightarrow> string \<Rightarrow> string" where
  "pad_start n c s = replicate (n - length s) c @ s"

text \<open>\<open>s.slice(-n)\<close>: the last \<open>n\<close> characters.\<close>

definition slice_last :: "nat \<Rightarrow> string \<Rightarrow> string" where
  "slice_last n s = drop (length s - n) s"

lemma length_hexpad [simp]: "length (hexpad k n) = k"
  by (induction k arbitrary: n) auto

lemma hexpad_0: "hexpad k 0 = replicate k (CHR ''0'')"
proof (induction k)
  case (Suc k)
  have "digit_char 0 = CHR ''0''" by code_simp
  with Suc show ?case by (simp add: replicate_append_same)
qed simp

lemma hexpad_digits: "list_all (is_digit 16) (hexpad k n)"
  by (induction k arbitrary: n) (auto simp: is_digit_char)

lemma digits_val_hexpad: "digits_val 16 (hexpad k n) = n mod 16 ^ k"
proof (induction k arbitrary: n)
  case 0
  then show ?case by simp
next
  case (Suc k)
  have "16 * (n div 16 mod 16 ^ k) + n mod 16 = n mod 16 ^ Suc k" by (simp add: mod_mult2_eq)
  with Suc show ?case by simp
qed

lemma hexpad_nat_str:
  "hexpad k n = (if length (nat_str 16 n) \<le> k then pad_start k (CHR ''0'') (nat_str 16 n)
                 else slice_last k (nat_str 16 n))"
proof (induction k arbitrary: n)
  case 0
  then show ?case by (simp add: slice_last_def)
next
  case (Suc k)
  show ?case
  proof (cases "n < 16")
    case True
    then show ?thesis
      by (simp add: nat_str.simps [of 16 n] pad_start_def hexpad_0)
  next
    case False
    then have s: "nat_str 16 n = nat_str 16 (n div 16) @ [digit_char (n mod 16)]"
      by (simp add: nat_str.simps [of 16 n])
    show ?thesis
      using Suc.IH [of "n div 16"] by (simp add: s pad_start_def slice_last_def split: if_splits)
  qed
qed

lemma length_nat_str_16: "n < 16 ^ k \<Longrightarrow> 0 < k \<Longrightarrow> length (nat_str 16 n) \<le> k"
proof (induction k arbitrary: n)
  case 0
  then show ?case by simp
next
  case (Suc k)
  show ?case
  proof (cases "n < 16")
    case True
    then show ?thesis by (simp add: nat_str.simps [of 16 n])
  next
    case False
    with Suc.prems have "n div 16 < 16 ^ k" "0 < k" by (auto intro: gr0I)
    with Suc.IH [of "n div 16"] False show ?thesis by (simp add: nat_str.simps [of 16 n])
  qed
qed

lemma pad_start_hex: "n < 16 ^ k \<Longrightarrow> 0 < k \<Longrightarrow> pad_start k (CHR ''0'') (nat_str 16 n) = hexpad k n"
  by (simp add: hexpad_nat_str length_nat_str_16)

section \<open>trim, BigInt(s) and parseInt(s, 16)\<close>

definition js_space :: "char \<Rightarrow> bool" where
  "js_space c = (char_code c \<in> {9, 10, 11, 12, 13, 32, 160})"

definition js_trim_start :: "string \<Rightarrow> string" where
  "js_trim_start s = dropWhile js_space s"

definition js_trim :: "string \<Rightarrow> string" where
  "js_trim s = rev (dropWhile js_space (rev (js_trim_start s)))"

text \<open>\<open>toLowerCase\<close> on the letters of ASCII.\<close>

definition to_lower :: "string \<Rightarrow> string" where
  "to_lower s = map (\<lambda>c. let n = char_code c in
     if 65 \<le> n \<and> n \<le> 90 then char_of (n + 32) else c) s"

text \<open>A missing or empty string is falsy.\<close>

definition truthy :: "string option \<Rightarrow> string option" where
  "truthy s = (case s of None \<Rightarrow> None | Some x \<Rightarrow> if x = [] then None else Some x)"

text \<open>\<open>startsWith\<close> and \<open>includes\<close>.\<close>

definition starts_with :: "string \<Rightarrow> string \<Rightarrow> bool" where
  "starts_with p s \<longleftrightarrow> take (length p) s = p"

fun contains :: "string \<Rightarrow> string \<Rightarrow> bool" where
  "contains p [] = (p = [])"
| "contains p (c # s) = (starts_with p (c # s) \<or> contains p s)"

definition digits_only :: "nat \<Rightarrow> string \<Rightarrow> nat option" where
  "digits_only b s = (if s \<noteq> [] \<and> list_all (is_digit b) s then Some (digits_val b s) else None)"

text \<open>
  \<open>BigInt(s)\<close>: surrounding white space is ignored, the empty string is 0, a decimal literal may be
  signed, a radix prefix may not; anything else is a \<open>SyntaxError\<close> (\<open>None\<close>).
\<close>

definition parse_bigint :: "string \<Rightarrow> int option" where
  "parse_bigint s =
     (case js_trim s of
        [] \<Rightarrow> Some 0
      | c # t \<Rightarrow>
          if c = CHR ''-'' then map_option (\<lambda>n. - int n) (digits_only 10 t)
          else if c = CHR ''+'' then map_option int (digits_only 10 t)
          else if c = CHR ''0'' \<and> t \<noteq> [] \<and> hd t \<in> {CHR ''x'', CHR ''X''}
            then map_option int (digits_only 16 (tl t))
          else if c = CHR ''0'' \<and> t \<noteq> [] \<and> hd t \<in> {CHR ''o'', CHR ''O''}
            then map_option int (digits_only 8 (tl t))
          else if c = CHR ''0'' \<and> t \<noteq> [] \<and> hd t \<in> {CHR ''b'', CHR ''B''}
            then map_option int (digits_only 2 (tl t))
          else map_option int (digits_only 10 (c # t)))"

text \<open>
  \<open>parseInt(s, 16)\<close>: leading white space, a sign and a \<open>0x\<close> prefix are skipped and the longest
  run of digits is read; \<open>None\<close> is \<open>NaN\<close>.
\<close>

definition strip_0x :: "string \<Rightarrow> string" where
  "strip_0x s = (case s of a # b # t \<Rightarrow>
      if a = CHR ''0'' \<and> b \<in> {CHR ''x'', CHR ''X''} then t else s | _ \<Rightarrow> s)"

definition parse_int16 :: "string \<Rightarrow> int option" where
  "parse_int16 s =
     (let u = js_trim_start s;
          neg = (u \<noteq> [] \<and> hd u = CHR ''-'');
          v = (if u \<noteq> [] \<and> hd u \<in> {CHR ''-'', CHR ''+''} then tl u else u);
          ds = takeWhile (is_digit 16) (strip_0x v)
      in if ds = [] then None
         else Some (if neg then - int (digits_val 16 ds) else int (digits_val 16 ds)))"

text \<open>Storing the result of \<open>parseInt\<close> into a byte cell: \<open>NaN\<close> becomes 0.\<close>

definition store_u8 :: "int option \<Rightarrow> byte" where
  "store_u8 x = (case x of None \<Rightarrow> 0 | Some n \<Rightarrow> to_u8 n)"

lemma is_digit_code: "is_digit b c \<Longrightarrow> b \<le> 36 \<Longrightarrow>
    48 \<le> char_code c \<and> char_code c \<le> 57 \<or> 97 \<le> char_code c \<and> char_code c \<le> 122
    \<or> 65 \<le> char_code c \<and> char_code c \<le> 90"
  by (auto simp: is_digit_def digit_of_def Let_def split: if_splits)

lemma is_digit_not_space: "is_digit b c \<Longrightarrow> b \<le> 36 \<Longrightarrow> \<not> js_space c"
  by (drule (1) is_digit_code) (auto simp: js_space_def)

lemma js_trim_no_space:
  assumes "s = [] \<or> \<not> js_space (hd s) \<and> \<not> js_space (last s)"
  shows "js_trim s = s"
proof (cases "s = []")
  case True
  then show ?thesis by (simp add: js_trim_def js_trim_start_def)
next
  case False
  with assms have "js_trim_start s = s" by (cases s) (auto simp: js_trim_start_def)
  moreover have "dropWhile js_space (rev s) = rev s"
    using False assms by (cases s rule: rev_cases) auto
  ultimately show ?thesis by (simp add: js_trim_def)
qed

lemma js_trim_digits: "list_all (is_digit b) s \<Longrightarrow> b \<le> 36 \<Longrightarrow> js_trim s = s"
  using is_digit_not_space [of b "hd s"] is_digit_not_space [of b "last s"]
  by (intro js_trim_no_space) (auto simp: list_all_iff)

lemma is_digit_not_sign:
  assumes "is_digit b c" "b \<le> 36"
  shows "c \<noteq> CHR ''-''" "c \<noteq> CHR ''+''"
proof -
  have "char_code (CHR ''-'') = 45" "char_code (CHR ''+'') = 43" by code_simp+
  with is_digit_code [OF assms] show "c \<noteq> CHR ''-''" "c \<noteq> CHR ''+''" by auto
qed

lemma is_digit_10_not_prefix:
  assumes "is_digit 10 c"
  shows "c \<notin> {CHR ''x'', CHR ''X'', CHR ''o'', CHR ''O'', CHR ''b'', CHR ''B''}"
proof -
  have "\<not> is_digit 10 (CHR ''x'')" "\<not> is_digit 10 (CHR ''X'')" "\<not> is_digit 10 (CHR ''o'')"
    "\<not> is_digit 10 (CHR ''O'')" "\<not> is_digit 10 (CHR ''b'')" "\<not> is_digit 10 (CHR ''B'')"
    by code_simp+
  with assms show ?thesis by auto
qed

lemma parse_bigint_decimal:
  assumes "list_all (is_digit 10) s" "s \<noteq> []"
  shows "parse_bigint s = Some (int (digits_val 10 s))"
proof -
  obtain c t where s: "s = c # t" using assms(2) by (cases s) auto
  have c: "c \<noteq> CHR ''-''" "c \<noteq> CHR ''+''"
    using is_digit_not_sign [of 10 c] assms(1) s by auto
  have t: "t \<noteq> [] \<Longrightarrow> hd t \<notin> {CHR ''x'', CHR ''X'', CHR ''o'', CHR ''O'', CHR ''b'', CHR ''B''}"
    using is_digit_10_not_prefix [of "hd t"] assms(1) s by (cases t) auto
  have trim: "js_trim s = c # t" using js_trim_digits [OF assms(1)] s by simp
  have digs: "digits_only 10 (c # t) = Some (digits_val 10 s)"
    using assms s by (simp add: digits_only_def)
  show ?thesis
  proof (cases "t = []")
    case True
    then show ?thesis using c digs by (simp add: parse_bigint_def trim)
  next
    case False
    with t [OF False] c digs show ?thesis by (simp add: parse_bigint_def trim)
  qed
qed

lemma parse_bigint_nat_str [simp]: "parse_bigint (nat_str 10 n) = Some (int n)"
  by (simp add: parse_bigint_decimal nat_str_digits digits_val_nat_str)

lemma parse_bigint_int_str [simp]: "parse_bigint (int_str 10 n) = Some n"
proof (cases "n < 0")
  case True
  let ?s = "nat_str 10 (nat (- n))"
  have digs: "list_all (is_digit 10) ?s" by (simp add: nat_str_digits)
  have "\<not> js_space (CHR ''-'')" by code_simp
  moreover have "\<not> js_space (last ?s)"
    using digs is_digit_not_space [of 10 "last ?s"] by (simp add: list_all_iff)
  ultimately have "js_trim (CHR ''-'' # ?s) = CHR ''-'' # ?s"
    by (intro js_trim_no_space) simp
  with True digs show ?thesis
    by (simp add: int_str_def parse_bigint_def digits_only_def digits_val_nat_str)
next
  case False
  then show ?thesis by (simp add: int_str_def)
qed

lemma parse_bigint_hex:
  assumes "list_all (is_digit 16) h" "h \<noteq> []"
  shows "parse_bigint (CHR ''0'' # CHR ''x'' # h) = Some (int (digits_val 16 h))"
proof -
  have "\<not> js_space (CHR ''0'')" by code_simp
  moreover have "\<not> js_space (last h)"
    using assms is_digit_not_space [of 16 "last h"] by (simp add: list_all_iff)
  ultimately have "js_trim (CHR ''0'' # CHR ''x'' # h) = CHR ''0'' # CHR ''x'' # h"
    using assms(2) by (intro js_trim_no_space) simp
  with assms show ?thesis by (simp add: parse_bigint_def digits_only_def)
qed

text \<open>
  \<open>parse_int16\<close> on two hexadecimal digits, and the byte array it fills from a hexadecimal text of
  even length: the big-endian encoding of the number.
\<close>

lemma parse_int16_pair:
  assumes "is_digit 16 c" "is_digit 16 d"
  shows "parse_int16 [c, d] = Some (int (16 * digit_val c + digit_val d))"
proof -
  have sp: "\<not> js_space c" using assms is_digit_not_space by simp
  have sg: "c \<noteq> CHR ''-''" "c \<noteq> CHR ''+''" using is_digit_not_sign [OF assms(1)] by simp_all
  have "\<not> is_digit 16 (CHR ''x'')" "\<not> is_digit 16 (CHR ''X'')" by code_simp+
  then have "strip_0x [c, d] = [c, d]" using assms by (auto simp: strip_0x_def)
  with assms sp sg show ?thesis
    by (simp add: parse_int16_def js_trim_start_def Let_def digits_val_def)
qed

definition hex_to_bytes :: "nat \<Rightarrow> string \<Rightarrow> bytes" where
  "hex_to_bytes n h = map (\<lambda>i. store_u8 (parse_int16 (slice (2 * i) (2 * i + 2) h))) [0..<n]"

lemma length_hex_to_bytes [simp]: "length (hex_to_bytes n h) = n"
  by (simp add: hex_to_bytes_def)

lemma to_u8_nat [simp]: "to_u8 (int n) = word_of_nat n"
  by (simp add: to_u8_def)

lemma hex_to_bytes_hexpad: "hex_to_bytes n (hexpad (2 * n) x) = be_bytes n x"
proof (induction n arbitrary: x)
  case 0
  then show ?case by (simp add: hex_to_bytes_def)
next
  case (Suc n)
  let ?a = "digit_char (x div 16 mod 16)" and ?b = "digit_char (x mod 16)"
  have pad: "hexpad (2 * Suc n) x = hexpad (2 * n) (x div 256) @ [?a, ?b]"
    by (simp add: div_mult2_eq [symmetric])
  have val: "16 * (x div 16 mod 16) + x mod 16 = x mod 256"
    using mod_mult2_eq [of x 16 16] by simp
  have last: "store_u8 (parse_int16 [?a, ?b]) = word_of_nat x"
    by (simp add: parse_int16_pair is_digit_char store_u8_def val word_of_nat_unat_byte)
  have "hex_to_bytes (Suc n) (hexpad (2 * Suc n) x) = hex_to_bytes n (hexpad (2 * n) (x div 256))
      @ [store_u8 (parse_int16 [?a, ?b])]"
    unfolding pad by (auto simp: hex_to_bytes_def slice_append_left slice_append_right slice_def)
  also have "\<dots> = be_bytes (Suc n) x"
    by (simp add: Suc.IH last)
  finally show ?case .
qed

end
