(* ===== verification/Base64.thy ===== *)
theory Base64
  imports JsString
begin

text \<open>
  \<open>Buffer.from(s, "base64")\<close> and \<open>buffer.toString("base64")\<close> of Node, as the relayer, the SDK's
  notes and messages, and the attestor use them. The decoder is the lenient one of Node: it
  accepts both alphabets, skips characters outside them, stops at padding and ignores left-over
  bits; the encoder writes the standard alphabet with padding.
\<close>

definition b64_char :: "nat \<Rightarrow> char" where
  "b64_char i = char_of
     (if i < 26 then 65 + i else if i < 52 then 71 + i else if i < 62 then i - 4
      else if i = 62 then 43 else 47 :: nat)"

definition b64_val :: "char \<Rightarrow> nat option" where
  "b64_val c = (let n = char_code c in
     if 65 \<le> n \<and> n \<le> 90 then Some (n - 65)
     else if 97 \<le> n \<and> n \<le> 122 then Some (n - 71)
     else if 48 \<le> n \<and> n \<le> 57 then Some (n + 4)
     else if n = 43 \<or> n = 45 then Some 62
     else if n = 47 \<or> n = 95 then Some 63 else None)"

definition b64_sextets :: "string \<Rightarrow> nat list" where
  "b64_sextets s = List.map_filter b64_val (takeWhile (\<lambda>c. c \<noteq> CHR ''='') s)"

fun b64_groups :: "nat list \<Rightarrow> bytes" where
  "b64_groups (a # b # c # d # r) =
     word_of_nat (a * 4 + b div 16) # word_of_nat (b mod 16 * 16 + c div 4)
       # word_of_nat (c mod 4 * 64 + d) # b64_groups r"
| "b64_groups [a, b, c] = [word_of_nat (a * 4 + b div 16), word_of_nat (b mod 16 * 16 + c div 4)]"
| "b64_groups [a, b] = [word_of_nat (a * 4 + b div 16)]"
| "b64_groups _ = []"

definition b64_decode :: "string \<Rightarrow> bytes" where
  "b64_decode s = b64_groups (b64_sextets s)"

fun b64_split :: "bytes \<Rightarrow> nat list" where
  "b64_split (x # y # z # r) =
     unat x div 4 # (unat x mod 4 * 16 + unat y div 16) # (unat y mod 16 * 4 + unat z div 64)
       # unat z mod 64 # b64_split r"
| "b64_split [x, y] = [unat x div 4, unat x mod 4 * 16 + unat y div 16, unat y mod 16 * 4]"
| "b64_split [x] = [unat x div 4, unat x mod 4 * 16]"
| "b64_split [] = []"

definition b64_padding :: "nat \<Rightarrow> string" where
  "b64_padding n = (if n mod 3 = 1 then ''=='' else if n mod 3 = 2 then ''='' else [])"

definition b64_encode :: "bytes \<Rightarrow> string" where
  "b64_encode bs = map b64_char (b64_split bs) @ b64_padding (length bs)"

section \<open>Round trip\<close>

lemma b64_val_char: "i < 64 \<Longrightarrow> b64_val (b64_char i) = Some i"
  by (auto simp: b64_val_def b64_char_def Let_def char_code_char_of)

lemma b64_char_not_pad: "i < 64 \<Longrightarrow> b64_char i \<noteq> CHR ''=''"
  using b64_val_char [of i] by (auto simp: b64_val_def char_code_def)

lemma byte_parts:
  fixes x :: byte
  shows "unat x div 4 < 64" "unat x div 16 < 16" "unat x div 64 < 4"
  by (rule less_mult_imp_div_less, simp)+

lemma b64_split_small: "list_all (\<lambda>i. i < 64) (b64_split bs)"
proof (induction bs rule: b64_split.induct)
  case (1 x y z r)
  have "unat x mod 4 * 16 + unat y div 16 < 64" "unat y mod 16 * 4 + unat z div 64 < 64"
    using byte_parts [of y] byte_parts [of z] mod_less_divisor [of 4 "unat x"]
      mod_less_divisor [of 16 "unat y"] by linarith+
  with 1 byte_parts [of x] show ?case by simp
next
  case (2 x y)
  have "unat x mod 4 * 16 + unat y div 16 < 64" "unat y mod 16 * 4 < 64"
    using byte_parts [of y] mod_less_divisor [of 4 "unat x"] mod_less_divisor [of 16 "unat y"]
    by linarith+
  with byte_parts [of x] show ?case by simp
next
  case (3 x)
  have "unat x mod 4 * 16 < 64" using mod_less_divisor [of 4 "unat x"] by linarith
  with byte_parts [of x] show ?case by simp
qed simp

lemma join_first: "a div 4 * 4 + (a mod 4 * 16 + b) div 16 = a" if "b < 16" for a b :: nat
  using that by simp

lemma join_second: "(a mod 4 * 16 + b div 16) mod 16 * 16 + (b mod 16 * 4 + c) div 4 = b"
  if "b < 256" "c < 4" for a b c :: nat
proof -
  have "b div 16 < 16" using that(1) by auto
  then have "(a mod 4 * 16 + b div 16) mod 16 = b div 16" by simp
  moreover have "(b mod 16 * 4 + c) div 4 = b mod 16" using that(2) by simp
  ultimately show ?thesis by simp
qed

lemma join_third: "(b mod 16 * 4 + c div 64) mod 4 * 64 + c mod 64 = c" if "c < 256" for b c :: nat
proof -
  have "c div 64 < 4" using that by auto
  then have "(b mod 16 * 4 + c div 64) mod 4 = c div 64" by simp
  then show ?thesis by simp
qed

lemma b64_groups_split: "b64_groups (b64_split bs) = bs"
proof (induction bs rule: b64_split.induct)
  case (1 x y z r)
  have "unat x div 4 * 4 + (unat x mod 4 * 16 + unat y div 16) div 16 = unat x"
    by (rule join_first) (rule byte_parts)
  moreover have "(unat x mod 4 * 16 + unat y div 16) mod 16 * 16
      + (unat y mod 16 * 4 + unat z div 64) div 4 = unat y"
    by (rule join_second) (simp_all add: byte_parts)
  moreover have "(unat y mod 16 * 4 + unat z div 64) mod 4 * 64 + unat z mod 64 = unat z"
    by (rule join_third) simp
  ultimately show ?case using 1 by (simp only: b64_split.simps b64_groups.simps of_nat_unat ucast_id)
next
  case (2 x y)
  have "unat x div 4 * 4 + (unat x mod 4 * 16 + unat y div 16) div 16 = unat x"
    by (rule join_first) (rule byte_parts)
  moreover have "(unat x mod 4 * 16 + unat y div 16) mod 16 * 16 + (unat y mod 16 * 4) div 4 = unat y"
    using join_second [of "unat y" 0 "unat x"] by simp
  ultimately show ?case by (simp only: b64_split.simps b64_groups.simps of_nat_unat ucast_id)
next
  case (3 x)
  have "unat x div 4 * 4 + (unat x mod 4 * 16) div 16 = unat x"
    using join_first [of 0 "unat x"] by simp
  then show ?case by (simp only: b64_split.simps b64_groups.simps of_nat_unat ucast_id)
qed simp

lemma map_filter_b64: "list_all (\<lambda>i. i < 64) is \<Longrightarrow> List.map_filter b64_val (map b64_char is) = is"
  by (induction "is") (auto simp: map_filter_simps b64_val_char)

lemma b64_decode_encode: "b64_decode (b64_encode bs) = bs"
proof -
  have "takeWhile (\<lambda>c. c \<noteq> CHR ''='') (b64_encode bs) = map b64_char (b64_split bs)"
  proof -
    have "takeWhile (\<lambda>c. c \<noteq> CHR ''='') (map b64_char (b64_split bs) @ ys)
        = map b64_char (b64_split bs) @ takeWhile (\<lambda>c. c \<noteq> CHR ''='') ys" for ys
      using b64_split_small [of bs]
      by (intro takeWhile_append2) (auto simp: list_all_iff b64_char_not_pad)
    moreover have "takeWhile (\<lambda>c. c \<noteq> CHR ''='') (b64_padding n) = []" for n
      by (simp add: b64_padding_def)
    ultimately show ?thesis by (simp only: b64_encode_def append_Nil2)
  qed
  then show ?thesis
    by (simp add: b64_decode_def b64_sextets_def map_filter_b64 [OF b64_split_small] b64_groups_split)
qed

lemma b64_encode_inject: "b64_encode a = b64_encode b \<longleftrightarrow> a = b"
  by (metis b64_decode_encode)

lemma b64_encode_Nil_iff: "b64_encode bs = [] \<longleftrightarrow> bs = []"
  using b64_encode_inject [of bs "[]"] by (simp add: b64_encode_def b64_padding_def)

section \<open>Length\<close>

lemma length_b64_split: "length (b64_split bs) = (4 * length bs + 2) div 3"
  by (induction bs rule: b64_split.induct) auto

lemma length_b64_encode: "length (b64_encode bs) = 4 * ((length bs + 2) div 3)"
proof -
  define q r where qr: "q = length bs div 3" "r = length bs mod 3"
  then have n: "length bs = 3 * q + r" "r = 0 \<or> r = 1 \<or> r = 2" by auto
  have "length (b64_padding (3 * q + r)) = (if r = 0 then 0 else 3 - r)" using n(2) by (auto simp: b64_padding_def)
  moreover have "(4 * (3 * q + r) + 2) div 3 = 4 * q + (4 * r + 2) div 3" "(3 * q + r + 2) div 3 = q + (r + 2) div 3"
    by presburger+
  ultimately have "length (b64_encode bs) = 4 * q + (4 * r + 2) div 3 + (if r = 0 then 0 else 3 - r)"
    "4 * ((length bs + 2) div 3) = 4 * q + 4 * ((r + 2) div 3)"
    by (simp_all only: b64_encode_def length_b64_split n(1) length_append length_map distrib_left)
  then show ?thesis using n(2) by auto
qed

end
