(* ===== verification/MerkleSpec.thy ===== *)
theory MerkleSpec
  imports JsBase
begin

text \<open>
  The abstract Merkle tree every implementation in the repository is compared with: a complete
  binary tree of a fixed depth whose leaves are an ordered list padded with zeros. The hash of
  two children is a parameter \<open>H\<close> (Poseidon, third-party code). \<open>mnode\<close> is the root of a
  complete subtree, \<open>node_at xs i j\<close> the \<open>j\<close>-th node of level \<open>i\<close> (leaves are level 0), and
  \<open>level_of xs i\<close> the nodes of level \<open>i\<close> that have at least one leaf below them.
\<close>

section \<open>Nodes\<close>

fun zero_at :: "(int \<Rightarrow> int \<Rightarrow> int) \<Rightarrow> nat \<Rightarrow> int" where
  "zero_at H 0 = 0"
| "zero_at H (Suc d) = H (zero_at H d) (zero_at H d)"

fun mnode :: "(int \<Rightarrow> int \<Rightarrow> int) \<Rightarrow> nat \<Rightarrow> int list \<Rightarrow> int" where
  "mnode H 0 xs = (case xs of [] \<Rightarrow> 0 | x # _ \<Rightarrow> x)"
| "mnode H (Suc d) xs = H (mnode H d (take (2 ^ d) xs)) (mnode H d (drop (2 ^ d) xs))"

definition node_at :: "(int \<Rightarrow> int \<Rightarrow> int) \<Rightarrow> int list \<Rightarrow> nat \<Rightarrow> nat \<Rightarrow> int" where
  "node_at H xs i j = mnode H i (take (2 ^ i) (drop (j * 2 ^ i) xs))"

definition spec_root :: "(int \<Rightarrow> int \<Rightarrow> int) \<Rightarrow> nat \<Rightarrow> int list \<Rightarrow> int" where
  "spec_root H d xs = mnode H d xs"

lemma mnode_Nil [simp]: "mnode H d [] = zero_at H d"
  by (induction d) auto

lemma node_at_beyond [merkle_simps]: "length xs \<le> j * 2 ^ i \<Longrightarrow> node_at H xs i j = zero_at H i"
  by (simp add: node_at_def)

lemma node_at_Suc [merkle_simps]:
  "node_at H xs (Suc i) j = H (node_at H xs i (2 * j)) (node_at H xs i (2 * j + 1))"
proof -
  have *: "drop (2 ^ i) (drop (j * (2 * 2 ^ i)) xs) = drop ((2 * j + 1) * 2 ^ i) xs"
    by (simp add: algebra_simps)
  show ?thesis
    by (simp add: node_at_def drop_take * min_def algebra_simps flip: *)
qed

lemma mnode_take: "mnode H d (take (2 ^ d) xs) = node_at H xs d 0"
  by (simp add: node_at_def)

lemma node_at_leaf: "j < length xs \<Longrightarrow> node_at H xs 0 j = xs ! j"
  by (simp add: node_at_def hd_drop_conv_nth take_Suc split: list.split)

text \<open>A node whose leaves all lie in a prefix is unaffected by what is appended.\<close>

lemma node_at_append [merkle_simps]:
  assumes "(j + 1) * 2 ^ i \<le> length xs"
  shows "node_at H (xs @ ys) i j = node_at H xs i j"
proof -
  have "j * 2 ^ i \<le> length xs" "2 ^ i \<le> length xs - j * 2 ^ i"
    using assms by (auto simp: algebra_simps)
  then show ?thesis by (simp add: node_at_def)
qed

section \<open>Levels\<close>

definition cdiv :: "nat \<Rightarrow> nat \<Rightarrow> nat" where
  "cdiv n i = (n + 2 ^ i - 1) div 2 ^ i"

lemma cdiv_0 [simp]: "cdiv n 0 = n"
  by (simp add: cdiv_def)

lemma cdiv_Suc: "cdiv n (Suc i) = (cdiv n i + 1) div 2"
proof -
  let ?m = "2 ^ i :: nat"
  have m: "0 < ?m" by simp
  have "(n + ?m - 1) div ?m + 1 = (n + ?m - 1 + ?m) div ?m"
    by (rule div_add_self2 [symmetric]) simp
  also have "n + ?m - 1 + ?m = n + 2 * ?m - 1" using m by linarith
  finally show ?thesis
    by (simp add: cdiv_def div_mult2_eq [symmetric] mult.commute)
qed

lemma less_cdiv_iff: "j < cdiv n i \<longleftrightarrow> j * 2 ^ i < n"
proof -
  let ?m = "2 ^ i :: nat"
  have m: "0 < ?m" by simp
  have "j < (n + ?m - 1) div ?m \<longleftrightarrow> (j + 1) * ?m \<le> n + ?m - 1"
    using less_eq_div_iff_mult_less_eq [OF m, of "j + 1" "n + ?m - 1"] by (simp add: Suc_le_eq)
  also have "(j + 1) * ?m = j * ?m + ?m" by simp
  also have "j * ?m + ?m \<le> n + ?m - 1 \<longleftrightarrow> j * ?m < n"
    using m by (intro iffI) linarith+
  finally show ?thesis by (simp add: cdiv_def)
qed

definition level_of :: "(int \<Rightarrow> int \<Rightarrow> int) \<Rightarrow> int list \<Rightarrow> nat \<Rightarrow> int list" where
  "level_of H xs i = map (node_at H xs i) [0..<cdiv (length xs) i]"

lemma length_level_of [simp]: "length (level_of H xs i) = cdiv (length xs) i"
  by (simp add: level_of_def)

lemma level_of_0 [simp]: "level_of H xs 0 = xs"
  by (rule nth_equalityI) (auto simp: level_of_def node_at_leaf)

lemma level_of_nth: "j < cdiv (length xs) i \<Longrightarrow> level_of H xs i ! j = node_at H xs i j"
  by (simp add: level_of_def)

lemma level_or_zero [merkle_simps]:
  "(if j < length (level_of H xs i) then level_of H xs i ! j else zero_at H i) = node_at H xs i j"
  by (auto simp: level_of_nth less_cdiv_iff not_less node_at_beyond)

section \<open>Authentication paths\<close>

definition sib :: "nat \<Rightarrow> nat" where
  "sib i = (if even i then Suc i else i - 1)"

text \<open>
  The path of leaf \<open>i\<close> from level \<open>d\<close> up, \<open>k\<close> levels: the sibling at each level and the side
  on which the path's own node lies (1 is right).
\<close>

definition path_els :: "(int \<Rightarrow> int \<Rightarrow> int) \<Rightarrow> int list \<Rightarrow> nat \<Rightarrow> nat \<Rightarrow> nat \<Rightarrow> int list" where
  "path_els H xs d k i = map (\<lambda>t. node_at H xs (d + t) (sib (i div 2 ^ t))) [0..<k]"

definition path_idxs :: "nat \<Rightarrow> nat \<Rightarrow> int list" where
  "path_idxs k i = map (\<lambda>t. int (i div 2 ^ t mod 2)) [0..<k]"

lemma path_els_Suc:
  "path_els H xs d (Suc k) i = node_at H xs d (sib i) # path_els H xs (Suc d) k (i div 2)"
  by (simp add: path_els_def upt_rec [of 0 "Suc k"] map_Suc_upt [symmetric] div_mult2_eq o_def
      del: upt_Suc)

lemma path_idxs_Suc: "path_idxs (Suc k) i = int (i mod 2) # path_idxs k (i div 2)"
  by (simp add: path_idxs_def upt_rec [of 0 "Suc k"] map_Suc_upt [symmetric] div_mult2_eq o_def
      del: upt_Suc)

lemma path_els_0 [simp]: "path_els H xs d 0 i = []"
  by (simp add: path_els_def)

lemma path_idxs_0 [simp]: "path_idxs 0 i = []"
  by (simp add: path_idxs_def)

lemma length_path [simp]: "length (path_els H xs d k i) = k" "length (path_idxs k i) = k"
  by (simp_all add: path_els_def path_idxs_def)

text \<open>
  Folding a path from a node: \<open>s = 0\<close> puts the running hash on the left. This is the function
  the circuit computes for a boolean selector.
\<close>

fun fold_path :: "(int \<Rightarrow> int \<Rightarrow> int) \<Rightarrow> int \<Rightarrow> int list \<Rightarrow> int list \<Rightarrow> int" where
  "fold_path H cur (e # es) (s # ss) =
     fold_path H (if s = 0 then H cur e else H e cur) es ss"
| "fold_path H cur _ _ = cur"

lemma node_at_parent:
  "node_at H xs (Suc d) (i div 2) =
     (if even i then H (node_at H xs d i) (node_at H xs d (sib i))
      else H (node_at H xs d (sib i)) (node_at H xs d i))"
  by (auto simp: node_at_Suc sib_def elim!: evenE oddE)

lemma fold_path_correct:
  "fold_path H (node_at H xs d i) (path_els H xs d k i) (path_idxs k i)
     = node_at H xs (d + k) (i div 2 ^ k)"
proof (induction k arbitrary: d i)
  case 0
  then show ?case by simp
next
  case (Suc k)
  have "(if int (i mod 2) = 0 then H (node_at H xs d i) (node_at H xs d (sib i))
         else H (node_at H xs d (sib i)) (node_at H xs d i)) = node_at H xs (Suc d) (i div 2)"
    by (auto simp: node_at_parent even_iff_mod_2_eq_zero)
  then show ?case
    using Suc.IH [of "Suc d" "i div 2"]
    by (simp add: path_els_Suc path_idxs_Suc div_mult2_eq)
qed

text \<open>
  Soundness of a folded path, without any assumption on \<open>H\<close>: from two openings of the same
  root along the same sides with different leaves, \<open>fork_point\<close> computes the two pairs at which
  the runs merge, an explicit collision of \<open>H\<close>.
\<close>

fun fork_point :: "(int \<Rightarrow> int \<Rightarrow> int) \<Rightarrow> int \<Rightarrow> int list \<Rightarrow> int \<Rightarrow> int list \<Rightarrow> int list
    \<Rightarrow> ((int \<times> int) \<times> (int \<times> int)) option" where
  "fork_point H x (e # es) y (f # fs) (s # ss) =
     (let p = (if s = 0 then (x, e) else (e, x)); q = (if s = 0 then (y, f) else (f, y));
          hp = H (fst p) (snd p); hq = H (fst q) (snd q)
      in if hp = hq then Some (p, q) else fork_point H hp es hq fs ss)"
| "fork_point H x _ y _ _ = None"

lemma fork_point_collision:
  assumes "fold_path H x es ss = fold_path H y fs ss" "x \<noteq> y"
    and "length es = length ss" "length fs = length ss"
  shows "\<exists>p q. fork_point H x es y fs ss = Some (p, q) \<and> p \<noteq> q \<and> H (fst p) (snd p) = H (fst q) (snd q)"
  using assms
proof (induction ss arbitrary: x y es fs)
  case Nil
  then show ?case by simp
next
  case (Cons s ss)
  from Cons.prems(3,4) obtain e es' f fs' where e: "es = e # es'" "fs = f # fs'"
    by (metis length_Suc_conv)
  let ?x = "if s = 0 then H x e else H e x" and ?y = "if s = 0 then H y f else H f y"
  show ?case
  proof (cases "?x = ?y")
    case True
    with Cons.prems(2) e show ?thesis by (auto simp: Let_def)
  next
    case False
    then show ?thesis
      using Cons.IH [of ?x es' ?y fs'] Cons.prems e by (auto simp: Let_def split: if_splits)
  qed
qed

end
