(* ===== verification/Accumulator.thy ===== *)
theory Accumulator
  imports Prelude
begin

text \<open>
  The contract shared by every append-only commitment tree of the repository: an operation that
  appends a leaf and yields the new root, and a relation between the state and the list of leaves
  appended so far. The client lemma, proved once from the laws, gives the whole sequence of roots
  a run of appends produces; two providers with the same root specification therefore publish the
  same roots.
\<close>

fun feed :: "('l \<Rightarrow> 's \<Rightarrow> 'e + 'r \<times> 's) \<Rightarrow> 'l list \<Rightarrow> 's \<Rightarrow> 'e + 'r list \<times> 's" where
  "feed add [] s = Inr ([], s)"
| "feed add (x # xs) s =
     bindE (add x s) (\<lambda>(r, s'). bindE (feed add xs s') (\<lambda>(rs, s''). Inr (r # rs, s'')))"

locale accumulator =
  fixes add :: "'l \<Rightarrow> 's \<Rightarrow> 'e + 'r \<times> 's"
    and rel :: "'l list \<Rightarrow> 's \<Rightarrow> bool"
    and ok :: "'l \<Rightarrow> bool"
    and cap :: nat
    and spec :: "'l list \<Rightarrow> 'r"
  assumes add_ok: "rel xs s \<Longrightarrow> ok x \<Longrightarrow> length xs < cap \<Longrightarrow>
      \<exists>s'. add x s = Inr (spec (xs @ [x]), s') \<and> rel (xs @ [x]) s'"
begin

definition root_trace :: "'l list \<Rightarrow> 'l list \<Rightarrow> 'r list" where
  "root_trace xs ys = map (\<lambda>k. spec (xs @ take (Suc k) ys)) [0..<length ys]"

lemma root_trace_Cons:
  "root_trace xs (y # ys) = spec (xs @ [y]) # root_trace (xs @ [y]) ys"
  by (simp add: root_trace_def upt_rec [of 0 "Suc (length ys)"] map_Suc_upt [symmetric] o_def
      del: upt_Suc)

lemma feed_ok:
  assumes "rel xs s" "list_all ok ys" "length xs + length ys \<le> cap"
  shows "\<exists>s'. feed add ys s = Inr (root_trace xs ys, s') \<and> rel (xs @ ys) s'"
  using assms
proof (induction ys arbitrary: xs s)
  case Nil
  then show ?case by (simp add: root_trace_def)
next
  case (Cons y ys)
  from Cons.prems have y: "ok y" "length xs < cap" by simp_all
  obtain s1 where s1: "add y s = Inr (spec (xs @ [y]), s1)" "rel (xs @ [y]) s1"
    using add_ok [OF Cons.prems(1) y] by blast
  obtain s2 where "feed add ys s1 = Inr (root_trace (xs @ [y]) ys, s2)" "rel ((xs @ [y]) @ ys) s2"
    using Cons.IH [OF s1(2)] Cons.prems by auto
  with s1 show ?case by (auto simp: root_trace_Cons)
qed

end

text \<open>A bounded accumulator rejects the leaf after the last one and keeps no partial effect.\<close>

locale bounded_accumulator = accumulator +
  fixes full :: 'e
  assumes add_full: "rel xs s \<Longrightarrow> length xs = cap \<Longrightarrow> add x s = Inl full"
begin

lemma feed_overflow:
  assumes "rel [] s" "list_all ok ys" "length ys = cap"
  shows "feed add (ys @ [y]) s = Inl full"
proof -
  have app: "feed add (us @ vs) s0 = bindE (feed add us s0) (\<lambda>(rs, s1).
      bindE (feed add vs s1) (\<lambda>(rs', s2). Inr (rs @ rs', s2)))" for us vs s0
    by (induction us arbitrary: s0) (auto simp: bindE_def split: sum.splits)
  obtain s' where s': "feed add ys s = Inr (root_trace [] ys, s')" "rel ys s'"
    using feed_ok [OF assms(1,2)] assms(3) by auto
  have "add y s' = Inl full" by (rule add_full [OF s'(2) assms(3)])
  with s'(1) show ?thesis by (simp add: app)
qed

end

end
