(* ===== verification/SdkMerkle.thy ===== *)
theory SdkMerkle
  imports MerkleSpec Accumulator
begin

text \<open>
  \<open>qietr-sdk/src/merkle.ts\<close> and the tree half of \<open>qietr-indexer/api/src/poseidon-tree.ts\<close>.
  Both rebuild the tree level by level from the flat list of leaves. \<open>H l r\<close> stands for
  \<open>F.toObject(poseidon([l, r]))\<close>. The lemmas show that the rebuilt root and inclusion proof are
  those of the abstract tree of \<open>MerkleSpec\<close>.
\<close>

section \<open>PoseidonMerkleTree\<close>

record poseidon_merkle_tree =
  mt_depth :: nat
  mt_zeros :: "int list"
  mt_leaves :: "int list"

record merkle_inclusion_proof =
  ip_root :: int
  ip_elements :: "int list"
  ip_indices :: "int list"

datatype merkle_error = LeafIndexOutOfRange int

text \<open>The constructor's loop: \<open>zeros[i + 1]\<close> is the hash of \<open>zeros[i]\<close> with itself.\<close>

fun zero_loop :: "(int \<Rightarrow> int \<Rightarrow> int) \<Rightarrow> nat \<Rightarrow> int list" where
  "zero_loop H 0 = [0]"
| "zero_loop H (Suc i) = (let zs = zero_loop H i in zs @ [H (zs ! i) (zs ! i)])"

definition merkle_new :: "(int \<Rightarrow> int \<Rightarrow> int) \<Rightarrow> nat \<Rightarrow> poseidon_merkle_tree" where
  "merkle_new H depth = \<lparr>mt_depth = depth, mt_zeros = zero_loop H depth, mt_leaves = []\<rparr>"

definition merkle_insert :: "int \<Rightarrow> poseidon_merkle_tree \<Rightarrow> nat \<times> poseidon_merkle_tree" where
  "merkle_insert leaf t =
     (let ls = mt_leaves t @ [leaf] in (length ls, t\<lparr>mt_leaves := ls\<rparr>))"

text \<open>The inner loop of \<open>_walk\<close>: hash the current level pairwise, padding an odd end.\<close>

definition next_level :: "(int \<Rightarrow> int \<Rightarrow> int) \<Rightarrow> int \<Rightarrow> int list \<Rightarrow> int list" where
  "next_level H zero_d level =
     map (\<lambda>i. H (level ! (2 * i))
                (if 2 * i + 1 < length level then level ! (2 * i + 1) else zero_d))
         [0..<(length level + 1) div 2]"

text \<open>
  The path step of one level: side of the node, its sibling (or the zero of the level), and the
  parent's index.
\<close>

definition path_step :: "int \<Rightarrow> int list \<Rightarrow> int \<Rightarrow> int \<times> int \<times> int" where
  "path_step zero_d level idx =
     (let sib_idx = js_xor idx 1
      in (js_and idx 1,
          if sib_idx < int (length level) then level ! nat sib_idx else zero_d,
          js_shr idx 1))"

text \<open>The outer loop of \<open>_walk\<close>, from level \<open>d\<close>, \<open>k\<close> levels to go.\<close>

fun walk_loop :: "(int \<Rightarrow> int \<Rightarrow> int) \<Rightarrow> int list \<Rightarrow> nat \<Rightarrow> nat \<Rightarrow> int list \<Rightarrow> int \<Rightarrow> int list \<Rightarrow> int list
    \<Rightarrow> int list \<times> int list \<times> int list" where
  "walk_loop H zs 0 d level idx els idxs = (level, els, idxs)"
| "walk_loop H zs (Suc k) d level idx els idxs =
     (if idx \<ge> 0
      then (case path_step (zs ! d) level idx of (is_right, sibling, parent) \<Rightarrow>
              walk_loop H zs k (Suc d) (next_level H (zs ! d) level) parent
                        (els @ [sibling]) (idxs @ [is_right]))
      else walk_loop H zs k (Suc d) (next_level H (zs ! d) level) idx els idxs)"

datatype walk_result = WalkRoot int | WalkProof merkle_inclusion_proof

definition merkle_walk :: "(int \<Rightarrow> int \<Rightarrow> int) \<Rightarrow> poseidon_merkle_tree \<Rightarrow> int \<Rightarrow> walk_result" where
  "merkle_walk H t query_index =
     (case walk_loop H (mt_zeros t) (mt_depth t) 0 (mt_leaves t) query_index [] [] of
        (level, els, idxs) \<Rightarrow>
          let root = (if level = [] then mt_zeros t ! mt_depth t else level ! 0)
          in if query_index < 0 then WalkRoot root
             else WalkProof \<lparr>ip_root = root, ip_elements = els, ip_indices = idxs\<rparr>)"

definition merkle_root :: "(int \<Rightarrow> int \<Rightarrow> int) \<Rightarrow> poseidon_merkle_tree \<Rightarrow> int" where
  "merkle_root H t = (case merkle_walk H t (-1) of WalkRoot r \<Rightarrow> r | WalkProof p \<Rightarrow> ip_root p)"

definition merkle_proof ::
    "(int \<Rightarrow> int \<Rightarrow> int) \<Rightarrow> poseidon_merkle_tree \<Rightarrow> int \<Rightarrow> merkle_error + merkle_inclusion_proof" where
  "merkle_proof H t index =
     (if index < 0 \<or> index \<ge> int (length (mt_leaves t)) then Inl (LeafIndexOutOfRange index)
      else case merkle_walk H t index of
             WalkProof p \<Rightarrow> Inr p
           | WalkRoot r \<Rightarrow> Inr \<lparr>ip_root = r, ip_elements = [], ip_indices = []\<rparr>)"

section \<open>buildInclusionPath of the indexer API\<close>

definition api_depth :: nat where
  "api_depth = 20"

definition zero_hashes :: "(int \<Rightarrow> int \<Rightarrow> int) \<Rightarrow> int list" where
  "zero_hashes H = zero_loop H api_depth"

fun inclusion_loop :: "(int \<Rightarrow> int \<Rightarrow> int) \<Rightarrow> int list \<Rightarrow> nat \<Rightarrow> nat \<Rightarrow> int list \<Rightarrow> int \<Rightarrow> int list \<Rightarrow> int list
    \<Rightarrow> int list \<times> int list \<times> int list" where
  "inclusion_loop H zs 0 d level idx els idxs = (level, els, idxs)"
| "inclusion_loop H zs (Suc k) d level idx els idxs =
     (case path_step (zs ! d) level idx of (is_right, sibling, parent) \<Rightarrow>
        inclusion_loop H zs k (Suc d) (next_level H (zs ! d) level) parent
                       (els @ [sibling]) (idxs @ [is_right]))"

definition build_inclusion_path ::
    "(int \<Rightarrow> int \<Rightarrow> int) \<Rightarrow> int list \<Rightarrow> int \<Rightarrow> merkle_error + merkle_inclusion_proof" where
  "build_inclusion_path H leaves query_index =
     (if query_index < 0 \<or> query_index \<ge> int (length leaves)
      then Inl (LeafIndexOutOfRange query_index)
      else case inclusion_loop H (zero_hashes H) api_depth 0 leaves query_index [] [] of
             (level, els, idxs) \<Rightarrow>
               Inr \<lparr>ip_root = (if level = [] then zero_hashes H ! api_depth else level ! 0),
                    ip_elements = els, ip_indices = idxs\<rparr>)"

section \<open>The loops compute the levels of the abstract tree\<close>

lemma length_zero_loop [simp]: "length (zero_loop H n) = Suc n"
  by (induction n) (auto simp: Let_def)

lemma zero_loop_nth [merkle_simps]: "i \<le> n \<Longrightarrow> zero_loop H n ! i = zero_at H i"
proof (induction n arbitrary: i)
  case 0
  then show ?case by simp
next
  case (Suc n)
  show ?case
  proof (cases "i \<le> n")
    case True
    with Suc show ?thesis by (simp add: Let_def nth_append)
  next
    case False
    with Suc.prems have "i = Suc n" by simp
    with Suc.IH [of n] show ?thesis by (simp add: Let_def nth_append)
  qed
qed

lemma next_level_level_of: "next_level H (zero_at H i) (level_of H xs i) = level_of H xs (Suc i)"
proof (rule nth_equalityI)
  show "length (next_level H (zero_at H i) (level_of H xs i)) = length (level_of H xs (Suc i))"
    by (simp add: next_level_def cdiv_Suc)
next
  fix j assume "j < length (next_level H (zero_at H i) (level_of H xs i))"
  then have j: "j < (cdiv (length xs) i + 1) div 2" by (simp add: next_level_def)
  then have left: "2 * j < cdiv (length xs) i" by simp
  have "next_level H (zero_at H i) (level_of H xs i) ! j =
      H (node_at H xs i (2 * j)) (node_at H xs i (2 * j + 1))"
    using j left level_or_zero [of "2 * j + 1" H xs i]
    by (simp add: next_level_def level_of_nth split: if_splits)
  with j show "next_level H (zero_at H i) (level_of H xs i) ! j = level_of H xs (Suc i) ! j"
    by (simp add: level_of_nth cdiv_Suc node_at_Suc)
qed

lemma path_step_level_of:
  assumes "i < 2 ^ 31"
  shows "path_step (zero_at H d) (level_of H xs d) (int i)
           = (int (i mod 2), node_at H xs d (sib i), int (i div 2))"
proof -
  have xor: "js_xor (int i) 1 = int (sib i)" using js_index_ops(2) [OF assms] by (simp add: sib_def)
  show ?thesis
    using level_or_zero [of "sib i" H xs d]
    by (simp add: path_step_def Let_def js_index_ops(1,3) [OF assms] xor split: if_splits)
qed

lemma inclusion_loop_levels:
  assumes "\<And>j. j < d + k \<Longrightarrow> zs ! j = zero_at H j" and "i < 2 ^ 31"
  shows "inclusion_loop H zs k d (level_of H xs d) (int i) els idxs
           = (level_of H xs (d + k), els @ path_els H xs d k i, idxs @ path_idxs k i)"
  using assms
proof (induction k arbitrary: d i els idxs)
  case 0
  then show ?case by simp
next
  case (Suc k)
  have zd: "zs ! d = zero_at H d" using Suc.prems(1) by simp
  have "i div 2 < 2 ^ 31" using Suc.prems(2) by simp
  with Suc.prems(1) show ?case
    by (simp add: zd path_step_level_of [OF Suc.prems(2)] next_level_level_of Suc.IH
        path_els_Suc path_idxs_Suc)
qed

lemma walk_loop_query:
  "0 \<le> idx \<Longrightarrow> idx < 2 ^ 31 \<Longrightarrow>
     walk_loop H zs k d level idx els idxs = inclusion_loop H zs k d level idx els idxs"
proof (induction k arbitrary: d level idx els idxs)
  case 0
  then show ?case by simp
next
  case (Suc k)
  obtain i where idx: "idx = int i" using Suc.prems(1) by (rule nonneg_int_cases)
  with Suc.prems(2) have i: "i < 2 ^ 31" by simp
  have "0 \<le> js_shr idx 1" "js_shr idx 1 < 2 ^ 31"
    using js_index_ops(3) [OF i] i by (simp_all add: idx)
  with Suc show ?case by (simp add: path_step_def Let_def)
qed

lemma walk_loop_root:
  assumes "\<And>j. j < d + k \<Longrightarrow> zs ! j = zero_at H j" and "idx < 0"
  shows "walk_loop H zs k d (level_of H xs d) idx els idxs = (level_of H xs (d + k), els, idxs)"
  using assms
proof (induction k arbitrary: d)
  case 0
  then show ?case by simp
next
  case (Suc k)
  have zd: "zs ! d = zero_at H d" using Suc.prems(1) by simp
  have "walk_loop H zs k (Suc d) (level_of H xs (Suc d)) idx els idxs
          = (level_of H xs (Suc d + k), els, idxs)"
    using Suc.prems by (intro Suc.IH) simp_all
  with Suc.prems(2) show ?case by (simp add: zd next_level_level_of)
qed

lemma top_level:
  "(if level_of H xs d = [] then zero_at H d else level_of H xs d ! 0) = node_at H xs d 0"
proof (cases "xs = []")
  case True
  then show ?thesis by (simp add: level_of_def cdiv_def node_at_beyond)
next
  case False
  then have pos: "0 < cdiv (length xs) d" by (simp add: less_cdiv_iff)
  then have "level_of H xs d \<noteq> []" by (metis length_level_of length_0_conv less_irrefl)
  with pos show ?thesis by (simp add: level_of_nth)
qed

section \<open>Functional correctness\<close>

definition merkle_wf :: "(int \<Rightarrow> int \<Rightarrow> int) \<Rightarrow> poseidon_merkle_tree \<Rightarrow> bool" where
  "merkle_wf H t \<longleftrightarrow> mt_zeros t = zero_loop H (mt_depth t)"

lemma merkle_new_wf [simp]: "merkle_wf H (merkle_new H depth)"
  by (simp add: merkle_wf_def merkle_new_def)

lemma merkle_insert_wf [simp]: "merkle_wf H t \<Longrightarrow> merkle_wf H (snd (merkle_insert leaf t))"
  by (simp add: merkle_wf_def merkle_insert_def Let_def)

lemma merkle_insert_leaves [simp]: "mt_leaves (snd (merkle_insert leaf t)) = mt_leaves t @ [leaf]"
  by (simp add: merkle_insert_def Let_def)

lemma merkle_insert_depth [simp]: "mt_depth (snd (merkle_insert leaf t)) = mt_depth t"
  by (simp add: merkle_insert_def Let_def)

lemma merkle_root_node: "merkle_wf H t \<Longrightarrow> merkle_root H t = node_at H (mt_leaves t) (mt_depth t) 0"
  using walk_loop_root [of 0 "mt_depth t" "mt_zeros t" H "-1" "mt_leaves t" "[]" "[]"]
    top_level [of H "mt_leaves t" "mt_depth t"]
  by (simp add: merkle_root_def merkle_walk_def merkle_wf_def zero_loop_nth Let_def
      split: if_splits)

lemma merkle_proof_inr:
  assumes wf: "merkle_wf H t" and i: "i < length (mt_leaves t)" "length (mt_leaves t) \<le> 2 ^ 31"
  shows "merkle_proof H t (int i) =
     Inr \<lparr>ip_root = merkle_root H t, ip_elements = path_els H (mt_leaves t) 0 (mt_depth t) i,
          ip_indices = path_idxs (mt_depth t) i\<rparr>"
proof -
  have i31: "i < 2 ^ 31" "int i < 2 ^ 31" using i by auto
  show ?thesis
    using walk_loop_query [of "int i" H "mt_zeros t" "mt_depth t" 0 "mt_leaves t" "[]" "[]"] i31
      inclusion_loop_levels [of 0 "mt_depth t" "mt_zeros t" H i "mt_leaves t" "[]" "[]"]
      top_level [of H "mt_leaves t" "mt_depth t"] wf i(1)
    by (simp add: merkle_proof_def merkle_walk_def merkle_root_node merkle_wf_def zero_loop_nth
        Let_def split: if_splits)
qed

lemma build_inclusion_path_inr:
  assumes i: "i < length leaves" "length leaves \<le> 2 ^ 31"
  shows "build_inclusion_path H leaves (int i) =
     Inr \<lparr>ip_root = node_at H leaves api_depth 0, ip_elements = path_els H leaves 0 api_depth i,
          ip_indices = path_idxs api_depth i\<rparr>"
proof -
  have i31: "i < 2 ^ 31" using i by simp
  show ?thesis
    using inclusion_loop_levels [of 0 api_depth "zero_hashes H" H i leaves "[]" "[]"] i31
      top_level [of H leaves api_depth] i(1)
    by (simp add: build_inclusion_path_def zero_hashes_def zero_loop_nth split: if_splits)
qed

section \<open>The SDK tree is an accumulator\<close>

text \<open>
  Appending and reading the root, as the SDK and the poller's clients do. The tree has no
  capacity check of its own; the contract is stated up to its number of leaf slots.
\<close>

definition sdk_append ::
    "(int \<Rightarrow> int \<Rightarrow> int) \<Rightarrow> int \<Rightarrow> poseidon_merkle_tree \<Rightarrow> merkle_error + int \<times> poseidon_merkle_tree" where
  "sdk_append H leaf t = (let t' = snd (merkle_insert leaf t) in Inr (merkle_root H t', t'))"

definition sdk_rel :: "(int \<Rightarrow> int \<Rightarrow> int) \<Rightarrow> nat \<Rightarrow> int list \<Rightarrow> poseidon_merkle_tree \<Rightarrow> bool" where
  "sdk_rel H d xs t \<longleftrightarrow> merkle_wf H t \<and> mt_depth t = d \<and> mt_leaves t = xs"

lemma node_at_root: "length xs \<le> 2 ^ d \<Longrightarrow> node_at H xs d 0 = spec_root H d xs"
  by (simp add: node_at_def spec_root_def)

interpretation sdk_acc: accumulator "sdk_append H" "sdk_rel H d" "\<lambda>_. True" "2 ^ d" "spec_root H d"
  for H :: "int \<Rightarrow> int \<Rightarrow> int" and d :: nat
proof unfold_locales
  fix xs and s :: poseidon_merkle_tree and x :: int
  assume r: "sdk_rel H d xs s" and l: "length xs < 2 ^ d"
  have "merkle_root H (snd (merkle_insert x s)) = spec_root H d (xs @ [x])"
    using r l by (simp add: merkle_root_node sdk_rel_def node_at_root)
  then show "\<exists>s'. sdk_append H x s = Inr (spec_root H d (xs @ [x]), s') \<and> sdk_rel H d (xs @ [x]) s'"
    using r by (auto simp: sdk_append_def Let_def sdk_rel_def)
qed

lemma sdk_rel_new: "sdk_rel H d [] (merkle_new H d)"
  by (simp add: sdk_rel_def) (simp add: merkle_new_def)

section \<open>Properties\<close>

lemma sdk_proof_folds:
  assumes "merkle_wf H t" "i < length (mt_leaves t)" "length (mt_leaves t) \<le> 2 ^ mt_depth t"
  shows "fold_path H (mt_leaves t ! i) (path_els H (mt_leaves t) 0 (mt_depth t) i)
           (path_idxs (mt_depth t) i) = merkle_root H t"
proof -
  have "i div 2 ^ mt_depth t = 0" using assms(2,3) by simp
  then show ?thesis
    using fold_path_correct [of H "mt_leaves t" 0 i "mt_depth t"] assms
    by (simp add: merkle_root_node node_at_leaf)
qed

text \<open>
  C18. For every tree the SDK builds and every leaf in it, \<open>proof\<close> succeeds, has one element and
  one side bit per level, carries the tree's root, and folding it from the leaf in the way the
  circuit does reaches exactly the root that \<open>root\<close> returns, whatever the hash.
\<close>

theorem sdk_proof_verifies:
  assumes "merkle_wf H t" "i < length (mt_leaves t)" "length (mt_leaves t) \<le> 2 ^ mt_depth t"
    and "mt_depth t \<le> 31"
  shows "\<exists>p. merkle_proof H t (int i) = Inr p \<and> ip_root p = merkle_root H t
     \<and> length (ip_elements p) = mt_depth t \<and> length (ip_indices p) = mt_depth t
     \<and> set (ip_indices p) \<subseteq> {0, 1}
     \<and> fold_path H (mt_leaves t ! i) (ip_elements p) (ip_indices p) = merkle_root H t"
proof -
  have "(2::nat) ^ mt_depth t \<le> 2 ^ 31" using assms(4) by (intro power_increasing) simp_all
  then have "length (mt_leaves t) \<le> 2 ^ 31" using assms(3) by (rule order_trans [rotated])
  then show ?thesis
    using merkle_proof_inr [OF assms(1,2)] sdk_proof_folds [OF assms(1-3)]
    by (auto simp: path_idxs_def)
qed

theorem sdk_proof_verifies_witness:
  "\<exists>p. merkle_proof (\<lambda>l r. 3 * l + r) (snd (merkle_insert 7 (merkle_new (\<lambda>l r. 3 * l + r) 2))) (int 0) = Inr p
     \<and> fold_path (\<lambda>l r. 3 * l + r) 7 (ip_elements p) (ip_indices p)
        = merkle_root (\<lambda>l r. 3 * l + r) (snd (merkle_insert 7 (merkle_new (\<lambda>l r. 3 * l + r) 2)))"
  using sdk_proof_verifies [of "\<lambda>l r. 3 * l + r"
      "snd (merkle_insert 7 (merkle_new (\<lambda>l r. 3 * l + r) 2))" 0]
  by (auto simp: merkle_insert_def merkle_new_def merkle_wf_def Let_def)

text \<open>
  The path the indexer's API serves for a leaf is, field by field, the inclusion proof the
  SDK's depth-20 tree of the same leaves produces; out of range both throw the same error.
\<close>

theorem api_path_is_sdk_proof:
  assumes "merkle_wf H t" "mt_depth t = 20" "length (mt_leaves t) \<le> 2 ^ 20"
  shows "build_inclusion_path H (mt_leaves t) q = merkle_proof H t q"
proof (cases "q < 0 \<or> q \<ge> int (length (mt_leaves t))")
  case True
  then show ?thesis by (simp add: build_inclusion_path_def merkle_proof_def)
next
  case False
  then obtain i where q: "q = int i" "i < length (mt_leaves t)"
    by (metis int_nat_eq linorder_not_le nat_less_iff not_less)
  have "length (mt_leaves t) \<le> 2 ^ 31" using assms(3) by simp
  then show ?thesis
    using build_inclusion_path_inr [OF q(2)] merkle_proof_inr [OF assms(1) q(2)] assms(2)
    by (simp add: q(1) api_depth_def merkle_root_node [OF assms(1)])
qed

theorem api_path_is_sdk_proof_witness:
  "build_inclusion_path (+) [5] 0 = merkle_proof (+) (snd (merkle_insert 5 (merkle_new (+) 20))) 0"
  using api_path_is_sdk_proof [of "(+)" "snd (merkle_insert 5 (merkle_new (+) 20))" 0]
  by (simp add: merkle_insert_def merkle_new_def merkle_wf_def Let_def del: zero_loop.simps)

text \<open>
  C19. An inclusion proof binds the leaf: if a path with the side bits of leaf \<open>i\<close> folds from some
  value \<open>x\<close> to the root of the SDK's tree, then \<open>x\<close> is the leaf stored at \<open>i\<close>, or \<open>fork_point\<close>
  computes two different pairs of inputs with the same hash.
\<close>

theorem sdk_root_binds_leaf:
  assumes "merkle_wf H t" "i < length (mt_leaves t)" "length (mt_leaves t) \<le> 2 ^ mt_depth t"
    and "length es = mt_depth t"
    and "fold_path H x es (path_idxs (mt_depth t) i) = merkle_root H t"
    and "x \<noteq> mt_leaves t ! i"
  shows "\<exists>p q. fork_point H x es (mt_leaves t ! i) (path_els H (mt_leaves t) 0 (mt_depth t) i)
            (path_idxs (mt_depth t) i) = Some (p, q)
     \<and> p \<noteq> q \<and> H (fst p) (snd p) = H (fst q) (snd q)"
  by (rule fork_point_collision)
     (use assms sdk_proof_folds [OF assms(1-3)] in simp_all)

theorem sdk_root_binds_leaf_witness:
  "\<exists>p q. fork_point (+) 5 [2, 0] 7 (path_els (+) [7] 0 2 0) (path_idxs 2 0) = Some (p, q)
     \<and> p \<noteq> q \<and> fst p + snd p = fst q + snd q"
  using sdk_root_binds_leaf [of "(+)" "snd (merkle_insert 7 (merkle_new (+) 2))" 0 "[2, 0]" 5]
  by (simp add: merkle_insert_def merkle_new_def merkle_wf_def Let_def path_idxs_def merkle_root_def
      merkle_walk_def next_level_def numeral_2_eq_2)

end
