(* ===== verification/FieldCodec.thy ===== *)
theory FieldCodec
  imports JsString
begin

text \<open>
  Field elements on the wire: \<open>randomness.ts\<close>, \<open>pubkey.ts\<close>, \<open>hash.ts\<close> and \<open>decStringToBE32\<close> of
  \<open>prover.ts\<close> in the SDK, and the parameter codecs of the indexer API's \<open>poseidon-tree.ts\<close>. A
  field element travels as a decimal string, as 32 big-endian bytes or as a \<open>0x\<close> string of 64
  hexadecimal digits; the lemmas show the three forms denote the same number.
\<close>

section \<open>randomness.ts\<close>

datatype codec_error =
    BigIntSyntax string
  | BadByteLength nat
  | NotHexOrDecimal
  | NegativeCommitment
  | NotFieldElement
  | Exceeds32Bytes

text \<open>The 31 random bytes are an argument; the loop builds the \<open>0x\<close> string byte by byte.\<close>

definition byte_hex :: "byte \<Rightarrow> string" where
  "byte_hex b = pad_start 2 (CHR ''0'') (nat_str 16 (unat b))"

definition random_field_dec :: "bytes \<Rightarrow> codec_error + string" where
  "random_field_dec rnd =
     (let hex = foldl (\<lambda>h b. h @ byte_hex b) ''0x'' rnd
      in case parse_bigint hex of
           None \<Rightarrow> Inl (BigIntSyntax hex)
         | Some n \<Rightarrow> Inr (int_str 10 n))"

definition field_dec_to_be32 :: "string \<Rightarrow> codec_error + bytes" where
  "field_dec_to_be32 dec =
     (case parse_bigint dec of
        None \<Rightarrow> Inl (BigIntSyntax dec)
      | Some n \<Rightarrow>
          let hex = int_str 16 n;
              hex = (if length hex > 64 then slice_last 64 hex else hex);
              hex = pad_start 64 (CHR ''0'') hex
          in Inr (hex_to_bytes 32 hex))"

definition be32_to_field_dec :: "bytes \<Rightarrow> codec_error + string" where
  "be32_to_field_dec bs =
     (if length bs \<noteq> 32 then Inl (BadByteLength (length bs)) else Inr (nat_str 10 (be_val bs)))"

section \<open>pubkey.ts\<close>

definition as_bytes :: "bytes \<Rightarrow> codec_error + bytes" where
  "as_bytes bs = (if length bs \<noteq> 32 then Inl (BadByteLength (length bs)) else Inr bs)"

definition pubkey_to_field :: "bytes \<Rightarrow> codec_error + bytes" where
  "pubkey_to_field pk = bindE (as_bytes pk) (\<lambda>out. Inr (out[0 := out ! 0 AND 0x1f]))"

definition pubkey_to_field_string :: "bytes \<Rightarrow> codec_error + string" where
  "pubkey_to_field_string pk = bindE (pubkey_to_field pk) (\<lambda>bs. Inr (nat_str 10 (be_val bs)))"

section \<open>hash.ts\<close>

text \<open>
  \<open>P\<close> stands for \<open>F.toObject(poseidon(inputs))\<close>; its result is a field element, hence a \<open>nat\<close>.
\<close>

definition commitment_hash ::
    "(int list \<Rightarrow> nat) \<Rightarrow> string \<Rightarrow> string \<Rightarrow> int \<Rightarrow> codec_error + string" where
  "commitment_hash P secret_dec nullifier_dec amount =
     bindE (optE (BigIntSyntax secret_dec) (parse_bigint secret_dec)) (\<lambda>s.
     bindE (optE (BigIntSyntax nullifier_dec) (parse_bigint nullifier_dec)) (\<lambda>n.
     Inr (nat_str 10 (P [s, n, amount]))))"

definition nullifier_hash :: "(int list \<Rightarrow> nat) \<Rightarrow> string \<Rightarrow> codec_error + string" where
  "nullifier_hash P nullifier_dec =
     bindE (optE (BigIntSyntax nullifier_dec) (parse_bigint nullifier_dec)) (\<lambda>n.
     Inr (nat_str 10 (P [n])))"

section \<open>decStringToBE32 of prover.ts\<close>

definition dec_string_to_be32 :: "string \<Rightarrow> codec_error + bytes" where
  "dec_string_to_be32 dec =
     (case parse_bigint dec of
        None \<Rightarrow> Inl (BigIntSyntax dec)
      | Some n \<Rightarrow>
          let hex = pad_start 64 (CHR ''0'') (int_str 16 n);
              hex = (if length hex > 64 then slice_last 64 hex else hex)
          in Inr (hex_to_bytes 32 hex))"

section \<open>poseidon-tree.ts: API parameters\<close>

definition bn254_fr :: nat where
  "bn254_fr = 21888242871839275222246405745257275088548364400416034343698204186575808495617"

definition be_to_bigint :: "bytes \<Rightarrow> nat" where
  "be_to_bigint buf = foldl be_step 0 buf"

definition bigint_to_hex_be32 :: "int \<Rightarrow> codec_error + string" where
  "bigint_to_hex_be32 n =
     (let hex = int_str 16 n
      in if length hex > 64 then Inl Exceeds32Bytes
         else Inr (''0x'' @ pad_start 64 (CHR ''0'') hex))"

text \<open>\<open>Buffer.from(hex, "hex")\<close> decodes pairs of digits up to the first pair that is not one.\<close>

fun buffer_from_hex :: "string \<Rightarrow> bytes" where
  "buffer_from_hex (a # b # s) =
     (if is_digit 16 a \<and> is_digit 16 b
      then word_of_nat (16 * digit_val a + digit_val b) # buffer_from_hex s else [])"
| "buffer_from_hex _ = []"

definition buffer_to_hex :: "bytes \<Rightarrow> string" where
  "buffer_to_hex bs = concat (map (\<lambda>b. hexpad 2 (unat b)) bs)"

text \<open>The pattern \<open>0[xX][0-9a-fA-F]+|[0-9]+\<close>, anchored at both ends.\<close>

definition commitment_pattern :: "string \<Rightarrow> bool" where
  "commitment_pattern s \<longleftrightarrow>
     (case s of a # b # t \<Rightarrow>
         a = CHR ''0'' \<and> b \<in> {CHR ''x'', CHR ''X''} \<and> t \<noteq> [] \<and> list_all (is_digit 16) t
       | _ \<Rightarrow> False)
     \<or> s \<noteq> [] \<and> list_all (is_digit 10) s"

definition parse_commitment_param :: "string \<Rightarrow> codec_error + bytes" where
  "parse_commitment_param s =
     (let trimmed = js_trim s in
      if \<not> commitment_pattern trimmed then Inl NotHexOrDecimal
      else case parse_bigint trimmed of
             None \<Rightarrow> Inl (BigIntSyntax trimmed)
           | Some n \<Rightarrow>
               if n < 0 then Inl NegativeCommitment
               else if n \<ge> int bn254_fr then Inl NotFieldElement
               else let hex = int_str 16 n in
                    if length hex > 64 then Inl Exceeds32Bytes
                    else Inr (buffer_from_hex (pad_start 64 (CHR ''0'') hex)))"

section \<open>Lemmas\<close>

lemma bn254_fr_256: "bn254_fr < 256 ^ 32"
  by (simp add: bn254_fr_def)

lemma byte_hex_eq [simp]: "byte_hex b = hexpad 2 (unat b)"
  using unat_byte_less [of b] by (simp add: byte_hex_def pad_start_hex)

lemma buffer_from_hex_append:
  "even (length s) \<Longrightarrow> list_all (is_digit 16) s \<Longrightarrow>
     buffer_from_hex (s @ t) = buffer_from_hex s @ buffer_from_hex t"
  by (induction s rule: buffer_from_hex.induct) auto

lemma buffer_from_hex_hexpad: "buffer_from_hex (hexpad (2 * n) x) = be_bytes n x"
proof (induction n arbitrary: x)
  case 0
  then show ?case by simp
next
  case (Suc n)
  have val: "16 * (x div 16 mod 16) + x mod 16 = x mod 256"
    using mod_mult2_eq [of x 16 16] by simp
  have pad: "hexpad (2 * Suc n) x =
      hexpad (2 * n) (x div 256) @ [digit_char (x div 16 mod 16), digit_char (x mod 16)]"
    by (simp add: div_mult2_eq [symmetric])
  have "word_of_nat (16 * (x div 16 mod 16) + x mod 16) = (word_of_nat x :: byte)"
    by (simp add: val word_of_nat_unat_byte)
  then show ?case
    unfolding pad by (simp add: buffer_from_hex_append hexpad_digits Suc is_digit_char)
qed

lemma buffer_to_hex_be_bytes: "buffer_to_hex (be_bytes n x) = hexpad (2 * n) x"
proof (induction n arbitrary: x)
  case 0
  then show ?case by (simp add: buffer_to_hex_def)
next
  case (Suc n)
  have "hexpad 2 (x mod 256) = hexpad 2 x"
  proof -
    have "x mod 256 = 16 * (x div 16 mod 16) + x mod 16" using mod_mult2_eq [of x 16 16] by simp
    then have "x mod 256 div 16 = x div 16 mod 16" "x mod 256 mod 16 = x mod 16" by simp_all
    then show ?thesis by (simp add: numeral_2_eq_2)
  qed
  with Suc show ?case
    by (simp add: buffer_to_hex_def numeral_2_eq_2 div_mult2_eq [symmetric])
qed

lemma buffer_hex_roundtrip: "buffer_from_hex (buffer_to_hex bs) = bs"
  by (metis be_bytes_be_val buffer_from_hex_hexpad buffer_to_hex_be_bytes)

lemma field_dec_to_be32_nat: "field_dec_to_be32 (nat_str 10 n) = Inr (be_bytes 32 n)"
  using hexpad_nat_str [of 64 n] hex_to_bytes_hexpad [of 32 n]
  by (auto simp: field_dec_to_be32_def int_str_def Let_def pad_start_def slice_last_def
      split: if_splits)

lemma dec_string_to_be32_eq: "dec_string_to_be32 dec = field_dec_to_be32 dec"
  by (auto simp: dec_string_to_be32_def field_dec_to_be32_def Let_def pad_start_def slice_last_def
      split: option.split)

lemma field_dec_be32_roundtrip:
  "length bs = 32 \<Longrightarrow> bindE (be32_to_field_dec bs) field_dec_to_be32 = Inr bs"
  by (simp add: be32_to_field_dec_def field_dec_to_be32_nat be_bytes_be_val)

lemma be32_field_dec_roundtrip:
  "n < 256 ^ 32 \<Longrightarrow> bindE (field_dec_to_be32 (nat_str 10 n)) be32_to_field_dec = Inr (nat_str 10 n)"
  by (simp add: be32_to_field_dec_def field_dec_to_be32_nat be_val_be_bytes)

lemma pubkey_to_field_inr:
  assumes "length pk = 32"
  shows "pubkey_to_field pk = Inr ((pk ! 0 AND 0x1f) # tl pk)"
  using assms by (cases pk) (auto simp: pubkey_to_field_def as_bytes_def)

lemma be_val_Cons: "be_val (b # bs) = unat b * 256 ^ length bs + be_val bs"
proof (induction bs rule: rev_induct)
  case Nil
  then show ?case using be_val_snoc [of "[]" b] by simp
next
  case (snoc c bs)
  have "be_val (b # bs @ [c]) = 256 * be_val (b # bs) + unat c"
    using be_val_snoc [of "b # bs" c] by simp
  with snoc show ?case by (simp add: algebra_simps)
qed

lemma be_val_zeros_append: "be_val (zeros n @ bs) = be_val bs"
  by (induction n) (simp_all add: zeros_def be_val_Cons)

lemma masked_byte_less: "unat (b AND 0x1f :: byte) < 32"
proof -
  have "unat (b AND 0x1f) \<le> unat (0x1f :: byte)"
    by (rule word_and_le1 [THEN word_le_nat_alt [THEN iffD1]])
  then show ?thesis by simp
qed

lemma pubkey_field_bound:
  assumes "length pk = 32"
  shows "be_val ((pk ! 0 AND 0x1f) # tl pk) < 2 ^ 253"
proof -
  have len: "length (tl pk) = 31" using assms by simp
  have "unat (pk ! 0 AND 0x1f) * 256 ^ 31 + 256 ^ 31 \<le> 32 * 256 ^ 31"
    using masked_byte_less [of "pk ! 0"] mult_le_mono1 [of "Suc (unat (pk ! 0 AND 0x1f))" 32 "256 ^ 31"]
    by simp
  moreover have "be_val (tl pk) < 256 ^ 31" using be_val_less [of "tl pk"] len by simp
  ultimately have "be_val ((pk ! 0 AND 0x1f) # tl pk) < 32 * 256 ^ 31"
    unfolding be_val_Cons len by linarith
  then show ?thesis by simp
qed

lemma random_field_loop:
  "foldl (\<lambda>h b. h @ byte_hex b) ''0x'' rnd = ''0x'' @ buffer_to_hex rnd"
  by (induction rnd rule: rev_induct) (simp_all add: buffer_to_hex_def)

lemma buffer_to_hex_val:
  "list_all (is_digit 16) (buffer_to_hex bs)" "digits_val 16 (buffer_to_hex bs) = be_val bs"
proof -
  have h: "buffer_to_hex bs = hexpad (2 * length bs) (be_val bs)"
    using buffer_to_hex_be_bytes [of "length bs" "be_val bs"] by (simp add: be_bytes_be_val)
  show "list_all (is_digit 16) (buffer_to_hex bs)" by (simp add: h hexpad_digits)
  have "be_val bs < 16 ^ (2 * length bs)" using be_val_less [of bs] by (simp add: power_mult)
  then show "digits_val 16 (buffer_to_hex bs) = be_val bs" by (simp add: h digits_val_hexpad)
qed

lemma random_field_dec_inr:
  "rnd \<noteq> [] \<Longrightarrow> random_field_dec rnd = Inr (nat_str 10 (be_val rnd))"
proof -
  assume "rnd \<noteq> []"
  then have "buffer_to_hex rnd \<noteq> []" by (cases rnd) (auto simp: buffer_to_hex_def numeral_2_eq_2)
  then show ?thesis
    using parse_bigint_hex [OF buffer_to_hex_val(1), of rnd] unfolding random_field_dec_def
      random_field_loop by (simp add: buffer_to_hex_val(2) int_str_def)
qed

text \<open>The API parameter codec: which strings it accepts and what it returns for them.\<close>

lemma parse_commitment_param_inr:
  assumes "commitment_pattern (js_trim s)" "parse_bigint (js_trim s) = Some (int n)" "n < bn254_fr"
  shows "parse_commitment_param s = Inr (be_bytes 32 n)"
proof -
  have n64: "n < 16 ^ 64" using assms(3) by (simp add: bn254_fr_def)
  have len: "length (nat_str 16 n) \<le> 64" by (rule length_nat_str_16 [OF n64]) simp
  have "buffer_from_hex (pad_start 64 (CHR ''0'') (nat_str 16 n)) = be_bytes 32 n"
    using pad_start_hex [OF n64] buffer_from_hex_hexpad [of 32 n] by simp
  with assms len show ?thesis
    by (simp add: parse_commitment_param_def Let_def int_str_def)
qed

lemma parse_commitment_param_sound:
  assumes "parse_commitment_param s = Inr buf"
  shows "length buf = 32 \<and> be_val buf < bn254_fr \<and> parse_bigint (js_trim s) = Some (int (be_val buf))"
proof -
  from assms obtain z where pat: "commitment_pattern (js_trim s)"
    and z: "parse_bigint (js_trim s) = Some z" "0 \<le> z" "z < int bn254_fr"
    by (auto simp: parse_commitment_param_def Let_def split: if_splits option.splits)
  obtain n where n: "z = int n" using z(2) by (rule nonneg_int_cases)
  with z have "n < bn254_fr" by simp
  with pat z(1) n assms have "buf = be_bytes 32 n" by (simp add: parse_commitment_param_inr)
  moreover have "n < 256 ^ 32" using \<open>n < bn254_fr\<close> bn254_fr_256 by linarith
  ultimately show ?thesis using \<open>n < bn254_fr\<close> z(1) n by (simp add: be_val_be_bytes)
qed

text \<open>The hexadecimal form the SDK sends and the one the API answers with.\<close>

lemma commitment_pattern_hex:
  "list_all (is_digit 16) h \<Longrightarrow> h \<noteq> [] \<Longrightarrow> commitment_pattern (CHR ''0'' # CHR ''x'' # h)"
  by (simp add: commitment_pattern_def)

lemma js_trim_hex:
  assumes "list_all (is_digit 16) h" "h \<noteq> []"
  shows "js_trim (CHR ''0'' # CHR ''x'' # h) = CHR ''0'' # CHR ''x'' # h"
proof -
  have "\<not> js_space (CHR ''0'')" by code_simp
  moreover have "\<not> js_space (last h)"
    using assms is_digit_not_space [of 16 "last h"] by (simp add: list_all_iff)
  ultimately show ?thesis using assms(2) by (intro js_trim_no_space) simp
qed

lemma parse_commitment_param_hex:
  assumes "n < bn254_fr"
  shows "parse_commitment_param (''0x'' @ buffer_to_hex (be_bytes 32 n)) = Inr (be_bytes 32 n)"
proof -
  let ?h = "hexpad 64 n"
  have h: "buffer_to_hex (be_bytes 32 n) = ?h" using buffer_to_hex_be_bytes [of 32 n] by simp
  have ne: "?h \<noteq> []" using length_hexpad [of 64 n] by (metis length_0_conv zero_neq_numeral)
  have "digits_val 16 ?h = n" using assms by (simp add: digits_val_hexpad bn254_fr_def)
  then show ?thesis
    using parse_commitment_param_inr [of "''0x'' @ ?h" n] js_trim_hex [OF hexpad_digits ne]
      commitment_pattern_hex [OF hexpad_digits ne] parse_bigint_hex [OF hexpad_digits ne] assms h
    by simp
qed

lemma bigint_to_hex_be32_inr:
  assumes "n < 256 ^ 32"
  shows "bigint_to_hex_be32 (int n) = Inr (''0x'' @ hexpad 64 n)"
    and "parse_bigint (''0x'' @ hexpad 64 n) = Some (int n)"
proof -
  have n64: "n < 16 ^ 64" using assms by simp
  have ne: "hexpad 64 n \<noteq> []" using length_hexpad [of 64 n] by (metis length_0_conv zero_neq_numeral)
  show "bigint_to_hex_be32 (int n) = Inr (''0x'' @ hexpad 64 n)"
    using length_nat_str_16 [OF n64] pad_start_hex [OF n64]
    by (simp add: bigint_to_hex_be32_def int_str_def Let_def)
  show "parse_bigint (''0x'' @ hexpad 64 n) = Some (int n)"
    using parse_bigint_hex [OF hexpad_digits ne] n64 by (simp add: digits_val_hexpad)
qed

end
