(* ===== verification/PoolMerkle.thy ===== *)
theory PoolMerkle
  imports SdkMerkle FieldCodec
begin

text \<open>
  The on-chain tree of \<open>qietr_pool/src/merkle.rs\<close> and \<open>state.rs\<close>: an append that touches one
  node per level (the frontier \<open>filled_subtree\<close>) and a ring of the last 30 roots. \<open>hash2\<close> is the
  fallible Poseidon syscall on 32-byte words. The lemmas show that the frontier append computes
  the root of the abstract tree, hence the root the SDK rebuilds from the leaves.
\<close>

section \<open>State and append\<close>

datatype pool_error =
    Paused | NotAdmin | UnknownDenomination | TreeFull | StaleRoot | NullifierSpent
  | InvalidProof | PaymentAmountOverflow | AmountMismatch | NullifierMismatch
  | RecipientMismatch | NonCanonicalAta | VkUpgradeLocked | VkHashMismatch
  | NoPendingUpgrade | Overflow | HashFailure | FeeVaultNotSet | FeeVaultMismatch | FeeBpsTooHigh

type_synonym u64 = "64 word"

definition pool_merkle_depth :: nat where
  "pool_merkle_depth = 20"

definition root_history_len :: nat where
  "root_history_len = 30"

record merkle_account =
  ma_denom_id :: byte
  next_leaf_index :: u64
  filled_subtree :: "bytes list"
  root_history :: "bytes list"
  root_cursor :: byte
  ma_bump :: byte
  zero_hashes_tab :: "bytes list"

type_synonym poseidon2 = "bytes \<Rightarrow> bytes \<Rightarrow> pool_error + bytes"

text \<open>The zero table written by \<open>initialize_denomination\<close>.\<close>

fun zero_table_loop :: "poseidon2 \<Rightarrow> nat \<Rightarrow> bytes list \<Rightarrow> pool_error + bytes list" where
  "zero_table_loop hash2 0 zs = Inr zs"
| "zero_table_loop hash2 (Suc k) zs =
     bindE (zero_table_loop hash2 k zs) (\<lambda>tab.
     bindE (hash2 (tab ! k) (tab ! k)) (\<lambda>h. Inr (tab[Suc k := h])))"

definition init_merkle_account :: "poseidon2 \<Rightarrow> byte \<Rightarrow> byte \<Rightarrow> pool_error + merkle_account" where
  "init_merkle_account hash2 denom bump =
     bindE (zero_table_loop hash2 (pool_merkle_depth - 1)
              (replicate pool_merkle_depth (zeros 32))) (\<lambda>tab.
     Inr \<lparr>ma_denom_id = denom, next_leaf_index = 0,
          filled_subtree = replicate pool_merkle_depth (zeros 32),
          root_history = replicate root_history_len (zeros 32),
          root_cursor = 0, ma_bump = bump, zero_hashes_tab = tab\<rparr>)"

text \<open>The \<open>for i in 0..MERKLE_DEPTH\<close> loop of \<open>append\<close>, from level \<open>i\<close>, \<open>k\<close> levels to go.\<close>

fun append_loop :: "poseidon2 \<Rightarrow> bytes list \<Rightarrow> nat \<Rightarrow> nat \<Rightarrow> u64 \<Rightarrow> bytes \<Rightarrow> bytes list
    \<Rightarrow> pool_error + bytes \<times> bytes list" where
  "append_loop hash2 zs 0 i idx cur filled = Inr (cur, filled)"
| "append_loop hash2 zs (Suc k) i idx cur filled =
     (if idx AND 1 = 0
      then bindE (hash2 cur (zs ! i)) (\<lambda>cur'.
             append_loop hash2 zs k (Suc i) (drop_bit 1 idx) cur' (filled[i := cur]))
      else bindE (hash2 (filled ! i) cur) (\<lambda>cur'.
             append_loop hash2 zs k (Suc i) (drop_bit 1 idx) cur' filled))"

definition merkle_append ::
    "poseidon2 \<Rightarrow> bytes \<Rightarrow> merkle_account \<Rightarrow> pool_error + bytes \<times> merkle_account" where
  "merkle_append hash2 leaf t =
     bindE (guardE (next_leaf_index t < push_bit pool_merkle_depth 1) TreeFull) (\<lambda>_.
     bindE (append_loop hash2 (zero_hashes_tab t) pool_merkle_depth 0 (next_leaf_index t) leaf
              (filled_subtree t)) (\<lambda>(cur, filled).
     bindE (guardE (unat (next_leaf_index t) + 1 < 2 ^ 64) Overflow) (\<lambda>_.
     let next_cursor = (unat (root_cursor t) + 1) mod root_history_len in
     Inr (cur, t\<lparr>next_leaf_index := next_leaf_index t + 1, filled_subtree := filled,
                 root_history := (root_history t)[next_cursor := cur],
                 root_cursor := word_of_nat next_cursor\<rparr>))))"

definition is_known_root :: "merkle_account \<Rightarrow> bytes \<Rightarrow> bool" where
  "is_known_root t root = (if root = zeros 32 then False else list_ex (\<lambda>r. r = root) (root_history t))"

section \<open>Poseidon parity and the representation relation\<close>

text \<open>
  The SDK hashes integers, the program 32-byte words. \<open>fe_bytes\<close> is the encoding both sides use.
  \<open>poseidon_parity\<close> is the documented agreement of the two Poseidon implementations (the golden
  vectors of \<open>merkle.rs\<close>): on field elements the syscall succeeds and returns the encoding of the
  SDK's hash.
\<close>

definition is_field :: "int \<Rightarrow> bool" where
  "is_field x \<longleftrightarrow> 0 \<le> x \<and> x < int bn254_fr"

definition fe_bytes :: "int \<Rightarrow> bytes" where
  "fe_bytes x = be_bytes 32 (nat x)"

definition poseidon_parity :: "(int \<Rightarrow> int \<Rightarrow> int) \<Rightarrow> poseidon2 \<Rightarrow> bool" where
  "poseidon_parity H hash2 \<longleftrightarrow>
     (\<forall>l r. is_field l \<longrightarrow> is_field r \<longrightarrow>
        is_field (H l r) \<and> hash2 (fe_bytes l) (fe_bytes r) = Inr (fe_bytes (H l r)))"

lemma is_field_0 [simp]: "is_field 0"
  by (simp add: is_field_def bn254_fr_def)

lemma fe_bytes_0: "fe_bytes 0 = zeros 32"
proof -
  have "be_bytes n 0 = replicate n 0" for n
    by (induction n) (auto simp: replicate_append_same)
  then show ?thesis by (simp add: fe_bytes_def zeros_def)
qed

lemma length_fe_bytes [simp]: "length (fe_bytes x) = 32"
  by (simp add: fe_bytes_def)

lemma fe_bytes_inject:
  assumes "is_field x" "is_field y"
  shows "fe_bytes x = fe_bytes y \<longleftrightarrow> x = y"
proof -
  have "nat x < 256 ^ 32" "nat y < 256 ^ 32"
    using assms bn254_fr_256 by (auto simp: is_field_def)
  then show ?thesis
    using assms be_bytes_inject [of "nat x" 32 "nat y"] by (auto simp: fe_bytes_def is_field_def)
qed

lemma parityD:
  assumes "poseidon_parity H hash2" "is_field l" "is_field r"
  shows "is_field (H l r)" "hash2 (fe_bytes l) (fe_bytes r) = Inr (fe_bytes (H l r))"
  using assms by (auto simp: poseidon_parity_def)

lemma is_field_zero_at: "poseidon_parity H hash2 \<Longrightarrow> is_field (zero_at H d)"
  by (induction d) (auto intro: parityD)

lemma is_field_mnode:
  "poseidon_parity H hash2 \<Longrightarrow> list_all is_field xs \<Longrightarrow> is_field (mnode H d xs)"
proof (induction d arbitrary: xs)
  case 0
  then show ?case by (cases xs) auto
next
  case (Suc d)
  have "list_all is_field (take (2 ^ d) xs)" "list_all is_field (drop (2 ^ d) xs)"
    using Suc.prems(2) by (auto simp: list_all_iff dest: in_set_takeD in_set_dropD)
  then show ?case
    using parityD(1) [OF Suc.prems(1) Suc.IH Suc.IH] Suc.prems(1) by simp
qed

lemma is_field_node_at:
  assumes "poseidon_parity H hash2" "list_all is_field xs"
  shows "is_field (node_at H xs i j)"
proof -
  have "list_all is_field (take (2 ^ i) (drop (j * 2 ^ i) xs))"
    using assms(2) by (auto simp: list_all_iff dest: in_set_takeD in_set_dropD)
  then show ?thesis unfolding node_at_def by (rule is_field_mnode [OF assms(1)])
qed

text \<open>
  The frontier: at every level where the next leaf falls under a right child, the saved node is
  the completed left sibling.
\<close>

definition frontier :: "(int \<Rightarrow> int \<Rightarrow> int) \<Rightarrow> int list \<Rightarrow> bytes list \<Rightarrow> bool" where
  "frontier H xs filled \<longleftrightarrow> length filled = pool_merkle_depth \<and>
     (\<forall>i < pool_merkle_depth. length (filled ! i) = 32) \<and>
     (\<forall>i < pool_merkle_depth. odd (length xs div 2 ^ i) \<longrightarrow>
        filled ! i = fe_bytes (node_at H xs i (length xs div 2 ^ i - 1)))"

definition pool_root :: "(int \<Rightarrow> int \<Rightarrow> int) \<Rightarrow> int list \<Rightarrow> bytes" where
  "pool_root H xs = fe_bytes (spec_root H pool_merkle_depth xs)"

text \<open>
  The ring: slot \<open>j mod 30\<close> holds the root after the \<open>j\<close>-th append, for the last 30 appends;
  a slot not yet written holds zeros.
\<close>

definition ring :: "(int \<Rightarrow> int \<Rightarrow> int) \<Rightarrow> int list \<Rightarrow> merkle_account \<Rightarrow> bool" where
  "ring H xs t \<longleftrightarrow> length (root_history t) = root_history_len
     \<and> list_all (\<lambda>w. length w = 32) (root_history t)
     \<and> unat (root_cursor t) = length xs mod root_history_len
     \<and> (\<forall>j. 0 < j \<and> j \<le> length xs \<and> length xs < j + root_history_len \<longrightarrow>
          root_history t ! (j mod root_history_len) = pool_root H (take j xs))
     \<and> (\<forall>s < root_history_len. length xs < s \<or> s = 0 \<and> length xs < root_history_len \<longrightarrow>
          root_history t ! s = zeros 32)"

definition tree_rel :: "(int \<Rightarrow> int \<Rightarrow> int) \<Rightarrow> int list \<Rightarrow> merkle_account \<Rightarrow> bool" where
  "tree_rel H xs t \<longleftrightarrow> unat (next_leaf_index t) = length xs \<and> length xs \<le> 2 ^ pool_merkle_depth
     \<and> list_all is_field xs
     \<and> zero_hashes_tab t = map (\<lambda>i. fe_bytes (zero_at H i)) [0..<pool_merkle_depth]
     \<and> frontier H xs (filled_subtree t) \<and> ring H xs t"

section \<open>The append loop\<close>

lemma u64_parity: "(idx :: u64) AND 1 = 0 \<longleftrightarrow> even (unat idx)"
proof -
  have "(idx AND 1 = 0) = (unat (idx AND 1) = 0)" by (simp add: unat_eq_0)
  also have "unat (idx AND 1) = unat idx AND 1" by (simp add: unsigned_and_eq)
  finally show ?thesis by (simp add: and_one_eq even_iff_mod_2_eq_zero)
qed

lemma u64_half: "unat (drop_bit 1 idx :: u64) = unat idx div 2"
  using unat_drop_bit_eq [of 1 idx] by (simp only: drop_bit_eq_div power_one_right)

text \<open>One level of the loop: an even index pairs the node with a zero subtree, an odd one with the stored sibling.\<close>

lemma append_even_step:
  assumes par: "poseidon_parity H hash2" and ys: "ys = xs @ [leaf]" "list_all is_field ys"
    and zs: "zs ! i = fe_bytes (zero_at H i)" and ev: "even (length xs div 2 ^ i)"
  shows "hash2 (fe_bytes (node_at H ys i (length xs div 2 ^ i))) (zs ! i)
    = Inr (fe_bytes (node_at H ys (Suc i) (length xs div 2 ^ Suc i)))"
proof -
  let ?m = "length xs div 2 ^ i"
  have nf: "is_field (node_at H ys j m)" for j m by (rule is_field_node_at [OF par ys(2)])
  have beyond: "node_at H ys i (?m + 1) = zero_at H i"
  proof (rule node_at_beyond)
    have "length xs < (?m + 1) * 2 ^ i" using dividend_less_div_times [of "2 ^ i" "length xs"] by simp
    then show "length ys \<le> (?m + 1) * 2 ^ i" by (simp add: ys(1))
  qed
  show ?thesis
    using parityD(2) [OF par nf is_field_zero_at [OF par], of i ?m i] node_at_Suc [of H ys i "?m div 2"]
      ev beyond by (simp add: zs div_two_power_Suc del: power_Suc)
qed

lemma append_odd_step:
  assumes par: "poseidon_parity H hash2" and ys: "ys = xs @ [leaf]" "list_all is_field ys"
    and othr: "other = fe_bytes (node_at H xs i (length xs div 2 ^ i - 1))" and odd: "odd (length xs div 2 ^ i)"
  shows "hash2 other (fe_bytes (node_at H ys i (length xs div 2 ^ i)))
    = Inr (fe_bytes (node_at H ys (Suc i) (length xs div 2 ^ Suc i)))"
proof -
  let ?m = "length xs div 2 ^ i"
  have nf: "is_field (node_at H ys j m)" for j m by (rule is_field_node_at [OF par ys(2)])
  have "(?m - 1 + 1) * 2 ^ i \<le> length xs"
    using odd by (simp add: div_times_less_eq_dividend odd_pos)
  then have other: "other = fe_bytes (node_at H ys i (?m - 1))" by (simp add: othr ys(1) node_at_append)
  show ?thesis
    using parityD(2) [OF par nf nf, of i "?m - 1" i ?m] node_at_Suc [of H ys i "?m div 2"] odd
    by (simp add: other div_two_power_Suc odd_two_times_div_two_succ odd_two_times_div_two_nat del: power_Suc)
qed

lemma append_loop_correct:
  assumes par: "poseidon_parity H hash2"
    and ys: "ys = xs @ [leaf]" "list_all is_field ys"
    and zs: "\<And>j. j < pool_merkle_depth \<Longrightarrow> zs ! j = fe_bytes (zero_at H j)"
    and k: "i + k = pool_merkle_depth"
    and idx: "unat idx = length xs div 2 ^ i"
    and cur: "cur = fe_bytes (node_at H ys i (length xs div 2 ^ i))"
    and len: "length filled = pool_merkle_depth"
    and fr: "\<And>j. i \<le> j \<Longrightarrow> j < pool_merkle_depth \<Longrightarrow> odd (length xs div 2 ^ j) \<Longrightarrow>
       filled ! j = fe_bytes (node_at H xs j (length xs div 2 ^ j - 1))"
  shows "\<exists>filled'. append_loop hash2 zs k i idx cur filled
      = Inr (fe_bytes (node_at H ys pool_merkle_depth (length xs div 2 ^ pool_merkle_depth)), filled')
    \<and> length filled' = pool_merkle_depth
    \<and> (\<forall>j < pool_merkle_depth. filled' ! j =
         (if i \<le> j \<and> even (length xs div 2 ^ j)
          then fe_bytes (node_at H ys j (length xs div 2 ^ j)) else filled ! j))"
  using k idx cur len fr
proof (induction k arbitrary: i idx cur filled)
  case 0
  then show ?case by simp
next
  case (Suc k)
  let ?m = "length xs div 2 ^ i"
  have i: "i < pool_merkle_depth" using Suc.prems(1) by simp
  have half: "unat (drop_bit 1 idx) = length xs div 2 ^ Suc i"
    by (simp only: u64_half Suc.prems(2) div_two_power_Suc)
  show ?case
  proof (cases "even ?m")
    case True
    have step: "hash2 cur (zs ! i) = Inr (fe_bytes (node_at H ys (Suc i) (length xs div 2 ^ Suc i)))"
      unfolding Suc.prems(3) by (rule append_even_step [OF par ys zs [OF i] True])
    obtain filled' where f': "append_loop hash2 zs k (Suc i) (drop_bit 1 idx)
        (fe_bytes (node_at H ys (Suc i) (length xs div 2 ^ Suc i))) (filled[i := cur])
          = Inr (fe_bytes (node_at H ys pool_merkle_depth (length xs div 2 ^ pool_merkle_depth)), filled')"
      "length filled' = pool_merkle_depth"
      "\<forall>j < pool_merkle_depth. filled' ! j =
         (if Suc i \<le> j \<and> even (length xs div 2 ^ j)
          then fe_bytes (node_at H ys j (length xs div 2 ^ j)) else filled[i := cur] ! j)"
      using Suc.IH [of "Suc i" "drop_bit 1 idx"
          "fe_bytes (node_at H ys (Suc i) (length xs div 2 ^ Suc i))" "filled[i := cur]"]
        Suc.prems half by auto
    have "filled' ! j = (if i \<le> j \<and> even (length xs div 2 ^ j)
          then fe_bytes (node_at H ys j (length xs div 2 ^ j)) else filled ! j)"
      if "j < pool_merkle_depth" for j
      using f'(3) that True Suc.prems(3,4) by (cases "j = i") (auto simp: nth_list_update)
    with f'(1,2) True step show ?thesis
      by (simp add: u64_parity Suc.prems(2))
  next
    case False
    have step: "hash2 (filled ! i) cur = Inr (fe_bytes (node_at H ys (Suc i) (length xs div 2 ^ Suc i)))"
      unfolding Suc.prems(3) using Suc.prems(5) [of i] i False by (intro append_odd_step [OF par ys]) simp_all
    obtain filled' where f': "append_loop hash2 zs k (Suc i) (drop_bit 1 idx)
        (fe_bytes (node_at H ys (Suc i) (length xs div 2 ^ Suc i))) filled
          = Inr (fe_bytes (node_at H ys pool_merkle_depth (length xs div 2 ^ pool_merkle_depth)), filled')"
      "length filled' = pool_merkle_depth"
      "\<forall>j < pool_merkle_depth. filled' ! j =
         (if Suc i \<le> j \<and> even (length xs div 2 ^ j)
          then fe_bytes (node_at H ys j (length xs div 2 ^ j)) else filled ! j)"
      using Suc.IH [of "Suc i" "drop_bit 1 idx"
          "fe_bytes (node_at H ys (Suc i) (length xs div 2 ^ Suc i))" filled]
        Suc.prems half by auto
    have "filled' ! j = (if i \<le> j \<and> even (length xs div 2 ^ j)
          then fe_bytes (node_at H ys j (length xs div 2 ^ j)) else filled ! j)"
      if "j < pool_merkle_depth" for j
      using f'(3) that False by (cases "j = i") auto
    with f'(1,2) False step show ?thesis
      by (simp add: u64_parity Suc.prems(2))
  qed
qed

section \<open>The append operation\<close>

lemma pool_depth_simps: "pool_merkle_depth = 20" "root_history_len = 30"
  by (simp_all add: pool_merkle_depth_def root_history_len_def)

lemma frontier_snoc:
  assumes fr: "frontier H xs filled"
    and len: "length filled' = pool_merkle_depth"
    and f': "\<And>j. j < pool_merkle_depth \<Longrightarrow> filled' ! j =
         (if even (length xs div 2 ^ j)
          then fe_bytes (node_at H (xs @ [leaf]) j (length xs div 2 ^ j)) else filled ! j)"
  shows "frontier H (xs @ [leaf]) filled'"
  unfolding frontier_def
proof (intro conjI allI impI len)
  fix i assume "i < pool_merkle_depth"
  with f' [of i] fr show "length (filled' ! i) = 32" by (simp add: frontier_def)
next
  fix i assume i: "i < pool_merkle_depth" and od: "odd (length (xs @ [leaf]) div 2 ^ i)"
  let ?m = "length xs div 2 ^ i"
  have eqv: "length (xs @ [leaf]) div 2 ^ i =
      (if 2 ^ i dvd Suc (length xs) then Suc ?m else ?m)"
    by (simp add: Suc_div_two_power)
  show "filled' ! i = fe_bytes (node_at H (xs @ [leaf]) i (length (xs @ [leaf]) div 2 ^ i - 1))"
  proof (cases "2 ^ i dvd Suc (length xs)")
    case True
    with od eqv have "even ?m" "length (xs @ [leaf]) div 2 ^ i - 1 = ?m" by simp_all
    with f' [OF i] show ?thesis by simp
  next
    case False
    with od eqv have o: "odd ?m" and m: "length (xs @ [leaf]) div 2 ^ i = ?m" by simp_all
    have "(?m - 1 + 1) * 2 ^ i \<le> length xs" using o by (simp add: odd_pos)
    then have "node_at H (xs @ [leaf]) i (?m - 1) = node_at H xs i (?m - 1)"
      by (rule node_at_append)
    with f' [OF i] o m fr i show ?thesis by (simp add: frontier_def)
  qed
qed

lemma ring_snoc:
  assumes r: "ring H xs t"
    and h: "root_history t' = (root_history t)[(length xs + 1) mod root_history_len
              := pool_root H (xs @ [leaf])]"
    and c: "unat (root_cursor t') = (length xs + 1) mod root_history_len"
  shows "ring H (xs @ [leaf]) t'"
  unfolding ring_def
proof (intro conjI allI impI)
  let ?n = "length xs"
  have len: "length (root_history t) = 30" using r by (simp add: ring_def pool_depth_simps)
  show "length (root_history t') = root_history_len" by (simp add: h len pool_depth_simps)
  show "unat (root_cursor t') = length (xs @ [leaf]) mod root_history_len" by (simp add: c)
  show "list_all (\<lambda>w. length w = 32) (root_history t')"
    using r by (auto simp: h ring_def list_all_iff pool_root_def dest!: set_mp [OF set_update_subset_insert])
  fix j assume j: "0 < j \<and> j \<le> length (xs @ [leaf]) \<and> length (xs @ [leaf]) < j + root_history_len"
  show "root_history t' ! (j mod root_history_len) = pool_root H (take j (xs @ [leaf]))"
  proof (cases "j = ?n + 1")
    case True
    then show ?thesis by (simp add: h len pool_depth_simps)
  next
    case False
    with j have j': "j \<le> ?n" "?n < j + 30" "?n + 1 < j + 30" by (auto simp: pool_depth_simps)
    have "\<not> 30 dvd ?n + 1 - j" using j' by (intro nat_dvd_not_less) simp_all
    then have "(?n + 1) mod 30 \<noteq> j mod 30" using j'(1) by (simp add: mod_eq_dvd_iff_nat)
    then have "root_history t' ! (j mod 30) = root_history t ! (j mod 30)"
      by (simp add: h pool_depth_simps)
    with r j j' show ?thesis by (simp add: ring_def pool_depth_simps)
  qed
next
  fix s assume s: "s < root_history_len"
    and e: "length (xs @ [leaf]) < s \<or> s = 0 \<and> length (xs @ [leaf]) < root_history_len"
  have "(length xs + 1) mod 30 \<noteq> s"
    using s e mod_less_eq_dividend [of "length xs + 1" 30] by (auto simp: pool_depth_simps dest: dvd_imp_le)
  with r s e show "root_history t' ! s = zeros 32"
    by (auto simp: h ring_def pool_depth_simps)
qed

lemma tree_rel_sized:
  assumes "tree_rel H xs t"
  shows "length (filled_subtree t) = pool_merkle_depth" "length (root_history t) = root_history_len"
    "length (zero_hashes_tab t) = pool_merkle_depth"
    "list_all (\<lambda>w. length w = 32) (filled_subtree t @ root_history t @ zero_hashes_tab t)"
proof -
  have "list_all (\<lambda>w. length w = 32) (filled_subtree t)"
    using assms by (simp add: tree_rel_def frontier_def list_all_length)
  with assms show "length (filled_subtree t) = pool_merkle_depth"
    "length (root_history t) = root_history_len" "length (zero_hashes_tab t) = pool_merkle_depth"
    "list_all (\<lambda>w. length w = 32) (filled_subtree t @ root_history t @ zero_hashes_tab t)"
    by (auto simp: tree_rel_def frontier_def ring_def list_all_iff)
qed

text \<open>
  The guard \<open>TreeFull\<close> is the only way an append on field elements fails, and a successful one
  refines appending to the list of leaves and returns the root of the new list.
\<close>

lemma merkle_append_full:
  assumes "tree_rel H xs t" "length xs = 2 ^ pool_merkle_depth"
  shows "merkle_append hash2 leaf t = Inl TreeFull"
proof -
  have "unat (next_leaf_index t) = 1048576" using assms by (simp add: tree_rel_def pool_depth_simps)
  then have "\<not> next_leaf_index t < push_bit 20 1" by (simp add: word_less_nat_alt push_bit_eq_mult)
  then show ?thesis by (simp add: merkle_append_def pool_depth_simps)
qed

lemma merkle_append_inr:
  assumes par: "poseidon_parity H hash2"
    and rel: "tree_rel H xs t" and room: "length xs < 2 ^ pool_merkle_depth"
    and leaf: "is_field leaf"
  shows "\<exists>t'. merkle_append hash2 (fe_bytes leaf) t = Inr (pool_root H (xs @ [leaf]), t')
     \<and> tree_rel H (xs @ [leaf]) t' \<and> ma_denom_id t' = ma_denom_id t"
proof -
  let ?ys = "xs @ [leaf]"
  have n: "unat (next_leaf_index t) = length xs" "length xs < 1048576"
    and fr: "frontier H xs (filled_subtree t)" and rg: "ring H xs t"
    and fs: "list_all is_field ?ys"
    and zs: "zero_hashes_tab t = map (\<lambda>i. fe_bytes (zero_at H i)) [0..<pool_merkle_depth]"
    using rel room leaf by (simp_all add: tree_rel_def pool_depth_simps)
  have d0: "length xs div 2 ^ pool_merkle_depth = 0" using n(2) by (simp add: pool_depth_simps)
  obtain filled' where loop: "append_loop hash2 (zero_hashes_tab t) pool_merkle_depth 0
        (next_leaf_index t) (fe_bytes leaf) (filled_subtree t)
      = Inr (fe_bytes (node_at H ?ys pool_merkle_depth 0), filled')"
    "length filled' = pool_merkle_depth"
    "\<forall>j < pool_merkle_depth. filled' ! j =
         (if even (length xs div 2 ^ j)
          then fe_bytes (node_at H ?ys j (length xs div 2 ^ j)) else filled_subtree t ! j)"
    using append_loop_correct [OF par refl fs, of "zero_hashes_tab t" 0 pool_merkle_depth
        "next_leaf_index t" "fe_bytes leaf" "filled_subtree t"] n(1) fr zs d0
    by (auto simp: frontier_def node_at_leaf)
  have root: "fe_bytes (node_at H ?ys pool_merkle_depth 0) = pool_root H ?ys"
    using n(2) by (simp add: pool_root_def spec_root_def node_at_def pool_depth_simps)
  have lt: "next_leaf_index t < push_bit 20 1" using n by (simp add: word_less_nat_alt push_bit_eq_mult)
  have cur: "unat (root_cursor t) = length xs mod 30" using rg by (simp add: ring_def pool_depth_simps)
  let ?c = "(unat (root_cursor t) + 1) mod 30"
  have c: "?c = (length xs + 1) mod 30" by (simp add: cur mod_simps)
  let ?t' = "t\<lparr>next_leaf_index := next_leaf_index t + 1, filled_subtree := filled',
      root_history := (root_history t)[?c := pool_root H ?ys], root_cursor := word_of_nat ?c\<rparr>"
  have run: "merkle_append hash2 (fe_bytes leaf) t = Inr (pool_root H ?ys, ?t')"
    using loop(1) lt n by (simp add: merkle_append_def pool_depth_simps root [unfolded pool_depth_simps] Let_def)
  have small: "(length xs + 1) mod 30 < 256" by (rule less_trans [OF mod_less_divisor]) simp_all
  have "ring H ?ys ?t'"
    by (rule ring_snoc [OF rg])
      (use small c in \<open>simp_all add: pool_depth_simps unat_of_nat take_bit_eq_mod\<close>)
  moreover have "frontier H ?ys filled'" using frontier_snoc [OF fr loop(2)] loop(3) by blast
  moreover have "unat (next_leaf_index t + 1) = length xs + 1"
    using n by (simp add: unat_word_ariths)
  ultimately have "tree_rel H ?ys ?t'"
    using rel fs n(2) by (simp add: tree_rel_def pool_depth_simps)
  with run show ?thesis by auto
qed

section \<open>Initialisation\<close>

lemma zero_table_loop_inr:
  assumes par: "poseidon_parity H hash2" and "k < n"
  shows "zero_table_loop hash2 k (replicate n (zeros 32)) =
    Inr (map (\<lambda>i. if i \<le> k then fe_bytes (zero_at H i) else zeros 32) [0..<n])"
  using assms(2)
proof (induction k)
  case 0
  have "replicate n (zeros 32) = map (\<lambda>i. if i \<le> 0 then fe_bytes (zero_at H i) else zeros 32) [0..<n]"
    by (rule nth_equalityI) (auto simp: fe_bytes_0)
  then show ?case by simp
next
  case (Suc k)
  let ?tab = "map (\<lambda>i. if i \<le> k then fe_bytes (zero_at H i) else zeros 32) [0..<n]"
  have h: "hash2 (?tab ! k) (?tab ! k) = Inr (fe_bytes (zero_at H (Suc k)))"
    using Suc.prems parityD(2) [OF par is_field_zero_at [OF par] is_field_zero_at [OF par]] by simp
  have "?tab[Suc k := fe_bytes (zero_at H (Suc k))] =
      map (\<lambda>i. if i \<le> Suc k then fe_bytes (zero_at H i) else zeros 32) [0..<n]"
    using Suc.prems by (intro nth_equalityI) (auto simp: nth_list_update)
  with Suc h show ?case by simp
qed

lemma init_merkle_account_inr:
  assumes par: "poseidon_parity H hash2"
  shows "\<exists>t. init_merkle_account hash2 denom bump = Inr t \<and> tree_rel H [] t \<and> ma_denom_id t = denom"
proof -
  have tab: "map (\<lambda>i. if i \<le> pool_merkle_depth - 1 then fe_bytes (zero_at H i) else zeros 32)
      [0..<pool_merkle_depth] = map (\<lambda>i. fe_bytes (zero_at H i)) [0..<pool_merkle_depth]"
    by (auto simp: pool_depth_simps)
  show ?thesis
    using zero_table_loop_inr [OF par, of "pool_merkle_depth - 1" pool_merkle_depth]
    by (simp add: init_merkle_account_def tab tree_rel_def frontier_def ring_def pool_depth_simps list_all_iff
        del: upt_Suc upt_rec_numeral)
qed

section \<open>Known roots\<close>

lemma ring_index:
  fixes n s :: nat
  assumes "s \<le> n" "s = 0 \<Longrightarrow> 30 \<le> n"
  shows "0 < n - (n - s) mod 30" "n - (n - s) mod 30 \<le> n" "n < n - (n - s) mod 30 + 30"
proof -
  have m: "(n - s) mod 30 < 30" "(n - s) mod 30 \<le> n - s" by auto
  show "0 < n - (n - s) mod 30"
  proof (cases "s = 0")
    case True
    then show ?thesis using assms(2) m(1) by simp
  next
    case False
    then show ?thesis using assms(1) m(2) by simp
  qed
  show "n - (n - s) mod 30 \<le> n" by simp
  show "n < n - (n - s) mod 30 + 30" using m(1) by simp
qed

lemma is_known_root_iff:
  assumes "tree_rel H xs t"
  shows "is_known_root t r \<longleftrightarrow> r \<noteq> zeros 32 \<and>
     (\<exists>j. 0 < j \<and> j \<le> length xs \<and> length xs < j + 30 \<and> r = pool_root H (take j xs))"
proof
  have rg: "ring H xs t" using assms by (simp add: tree_rel_def)
  then have len: "length (root_history t) = 30" by (simp add: ring_def pool_depth_simps)
  {
    assume k: "is_known_root t r"
    then obtain s where s: "s < 30" "root_history t ! s = r" and nz: "r \<noteq> zeros 32"
      by (auto simp: is_known_root_def list_ex_iff in_set_conv_nth len split: if_splits)
    have zs: "length xs < s \<or> s = 0 \<and> length xs < 30 \<Longrightarrow> root_history t ! s = zeros 32"
      using rg s(1) unfolding ring_def pool_depth_simps by blast
    then have w: "\<not> length xs < s" "s = 0 \<Longrightarrow> 30 \<le> length xs"
      using s(2) nz by (auto simp: not_less [symmetric])
    define j where "j = length xs - (length xs - s) mod 30"
    have "j = s + (length xs - s) div 30 * 30"
      using w(1) by (simp add: j_def minus_mod_eq_div_mult [symmetric])
    then have "j mod 30 = s" using s(1) by simp
    moreover have "0 < j" "j \<le> length xs" "length xs < j + 30"
      using ring_index [of s "length xs"] w unfolding j_def by simp_all
    ultimately show "r \<noteq> zeros 32 \<and>
      (\<exists>j. 0 < j \<and> j \<le> length xs \<and> length xs < j + 30 \<and> r = pool_root H (take j xs))"
      using rg s(2) nz by (auto simp: ring_def pool_depth_simps)
  next
    assume "r \<noteq> zeros 32 \<and>
      (\<exists>j. 0 < j \<and> j \<le> length xs \<and> length xs < j + 30 \<and> r = pool_root H (take j xs))"
    then obtain j where j: "r \<noteq> zeros 32" "0 < j" "j \<le> length xs" "length xs < j + 30"
      "r = pool_root H (take j xs)" by blast
    with rg have "root_history t ! (j mod 30) = r" by (auto simp: ring_def pool_depth_simps)
    moreover have "j mod 30 < 30" by simp
    ultimately have "r \<in> set (root_history t)" using len by (metis nth_mem)
    with j(1) show "is_known_root t r" by (auto simp: is_known_root_def list_ex_iff)
  }
qed

section \<open>The pool tree is a bounded accumulator\<close>

definition pool_rel :: "(int \<Rightarrow> int \<Rightarrow> int) \<Rightarrow> poseidon2 \<Rightarrow> int list \<Rightarrow> merkle_account \<Rightarrow> bool" where
  "pool_rel H hash2 xs t \<longleftrightarrow> poseidon_parity H hash2 \<and> tree_rel H xs t"

definition pool_add ::
    "poseidon2 \<Rightarrow> int \<Rightarrow> merkle_account \<Rightarrow> pool_error + bytes \<times> merkle_account" where
  "pool_add hash2 leaf t = merkle_append hash2 (fe_bytes leaf) t"

interpretation pool_acc: bounded_accumulator "pool_add hash2" "pool_rel H hash2" is_field
    "2 ^ pool_merkle_depth" "pool_root H" TreeFull
  for H :: "int \<Rightarrow> int \<Rightarrow> int" and hash2 :: poseidon2
proof unfold_locales
  fix xs s x
  assume "pool_rel H hash2 xs s" "is_field x" "length xs < 2 ^ pool_merkle_depth"
  then show "\<exists>s'. pool_add hash2 x s = Inr (pool_root H (xs @ [x]), s') \<and> pool_rel H hash2 (xs @ [x]) s'"
    unfolding pool_rel_def pool_add_def using merkle_append_inr by blast
next
  fix xs s x
  assume "pool_rel H hash2 xs s" "length xs = 2 ^ pool_merkle_depth"
  then show "pool_add hash2 x s = Inl TreeFull"
    unfolding pool_rel_def pool_add_def using merkle_append_full by blast
qed

lemma pool_rel_init:
  "poseidon_parity H hash2 \<Longrightarrow> init_merkle_account hash2 denom bump = Inr t \<Longrightarrow> pool_rel H hash2 [] t"
  using init_merkle_account_inr [of H hash2 denom bump] by (auto simp: pool_rel_def)

section \<open>Properties\<close>

text \<open>A concrete hash with the parity property, for the witnesses.\<close>

definition sum_hash :: "int \<Rightarrow> int \<Rightarrow> int" where
  "sum_hash l r = (2 * l + r + 1) mod int bn254_fr"

definition sum_syscall :: poseidon2 where
  "sum_syscall l r = Inr (fe_bytes (sum_hash (int (be_val l)) (int (be_val r))))"

lemma be_val_fe_bytes: "is_field x \<Longrightarrow> int (be_val (fe_bytes x)) = x"
  using bn254_fr_256 by (simp add: fe_bytes_def be_val_be_bytes is_field_def nat_less_iff)

lemma sum_parity: "poseidon_parity sum_hash sum_syscall"
proof -
  have "0 < int bn254_fr" by (simp add: bn254_fr_def)
  then show ?thesis
    by (simp add: poseidon_parity_def sum_syscall_def be_val_fe_bytes)
       (simp add: is_field_def sum_hash_def)
qed

text \<open>
  C3. Whatever sequence of at most \<open>2 ^ 20\<close> field elements is deposited, every append of the
  on-chain program succeeds and the root it stores and returns is, byte for byte, the encoding of
  the root the SDK's tree has after inserting the same leaves.
\<close>

theorem chain_and_sdk_roots_agree:
  assumes "poseidon_parity H hash2" "init_merkle_account hash2 denom bump = Inr t"
    and "list_all is_field leaves" "length leaves \<le> 2 ^ 20"
  shows "\<exists>roots s' t'.
      feed (sdk_append H) leaves (merkle_new H 20) = Inr (roots, s')
    \<and> feed (pool_add hash2) leaves t = Inr (map fe_bytes roots, t')
    \<and> length roots = length leaves \<and> mt_leaves s' = leaves
    \<and> unat (next_leaf_index t') = length leaves"
proof -
  obtain s' where s: "feed (sdk_append H) leaves (merkle_new H 20)
      = Inr (sdk_acc.root_trace H 20 [] leaves, s')" "sdk_rel H 20 leaves s'"
    using sdk_acc.feed_ok [OF sdk_rel_new, of leaves 20 H] assms(4)
    by (auto simp: list_all_iff)
  obtain t' where t: "feed (pool_add hash2) leaves t = Inr (pool_acc.root_trace H [] leaves, t')"
      "pool_rel H hash2 leaves t'"
    using pool_acc.feed_ok [OF pool_rel_init [OF assms(1,2)] assms(3)] assms(4)
    by (auto simp: pool_depth_simps)
  have "pool_acc.root_trace H [] leaves = map fe_bytes (sdk_acc.root_trace H 20 [] leaves)"
    by (simp add: pool_acc.root_trace_def sdk_acc.root_trace_def pool_root_def pool_depth_simps)
  with s t show ?thesis
    by (auto simp: sdk_acc.root_trace_def sdk_rel_def pool_rel_def tree_rel_def)
qed

theorem chain_and_sdk_roots_agree_witness:
  "\<exists>t roots s' t'. init_merkle_account sum_syscall 1 255 = Inr t
    \<and> feed (sdk_append sum_hash) [3, 4] (merkle_new sum_hash 20) = Inr (roots, s')
    \<and> feed (pool_add sum_syscall) [3, 4] t = Inr (map fe_bytes roots, t')"
proof -
  obtain t where t: "init_merkle_account sum_syscall 1 255 = Inr t"
    using init_merkle_account_inr [OF sum_parity] by blast
  have "list_all is_field [3, 4]" by (simp add: is_field_def bn254_fr_def)
  with chain_and_sdk_roots_agree [OF sum_parity t, of "[3, 4]"] t show ?thesis by auto
qed

text \<open>
  C20. After any run of appends the program accepts exactly the last 30 roots: a root is known iff
  it is not the all-zero word and it was the tree's root within the last 30 leaves.
\<close>

theorem known_roots_are_last_30:
  assumes "poseidon_parity H hash2" "init_merkle_account hash2 denom bump = Inr t"
    and "list_all is_field leaves" "length leaves \<le> 2 ^ 20"
    and "feed (pool_add hash2) leaves t = Inr (roots, t')"
  shows "is_known_root t' r \<longleftrightarrow> r \<noteq> zeros 32 \<and> r \<in> set (drop (length roots - 30) roots)"
proof -
  have rt: "roots = pool_acc.root_trace H [] leaves" and rel: "tree_rel H leaves t'"
    using pool_acc.feed_ok [OF pool_rel_init [OF assms(1,2)] assms(3)] assms(4,5)
    by (auto simp: pool_depth_simps pool_rel_def)
  have len: "length roots = length leaves" by (simp add: rt pool_acc.root_trace_def)
  have nth: "roots ! (j - 1) = pool_root H (take j leaves)" if "0 < j" "j \<le> length leaves" for j
    using that by (cases j) (simp_all add: rt pool_acc.root_trace_def)
  have "r \<in> set (drop (length roots - 30) roots) \<longleftrightarrow>
      (\<exists>j. 0 < j \<and> j \<le> length leaves \<and> length leaves < j + 30 \<and> r = pool_root H (take j leaves))"
  proof
    assume "r \<in> set (drop (length roots - 30) roots)"
    then obtain k where k: "k < length roots - (length roots - 30)"
      "r = roots ! (length roots - 30 + k)" by (auto simp: in_set_conv_nth)
    then show "\<exists>j. 0 < j \<and> j \<le> length leaves \<and> length leaves < j + 30 \<and> r = pool_root H (take j leaves)"
      using nth [of "Suc (length roots - 30 + k)"] len
      by (intro exI [of _ "Suc (length roots - 30 + k)"]) auto
  next
    assume "\<exists>j. 0 < j \<and> j \<le> length leaves \<and> length leaves < j + 30 \<and> r = pool_root H (take j leaves)"
    then obtain j where j: "0 < j" "j \<le> length leaves" "length leaves < j + 30"
      "r = pool_root H (take j leaves)" by blast
    have "drop (length roots - 30) roots ! (j - 1 - (length roots - 30)) = r"
      using j nth [OF j(1,2)] len by simp
    moreover have "j - 1 - (length roots - 30) < length (drop (length roots - 30) roots)"
      using j len by auto
    ultimately show "r \<in> set (drop (length roots - 30) roots)" by (metis nth_mem)
  qed
  then show ?thesis by (simp add: is_known_root_iff [OF rel])
qed

theorem known_roots_are_last_30_witness:
  "\<exists>t roots t'. init_merkle_account sum_syscall 1 255 = Inr t
    \<and> feed (pool_add sum_syscall) [3, 4] t = Inr (roots, t')
    \<and> (\<forall>r. is_known_root t' r \<longleftrightarrow> r \<noteq> zeros 32 \<and> r \<in> set (drop (length roots - 30) roots))"
proof -
  obtain t where t: "init_merkle_account sum_syscall 1 255 = Inr t"
    using init_merkle_account_inr [OF sum_parity] by blast
  have f: "list_all is_field [3, 4]" by (simp add: is_field_def bn254_fr_def)
  obtain roots t' where run: "feed (pool_add sum_syscall) [3, 4] t = Inr (roots, t')"
    using pool_acc.feed_ok [OF pool_rel_init [OF sum_parity t] f] by (auto simp: pool_depth_simps)
  show ?thesis
    using known_roots_are_last_30 [OF sum_parity t f _ run] t run by auto
qed

text \<open>
  Once \<open>2 ^ 20\<close> leaves are in, the next append fails with \<open>TreeFull\<close> and the whole run is an
  error: no root beyond the tree's capacity is ever published.
\<close>

theorem pool_capacity_enforced:
  assumes "poseidon_parity H hash2" "init_merkle_account hash2 denom bump = Inr t"
    and "list_all is_field leaves" "length leaves = 2 ^ 20"
  shows "feed (pool_add hash2) (leaves @ [x]) t = Inl TreeFull"
  by (rule pool_acc.feed_overflow [OF pool_rel_init [OF assms(1,2)] assms(3)])
     (simp add: assms(4) pool_depth_simps)

theorem pool_capacity_enforced_witness:
  "\<exists>t. init_merkle_account sum_syscall 1 255 = Inr t
    \<and> feed (pool_add sum_syscall) (replicate (2 ^ 20) 3 @ [4]) t = Inl TreeFull"
proof -
  obtain t where t: "init_merkle_account sum_syscall 1 255 = Inr t"
    using init_merkle_account_inr [OF sum_parity] by blast
  have "list_all is_field (replicate n 3)" for n
    by (simp add: list_all_iff is_field_def bn254_fr_def)
  with pool_capacity_enforced [OF sum_parity t] t show ?thesis
    by (metis length_replicate)
qed

end
