(* ===== verification/Wire.thy ===== *)
theory Wire
  imports FieldCodec
begin

text \<open>
  What every wire format of the repository is written in: 32-byte public keys, account metas,
  instructions and transactions as \<open>@solana/web3.js\<close> holds them, Anchor discriminators (SHA-256 is
  a parameter), buffers filled by \<open>set\<close> calls at fixed offsets, and little-endian reads. The locale
  \<open>wire_format\<close> is the contract between a builder and the parser at the other end.
\<close>

section \<open>Keys, instructions, transactions\<close>

type_synonym pubkey = bytes

record account_meta =
  am_pubkey :: pubkey
  am_signer :: bool
  am_writable :: bool

record instruction =
  ix_program :: pubkey
  ix_keys :: "account_meta list"
  ix_data :: bytes

record transaction =
  tx_fee_payer :: "pubkey option"
  tx_instructions :: "instruction list"

definition meta :: "pubkey \<Rightarrow> bool \<Rightarrow> bool \<Rightarrow> account_meta" where
  "meta pk signer writable = \<lparr>am_pubkey = pk, am_signer = signer, am_writable = writable\<rparr>"

lemma meta_simps [simp]:
  "am_pubkey (meta pk s w) = pk" "am_signer (meta pk s w) = s" "am_writable (meta pk s w) = w"
  by (simp_all add: meta_def)

text \<open>The base58 constants of the code, decoded to their 32 bytes.\<close>

definition qietr_pool_program_id :: pubkey where
  "qietr_pool_program_id = be_bytes 32
     23669896381178218068791395295942309167255497755198068600454158371582307087104"

definition token_program_id :: pubkey where
  "token_program_id = be_bytes 32
     3106054211088883198575105191760876350940303353676611666299516346430146937001"

definition system_program_id :: pubkey where
  "system_program_id = zeros 32"

section \<open>Anchor discriminators\<close>

definition utf8_ascii :: "string \<Rightarrow> bytes" where
  "utf8_ascii s = map (\<lambda>c. word_of_nat (of_char c)) s"

text \<open>Decoding back: a string stands for its UTF-8 bytes.\<close>

definition ascii_of :: "bytes \<Rightarrow> string" where
  "ascii_of bs = map (\<lambda>b. char_of (unat b)) bs"

lemma ascii_of_utf8 [simp]: "ascii_of (utf8_ascii s) = s"
  by (induction s) (simp_all add: ascii_of_def utf8_ascii_def)

lemma length_utf8_ascii [simp]: "length (utf8_ascii s) = length s"
  by (simp add: utf8_ascii_def)

type_synonym hash_fun = "bytes \<Rightarrow> bytes"

definition anchor_ix_discriminator :: "hash_fun \<Rightarrow> string \<Rightarrow> bytes" where
  "anchor_ix_discriminator sha name = slice 0 8 (sha (utf8_ascii (''global:'' @ name)))"

definition account_disc :: "hash_fun \<Rightarrow> string \<Rightarrow> bytes" where
  "account_disc sha name = slice 0 8 (sha (utf8_ascii (''account:'' @ name)))"

text \<open>SHA-256 returns 32 bytes: all the formats need of it, besides collision-freeness where stated.\<close>

definition sha_ok :: "hash_fun \<Rightarrow> bool" where
  "sha_ok sha \<longleftrightarrow> (\<forall>x. length (sha x) = 32)"

lemma length_discs [simp]:
  assumes "sha_ok sha"
  shows "length (anchor_ix_discriminator sha name) = 8" "length (account_disc sha name) = 8"
  using assms by (simp_all add: anchor_ix_discriminator_def account_disc_def sha_ok_def)

section \<open>Filling a buffer\<close>

text \<open>Successive \<open>set(src, offset)\<close> calls at explicit offsets; \<open>None\<close> is a \<open>RangeError\<close>.\<close>

fun put_all :: "(nat \<times> bytes) list \<Rightarrow> bytes \<Rightarrow> bytes option" where
  "put_all [] dst = Some dst"
| "put_all ((off, src) # ws) dst =
     (case ta_set src off dst of None \<Rightarrow> None | Some dst' \<Rightarrow> put_all ws dst')"

fun consecutive :: "nat \<Rightarrow> bytes list \<Rightarrow> (nat \<times> bytes) list" where
  "consecutive off [] = []"
| "consecutive off (p # ps) = (off, p) # consecutive (off + length p) ps"

lemma put_all_consecutive: "put_all (consecutive off ps) dst = pack ps off dst"
  by (induction ps arbitrary: off dst) (auto split: option.split)

lemma put_all_exact:
  assumes "ws = consecutive 0 ps" "length (concat ps) = n"
  shows "put_all ws (zeros n) = Some (concat ps)"
  using assms by (simp add: put_all_consecutive pack_exact)

section \<open>Reading a buffer\<close>

definition read_u64_le :: "bytes \<Rightarrow> nat \<Rightarrow> nat" where
  "read_u64_le data off = le_val (slice off (off + 8) data)"

definition read_u16_le :: "bytes \<Rightarrow> nat \<Rightarrow> nat" where
  "read_u16_le data off = le_val (slice off (off + 2) data)"

definition read_i64_le :: "bytes \<Rightarrow> nat \<Rightarrow> int" where
  "read_i64_le data off = sint (word_of_nat (read_u64_le data off) :: 64 word)"

definition u64_le :: "int \<Rightarrow> bytes" where
  "u64_le n = le_bytes 8 (nat (n mod 2 ^ 64))"

definition i64_le :: "64 word \<Rightarrow> bytes" where
  "i64_le w = le_bytes 8 (unat w)"

lemma length_u64_le [simp]: "length (u64_le n) = 8" "length (i64_le w) = 8"
  by (simp_all add: u64_le_def i64_le_def)

lemma le_val_u64_le: "int (le_val (u64_le n)) = n mod 2 ^ 64"
  by (simp add: u64_le_def le_val_le_bytes nat_mod_distrib)

lemma le_val_i64_le: "le_val (i64_le w) = unat w"
proof -
  have "unat w < 2 ^ 64" using unsigned_less [of w] by simp
  then show ?thesis by (simp add: i64_le_def le_val_le_bytes)
qed

lemma to_u8_and_ff: "to_u8 (js_and d 0xff) = word_of_int d"
proof -
  have m: "(0xff :: 32 word) = mask 8" by (simp add: mask_eq_exp_minus_1)
  have "word_of_int (sint (word_of_int d AND 0xff :: 32 word)) = (word_of_int d :: byte)"
    unfolding m by (rule bit_word_eqI) (auto simp: bit_simps)
  then show ?thesis by (simp add: to_u8_def js_and_def to_int32_def)
qed

section \<open>Builders and parsers\<close>

text \<open>
  The contract of a wire format: the builder \<open>enc\<close> writes at least \<open>len\<close> bytes, and the parser
  \<open>dec\<close>, reading from the start of a buffer that may go on, returns exactly what the message
  carries for it (\<open>view\<close>); buffers that are too short it refuses.
\<close>

locale wire_format =
  fixes enc :: "'a \<Rightarrow> bytes"
    and dec :: "bytes \<Rightarrow> 'b option"
    and view :: "'a \<Rightarrow> 'b"
    and wf :: "'a \<Rightarrow> bool"
    and len :: nat
  assumes enc_length: "wf a \<Longrightarrow> length (enc a) = len"
    and dec_enc: "wf a \<Longrightarrow> dec (enc a @ rest) = Some (view a)"
    and dec_short: "length bs < len \<Longrightarrow> dec bs = None"
begin

lemma roundtrip: "wf a \<Longrightarrow> dec (enc a) = Some (view a)"
  using dec_enc [of a "[]"] by simp

lemma truncated: "wf a \<Longrightarrow> k < len \<Longrightarrow> dec (take k (enc a)) = None"
  by (rule dec_short) (simp add: enc_length)

lemma unambiguous: "wf a \<Longrightarrow> wf b \<Longrightarrow> enc a @ r = enc b @ r' \<Longrightarrow> view a = view b"
  by (metis dec_enc option.inject)

end

text \<open>Two formats told apart by the first bytes they write are never confused by their parsers.\<close>

locale tagged_format = wire_format +
  fixes tag :: bytes
  assumes enc_tag: "wf a \<Longrightarrow> take (length tag) (enc a) = tag"
    and dec_tag: "take (length tag) bs \<noteq> tag \<Longrightarrow> dec bs = None"
begin

lemma foreign: "take (length tag) (bs @ rest) \<noteq> tag \<Longrightarrow> dec (bs @ rest) = None"
  by (rule dec_tag)

end

end
