(* ===== verification/PoolInstructions.thy ===== *)
theory PoolInstructions
  imports Wire
begin

text \<open>
  \<open>qietr-sdk/src/program.ts\<close>: PDA derivations and instruction builders for the pool program.
  \<open>sha\<close> is SHA-256 and \<open>fpa\<close> is \<open>PublicKey.findProgramAddressSync\<close>, both third-party.
\<close>

type_synonym pda_fun = "bytes list \<Rightarrow> pubkey \<Rightarrow> pubkey \<times> nat"

datatype sdk_wire_error =
    NullifierHashLength nat
  | ProofLength nat
  | SignalCount nat
  | SignalLength nat nat
  | CommitmentLength nat
  | NonceLength nat
  | BodyTooLong
  | RangeError

definition denom_byte :: "int \<Rightarrow> byte" where
  "denom_byte denom_id = to_u8 (js_and denom_id 0xff)"

lemma denom_byte_eq: "denom_byte d = word_of_int d"
  by (simp add: denom_byte_def to_u8_and_ff)

section \<open>PDA derivations\<close>

definition find_pool_config_pda :: "pda_fun \<Rightarrow> pubkey \<Rightarrow> pubkey \<times> nat" where
  "find_pool_config_pda fpa program_id = fpa [utf8_ascii ''config''] program_id"

definition find_denomination_pda :: "pda_fun \<Rightarrow> int \<Rightarrow> pubkey \<Rightarrow> pubkey \<times> nat" where
  "find_denomination_pda fpa denom_id program_id =
     fpa [utf8_ascii ''denom'', [denom_byte denom_id]] program_id"

definition find_merkle_tree_pda :: "pda_fun \<Rightarrow> int \<Rightarrow> pubkey \<Rightarrow> pubkey \<times> nat" where
  "find_merkle_tree_pda fpa denom_id program_id =
     fpa [utf8_ascii ''tree'', [denom_byte denom_id]] program_id"

definition find_vault_pda :: "pda_fun \<Rightarrow> int \<Rightarrow> pubkey \<Rightarrow> pubkey \<times> nat" where
  "find_vault_pda fpa denom_id program_id =
     fpa [utf8_ascii ''vault'', [denom_byte denom_id]] program_id"

definition find_nullifier_pda ::
    "pda_fun \<Rightarrow> int \<Rightarrow> bytes \<Rightarrow> pubkey \<Rightarrow> sdk_wire_error + pubkey \<times> nat" where
  "find_nullifier_pda fpa denom_id nullifier_hash_be program_id =
     (if length nullifier_hash_be \<noteq> 32 then Inl (NullifierHashLength (length nullifier_hash_be))
      else Inr (fpa [utf8_ascii ''nullifier'', [denom_byte denom_id], nullifier_hash_be] program_id))"

section \<open>Instruction builders\<close>

definition build_transfer_ix ::
    "pubkey \<Rightarrow> pubkey \<Rightarrow> pubkey \<Rightarrow> int \<Rightarrow> pubkey \<Rightarrow> sdk_wire_error + instruction" where
  "build_transfer_ix source destination authority amount_micro token_program =
     bindE (optE RangeError (put_all [(0, [3]), (1, u64_le amount_micro)] (zeros (1 + 8)))) (\<lambda>data.
     Inr \<lparr>ix_program = token_program,
          ix_keys = [meta source False True, meta destination False True, meta authority True False],
          ix_data = data\<rparr>)"

record set_fee_vault_accounts =
  sfv_config :: pubkey
  sfv_admin :: pubkey
  sfv_fee_vault :: pubkey

definition build_set_fee_vault_ix ::
    "hash_fun \<Rightarrow> set_fee_vault_accounts \<Rightarrow> pubkey \<Rightarrow> instruction" where
  "build_set_fee_vault_ix sha accts program_id =
     \<lparr>ix_program = program_id,
      ix_keys = [meta (sfv_config accts) False True, meta (sfv_admin accts) True False,
                 meta (sfv_fee_vault accts) False False],
      ix_data = anchor_ix_discriminator sha ''set_fee_vault''\<rparr>"

record deposit_accounts =
  da_config :: pubkey
  da_denomination :: pubkey
  da_tree :: pubkey
  da_vault :: pubkey
  da_depositor_ata :: pubkey
  da_depositor :: pubkey
  da_token_program :: "pubkey option"

definition default_to :: "'a \<Rightarrow> 'a option \<Rightarrow> 'a" where
  "default_to d x = (case x of None \<Rightarrow> d | Some a \<Rightarrow> a)"

definition build_deposit_ix ::
    "hash_fun \<Rightarrow> int \<Rightarrow> bytes \<Rightarrow> deposit_accounts \<Rightarrow> pubkey \<Rightarrow> sdk_wire_error + instruction" where
  "build_deposit_ix sha denom_id commitment_be accts program_id =
     (if length commitment_be \<noteq> 32 then Inl (CommitmentLength (length commitment_be))
      else bindE (optE RangeError
             (put_all [(0, anchor_ix_discriminator sha ''deposit''), (8, [denom_byte denom_id]),
                       (9, commitment_be)] (zeros (8 + 1 + 32)))) (\<lambda>data.
           Inr \<lparr>ix_program = program_id,
                ix_keys = [meta (da_config accts) False False,
                           meta (da_denomination accts) False True,
                           meta (da_tree accts) False True,
                           meta (da_vault accts) False True,
                           meta (da_depositor_ata accts) False True,
                           meta (da_depositor accts) True True,
                           meta (default_to token_program_id (da_token_program accts)) False False],
                ix_data = data\<rparr>))"

record withdraw_accounts =
  wa_config :: pubkey
  wa_denomination :: pubkey
  wa_tree :: pubkey
  wa_vault :: pubkey
  wa_nullifier :: pubkey
  wa_recipient_ata :: pubkey
  wa_fee_payer :: pubkey
  wa_fee_vault :: "pubkey option"
  wa_token_program :: "pubkey option"
  wa_system_program :: "pubkey option"

fun check_signals :: "nat \<Rightarrow> bytes list \<Rightarrow> sdk_wire_error + unit" where
  "check_signals i [] = Inr ()"
| "check_signals i (ps # rest) =
     bindE (guardE (length ps = 32) (SignalLength i (length ps))) (\<lambda>_. check_signals (Suc i) rest)"

fun signal_writes :: "nat \<Rightarrow> bytes list \<Rightarrow> (nat \<times> bytes) list" where
  "signal_writes off [] = []"
| "signal_writes off (ps # rest) = (off, ps) # signal_writes (off + 32) rest"

definition build_withdraw_ix ::
    "hash_fun \<Rightarrow> int \<Rightarrow> bytes \<Rightarrow> bytes \<Rightarrow> bytes list \<Rightarrow> withdraw_accounts \<Rightarrow> pubkey
      \<Rightarrow> sdk_wire_error + instruction" where
  "build_withdraw_ix sha denom_id nullifier_hash_be proof_bytes public_signals accts program_id =
     bindE (guardE (length nullifier_hash_be = 32) (NullifierHashLength (length nullifier_hash_be))) (\<lambda>_.
     bindE (guardE (length proof_bytes = 256) (ProofLength (length proof_bytes))) (\<lambda>_.
     bindE (guardE (length public_signals = 6) (SignalCount (length public_signals))) (\<lambda>_.
     bindE (check_signals 0 public_signals) (\<lambda>_.
     bindE (optE RangeError
       (put_all ([(0, anchor_ix_discriminator sha ''withdraw''), (8, [denom_byte denom_id]),
                  (9, nullifier_hash_be), (41, proof_bytes)] @ signal_writes 297 public_signals)
          (zeros (8 + 1 + 32 + 256 + 192)))) (\<lambda>data.
     Inr \<lparr>ix_program = program_id,
          ix_keys = [meta (wa_config accts) False False,
                     meta (wa_denomination accts) False False,
                     meta (wa_tree accts) False True,
                     meta (wa_vault accts) False True,
                     meta (wa_nullifier accts) False True,
                     meta (wa_recipient_ata accts) False True,
                     meta (default_to program_id (wa_fee_vault accts)) False (wa_fee_vault accts \<noteq> None),
                     meta (wa_fee_payer accts) True True,
                     meta (default_to token_program_id (wa_token_program accts)) False False,
                     meta (default_to system_program_id (wa_system_program accts)) False False],
          ix_data = data\<rparr>)))))"

section \<open>What the builders write\<close>

lemma build_transfer_ix_inr:
  "build_transfer_ix src dst auth amount tp = Inr \<lparr>ix_program = tp,
     ix_keys = [meta src False True, meta dst False True, meta auth True False],
     ix_data = [3] @ u64_le amount\<rparr>"
  using put_all_exact [of "[(0, [3]), (1, u64_le amount)]" "[[3], u64_le amount]" 9]
  by (simp add: build_transfer_ix_def)

definition deposit_bytes :: "hash_fun \<Rightarrow> int \<Rightarrow> bytes \<Rightarrow> bytes" where
  "deposit_bytes sha denom_id commitment_be =
     anchor_ix_discriminator sha ''deposit'' @ [word_of_int denom_id] @ commitment_be"

lemma build_deposit_ix_eq:
  assumes "sha_ok sha" "length c = 32"
  shows "build_deposit_ix sha d c accts pid = Inr \<lparr>ix_program = pid,
     ix_keys = [meta (da_config accts) False False, meta (da_denomination accts) False True, meta (da_tree accts) False True,
       meta (da_vault accts) False True, meta (da_depositor_ata accts) False True, meta (da_depositor accts) True True,
       meta (default_to token_program_id (da_token_program accts)) False False],
     ix_data = deposit_bytes sha d c\<rparr>"
  using assms put_all_exact [of "[(0, anchor_ix_discriminator sha ''deposit''), (8, [denom_byte d]), (9, c)]"
      "[anchor_ix_discriminator sha ''deposit'', [denom_byte d], c]" 41]
  by (simp add: build_deposit_ix_def deposit_bytes_def denom_byte_eq)

lemma build_deposit_ix_inr:
  assumes "sha_ok sha" "length c = 32"
  shows "\<exists>keys. build_deposit_ix sha d c accts pid =
     Inr \<lparr>ix_program = pid, ix_keys = keys, ix_data = deposit_bytes sha d c\<rparr>
     \<and> length keys = 7 \<and> am_pubkey (keys ! 4) = da_depositor_ata accts
     \<and> am_pubkey (keys ! 5) = da_depositor accts"
  using build_deposit_ix_eq [OF assms] by simp

definition withdraw_bytes :: "hash_fun \<Rightarrow> int \<Rightarrow> bytes \<Rightarrow> bytes \<Rightarrow> bytes list \<Rightarrow> bytes" where
  "withdraw_bytes sha denom_id nul pf sigs =
     anchor_ix_discriminator sha ''withdraw'' @ [word_of_int denom_id] @ nul @ pf @ concat sigs"

lemma check_signals_ok: "list_all (\<lambda>s. length s = 32) sigs \<Longrightarrow> check_signals i sigs = Inr ()"
  by (induction sigs arbitrary: i) auto

lemma signal_writes_consecutive:
  "list_all (\<lambda>s. length s = 32) sigs \<Longrightarrow> signal_writes off sigs = consecutive off sigs"
  by (induction sigs arbitrary: off) auto

lemma length_concat_const: "list_all (\<lambda>s. length s = n) xss \<Longrightarrow> length (concat xss) = n * length xss"
  by (induction xss) auto

definition withdraw_metas :: "withdraw_accounts \<Rightarrow> pubkey \<Rightarrow> account_meta list" where
  "withdraw_metas accts pid =
     [meta (wa_config accts) False False, meta (wa_denomination accts) False False, meta (wa_tree accts) False True,
      meta (wa_vault accts) False True, meta (wa_nullifier accts) False True, meta (wa_recipient_ata accts) False True,
      meta (default_to pid (wa_fee_vault accts)) False (wa_fee_vault accts \<noteq> None), meta (wa_fee_payer accts) True True,
      meta (default_to token_program_id (wa_token_program accts)) False False,
      meta (default_to system_program_id (wa_system_program accts)) False False]"

lemma build_withdraw_ix_eq:
  assumes "sha_ok sha" "length nul = 32" "length pf = 256" "length sigs = 6"
    and "list_all (\<lambda>s. length s = 32) sigs"
  shows "build_withdraw_ix sha d nul pf sigs accts pid =
     Inr \<lparr>ix_program = pid, ix_keys = withdraw_metas accts pid, ix_data = withdraw_bytes sha d nul pf sigs\<rparr>"
proof -
  let ?ps = "[anchor_ix_discriminator sha ''withdraw'', [denom_byte d], nul, pf] @ sigs"
  have "put_all ([(0, anchor_ix_discriminator sha ''withdraw''), (8, [denom_byte d]), (9, nul), (41, pf)]
      @ signal_writes 297 sigs) (zeros 489) = Some (concat ?ps)"
    by (rule put_all_exact)
       (use assms length_concat_const [OF assms(5)] in \<open>simp_all add: signal_writes_consecutive\<close>)
  then show ?thesis
    using assms(2-4) check_signals_ok [OF assms(5)]
    by (simp add: build_withdraw_ix_def withdraw_bytes_def withdraw_metas_def denom_byte_eq)
qed

lemma build_withdraw_ix_inr:
  assumes "sha_ok sha" "length nul = 32" "length pf = 256" "length sigs = 6"
    and "list_all (\<lambda>s. length s = 32) sigs"
  shows "\<exists>keys. build_withdraw_ix sha d nul pf sigs accts pid =
     Inr \<lparr>ix_program = pid, ix_keys = keys, ix_data = withdraw_bytes sha d nul pf sigs\<rparr>
     \<and> length keys = 10 \<and> am_pubkey (keys ! 5) = wa_recipient_ata accts
     \<and> am_pubkey (keys ! 7) = wa_fee_payer accts"
  using build_withdraw_ix_eq [OF assms] by (simp add: withdraw_metas_def)

text \<open>The exact failure conditions of the two pool builders.\<close>

lemma check_signals_Inr_iff: "check_signals i sigs = Inr u \<longleftrightarrow> list_all (\<lambda>s. length s = 32) sigs"
  by (induction sigs arbitrary: i) (auto simp: res_simps)

lemma build_withdraw_ix_succeeds_iff:
  assumes "sha_ok sha"
  shows "(\<exists>ix. build_withdraw_ix sha d nul pf sigs accts pid = Inr ix) \<longleftrightarrow>
     length nul = 32 \<and> length pf = 256 \<and> length sigs = 6 \<and> list_all (\<lambda>s. length s = 32) sigs"
proof
  assume "\<exists>ix. build_withdraw_ix sha d nul pf sigs accts pid = Inr ix"
  then show "length nul = 32 \<and> length pf = 256 \<and> length sigs = 6 \<and> list_all (\<lambda>s. length s = 32) sigs"
    by (auto simp: build_withdraw_ix_def bindE_Inr_iff guardE_Inr_iff check_signals_Inr_iff)
next
  assume "length nul = 32 \<and> length pf = 256 \<and> length sigs = 6 \<and> list_all (\<lambda>s. length s = 32) sigs"
  then show "\<exists>ix. build_withdraw_ix sha d nul pf sigs accts pid = Inr ix"
    using build_withdraw_ix_inr [OF assms] by blast
qed

end
