(* ===== verification/PoolDecode.thy ===== *)
theory PoolDecode
  imports PoolMerkle PoolInstructions
begin

text \<open>
  \<open>qietr-indexer/poller/src/decode.ts\<close>, the indexer's view of pool accounts and instructions, and
  the borsh layouts of \<open>qietr_pool/src/state.rs\<close> it has to agree with. Each parser is shown to
  invert what the program stores or what the SDK's builders of \<open>PoolInstructions\<close> write.
\<close>

section \<open>Account kinds\<close>

datatype account_kind = KPoolConfig | KDenomination | KMerkleTree | KNullifierRecord

definition account_kind :: "hash_fun \<Rightarrow> bytes \<Rightarrow> account_kind option" where
  "account_kind sha data =
     (if length data < 8 then None
      else let head = slice 0 8 data in
           if head = account_disc sha ''PoolConfig'' then Some KPoolConfig
           else if head = account_disc sha ''Denomination'' then Some KDenomination
           else if head = account_disc sha ''MerkleTree'' then Some KMerkleTree
           else if head = account_disc sha ''NullifierRecord'' then Some KNullifierRecord
           else None)"

section \<open>Account decoders\<close>

record denomination_view =
  dv_denom_id :: byte
  dv_amount :: nat
  dv_deposit_count :: nat
  dv_vault :: bytes

definition decode_denomination :: "bytes \<Rightarrow> denomination_view option" where
  "decode_denomination data =
     (if length data < 8 + 1 + 8 + 8 + 32 + 32 + 1 + 1 then None
      else Some \<lparr>dv_denom_id = data ! 8, dv_amount = read_u64_le data 9,
                 dv_deposit_count = read_u64_le data 17, dv_vault = slice 25 (25 + 32) data\<rparr>)"

record merkle_tree_view =
  mv_denom_id :: byte
  mv_next_leaf_index :: nat
  mv_root_cursor :: byte
  mv_latest_root :: "bytes option"

definition decode_merkle_tree :: "bytes \<Rightarrow> merkle_tree_view option" where
  "decode_merkle_tree data =
     (let filled_len = 32 * pool_merkle_depth; history_len = 32 * root_history_len;
          min_len = 8 + 1 + 8 + filled_len + history_len + 1 + 1 + 32 * pool_merkle_depth
      in if length data < min_len then None
         else let history_start = 17 + filled_len;
                  root_cursor = data ! (history_start + history_len);
                  latest = (if unat root_cursor < root_history_len
                            then let start = history_start + unat root_cursor * 32
                                 in Some (slice start (start + 32) data)
                            else None)
              in Some \<lparr>mv_denom_id = data ! 8, mv_next_leaf_index = read_u64_le data 9,
                       mv_root_cursor = root_cursor, mv_latest_root = latest\<rparr>)"

record nullifier_view =
  nv_denom_id :: byte
  nv_nullifier_hash :: bytes
  nv_spent_at_slot :: nat

definition decode_nullifier_record :: "bytes \<Rightarrow> nullifier_view option" where
  "decode_nullifier_record data =
     (if length data < 8 + 1 + 32 + 8 + 1 then None
      else Some \<lparr>nv_denom_id = data ! 8, nv_nullifier_hash = slice 9 (9 + 32) data,
                 nv_spent_at_slot = read_u64_le data 41\<rparr>)"

section \<open>Instruction parsers\<close>

record commitment_ix =
  ci_denom_id :: byte
  ci_commitment :: bytes

definition parse_deposit_ix :: "hash_fun \<Rightarrow> bytes \<Rightarrow> commitment_ix option" where
  "parse_deposit_ix sha data =
     (if length data < 8 + 1 + 32 then None
      else if slice 0 8 data \<noteq> anchor_ix_discriminator sha ''deposit'' then None
      else Some \<lparr>ci_denom_id = data ! 8, ci_commitment = slice 9 (9 + 32) data\<rparr>)"

definition withdraw_change_offset :: nat where
  "withdraw_change_offset = 8 + 1 + 32 + 256 + 5 * 32"

definition withdraw_min_len :: nat where
  "withdraw_min_len = 8 + 1 + 32 + 256 + 6 * 32"

definition parse_withdraw_ix :: "hash_fun \<Rightarrow> bytes \<Rightarrow> commitment_ix option" where
  "parse_withdraw_ix sha data =
     (if length data < withdraw_min_len then None
      else if slice 0 8 data \<noteq> anchor_ix_discriminator sha ''withdraw'' then None
      else Some \<lparr>ci_denom_id = data ! 8,
                 ci_commitment = slice withdraw_change_offset (withdraw_change_offset + 32) data\<rparr>)"

section \<open>The on-chain layouts\<close>

record denomination_account =
  dn_denom_id :: byte
  dn_amount :: u64
  dn_deposit_count :: u64
  dn_vault :: pubkey
  dn_mint :: pubkey
  dn_vault_bump :: byte
  dn_bump :: byte

definition denomination_layout :: "hash_fun \<Rightarrow> denomination_account \<Rightarrow> bytes" where
  "denomination_layout sha a = account_disc sha ''Denomination'' @ [dn_denom_id a] @ i64_le (dn_amount a)
     @ i64_le (dn_deposit_count a) @ dn_vault a @ dn_mint a @ [dn_vault_bump a] @ [dn_bump a]"

definition denomination_view :: "denomination_account \<Rightarrow> denomination_view" where
  "denomination_view a = \<lparr>dv_denom_id = dn_denom_id a, dv_amount = unat (dn_amount a),
     dv_deposit_count = unat (dn_deposit_count a), dv_vault = dn_vault a\<rparr>"

record nullifier_account =
  nr_denom_id :: byte
  nr_nullifier_hash :: bytes
  nr_spent_at_slot :: u64
  nr_bump :: byte

definition nullifier_layout :: "hash_fun \<Rightarrow> nullifier_account \<Rightarrow> bytes" where
  "nullifier_layout sha a = account_disc sha ''NullifierRecord'' @ [nr_denom_id a]
     @ nr_nullifier_hash a @ i64_le (nr_spent_at_slot a) @ [nr_bump a]"

definition nullifier_view :: "nullifier_account \<Rightarrow> nullifier_view" where
  "nullifier_view a = \<lparr>nv_denom_id = nr_denom_id a, nv_nullifier_hash = nr_nullifier_hash a,
     nv_spent_at_slot = unat (nr_spent_at_slot a)\<rparr>"

definition merkle_layout :: "hash_fun \<Rightarrow> merkle_account \<Rightarrow> bytes" where
  "merkle_layout sha t = account_disc sha ''MerkleTree'' @ [ma_denom_id t] @ i64_le (next_leaf_index t)
     @ concat (filled_subtree t) @ concat (root_history t) @ [root_cursor t] @ [ma_bump t]
     @ concat (zero_hashes_tab t)"

definition merkle_view :: "merkle_account \<Rightarrow> merkle_tree_view" where
  "merkle_view t = \<lparr>mv_denom_id = ma_denom_id t, mv_next_leaf_index = unat (next_leaf_index t),
     mv_root_cursor = root_cursor t,
     mv_latest_root = (if unat (root_cursor t) < root_history_len
                       then Some (root_history t ! unat (root_cursor t)) else None)\<rparr>"

definition merkle_sized :: "merkle_account \<Rightarrow> bool" where
  "merkle_sized t \<longleftrightarrow> length (filled_subtree t) = pool_merkle_depth
     \<and> length (root_history t) = root_history_len \<and> length (zero_hashes_tab t) = pool_merkle_depth
     \<and> list_all (\<lambda>w. length w = 32) (filled_subtree t @ root_history t @ zero_hashes_tab t)"

section \<open>Each decoder inverts its layout\<close>

text \<open>No two of the four account kinds share a discriminator (SHA-256 does not collide on them).\<close>

definition kinds_distinct :: "hash_fun \<Rightarrow> bool" where
  "kinds_distinct sha \<longleftrightarrow> distinct [account_disc sha ''PoolConfig'', account_disc sha ''Denomination'',
     account_disc sha ''MerkleTree'', account_disc sha ''NullifierRecord'']"

definition decode_as :: "hash_fun \<Rightarrow> account_kind \<Rightarrow> (bytes \<Rightarrow> 'a option) \<Rightarrow> bytes \<Rightarrow> 'a option" where
  "decode_as sha k dec data = (if account_kind sha data = Some k then dec data else None)"

lemma nth_after: "length xs = n \<Longrightarrow> (xs @ y # ys) ! n = y"
  by (simp add: nth_append)

lemma slice_after: "length xs = b \<Longrightarrow> length ys = k \<Longrightarrow> slice b (b + k) (xs @ ys @ zs) = ys"
  by (simp add: slice_append_mid)

lemma read_u64_after: "length xs = b \<Longrightarrow> read_u64_le (xs @ i64_le w @ zs) b = unat w"
  using slice_after [of xs b "i64_le w" 8 zs] by (simp add: read_u64_le_def le_val_i64_le)

text \<open>Slot \<open>k\<close> of an array of equally sized words.\<close>

lemma slice_concat_nth:
  assumes "list_all (\<lambda>w. length w = n) ws" "k < length ws"
  shows "slice (k * n) (k * n + n) (concat ws) = ws ! k"
  using assms
proof (induction ws arbitrary: k)
  case Nil
  then show ?case by simp
next
  case (Cons w ws)
  then show ?case
    by (cases k) (auto simp: slice_append_left slice_append_right slice_full add.commute [of n])
qed

lemma slice_head_tag: "slice 0 8 bs = d \<Longrightarrow> \<not> length bs < 8 \<Longrightarrow> take (length d) bs = d"
  by (auto simp: slice_def)

lemma slice_in_block:
  assumes "length xs = a" "b + k \<le> length ys"
  shows "slice (a + b) (a + b + k) (xs @ ys @ zs) = slice b (b + k) ys"
  using assms by (simp add: slice_append_right slice_append_left)

lemma decode_as_foreign:
  assumes "take (length (account_disc sha nm)) bs \<noteq> account_disc sha nm"
    and "(k, nm) \<in> {(KPoolConfig, ''PoolConfig''), (KDenomination, ''Denomination''),
           (KMerkleTree, ''MerkleTree''), (KNullifierRecord, ''NullifierRecord'')}"
  shows "decode_as sha k dec bs = None"
proof -
  have "account_kind sha bs \<noteq> Some k"
    using assms slice_head_tag [of bs "account_disc sha nm"]
    by (auto simp: account_kind_def Let_def split: if_splits)
  then show ?thesis by (simp add: decode_as_def)
qed

lemma slice_0_append: "length d = 8 \<Longrightarrow> slice 0 8 (d @ xs) = d"
  by (simp add: slice_def)

interpretation denomination_wire: tagged_format "denomination_layout sha"
    "decode_as sha KDenomination decode_denomination" denomination_view
    "\<lambda>a. sha_ok sha \<and> kinds_distinct sha \<and> length (dn_vault a) = 32 \<and> length (dn_mint a) = 32" 91
    "account_disc sha ''Denomination''"
  for sha :: hash_fun
proof unfold_locales
  fix a :: denomination_account and rest
  let ?d = "account_disc sha ''Denomination''"
  assume wf: "sha_ok sha \<and> kinds_distinct sha \<and> length (dn_vault a) = 32 \<and> length (dn_mint a) = 32"
  then show "length (denomination_layout sha a) = 91" by (simp add: denomination_layout_def)
  show "take (length ?d) (denomination_layout sha a) = ?d" by (simp add: denomination_layout_def)
  let ?data = "denomination_layout sha a @ rest"
  have kind: "account_kind sha ?data = Some KDenomination"
    using wf by (auto simp: account_kind_def denomination_layout_def slice_0_append kinds_distinct_def)
  have "?data ! 8 = dn_denom_id a" using wf by (simp add: denomination_layout_def nth_after)
  moreover have "read_u64_le ?data 9 = unat (dn_amount a)"
    using wf read_u64_after [of "?d @ [dn_denom_id a]" 9] by (simp add: denomination_layout_def)
  moreover have "read_u64_le ?data 17 = unat (dn_deposit_count a)"
    using wf read_u64_after [of "?d @ [dn_denom_id a] @ i64_le (dn_amount a)" 17]
    by (simp add: denomination_layout_def)
  moreover have "slice 25 57 ?data = dn_vault a"
    using wf slice_after [of "?d @ [dn_denom_id a] @ i64_le (dn_amount a) @ i64_le (dn_deposit_count a)"
        25 "dn_vault a" 32] by (simp add: denomination_layout_def)
  ultimately show "decode_as sha KDenomination decode_denomination ?data = Some (denomination_view a)"
    using wf kind
    by (simp add: decode_as_def decode_denomination_def denomination_view_def denomination_layout_def)
next
  fix bs :: bytes
  show "length bs < 91 \<Longrightarrow> decode_as sha KDenomination decode_denomination bs = None"
    by (simp add: decode_as_def decode_denomination_def)
  show "take (length (account_disc sha ''Denomination'')) bs \<noteq> account_disc sha ''Denomination'' \<Longrightarrow>
      decode_as sha KDenomination decode_denomination bs = None"
    by (rule decode_as_foreign) simp_all
qed

interpretation nullifier_wire: tagged_format "nullifier_layout sha"
    "decode_as sha KNullifierRecord decode_nullifier_record" nullifier_view
    "\<lambda>a. sha_ok sha \<and> kinds_distinct sha \<and> length (nr_nullifier_hash a) = 32" 50
    "account_disc sha ''NullifierRecord''"
  for sha :: hash_fun
proof unfold_locales
  fix a :: nullifier_account and rest
  let ?d = "account_disc sha ''NullifierRecord''"
  assume wf: "sha_ok sha \<and> kinds_distinct sha \<and> length (nr_nullifier_hash a) = 32"
  then show "length (nullifier_layout sha a) = 50" by (simp add: nullifier_layout_def)
  show "take (length ?d) (nullifier_layout sha a) = ?d" by (simp add: nullifier_layout_def)
  let ?data = "nullifier_layout sha a @ rest"
  have kind: "account_kind sha ?data = Some KNullifierRecord"
    using wf by (auto simp: account_kind_def nullifier_layout_def slice_0_append kinds_distinct_def)
  have "?data ! 8 = nr_denom_id a" using wf by (simp add: nullifier_layout_def nth_after)
  moreover have "slice 9 41 ?data = nr_nullifier_hash a"
    using wf slice_after [of "?d @ [nr_denom_id a]" 9 "nr_nullifier_hash a" 32]
    by (simp add: nullifier_layout_def)
  moreover have "read_u64_le ?data 41 = unat (nr_spent_at_slot a)"
    using wf read_u64_after [of "?d @ [nr_denom_id a] @ nr_nullifier_hash a" 41]
    by (simp add: nullifier_layout_def)
  ultimately show "decode_as sha KNullifierRecord decode_nullifier_record ?data = Some (nullifier_view a)"
    using wf kind
    by (simp add: decode_as_def decode_nullifier_record_def nullifier_view_def nullifier_layout_def)
next
  fix bs :: bytes
  show "length bs < 50 \<Longrightarrow> decode_as sha KNullifierRecord decode_nullifier_record bs = None"
    by (simp add: decode_as_def decode_nullifier_record_def)
  show "take (length (account_disc sha ''NullifierRecord'')) bs \<noteq> account_disc sha ''NullifierRecord'' \<Longrightarrow>
      decode_as sha KNullifierRecord decode_nullifier_record bs = None"
    by (rule decode_as_foreign) simp_all
qed

lemma list_all_concat_length:
  "merkle_sized t \<Longrightarrow> length (concat (filled_subtree t)) = 640 \<and> length (concat (root_history t)) = 960
     \<and> length (concat (zero_hashes_tab t)) = 640"
  using length_concat_const [of 32 "filled_subtree t"] length_concat_const [of 32 "root_history t"]
    length_concat_const [of 32 "zero_hashes_tab t"]
  by (simp add: merkle_sized_def pool_depth_simps)

interpretation merkle_wire: tagged_format "merkle_layout sha"
    "decode_as sha KMerkleTree decode_merkle_tree" merkle_view
    "\<lambda>t. sha_ok sha \<and> kinds_distinct sha \<and> merkle_sized t" 2259 "account_disc sha ''MerkleTree''"
  for sha :: hash_fun
proof unfold_locales
  fix t :: merkle_account and rest
  let ?d = "account_disc sha ''MerkleTree''"
  assume wf: "sha_ok sha \<and> kinds_distinct sha \<and> merkle_sized t"
  note lens = list_all_concat_length [of t]
  show len: "length (merkle_layout sha t) = 2259" using wf lens by (simp add: merkle_layout_def)
  show "take (length ?d) (merkle_layout sha t) = ?d" by (simp add: merkle_layout_def)
  let ?data = "merkle_layout sha t @ rest"
  have kind: "account_kind sha ?data = Some KMerkleTree"
    using wf by (auto simp: account_kind_def merkle_layout_def slice_0_append kinds_distinct_def)
  have "?data ! 8 = ma_denom_id t" using wf by (simp add: merkle_layout_def nth_after)
  moreover have "read_u64_le ?data 9 = unat (next_leaf_index t)"
    using wf read_u64_after [of "?d @ [ma_denom_id t]" 9] by (simp add: merkle_layout_def)
  moreover have "?data ! 1617 = root_cursor t"
    using wf lens nth_after [of "?d @ [ma_denom_id t] @ i64_le (next_leaf_index t)
        @ concat (filled_subtree t) @ concat (root_history t)" 1617 "root_cursor t"]
    by (simp add: merkle_layout_def)
  moreover have "slice (657 + k * 32) (657 + k * 32 + 32) ?data = root_history t ! k" if k: "k < 30" for k
  proof -
    have rh: "list_all (\<lambda>w. length w = 32) (root_history t)" "length (root_history t) = 30"
      using wf by (simp_all add: merkle_sized_def pool_depth_simps)
    have "slice (657 + k * 32) (657 + k * 32 + 32) ?data
        = slice (k * 32) (k * 32 + 32) (concat (root_history t))"
      using wf lens k slice_in_block [of "?d @ [ma_denom_id t] @ i64_le (next_leaf_index t)
        @ concat (filled_subtree t)" 657 "k * 32" 32 "concat (root_history t)"]
      by (simp add: merkle_layout_def)
    with slice_concat_nth [OF rh(1)] k rh(2) show ?thesis by simp
  qed
  ultimately show "decode_as sha KMerkleTree decode_merkle_tree ?data = Some (merkle_view t)"
    using kind len
    by (simp add: decode_as_def decode_merkle_tree_def merkle_view_def pool_depth_simps Let_def)
next
  fix bs :: bytes
  show "length bs < 2259 \<Longrightarrow> decode_as sha KMerkleTree decode_merkle_tree bs = None"
    by (simp add: decode_as_def decode_merkle_tree_def pool_depth_simps)
  show "take (length (account_disc sha ''MerkleTree'')) bs \<noteq> account_disc sha ''MerkleTree'' \<Longrightarrow>
      decode_as sha KMerkleTree decode_merkle_tree bs = None"
    by (rule decode_as_foreign) simp_all
qed

section \<open>Each instruction parser inverts the SDK's builder\<close>

definition ix_bytes :: "'e + instruction \<Rightarrow> bytes" where
  "ix_bytes r = (case r of Inl e \<Rightarrow> [] | Inr ix \<Rightarrow> ix_data ix)"

interpretation deposit_wire: tagged_format
    "\<lambda>(d, c, accts, pid). ix_bytes (build_deposit_ix sha d c accts pid)"
    "parse_deposit_ix sha" "\<lambda>(d, c, _, _). \<lparr>ci_denom_id = word_of_int d, ci_commitment = c\<rparr>"
    "\<lambda>(d, c, _, _). sha_ok sha \<and> length c = 32" 41 "anchor_ix_discriminator sha ''deposit''"
  for sha :: hash_fun
proof unfold_locales
  fix a :: "int \<times> bytes \<times> deposit_accounts \<times> pubkey" and rest
  obtain d c accts pid where a: "a = (d, c, accts, pid)" by (cases a)
  assume "case a of (d, c, _, _) \<Rightarrow> sha_ok sha \<and> length c = 32"
  then have wf: "sha_ok sha" "length c = 32" by (simp_all add: a)
  let ?t = "anchor_ix_discriminator sha ''deposit''"
  have bytes: "ix_bytes (build_deposit_ix sha d c accts pid) = ?t @ [word_of_int d] @ c"
    using build_deposit_ix_inr [OF wf, of d accts pid] by (auto simp: ix_bytes_def deposit_bytes_def)
  show "length (case a of (d, c, accts, pid) \<Rightarrow> ix_bytes (build_deposit_ix sha d c accts pid)) = 41"
    using wf by (simp add: a bytes)
  show "take (length ?t) (case a of (d, c, accts, pid) \<Rightarrow> ix_bytes (build_deposit_ix sha d c accts pid)) = ?t"
    by (simp add: a bytes)
  let ?data = "(?t @ [word_of_int d] @ c) @ rest"
  have "?data ! 8 = word_of_int d" "slice 9 41 ?data = c"
    using wf nth_after [of ?t 8] slice_after [of "?t @ [word_of_int d]" 9 c 32] by simp_all
  then show "parse_deposit_ix sha ((case a of (d, c, accts, pid) \<Rightarrow>
        ix_bytes (build_deposit_ix sha d c accts pid)) @ rest) =
      Some (case a of (d, c, _, _) \<Rightarrow> \<lparr>ci_denom_id = word_of_int d, ci_commitment = c\<rparr>)"
    using wf by (simp add: a bytes parse_deposit_ix_def slice_0_append)
next
  fix bs :: bytes
  show "length bs < 41 \<Longrightarrow> parse_deposit_ix sha bs = None" by (simp add: parse_deposit_ix_def)
  show "take (length (anchor_ix_discriminator sha ''deposit'')) bs \<noteq>
      anchor_ix_discriminator sha ''deposit'' \<Longrightarrow> parse_deposit_ix sha bs = None"
    using slice_head_tag [of bs "anchor_ix_discriminator sha ''deposit''"]
    by (cases "length bs < 8") (auto simp: parse_deposit_ix_def)
qed

interpretation withdraw_wire: tagged_format
    "\<lambda>(d, nul, pf, sigs, accts, pid). ix_bytes (build_withdraw_ix sha d nul pf sigs accts pid)"
    "parse_withdraw_ix sha"
    "\<lambda>(d, _, _, sigs, _, _). \<lparr>ci_denom_id = word_of_int d, ci_commitment = sigs ! 5\<rparr>"
    "\<lambda>(d, nul, pf, sigs, _, _). sha_ok sha \<and> length nul = 32 \<and> length pf = 256 \<and> length sigs = 6
        \<and> list_all (\<lambda>s. length s = 32) sigs" 489 "anchor_ix_discriminator sha ''withdraw''"
  for sha :: hash_fun
proof unfold_locales
  fix a :: "int \<times> bytes \<times> bytes \<times> bytes list \<times> withdraw_accounts \<times> pubkey" and rest
  obtain d nul pf sigs accts pid where a: "a = (d, nul, pf, sigs, accts, pid)" by (cases a)
  assume "case a of (d, nul, pf, sigs, _, _) \<Rightarrow> sha_ok sha \<and> length nul = 32 \<and> length pf = 256
      \<and> length sigs = 6 \<and> list_all (\<lambda>s. length s = 32) sigs"
  then have wf: "sha_ok sha" "length nul = 32" "length pf = 256" "length sigs = 6"
    "list_all (\<lambda>s. length s = 32) sigs" by (simp_all add: a)
  let ?t = "anchor_ix_discriminator sha ''withdraw''"
  let ?h = "?t @ [word_of_int d] @ nul @ pf"
  have bytes: "ix_bytes (build_withdraw_ix sha d nul pf sigs accts pid) = ?h @ concat sigs"
    using build_withdraw_ix_inr [OF wf, of d accts pid] by (auto simp: ix_bytes_def withdraw_bytes_def)
  have lens: "length ?h = 297" "length (concat sigs) = 192"
    using wf length_concat_const [OF wf(5)] by simp_all
  show "length (case a of (d, nul, pf, sigs, accts, pid) \<Rightarrow>
      ix_bytes (build_withdraw_ix sha d nul pf sigs accts pid)) = 489"
    using lens by (simp add: a bytes)
  show "take (length ?t) (case a of (d, nul, pf, sigs, accts, pid) \<Rightarrow>
      ix_bytes (build_withdraw_ix sha d nul pf sigs accts pid)) = ?t"
    by (simp add: a bytes)
  let ?data = "(?h @ concat sigs) @ rest"
  have "?data ! 8 = word_of_int d" using wf nth_after [of ?t 8] by simp
  moreover have "slice 457 489 ?data = sigs ! 5"
    using slice_in_block [OF lens(1), of 160 32 "concat sigs" rest] lens(2) wf(4)
      slice_concat_nth [OF wf(5), of 5] by simp
  ultimately show "parse_withdraw_ix sha ((case a of (d, nul, pf, sigs, accts, pid) \<Rightarrow>
        ix_bytes (build_withdraw_ix sha d nul pf sigs accts pid)) @ rest) =
      Some (case a of (d, _, _, sigs, _, _) \<Rightarrow> \<lparr>ci_denom_id = word_of_int d, ci_commitment = sigs ! 5\<rparr>)"
    using wf lens
    by (simp add: a bytes parse_withdraw_ix_def slice_0_append withdraw_min_len_def withdraw_change_offset_def)
next
  fix bs :: bytes
  show "length bs < 489 \<Longrightarrow> parse_withdraw_ix sha bs = None"
    by (simp add: parse_withdraw_ix_def withdraw_min_len_def)
  show "take (length (anchor_ix_discriminator sha ''withdraw'')) bs \<noteq>
      anchor_ix_discriminator sha ''withdraw'' \<Longrightarrow> parse_withdraw_ix sha bs = None"
    using slice_head_tag [of bs "anchor_ix_discriminator sha ''withdraw''"]
    by (cases "length bs < 8") (auto simp: parse_withdraw_ix_def withdraw_min_len_def)
qed

section \<open>Properties\<close>

text \<open>A concrete hash for the witnesses: the sum of the bytes and the length, in the first two bytes.\<close>

definition toy_sha :: hash_fun where
  "toy_sha x = [foldl (\<lambda>s b. 3 * s + b) 0 x, word_of_nat (length x)] @ zeros 30"

lemma toy_sha_ok: "sha_ok toy_sha"
  by (simp add: sha_ok_def toy_sha_def)

lemma toy_kinds_distinct: "kinds_distinct toy_sha"
  by (simp add: kinds_distinct_def account_disc_def toy_sha_def utf8_ascii_def slice_def)

text \<open>
  Indexing the on-chain tree: after any run of appends, the poller's decoder applied to the
  stored account (with whatever padding follows it) is recognised as a tree account and returns
  the number of leaves and, as \<open>latestRoot\<close>, the root of the SDK's tree over those leaves.
\<close>

theorem indexer_reads_current_root:
  assumes "sha_ok sha" "kinds_distinct sha" "poseidon_parity H hash2"
    and "init_merkle_account hash2 denom bump = Inr t"
    and "list_all is_field leaves" "0 < length leaves" "length leaves \<le> 2 ^ 20"
    and "feed (pool_add hash2) leaves t = Inr (roots, t')"
  shows "\<exists>v. decode_as sha KMerkleTree decode_merkle_tree (merkle_layout sha t' @ padding) = Some v
     \<and> mv_next_leaf_index v = length leaves
     \<and> mv_latest_root v = Some (fe_bytes (merkle_root H
           \<lparr>mt_depth = 20, mt_zeros = zero_loop H 20, mt_leaves = leaves\<rparr>))"
proof -
  have rel: "tree_rel H leaves t'"
    using pool_acc.feed_ok [OF pool_rel_init [OF assms(3,4)] assms(5)] assms(7,8)
    by (auto simp: pool_depth_simps pool_rel_def)
  then have rg: "ring H leaves t'" "unat (next_leaf_index t') = length leaves"
    by (simp_all add: tree_rel_def)
  then have cur: "unat (root_cursor t') = length leaves mod 30"
    by (simp add: ring_def pool_depth_simps)
  have "root_history t' ! (length leaves mod 30) = pool_root H leaves"
    using rg assms(6) by (simp add: ring_def pool_depth_simps)
  moreover have "pool_root H leaves = fe_bytes (merkle_root H
      \<lparr>mt_depth = 20, mt_zeros = zero_loop H 20, mt_leaves = leaves\<rparr>)"
    using assms(7) by (simp add: merkle_root_node merkle_wf_def pool_root_def pool_depth_simps node_at_root)
  moreover have "merkle_sized t'" using tree_rel_sized [OF rel] by (simp add: merkle_sized_def)
  ultimately show ?thesis
    using merkle_wire.dec_enc [of sha t' padding] assms(1,2) rg(2) cur
    by (simp add: merkle_view_def pool_depth_simps)
qed

theorem indexer_reads_current_root_witness:
  "\<exists>t roots t' v. init_merkle_account sum_syscall 1 255 = Inr t
    \<and> feed (pool_add sum_syscall) [3, 4] t = Inr (roots, t')
    \<and> decode_as toy_sha KMerkleTree decode_merkle_tree (merkle_layout toy_sha t' @ [0]) = Some v
    \<and> mv_next_leaf_index v = 2"
proof -
  obtain t where t: "init_merkle_account sum_syscall 1 255 = Inr t"
    using init_merkle_account_inr [OF sum_parity] by blast
  have f: "list_all is_field [3, 4]" by (simp add: is_field_def bn254_fr_def)
  obtain roots t' where run: "feed (pool_add sum_syscall) [3, 4] t = Inr (roots, t')"
    using pool_acc.feed_ok [OF pool_rel_init [OF sum_parity t] f] by (auto simp: pool_depth_simps)
  show ?thesis
    using indexer_reads_current_root [OF toy_sha_ok toy_kinds_distinct sum_parity t f _ _ run, of "[0]"]
      t run by fastforce
qed

text \<open>
  C36. Builder and parser agree across the SDK and the indexer: whenever \<open>buildWithdrawIx\<close>
  succeeds, its data is 489 bytes from which \<open>parseWithdrawIx\<close> recovers the denomination byte and
  the sixth public signal (the change commitment), whatever follows them; any strict prefix of it is
  rejected, and \<open>parseDepositIx\<close> does not take it for a deposit as long as the two discriminators differ.
\<close>

theorem withdraw_ix_roundtrip:
  assumes "sha_ok sha"
    and "build_withdraw_ix sha d nul pf sigs accts pid = Inr ix"
    and "anchor_ix_discriminator sha ''deposit'' \<noteq> anchor_ix_discriminator sha ''withdraw''"
  shows "length (ix_data ix) = 489
     \<and> (\<forall>rest. parse_withdraw_ix sha (ix_data ix @ rest) = Some \<lparr>ci_denom_id = word_of_int d, ci_commitment = sigs ! 5\<rparr>)
     \<and> (\<forall>k < 489. parse_withdraw_ix sha (take k (ix_data ix)) = None)
     \<and> parse_deposit_ix sha (ix_data ix) = None"
proof -
  have wf: "length nul = 32" "length pf = 256" "length sigs = 6" "list_all (\<lambda>s. length s = 32) sigs"
    using build_withdraw_ix_succeeds_iff [OF assms(1), of d nul pf sigs accts pid] assms(2) by blast+
  let ?a = "(d, nul, pf, sigs, accts, pid)"
  have data: "ix_data ix = ix_bytes (build_withdraw_ix sha d nul pf sigs accts pid)"
    by (simp add: assms(2) ix_bytes_def)
  have tag: "take 8 (ix_data ix) = anchor_ix_discriminator sha ''withdraw''"
    using withdraw_wire.enc_tag [of sha ?a] assms(1) wf data by simp
  have "parse_deposit_ix sha (ix_data ix) = None"
    using deposit_wire.dec_tag [of sha "ix_data ix"] tag assms(1,3) by simp
  then show ?thesis
    using withdraw_wire.enc_length [of sha ?a] withdraw_wire.dec_enc [of sha ?a]
      withdraw_wire.truncated [of sha ?a] assms(1) wf data by simp
qed

theorem withdraw_ix_roundtrip_witness:
  "\<exists>ix. build_withdraw_ix toy_sha 1 (zeros 32) (zeros 256) (replicate 6 (zeros 32))
        \<lparr>wa_config = zeros 32, wa_denomination = zeros 32, wa_tree = zeros 32, wa_vault = zeros 32,
         wa_nullifier = zeros 32, wa_recipient_ata = zeros 32, wa_fee_payer = zeros 32,
         wa_fee_vault = None, wa_token_program = None, wa_system_program = None\<rparr> (zeros 32) = Inr ix
     \<and> parse_withdraw_ix toy_sha (ix_data ix) = Some \<lparr>ci_denom_id = 1, ci_commitment = zeros 32\<rparr>"
proof -
  let ?accts = "\<lparr>wa_config = zeros 32, wa_denomination = zeros 32, wa_tree = zeros 32, wa_vault = zeros 32,
         wa_nullifier = zeros 32, wa_recipient_ata = zeros 32, wa_fee_payer = zeros 32,
         wa_fee_vault = None, wa_token_program = None, wa_system_program = None\<rparr>"
  obtain ix where ix: "build_withdraw_ix toy_sha 1 (zeros 32) (zeros 256) (replicate 6 (zeros 32))
      ?accts (zeros 32) = Inr ix"
    using build_withdraw_ix_inr [OF toy_sha_ok, of "zeros 32" "zeros 256" "replicate 6 (zeros 32)"]
    by (fastforce simp: list_all_iff)
  have "anchor_ix_discriminator toy_sha ''deposit'' \<noteq> anchor_ix_discriminator toy_sha ''withdraw''"
    by (simp add: anchor_ix_discriminator_def toy_sha_def utf8_ascii_def slice_def)
  from withdraw_ix_roundtrip [OF toy_sha_ok ix this]
  have "\<forall>rest. parse_withdraw_ix toy_sha (ix_data ix @ rest)
     = Some \<lparr>ci_denom_id = word_of_int 1, ci_commitment = replicate 6 (zeros 32) ! 5\<rparr>" by blast
  from spec [OF this, of "[]"] ix show ?thesis by simp
qed

text \<open>
  The nullifier records and denominations the program stores are decoded to exactly their
  fields, and an account of any other kind is never decoded as one of them.
\<close>

theorem account_decoders_invert_layouts:
  assumes "sha_ok sha" "kinds_distinct sha"
    and "length (nr_nullifier_hash n) = 32" "length (dn_vault d) = 32" "length (dn_mint d) = 32"
  shows "decode_as sha KNullifierRecord decode_nullifier_record (nullifier_layout sha n @ p) = Some (nullifier_view n)
     \<and> decode_as sha KDenomination decode_denomination (denomination_layout sha d @ p) = Some (denomination_view d)
     \<and> decode_as sha KDenomination decode_denomination (nullifier_layout sha n @ p) = None
     \<and> decode_as sha KNullifierRecord decode_nullifier_record (denomination_layout sha d @ p) = None"
proof -
  have ne: "account_disc sha ''Denomination'' \<noteq> account_disc sha ''NullifierRecord''"
    using assms(2) by (simp add: kinds_distinct_def)
  have "decode_as sha KDenomination decode_denomination (nullifier_layout sha n @ p) = None"
    by (rule denomination_wire.foreign) (use assms ne in \<open>simp add: nullifier_layout_def\<close>)
  moreover have "decode_as sha KNullifierRecord decode_nullifier_record (denomination_layout sha d @ p) = None"
    by (rule nullifier_wire.foreign) (use assms ne in \<open>simp add: denomination_layout_def\<close>)
  ultimately show ?thesis using nullifier_wire.dec_enc denomination_wire.dec_enc assms by simp
qed

theorem account_decoders_invert_layouts_witness:
  "decode_as toy_sha KNullifierRecord decode_nullifier_record
     (nullifier_layout toy_sha \<lparr>nr_denom_id = 2, nr_nullifier_hash = zeros 32, nr_spent_at_slot = 77,
        nr_bump = 254\<rparr> @ [])
   = Some (nullifier_view \<lparr>nr_denom_id = 2, nr_nullifier_hash = zeros 32, nr_spent_at_slot = 77, nr_bump = 254\<rparr>)"
  using account_decoders_invert_layouts [OF toy_sha_ok toy_kinds_distinct,
      of "\<lparr>nr_denom_id = 2, nr_nullifier_hash = zeros 32, nr_spent_at_slot = 77, nr_bump = 254\<rparr>"
         "\<lparr>dn_denom_id = 2, dn_amount = 5, dn_deposit_count = 1, dn_vault = zeros 32, dn_mint = zeros 32,
           dn_vault_bump = 1, dn_bump = 1\<rparr>" "[]"] by simp

end
