(* ===== verification/RelayerTx.thy ===== *)
theory RelayerTx
  imports Base64 PoolDecode
begin

text \<open>
  \<open>qietr-relayer/src/tx-validation.ts\<close>: what the relayer demands of a transaction before it signs
  as fee payer. \<open>tx_from\<close> is \<open>Transaction.from\<close> (third-party), which throws (\<open>Inl\<close>) on malformed
  bytes. A \<open>ValidationError\<close> is modelled by its \<open>code\<close>; the human-readable messages are not.
\<close>

type_synonym validation_error = string
type_synonym tx_parser = "bytes \<Rightarrow> string + transaction"

record validated_withdraw =
  vw_tx :: transaction
  vw_recipient_ata :: pubkey
  vw_denom_id :: byte

definition decode_and_validate_withdraw ::
    "hash_fun \<Rightarrow> tx_parser \<Rightarrow> string \<Rightarrow> pubkey \<Rightarrow> pubkey \<Rightarrow> validation_error + validated_withdraw" where
  "decode_and_validate_withdraw sha tx_from tx_base64 program_id expected_fee_payer =
     (case tx_from (b64_decode tx_base64) of
        Inl _ \<Rightarrow> Inl ''invalid_tx''
      | Inr tx \<Rightarrow>
          if tx_fee_payer tx \<noteq> Some expected_fee_payer then Inl ''wrong_fee_payer''
          else if length (tx_instructions tx) \<noteq> 1 then Inl ''wrong_ix_count''
          else let ix = tx_instructions tx ! 0 in
            if ix_program ix \<noteq> program_id then Inl ''wrong_program_id''
            else if length (ix_data ix) < 9 then Inl ''ix_data_too_short''
            else if slice 0 8 (ix_data ix) \<noteq> anchor_ix_discriminator sha ''withdraw''
            then Inl ''wrong_discriminator''
            else case index_get (ix_keys ix) 5 of
                   None \<Rightarrow> Inl ''missing_recipient_ata''
                 | Some m \<Rightarrow> Inr \<lparr>vw_tx = tx, vw_recipient_ata = am_pubkey m,
                                 vw_denom_id = ix_data ix ! 8\<rparr>)"

definition decode_ata_owner :: "bytes \<Rightarrow> validation_error + pubkey" where
  "decode_ata_owner account_data =
     (if length account_data < 64 then Inl ''ata_data_too_short'' else Inr (slice 32 64 account_data))"

record deposit_fee_expectation =
  fee_ata :: pubkey
  min_fee_micro :: int

record validated_deposit =
  vd_tx :: transaction
  vd_denom_id :: byte
  vd_depositor :: pubkey
  vd_fee_amount :: nat
  vd_fee_destination :: pubkey

definition decode_spl_transfer_amount :: "bytes \<Rightarrow> validation_error + nat" where
  "decode_spl_transfer_amount data =
     (if length data < 9 then Inl ''transfer_data_too_short'' else Inr (read_u64_le data 1))"

definition check_fee :: "deposit_fee_expectation option \<Rightarrow> pubkey \<Rightarrow> nat \<Rightarrow> validation_error + unit" where
  "check_fee fee destination amount =
     (case fee of
        None \<Rightarrow> Inr ()
      | Some f \<Rightarrow>
          if destination \<noteq> fee_ata f then Inl ''fee_to_wrong_destination''
          else if int amount < min_fee_micro f then Inl ''fee_too_low'' else Inr ())"

definition check_deposit_ix ::
    "hash_fun \<Rightarrow> pubkey \<Rightarrow> instruction \<Rightarrow> validation_error + byte \<times> pubkey" where
  "check_deposit_ix sha program_id ix =
     (if ix_program ix \<noteq> program_id then Inl ''ix1_not_deposit''
      else if length (ix_data ix) < 9 then Inl ''deposit_data_too_short''
      else if slice 0 8 (ix_data ix) \<noteq> anchor_ix_discriminator sha ''deposit''
      then Inl ''wrong_deposit_discriminator''
      else case index_get (ix_keys ix) 5 of
             None \<Rightarrow> Inl ''missing_depositor''
           | Some m \<Rightarrow> Inr (ix_data ix ! 8, am_pubkey m))"

definition decode_and_validate_deposit ::
    "hash_fun \<Rightarrow> tx_parser \<Rightarrow> string \<Rightarrow> pubkey \<Rightarrow> pubkey \<Rightarrow> deposit_fee_expectation option
      \<Rightarrow> validation_error + validated_deposit" where
  "decode_and_validate_deposit sha tx_from tx_base64 program_id expected_fee_payer fee =
     (case tx_from (b64_decode tx_base64) of
        Inl _ \<Rightarrow> Inl ''invalid_tx''
      | Inr tx \<Rightarrow>
          if tx_fee_payer tx \<noteq> Some expected_fee_payer then Inl ''wrong_fee_payer''
          else if length (tx_instructions tx) \<noteq> 2 then Inl ''wrong_ix_count''
          else let t = tx_instructions tx ! 0; d = tx_instructions tx ! 1 in
            if ix_program t \<noteq> token_program_id then Inl ''ix0_not_transfer''
            else if length (ix_data t) < 1 \<or> ix_data t ! 0 \<noteq> 3 then Inl ''ix0_not_transfer''
            else case index_get (ix_keys t) 1 of
                   None \<Rightarrow> Inl ''missing_fee_destination''
                 | Some dest \<Rightarrow>
                     bindE (decode_spl_transfer_amount (ix_data t)) (\<lambda>amount.
                     bindE (check_fee fee (am_pubkey dest) amount) (\<lambda>_.
                     bindE (check_deposit_ix sha program_id d) (\<lambda>(denom_id, depositor).
                     Inr \<lparr>vd_tx = tx, vd_denom_id = denom_id, vd_depositor = depositor,
                          vd_fee_amount = amount, vd_fee_destination = am_pubkey dest\<rparr>))))"

section \<open>What acceptance means\<close>

lemma index_get_Some_iff: "index_get xs i = Some x \<longleftrightarrow> i < length xs \<and> xs ! i = x"
  by (auto simp: index_get_def)

lemma withdraw_accepted_iff:
  "decode_and_validate_withdraw sha tx_from s pid payer = Inr v \<longleftrightarrow>
     (\<exists>tx ix. tx_from (b64_decode s) = Inr tx \<and> tx_fee_payer tx = Some payer
        \<and> tx_instructions tx = [ix] \<and> ix_program ix = pid \<and> 9 \<le> length (ix_data ix)
        \<and> slice 0 8 (ix_data ix) = anchor_ix_discriminator sha ''withdraw'' \<and> 5 < length (ix_keys ix)
        \<and> v = \<lparr>vw_tx = tx, vw_recipient_ata = am_pubkey (ix_keys ix ! 5), vw_denom_id = ix_data ix ! 8\<rparr>)"
  (is "?L \<longleftrightarrow> ?R")
proof
  assume ?L
  then obtain tx where tx: "tx_from (b64_decode s) = Inr tx"
    by (auto simp: decode_and_validate_withdraw_def split: sum.splits)
  with \<open>?L\<close> have one: "length (tx_instructions tx) = 1"
    by (auto simp: decode_and_validate_withdraw_def split: if_splits)
  then obtain ix where ix: "tx_instructions tx = [ix]"
    by (metis One_nat_def length_0_conv length_Suc_conv)
  with tx \<open>?L\<close> show ?R
    by (auto simp: decode_and_validate_withdraw_def index_get_Some_iff Let_def
        split: if_splits option.splits)
next
  assume ?R
  then show ?L by (auto simp: decode_and_validate_withdraw_def index_get_def)
qed

lemma check_deposit_ix_Inr_iff:
  "check_deposit_ix sha pid ix = Inr (b, pk) \<longleftrightarrow>
     ix_program ix = pid \<and> 9 \<le> length (ix_data ix)
     \<and> slice 0 8 (ix_data ix) = anchor_ix_discriminator sha ''deposit''
     \<and> 5 < length (ix_keys ix) \<and> b = ix_data ix ! 8 \<and> pk = am_pubkey (ix_keys ix ! 5)"
  by (auto simp: check_deposit_ix_def index_get_def)

lemma check_fee_Inr_iff:
  "check_fee fee dest amount = Inr () \<longleftrightarrow>
     (\<forall>f. fee = Some f \<longrightarrow> dest = fee_ata f \<and> min_fee_micro f \<le> int amount)"
  by (auto simp: check_fee_def split: option.split)

lemma deposit_accepted_iff:
  "decode_and_validate_deposit sha tx_from s pid payer fee = Inr v \<longleftrightarrow>
     (\<exists>tx t d. tx_from (b64_decode s) = Inr tx \<and> tx_fee_payer tx = Some payer
        \<and> tx_instructions tx = [t, d] \<and> ix_program t = token_program_id
        \<and> 9 \<le> length (ix_data t) \<and> ix_data t ! 0 = 3 \<and> 1 < length (ix_keys t)
        \<and> check_fee fee (am_pubkey (ix_keys t ! 1)) (read_u64_le (ix_data t) 1) = Inr ()
        \<and> check_deposit_ix sha pid d = Inr (ix_data d ! 8, am_pubkey (ix_keys d ! 5))
        \<and> v = \<lparr>vd_tx = tx, vd_denom_id = ix_data d ! 8, vd_depositor = am_pubkey (ix_keys d ! 5),
               vd_fee_amount = read_u64_le (ix_data t) 1, vd_fee_destination = am_pubkey (ix_keys t ! 1)\<rparr>)"
  (is "?L \<longleftrightarrow> ?R")
proof
  assume ?L
  then obtain tx where tx: "tx_from (b64_decode s) = Inr tx"
    by (auto simp: decode_and_validate_deposit_def split: sum.splits)
  with \<open>?L\<close> have two: "length (tx_instructions tx) = 2"
    by (auto simp: decode_and_validate_deposit_def split: if_splits)
  then obtain t d where td: "tx_instructions tx = [t, d]"
    by (metis (no_types, opaque_lifting) Suc_1 One_nat_def length_0_conv length_Suc_conv)
  from tx td \<open>?L\<close> obtain dest amount b pk where
    "tx_fee_payer tx = Some payer" "ix_program t = token_program_id" "ix_data t ! 0 = 3"
    "index_get (ix_keys t) (Suc 0) = Some dest" "decode_spl_transfer_amount (ix_data t) = Inr amount"
    "check_fee fee (am_pubkey dest) amount = Inr ()" "check_deposit_ix sha pid d = Inr (b, pk)"
    "v = \<lparr>vd_tx = tx, vd_denom_id = b, vd_depositor = pk, vd_fee_amount = amount,
          vd_fee_destination = am_pubkey dest\<rparr>"
    by (auto simp: decode_and_validate_deposit_def Let_def bindE_Inr_iff
        split: if_splits option.splits)
  with tx td show ?R
    by (auto simp: index_get_Some_iff decode_spl_transfer_amount_def check_deposit_ix_Inr_iff
        split: if_splits)
next
  assume ?R
  then show ?L
    by (auto simp: decode_and_validate_deposit_def index_get_def decode_spl_transfer_amount_def)
qed

lemma read_transfer_amount:
  assumes "0 \<le> a" "a < 2 ^ 64"
  shows "read_u64_le ([3] @ u64_le a) 1 = nat a"
proof -
  have "slice 1 9 ([3] @ u64_le a) = u64_le a" by (simp add: slice_def)
  with le_val_u64_le [of a] assms show ?thesis by (simp add: read_u64_le_def)
qed

lemma deposit_bytes_checked:
  assumes "sha_ok sha" "length c = 32" "length keys = 7"
  shows "check_deposit_ix sha pid \<lparr>ix_program = pid, ix_keys = keys, ix_data = deposit_bytes sha d c\<rparr>
           = Inr (word_of_int d, am_pubkey (keys ! 5))"
  using assms by (simp add: check_deposit_ix_Inr_iff deposit_bytes_def slice_0_append nth_append)

lemma gasless_deposit_checked:
  assumes sha: "sha_ok sha" and c: "length commitment = 32"
    and amount: "0 \<le> amount" "amount < 2 ^ 64" "min_fee_micro fee \<le> amount"
    and t: "build_transfer_ix src (fee_ata fee) auth amount token_program_id = Inr t"
    and d: "build_deposit_ix sha denom commitment accts pid = Inr d"
    and tx: "tx_from (b64_decode s) = Inr \<lparr>tx_fee_payer = Some payer, tx_instructions = [t, d]\<rparr>"
  shows "decode_and_validate_deposit sha tx_from s pid payer (Some fee) =
     Inr \<lparr>vd_tx = \<lparr>tx_fee_payer = Some payer, tx_instructions = [t, d]\<rparr>,
          vd_denom_id = word_of_int denom, vd_depositor = da_depositor accts,
          vd_fee_amount = nat amount, vd_fee_destination = fee_ata fee\<rparr>"
proof -
  obtain keys where keys: "d = \<lparr>ix_program = pid, ix_keys = keys, ix_data = deposit_bytes sha denom commitment\<rparr>"
    "length keys = 7" "am_pubkey (keys ! 5) = da_depositor accts"
    using build_deposit_ix_inr [OF sha c, of denom accts pid] d by auto
  have t': "t = \<lparr>ix_program = token_program_id, ix_keys = [meta src False True,
      meta (fee_ata fee) False True, meta auth True False], ix_data = [3] @ u64_le amount\<rparr>"
    using t by (simp add: build_transfer_ix_inr)
  have fee: "check_fee (Some fee) (fee_ata fee) (nat amount) = Inr ()"
    using amount by (simp add: check_fee_def)
  have data8: "deposit_bytes sha denom commitment ! 8 = word_of_int denom"
    using sha by (simp add: deposit_bytes_def nth_append)
  show ?thesis
    unfolding deposit_accepted_iff
    using tx t' keys fee data8 read_transfer_amount [OF amount(1,2)]
      deposit_bytes_checked [OF sha c keys(2), of pid denom] by auto
qed

section \<open>Properties\<close>

text \<open>
  A withdraw the SDK builds is what the relayer accepts: if the wire bytes parse to a
  transaction that names the relayer as fee payer and carries exactly one \<open>buildWithdrawIx\<close>
  instruction of the configured program, validation succeeds and extracts the recipient's token
  account and the denomination byte the SDK put in.
\<close>

theorem sdk_withdraw_accepted:
  assumes "sha_ok sha" "build_withdraw_ix sha d nul pf sigs accts pid = Inr ix"
    and "tx_from (b64_decode s) = Inr \<lparr>tx_fee_payer = Some payer, tx_instructions = [ix]\<rparr>"
  shows "decode_and_validate_withdraw sha tx_from s pid payer =
     Inr \<lparr>vw_tx = \<lparr>tx_fee_payer = Some payer, tx_instructions = [ix]\<rparr>,
          vw_recipient_ata = wa_recipient_ata accts, vw_denom_id = word_of_int d\<rparr>"
proof -
  have wf: "length nul = 32" "length pf = 256" "length sigs = 6" "list_all (\<lambda>s. length s = 32) sigs"
    using build_withdraw_ix_succeeds_iff [OF assms(1), of d nul pf sigs accts pid] assms(2) by blast+
  obtain keys where ix: "ix = \<lparr>ix_program = pid, ix_keys = keys, ix_data = withdraw_bytes sha d nul pf sigs\<rparr>"
    "length keys = 10" "am_pubkey (keys ! 5) = wa_recipient_ata accts"
    using build_withdraw_ix_inr [OF assms(1) wf, of d accts pid] assms(2) by auto
  show ?thesis
    unfolding withdraw_accepted_iff
    using assms(1,3) ix by (simp add: withdraw_bytes_def slice_0_append nth_append)
qed

definition sample_withdraw_accounts :: withdraw_accounts where
  "sample_withdraw_accounts = \<lparr>wa_config = zeros 32, wa_denomination = zeros 32, wa_tree = zeros 32,
     wa_vault = zeros 32, wa_nullifier = zeros 32, wa_recipient_ata = replicate 32 7,
     wa_fee_payer = zeros 32, wa_fee_vault = None, wa_token_program = None, wa_system_program = None\<rparr>"

theorem sdk_withdraw_accepted_witness:
  "\<exists>ix. decode_and_validate_withdraw toy_sha
        (\<lambda>_. Inr \<lparr>tx_fee_payer = Some (zeros 32), tx_instructions = [ix]\<rparr>) ''AA=='' (zeros 32) (zeros 32) =
     Inr \<lparr>vw_tx = \<lparr>tx_fee_payer = Some (zeros 32), tx_instructions = [ix]\<rparr>,
          vw_recipient_ata = replicate 32 7, vw_denom_id = 1\<rparr>"
proof -
  obtain ix where ix: "build_withdraw_ix toy_sha 1 (zeros 32) (zeros 256) (replicate 6 (zeros 32))
      sample_withdraw_accounts (zeros 32) = Inr ix"
    using build_withdraw_ix_inr [OF toy_sha_ok, of "zeros 32" "zeros 256" "replicate 6 (zeros 32)"]
    by (fastforce simp: list_all_iff)
  show ?thesis
    using sdk_withdraw_accepted [OF toy_sha_ok ix, of "\<lambda>_. Inr \<lparr>tx_fee_payer = Some (zeros 32),
        tx_instructions = [ix]\<rparr>" "''AA==''" "zeros 32"]
    by (auto simp: sample_withdraw_accounts_def)
qed

text \<open>
  C35. The relayer is paid: every gasless deposit it accepts against a configured fee ATA consists
  of one SPL transfer into that very account of at least the minimum fee, followed by one
  \<open>deposit\<close> of the configured program, with the relayer as fee payer.
\<close>

theorem accepted_deposit_pays_fee:
  assumes "decode_and_validate_deposit sha tx_from s pid payer (Some fee) = Inr v"
  shows "\<exists>t d. tx_from (b64_decode s) = Inr (vd_tx v)
     \<and> tx_instructions (vd_tx v) = [t, d] \<and> tx_fee_payer (vd_tx v) = Some payer
     \<and> ix_program t = token_program_id \<and> ix_data t ! 0 = 3
     \<and> am_pubkey (ix_keys t ! 1) = fee_ata fee
     \<and> min_fee_micro fee \<le> int (read_u64_le (ix_data t) 1)
     \<and> ix_program d = pid \<and> slice 0 8 (ix_data d) = anchor_ix_discriminator sha ''deposit''
     \<and> vd_depositor v = am_pubkey (ix_keys d ! 5)"
  using assms by (auto simp: deposit_accepted_iff check_deposit_ix_Inr_iff check_fee_Inr_iff)

definition sample_deposit_accounts :: "pubkey \<Rightarrow> pubkey \<Rightarrow> deposit_accounts" where
  "sample_deposit_accounts depositor ata = \<lparr>da_config = zeros 32, da_denomination = zeros 32,
     da_tree = zeros 32, da_vault = zeros 32, da_depositor_ata = ata, da_depositor = depositor,
     da_token_program = None\<rparr>"

lemma sample_deposit_built:
  "\<exists>t d. build_transfer_ix src dest auth 60000 token_program_id = Inr t
     \<and> build_deposit_ix toy_sha 1 (zeros 32) (sample_deposit_accounts depositor ata) (zeros 32) = Inr d"
  using build_deposit_ix_inr [OF toy_sha_ok, of "zeros 32"] by (fastforce simp: build_transfer_ix_inr)

theorem accepted_deposit_pays_fee_witness:
  "\<exists>t d. build_transfer_ix (replicate 32 1) (replicate 32 2) (replicate 32 3) 60000 token_program_id = Inr t
     \<and> (\<exists>v. decode_and_validate_deposit toy_sha
            (\<lambda>_. Inr \<lparr>tx_fee_payer = Some (replicate 32 9), tx_instructions = [t, d]\<rparr>) ''AA==''
            (zeros 32) (replicate 32 9) (Some \<lparr>fee_ata = replicate 32 2, min_fee_micro = 50000\<rparr>) = Inr v
          \<and> vd_depositor v = am_pubkey (ix_keys d ! 5))"
proof -
  let ?fee = "\<lparr>fee_ata = replicate 32 2, min_fee_micro = 50000\<rparr> :: deposit_fee_expectation"
  obtain t d where td: "build_transfer_ix (replicate 32 1) (replicate 32 2) (replicate 32 3) 60000 token_program_id = Inr t"
    "build_deposit_ix toy_sha 1 (zeros 32) (sample_deposit_accounts (replicate 32 3) (replicate 32 1)) (zeros 32) = Inr d"
    using sample_deposit_built by blast
  obtain v where v: "decode_and_validate_deposit toy_sha
      (\<lambda>_. Inr \<lparr>tx_fee_payer = Some (replicate 32 9), tx_instructions = [t, d]\<rparr>) ''AA==''
      (zeros 32) (replicate 32 9) (Some ?fee) = Inr v"
    using gasless_deposit_checked [OF toy_sha_ok, of "zeros 32" 60000 ?fee "replicate 32 1"
        "replicate 32 3" t 1 "sample_deposit_accounts (replicate 32 3) (replicate 32 1)" "zeros 32" d] td
    by simp
  from accepted_deposit_pays_fee [OF v] obtain da where
    "vd_tx v = \<lparr>tx_fee_payer = Some (replicate 32 9), tx_instructions = [t, d]\<rparr>"
    "tx_instructions (vd_tx v) ! 1 = da" "vd_depositor v = am_pubkey (ix_keys da ! 5)"
    by fastforce
  then have "vd_depositor v = am_pubkey (ix_keys d ! 5)" by simp
  with td(1) v show ?thesis by blast
qed

text \<open>
  The gasless deposit the SDK assembles from \<open>buildTransferIx\<close> and \<open>buildDepositIx\<close>, paying at
  least the minimum fee to the relayer's fee account, is accepted, with the depositor, fee amount
  and denomination the SDK put in.
\<close>

theorem sdk_gasless_deposit_accepted:
  assumes "sha_ok sha" "length commitment = 32"
    and "0 \<le> amount" "amount < 2 ^ 64" "min_fee_micro fee \<le> amount"
    and "build_transfer_ix src (fee_ata fee) auth amount token_program_id = Inr t"
    and "build_deposit_ix sha denom commitment accts pid = Inr d"
    and "tx_from (b64_decode s) = Inr \<lparr>tx_fee_payer = Some payer, tx_instructions = [t, d]\<rparr>"
  shows "\<exists>v. decode_and_validate_deposit sha tx_from s pid payer (Some fee) = Inr v
     \<and> vd_fee_amount v = nat amount \<and> vd_depositor v = da_depositor accts
     \<and> vd_denom_id v = word_of_int denom \<and> vd_fee_destination v = fee_ata fee"
  using gasless_deposit_checked [OF assms(1-7), of tx_from s payer] assms(8) by simp

theorem sdk_gasless_deposit_accepted_witness:
  "\<exists>t d v. decode_and_validate_deposit toy_sha
        (\<lambda>_. Inr \<lparr>tx_fee_payer = Some (replicate 32 9), tx_instructions = [t, d]\<rparr>) ''AA==''
        (zeros 32) (replicate 32 9) (Some \<lparr>fee_ata = replicate 32 2, min_fee_micro = 50000\<rparr>) = Inr v
      \<and> vd_fee_amount v = 60000 \<and> vd_depositor v = replicate 32 3"
proof -
  let ?fee = "\<lparr>fee_ata = replicate 32 2, min_fee_micro = 50000\<rparr> :: deposit_fee_expectation"
  obtain t d where td: "build_transfer_ix (replicate 32 1) (fee_ata ?fee) (replicate 32 3) 60000 token_program_id = Inr t"
    "build_deposit_ix toy_sha 1 (zeros 32) (sample_deposit_accounts (replicate 32 3) (replicate 32 1)) (zeros 32) = Inr d"
    using sample_deposit_built by blast
  show ?thesis
    using sdk_gasless_deposit_accepted [OF toy_sha_ok _ _ _ _ td, of "\<lambda>_. Inr \<lparr>tx_fee_payer =
        Some (replicate 32 9), tx_instructions = [t, d]\<rparr>" "''AA==''" "replicate 32 9"]
    by (fastforce simp: sample_deposit_accounts_def)
qed

text \<open>
  The relayer's own funds are not excluded: a transaction whose only required signer is the
  relayer itself, moving the fee from the relayer's fee account to the same account and depositing
  from that account under anybody's commitment, passes the validation with the relayer as
  depositor. (The fee-payer signature the relayer then adds is the one the token program and the
  pool ask for.)
\<close>

theorem relayer_as_depositor_accepted:
  assumes "sha_ok sha" "length commitment = 32"
    and "0 \<le> min_fee_micro fee" "min_fee_micro fee < 2 ^ 64"
    and "build_transfer_ix (fee_ata fee) (fee_ata fee) payer (min_fee_micro fee) token_program_id = Inr t"
    and "build_deposit_ix sha denom commitment accts pid = Inr d"
    and "da_depositor accts = payer" "da_depositor_ata accts = fee_ata fee"
    and "tx_from (b64_decode s) = Inr \<lparr>tx_fee_payer = Some payer, tx_instructions = [t, d]\<rparr>"
  shows "(\<exists>v. decode_and_validate_deposit sha tx_from s pid payer (Some fee) = Inr v
            \<and> vd_depositor v = payer)
     \<and> {am_pubkey m | m. m \<in> set (ix_keys t) \<union> set (ix_keys d) \<and> am_signer m} = {payer}"
proof -
  have "ix_keys t = [meta (fee_ata fee) False True, meta (fee_ata fee) False True, meta payer True False]"
    using assms(5) by (auto simp: build_transfer_ix_inr)
  then have "meta payer True False \<in> set (ix_keys t)"
    "\<forall>m \<in> set (ix_keys t). am_signer m \<longrightarrow> am_pubkey m = payer" by auto
  moreover have "\<forall>m \<in> set (ix_keys d). am_signer m \<longrightarrow> am_pubkey m = payer"
    using assms(6,7) by (auto simp: build_deposit_ix_def bindE_Inr_iff meta_def split: if_splits)
  ultimately have "{am_pubkey m | m. m \<in> set (ix_keys t) \<union> set (ix_keys d) \<and> am_signer m} = {payer}"
    by (auto intro: exI [of _ "meta payer True False"])
  with gasless_deposit_checked [OF assms(1-4) order_refl assms(5,6), of tx_from s payer] assms(7,9)
  show ?thesis by simp
qed

theorem relayer_as_depositor_accepted_witness:
  "\<exists>t d v. decode_and_validate_deposit toy_sha
        (\<lambda>_. Inr \<lparr>tx_fee_payer = Some (replicate 32 9), tx_instructions = [t, d]\<rparr>) ''AA==''
        (zeros 32) (replicate 32 9) (Some \<lparr>fee_ata = replicate 32 2, min_fee_micro = 60000\<rparr>) = Inr v
      \<and> vd_depositor v = replicate 32 9"
proof -
  let ?fee = "\<lparr>fee_ata = replicate 32 2, min_fee_micro = 60000\<rparr> :: deposit_fee_expectation"
  obtain t d where td: "build_transfer_ix (fee_ata ?fee) (fee_ata ?fee) (replicate 32 9) (min_fee_micro ?fee)
        token_program_id = Inr t"
    "build_deposit_ix toy_sha 1 (zeros 32) (sample_deposit_accounts (replicate 32 9) (fee_ata ?fee)) (zeros 32) = Inr d"
    using sample_deposit_built [of "fee_ata ?fee" "fee_ata ?fee" "replicate 32 9" "replicate 32 9" "fee_ata ?fee"]
    by auto
  show ?thesis
    using relayer_as_depositor_accepted [OF toy_sha_ok _ _ _ td, of "\<lambda>_. Inr \<lparr>tx_fee_payer =
        Some (replicate 32 9), tx_instructions = [t, d]\<rparr>" "''AA==''"]
    by (fastforce simp: sample_deposit_accounts_def)
qed

end
