(* ===== verification/SlidingWindow.thy ===== *)
theory SlidingWindow
  imports Prelude
begin

text \<open>
  The contract of the relayer's two sliding-window guards. A request carries the time at which it
  is checked and the time at which its hit is recorded (the same instant for the rate limiter; the
  end of the send for the spend guard). The client lemma bounds the number of hits in every window
  of the given width, for requests served one after the other.
\<close>

fun run_window :: "('k \<Rightarrow> 'q \<Rightarrow> 's \<Rightarrow> bool \<times> 's) \<Rightarrow> ('k \<times> 'q) list \<Rightarrow> 's
    \<Rightarrow> ('k \<times> 'q) list \<times> 's" where
  "run_window admit [] s = ([], s)"
| "run_window admit ((k, q) # rs) s =
     (case admit k q s of (ok, s') \<Rightarrow>
        (case run_window admit rs s' of (log, s'') \<Rightarrow> (if ok then (k, q) # log else log, s'')))"

fun ordered_from :: "('q \<Rightarrow> int) \<Rightarrow> ('q \<Rightarrow> int) \<Rightarrow> int \<Rightarrow> ('k \<times> 'q) list \<Rightarrow> bool" where
  "ordered_from tc ta t [] = True"
| "ordered_from tc ta t ((k, q) # rs) = (t \<le> tc q \<and> tc q \<le> ta q \<and> ordered_from tc ta (ta q) rs)"

definition in_window :: "int \<Rightarrow> int \<Rightarrow> int list \<Rightarrow> nat" where
  "in_window w T ts = length (filter (\<lambda>a. T - w < a \<and> a \<le> T) ts)"

definition hits_of :: "('q \<Rightarrow> int) \<Rightarrow> 'k \<Rightarrow> ('k \<times> 'q) list \<Rightarrow> int list" where
  "hits_of ta k log = map (\<lambda>e. ta (snd e)) (filter (\<lambda>e. fst e = k) log)"

locale sliding_window =
  fixes admit :: "'k \<Rightarrow> 'q \<Rightarrow> 's \<Rightarrow> bool \<times> 's"
    and tc :: "'q \<Rightarrow> int"
    and ta :: "'q \<Rightarrow> int"
    and hits :: "'s \<Rightarrow> 'k \<Rightarrow> int list"
    and window :: int
    and limit :: nat
  assumes admit_hits: "admit k q s = (ok, s') \<Longrightarrow>
      hits s' k = dropWhile (\<lambda>t. t \<le> tc q - window) (hits s k) @ (if ok then [ta q] else [])"
    and admit_limit: "admit k q s = (True, s') \<Longrightarrow>
      length (dropWhile (\<lambda>t. t \<le> tc q - window) (hits s k)) < limit"
    and admit_frame: "admit k q s = (ok, s') \<Longrightarrow> k' \<noteq> k \<Longrightarrow> hits s' k' = hits s k'"
begin

text \<open>What is kept for a key: a suffix of its recorded hits, the dropped ones being out of reach.\<close>

definition kept :: "int \<Rightarrow> int list \<Rightarrow> int list \<Rightarrow> bool" where
  "kept now past hs \<longleftrightarrow> sorted past \<and> (\<forall>a \<in> set past. a \<le> now)
     \<and> (\<exists>old. past = old @ hs \<and> (\<forall>a \<in> set old. a \<le> now - window))
     \<and> (\<forall>T. in_window window T past \<le> limit)"

lemma kept_later: "kept now past hs \<Longrightarrow> now \<le> now' \<Longrightarrow> kept now' past hs"
  by (fastforce simp: kept_def)

lemma kept_trim:
  assumes "kept now past hs"
  shows "kept now past (dropWhile (\<lambda>t. t \<le> now - window) hs)"
proof -
  obtain old where "past = old @ hs" "\<forall>a \<in> set old. a \<le> now - window"
    using assms by (auto simp: kept_def)
  then have "past = (old @ takeWhile (\<lambda>t. t \<le> now - window) hs) @ dropWhile (\<lambda>t. t \<le> now - window) hs"
    "\<forall>a \<in> set (old @ takeWhile (\<lambda>t. t \<le> now - window) hs). a \<le> now - window"
    by (auto dest: set_takeWhileD)
  with assms show ?thesis unfolding kept_def by blast
qed

lemma kept_push:
  assumes k: "kept now past hs" and len: "length hs < limit" and ta: "now \<le> t"
  shows "kept t (past @ [t]) (hs @ [t])"
proof -
  obtain old where old: "past = old @ hs" "\<forall>a \<in> set old. a \<le> now - window"
    and srt: "sorted past" "\<forall>a \<in> set past. a \<le> now"
    and bnd: "\<And>T. in_window window T past \<le> limit"
    using k by (auto simp: kept_def)
  have "in_window window T (past @ [t]) \<le> limit" for T
  proof (cases "t \<le> T")
    case True
    have "filter (\<lambda>a. T - window < a \<and> a \<le> T) old = []"
      using old(2) True ta by (auto simp: filter_empty_conv)
    then have "in_window window T (past @ [t]) \<le> length hs + 1"
      by (auto simp: in_window_def old(1) intro: le_SucI)
    with len show ?thesis by simp
  next
    case False
    with bnd [of T] show ?thesis by (simp add: in_window_def)
  qed
  moreover have "sorted (past @ [t])" using srt ta by (fastforce simp: sorted_append)
  moreover have "\<forall>a \<in> set old. a \<le> t - window" using old(2) ta by fastforce
  moreover have "\<forall>a \<in> set (past @ [t]). a \<le> t" using srt ta by fastforce
  moreover have "past @ [t] = old @ hs @ [t]" by (simp add: old(1))
  ultimately show ?thesis unfolding kept_def by blast
qed

lemma run_kept:
  assumes "\<And>k. kept now (past k) (hits s k)" "ordered_from tc ta now rs"
    and "run_window admit rs s = (log, s')"
  shows "in_window window T (past k @ hits_of ta k log) \<le> limit"
  using assms
proof (induction rs arbitrary: now past s log s')
  case Nil
  then show ?case by (simp add: hits_of_def kept_def)
next
  case (Cons r rs)
  obtain j q where r: "r = (j, q)" by (cases r)
  with Cons.prems(2) have ord: "now \<le> tc q" "tc q \<le> ta q" "ordered_from tc ta (ta q) rs" by simp_all
  obtain ok s1 where s1: "admit j q s = (ok, s1)" by fastforce
  obtain log1 s2 where log1: "run_window admit rs s1 = (log1, s2)" by fastforce
  have log: "log = (if ok then (j, q) # log1 else log1)"
    using Cons.prems(3) by (simp add: r s1 log1)
  let ?past = "\<lambda>i. if i = j \<and> ok then past i @ [ta q] else past i"
  have "kept (ta q) (?past i) (hits s1 i)" for i
  proof (cases "i = j")
    case True
    have t: "kept (tc q) (past j) (dropWhile (\<lambda>t. t \<le> tc q - window) (hits s j))"
      by (rule kept_trim) (rule kept_later [OF Cons.prems(1) ord(1)])
    show ?thesis
    proof (cases ok)
      case True
      with s1 have "length (dropWhile (\<lambda>t. t \<le> tc q - window) (hits s j)) < limit"
        using admit_limit [of j q s s1] True by simp
      from kept_push [OF t this ord(2)] show ?thesis
        using \<open>i = j\<close> True admit_hits [OF s1] by simp
    next
      case False
      then show ?thesis
        using \<open>i = j\<close> kept_later [OF t ord(2)] admit_hits [OF s1] by simp
    qed
  next
    case False
    have "kept (ta q) (past i) (hits s i)" using kept_later [OF Cons.prems(1)] ord by simp
    with False show ?thesis using admit_frame [OF s1] by simp
  qed
  from Cons.IH [where past = ?past, OF this ord(3) log1]
  have "in_window window T (?past k @ hits_of ta k log1) \<le> limit" .
  then show ?case by (cases "k = j") (auto simp: log hits_of_def)
qed

text \<open>
  From a state with no recorded hits, no key is ever admitted more than \<open>limit\<close> times within any
  window, whatever the other keys do.
\<close>

lemma window_bound:
  assumes "\<And>k. hits s k = []" "ordered_from tc ta now rs" "run_window admit rs s = (log, s')"
  shows "in_window window T (hits_of ta k log) \<le> limit"
proof -
  have "kept now ((\<lambda>_. []) k) (hits s k)" for k
    using assms(1) by (simp add: kept_def in_window_def)
  from run_kept [OF this assms(2,3)] show ?thesis by simp
qed

end

end
