(* ===== verification/RelayerPolicy.thy ===== *)
theory RelayerPolicy
  imports SlidingWindow Base64 "HOL-Library.AList"
begin

text \<open>
  \<open>qietr-relayer/src/policy/\<close>: the per-key rate limiter, the spend guard on the relayer's own
  balance, the replay guard, the sanctions list and the API-key check. Time is the value of
  \<open>Date.now()\<close> in milliseconds, passed in by whoever calls; the two window guards are
  interpretations of \<open>sliding_window\<close>.
\<close>

section \<open>rate-limit.ts\<close>

type_synonym buckets = "string \<rightharpoonup> int list"

record rate_decision =
  rd_allowed :: bool
  rd_retry_after :: "int option"
  rd_remaining :: nat
  rd_limit :: nat

definition ceil_div :: "int \<Rightarrow> int \<Rightarrow> int" where
  "ceil_div a b = - ((- a) div b)"

definition bucket_hits :: "buckets \<Rightarrow> string \<Rightarrow> int list" where
  "bucket_hits b key = (case b key of None \<Rightarrow> [] | Some h \<Rightarrow> h)"

definition rate_check :: "string \<Rightarrow> int \<Rightarrow> nat \<Rightarrow> int \<Rightarrow> buckets \<Rightarrow> rate_decision \<times> buckets" where
  "rate_check key window_seconds limit now b =
     (let window_ms = window_seconds * 1000; cutoff = now - window_ms;
          hits = dropWhile (\<lambda>t. t \<le> cutoff) (bucket_hits b key)
      in if length hits \<ge> limit
         then (\<lparr>rd_allowed = False,
                rd_retry_after = (case hits of [] \<Rightarrow> None
                                  | oldest # _ \<Rightarrow> Some (ceil_div (oldest + window_ms - now) 1000)),
                rd_remaining = 0, rd_limit = limit\<rparr>, b(key \<mapsto> hits))
         else let hits = hits @ [now] in
              (\<lparr>rd_allowed = True, rd_retry_after = None, rd_remaining = limit - length hits,
                rd_limit = limit\<rparr>, b(key \<mapsto> hits)))"

definition rate_step :: "int \<Rightarrow> nat \<Rightarrow> string \<Rightarrow> int \<Rightarrow> buckets \<Rightarrow> bool \<times> buckets" where
  "rate_step window_seconds limit key now b =
     (case rate_check key window_seconds limit now b of (d, b') \<Rightarrow> (rd_allowed d, b'))"

section \<open>spend-guard.ts\<close>

record spend_config =
  min_balance_lamports :: int
  max_per_window :: nat
  spend_window_seconds :: int
  balance_cache_ms :: int

record spend_state =
  sg_hits :: "int list"
  sg_cached_balance :: int
  sg_cached_at :: int

definition spend_init :: spend_state where
  "spend_init = \<lparr>sg_hits = [], sg_cached_balance = 0, sg_cached_at = 0\<rparr>"

text \<open>\<open>rpc\<close> is the outcome of \<open>connection.getBalance\<close>: \<open>None\<close> when it throws.\<close>

definition spend_balance ::
    "spend_config \<Rightarrow> int \<Rightarrow> int option \<Rightarrow> spend_state \<Rightarrow> int option \<times> spend_state" where
  "spend_balance cfg now rpc s =
     (if now - sg_cached_at s < balance_cache_ms cfg then (Some (sg_cached_balance s), s)
      else case rpc of
             None \<Rightarrow> (None, s)
           | Some b \<Rightarrow> (Some b, s\<lparr>sg_cached_balance := b, sg_cached_at := now\<rparr>))"

definition spend_check ::
    "spend_config \<Rightarrow> int \<Rightarrow> int option \<Rightarrow> spend_state \<Rightarrow> string option \<times> spend_state" where
  "spend_check cfg now rpc s =
     (let cutoff = now - spend_window_seconds cfg * 1000;
          s = s\<lparr>sg_hits := dropWhile (\<lambda>t. t \<le> cutoff) (sg_hits s)\<rparr>
      in if length (sg_hits s) \<ge> max_per_window cfg then (Some ''relayer_spend_cap'', s)
         else case spend_balance cfg now rpc s of
                (None, s) \<Rightarrow> (Some ''balance_check_failed'', s)
              | (Some bal, s) \<Rightarrow>
                  if bal < min_balance_lamports cfg then (Some ''relayer_balance_low'', s)
                  else (None, s))"

definition spend_commit :: "int \<Rightarrow> spend_state \<Rightarrow> spend_state" where
  "spend_commit now s = s\<lparr>sg_hits := sg_hits s @ [now]\<rparr>"

text \<open>One request served to its end: the check at \<open>tc\<close>, the commit after the send at \<open>ta\<close>.\<close>

definition spend_serve ::
    "spend_config \<Rightarrow> (int \<Rightarrow> int option) \<Rightarrow> unit \<Rightarrow> int \<times> int \<Rightarrow> spend_state \<Rightarrow> bool \<times> spend_state" where
  "spend_serve cfg rpc u q s =
     (case spend_check cfg (fst q) (rpc (fst q)) s of
        (None, s') \<Rightarrow> (True, spend_commit (snd q) s')
      | (Some r, s') \<Rightarrow> (False, s'))"

section \<open>replay-guard.ts\<close>

type_synonym seen = "(bytes \<times> int) list"

definition replay_sweep :: "int \<Rightarrow> int \<Rightarrow> seen \<Rightarrow> seen" where
  "replay_sweep ttl_ms now seen = filter (\<lambda>(k, ts). \<not> ts + ttl_ms \<le> now) seen"

text \<open>The UTF-8 bytes of a text, whose characters are here up to 255.\<close>

definition utf8_latin1 :: "string \<Rightarrow> bytes" where
  "utf8_latin1 s = concat (map (\<lambda>c. let n = char_code c in
     if n < 128 then [word_of_nat n] else [word_of_nat (192 + n div 64), word_of_nat (128 + n mod 64)]) s)"

definition replay_admit ::
    "(bytes \<Rightarrow> bytes) \<Rightarrow> int \<Rightarrow> int \<Rightarrow> string \<Rightarrow> seen \<Rightarrow> bool \<times> seen" where
  "replay_admit sha ttl_seconds now tx_base64 seen =
     (let ttl_ms = ttl_seconds * 1000;
          seen = (if length seen > 0 \<and> length seen mod 64 = 0 then replay_sweep ttl_ms now seen else seen);
          hash = sha (utf8_latin1 tx_base64)
      in case map_of seen hash of
           Some prev \<Rightarrow> if prev + ttl_ms > now then (False, seen) else (True, AList.update hash now seen)
         | None \<Rightarrow> (True, AList.update hash now seen))"

section \<open>sanctions.ts\<close>

text \<open>\<open>raw.split(/\r?\n/)\<close>: a carriage return right before the newline belongs to the separator.\<close>

definition drop_cr :: "string \<Rightarrow> string" where
  "drop_cr s = (if s \<noteq> [] \<and> last s = char_of (13::nat) then butlast s else s)"

fun split_lines :: "string \<Rightarrow> string \<Rightarrow> string list" where
  "split_lines acc [] = [acc]"
| "split_lines acc (c # s) =
     (if c = char_of (10::nat) then drop_cr acc # split_lines [] s else split_lines (acc @ [c]) s)"

definition parse_list :: "string \<Rightarrow> string list" where
  "parse_list raw =
     filter (\<lambda>t. t \<noteq> [] \<and> hd t \<noteq> CHR ''#'') (map js_trim (split_lines [] raw))"

definition sanctions_is_blocked :: "string list \<Rightarrow> string \<Rightarrow> bool" where
  "sanctions_is_blocked blocked owner = (owner \<in> set blocked)"

text \<open>A reload replaces the list only when the source could be read; \<open>None\<close> is a failed load.\<close>

definition sanctions_reload :: "string option \<Rightarrow> string list \<Rightarrow> string + string list" where
  "sanctions_reload source blocked =
     (case source of None \<Rightarrow> Inl ''sanctions list fetch failed'' | Some raw \<Rightarrow> Inr (parse_list raw))"

section \<open>auth.ts\<close>

definition safe_equal :: "string \<Rightarrow> string \<Rightarrow> bool" where
  "safe_equal a b = (let ab = utf8_latin1 a; bb = utf8_latin1 b in
     if length ab \<noteq> length bb then False else ab = bb)"

definition bearer_prefix :: string where
  "bearer_prefix = ''bearer ''"

definition require_auth :: "string option \<Rightarrow> string option \<Rightarrow> (nat \<times> string) + unit" where
  "require_auth api_key header =
     (case api_key of
        None \<Rightarrow> Inr ()
      | Some key \<Rightarrow>
          if key = [] then Inr ()
          else case header of
                 None \<Rightarrow> Inl (401, ''missing_authorization'')
               | Some h \<Rightarrow>
                   if h = [] then Inl (401, ''missing_authorization'')
                   else if take (length bearer_prefix) (to_lower h) \<noteq> bearer_prefix
                   then Inl (401, ''invalid_auth_scheme'')
                   else let token = js_trim (drop (length bearer_prefix) h) in
                        if \<not> safe_equal token key then Inl (403, ''invalid_api_key'') else Inr ())"

section \<open>The window guards\<close>

interpretation rate: sliding_window "rate_step w l" id id bucket_hits "w * 1000" l
  for w :: int and l :: nat
  by unfold_locales
     (auto simp: rate_step_def rate_check_def bucket_hits_def Let_def split: if_splits)

lemma spend_balance_hits: "spend_balance cfg now rpc s = (b, s') \<Longrightarrow> sg_hits s' = sg_hits s"
  by (auto simp: spend_balance_def split: if_splits option.splits)

interpretation spend: sliding_window "spend_serve cfg rpc" fst snd "\<lambda>s _. sg_hits s"
    "spend_window_seconds cfg * 1000" "max_per_window cfg"
  for cfg :: spend_config and rpc :: "int \<Rightarrow> int option"
proof unfold_locales
  fix k :: unit and q :: "int \<times> int" and ok and s s' :: spend_state
  let ?trim = "dropWhile (\<lambda>t. t \<le> fst q - spend_window_seconds cfg * 1000) (sg_hits s)"
  assume run: "spend_serve cfg rpc k q s = (ok, s')"
  show "sg_hits s' = ?trim @ (if ok then [snd q] else [])"
    using run
    by (auto simp: spend_serve_def spend_check_def spend_commit_def Let_def
        dest!: spend_balance_hits split: if_splits option.splits prod.splits)
next
  fix k :: unit and q :: "int \<times> int" and s s' :: spend_state
  assume "spend_serve cfg rpc k q s = (True, s')"
  then show "length (dropWhile (\<lambda>t. t \<le> fst q - spend_window_seconds cfg * 1000) (sg_hits s)) < max_per_window cfg"
    by (auto simp: spend_serve_def spend_check_def Let_def split: if_splits option.splits prod.splits)
qed simp

section \<open>Invariant of the buckets\<close>

definition rate_inv :: "nat \<Rightarrow> buckets \<Rightarrow> bool" where
  "rate_inv l b \<longleftrightarrow> (\<forall>k. length (bucket_hits b k) \<le> l)"

lemma rate_step_inv: "rate_inv l b \<Longrightarrow> rate_step w l k now b = (ok, b') \<Longrightarrow> rate_inv l b'"
  using length_dropWhile_le [of "\<lambda>t. t \<le> now - w * 1000" "bucket_hits b k"]
  by (fastforce simp: rate_inv_def rate_step_def rate_check_def bucket_hits_def Let_def
      split: if_splits intro: order_trans)

lemma rate_run_inv:
  "rate_inv l b \<Longrightarrow> run_window (rate_step w l) rs b = (log, b') \<Longrightarrow> rate_inv l b'"
proof (induction rs arbitrary: b log b')
  case Nil
  then show ?case by simp
next
  case (Cons r rs)
  obtain k q where r: "r = (k, q)" by (cases r)
  obtain ok b1 where b1: "rate_step w l k q b = (ok, b1)" by fastforce
  obtain log1 b2 where run: "run_window (rate_step w l) rs b1 = (log1, b2)" by fastforce
  have "rate_inv l b2" by (rule Cons.IH [OF rate_step_inv [OF Cons.prems(1) b1] run])
  with Cons.prems(2) show ?case by (simp add: r b1 run)
qed

lemma ceil_div_bound: "0 < b \<Longrightarrow> a \<le> ceil_div a b * b"
proof -
  assume "0 < b"
  have "(- a) div b * b \<le> - a" using \<open>0 < b\<close> pos_mod_sign [of b "- a"] div_mult_mod_eq [of "- a" b] by linarith
  then show ?thesis by (simp add: ceil_div_def)
qed

section \<open>UTF-8 of Latin-1 text is injective\<close>

lemma byte_of_nat_eq: "m < 256 \<Longrightarrow> n < 256 \<Longrightarrow> (word_of_nat m :: byte) = word_of_nat n \<longleftrightarrow> m = n"
  by (metis mod_less unat_word_of_nat_byte)

lemma char_code_less: "char_code c < 256"
  by (simp add: char_code_def)

lemma char_code_inject: "char_code c = char_code d \<longleftrightarrow> c = d"
  by (simp add: char_code_def)

lemma utf8_Cons:
  "utf8_latin1 (c # s) = (if char_code c < 128 then [word_of_nat (char_code c)]
     else [word_of_nat (192 + char_code c div 64), word_of_nat (128 + char_code c mod 64)]) @ utf8_latin1 s"
  by (simp add: utf8_latin1_def Let_def)

lemma utf8_latin1_inject: "utf8_latin1 a = utf8_latin1 b \<Longrightarrow> a = b"
proof (induction a arbitrary: b)
  case Nil
  then show ?case by (cases b) (auto simp: utf8_Cons split: if_splits, simp_all add: utf8_latin1_def)
next
  case (Cons c a)
  then obtain d b' where b: "b = d # b'"
    by (cases b) (auto simp: utf8_Cons split: if_splits, simp_all add: utf8_latin1_def)
  let ?m = "char_code c" and ?n = "char_code d"
  have lt: "?m < 256" "?n < 256" by (rule char_code_less)+
  then have div64: "?m div 64 < 4" "?n div 64 < 4" by auto
  have hi: "192 + ?m div 64 < 256" "192 + ?n div 64 < 256" "128 + ?m mod 64 < 256" "128 + ?n mod 64 < 256"
    using div64 mod_less_divisor [of 64 ?m] mod_less_divisor [of 64 ?n] by linarith+
  have eq: "utf8_latin1 (c # a) = utf8_latin1 (d # b')" using Cons.prems b by simp
  show ?case
  proof (cases "?m < 128")
    case True
    with eq lt hi have n: "?n < 128" by (auto simp: utf8_Cons byte_of_nat_eq split: if_splits simp del: of_nat_add)
    with eq True lt have "?m = ?n" "utf8_latin1 a = utf8_latin1 b'" by (auto simp: utf8_Cons byte_of_nat_eq simp del: of_nat_add)
    with Cons.IH b show ?thesis by (simp add: char_code_inject)
  next
    case False
    with eq lt hi have n: "\<not> ?n < 128" by (auto simp: utf8_Cons byte_of_nat_eq split: if_splits simp del: of_nat_add)
    with eq False hi have "?m div 64 = ?n div 64" "?m mod 64 = ?n mod 64" and r: "utf8_latin1 a = utf8_latin1 b'"
      by (auto simp: utf8_Cons byte_of_nat_eq simp del: of_nat_add)
    then have "?m = ?n" by (metis div_mult_mod_eq)
    with Cons.IH [OF r] b show ?thesis by (simp add: char_code_inject)
  qed
qed

lemma safe_equal_iff: "safe_equal a b \<longleftrightarrow> a = b"
  using utf8_latin1_inject [of a b] by (auto simp: safe_equal_def Let_def)

section \<open>The replay guard's map\<close>

lemma map_of_filter_keep: "map_of al k = Some v \<Longrightarrow> P (k, v) \<Longrightarrow> map_of (filter P al) k = Some v"
  by (induction al) auto

fun replay_run :: "(bytes \<Rightarrow> bytes) \<Rightarrow> int \<Rightarrow> (int \<times> string) list \<Rightarrow> seen \<Rightarrow> seen" where
  "replay_run sha ttl [] seen = seen"
| "replay_run sha ttl ((now, tx) # rs) seen =
     replay_run sha ttl rs (snd (replay_admit sha ttl now tx seen))"

lemma replay_admit_keeps:
  assumes "map_of seen h = Some t" "now < t + ttl * 1000"
  shows "map_of (snd (replay_admit sha ttl now tx seen)) h = Some t"
proof -
  have "map_of (replay_sweep (ttl * 1000) now seen) h = Some t"
    unfolding replay_sweep_def by (rule map_of_filter_keep) (use assms in auto)
  with assms show ?thesis
    by (auto simp: replay_admit_def Let_def AList.update_conv' split: option.splits)
qed

lemma replay_run_keeps:
  "map_of seen h = Some t \<Longrightarrow> (\<And>now tx. (now, tx) \<in> set rs \<Longrightarrow> now < t + ttl * 1000) \<Longrightarrow>
     map_of (replay_run sha ttl rs seen) h = Some t"
proof (induction rs arbitrary: seen)
  case Nil
  then show ?case by simp
next
  case (Cons r rs)
  obtain now tx where r: "r = (now, tx)" by (cases r)
  have "map_of (snd (replay_admit sha ttl now tx seen)) h = Some t"
    using Cons.prems r by (intro replay_admit_keeps) auto
  then show ?case using Cons r by auto
qed

lemma replay_admit_seen:
  assumes "map_of seen (sha (utf8_latin1 tx)) = Some t" "now < t + ttl * 1000"
  shows "fst (replay_admit sha ttl now tx seen) = False"
proof -
  have "map_of (replay_sweep (ttl * 1000) now seen) (sha (utf8_latin1 tx)) = Some t"
    unfolding replay_sweep_def by (rule map_of_filter_keep) (use assms in auto)
  with assms show ?thesis by (auto simp: replay_admit_def Let_def)
qed

section \<open>Properties\<close>

text \<open>
  C33. The rate limiter enforces its contract: for any sequence of checks in time order, over any
  mix of keys, starting from no buckets, no key is admitted more than \<open>limit\<close> times within any
  time window of \<open>windowSeconds\<close>.
\<close>

theorem rate_limit_window_bound:
  assumes "ordered_from id id now rs"
    and "run_window (rate_step window_seconds limit) rs (\<lambda>_. None) = (log, b)"
  shows "in_window (window_seconds * 1000) T (hits_of id key log) \<le> limit"
  by (rule rate.window_bound [OF _ assms]) (simp add: bucket_hits_def)

theorem rate_limit_window_bound_witness:
  "in_window 60000 61000 (hits_of id ''ip:a'' (fst (run_window (rate_step 60 1)
      [(''ip:a'', 1000), (''ip:b'', 1500), (''ip:a'', 2000), (''ip:a'', 61000)] (\<lambda>_. None)))) \<le> 1"
  using rate_limit_window_bound [of 0 "[(''ip:a'', 1000), (''ip:b'', 1500), (''ip:a'', 2000), (''ip:a'', 61000)]"
      60 1 "fst (run_window (rate_step 60 1)
      [(''ip:a'', 1000), (''ip:b'', 1500), (''ip:a'', 2000), (''ip:a'', 61000)] (\<lambda>_. None))"
      "snd (run_window (rate_step 60 1)
      [(''ip:a'', 1000), (''ip:b'', 1500), (''ip:a'', 2000), (''ip:a'', 61000)] (\<lambda>_. None))" 61000 "''ip:a''"]
  by simp

text \<open>
  A refusal tells the truth: in every state the limiter can reach, when a check is refused with
  \<open>retryAfterSeconds = r\<close>, the next check of that key made at least \<open>r\<close> seconds later is admitted.
\<close>

theorem retry_after_suffices:
  assumes "run_window (rate_step window_seconds limit) rs (\<lambda>_. None) = (log, b)"
    and "rate_check key window_seconds limit now b = (d, b')"
    and "rd_retry_after d = Some r"
    and "now + r * 1000 \<le> now'"
  shows "rd_allowed (fst (rate_check key window_seconds limit now' b'))"
proof -
  let ?w = "window_seconds * 1000"
  have "rate_inv limit b"
    by (rule rate_run_inv [OF _ assms(1)]) (simp add: rate_inv_def bucket_hits_def)
  then have cap: "length (bucket_hits b key) \<le> limit" by (simp add: rate_inv_def)
  define hits where "hits = dropWhile (\<lambda>t. t \<le> now - ?w) (bucket_hits b key)"
  obtain oldest rest where hits: "hits = oldest # rest" and r: "r = ceil_div (oldest + ?w - now) 1000"
    and b': "b' = b(key \<mapsto> hits)"
    using assms(2,3) by (auto simp: rate_check_def Let_def hits_def split: if_splits list.splits)
  have "oldest \<le> now' - ?w" using ceil_div_bound [of 1000 "oldest + ?w - now"] assms(4) r by linarith
  then have "dropWhile (\<lambda>t. t \<le> now' - ?w) hits = dropWhile (\<lambda>t. t \<le> now' - ?w) rest"
    by (simp add: hits)
  then have "length (dropWhile (\<lambda>t. t \<le> now' - ?w) hits) \<le> length rest"
    by (simp add: length_dropWhile_le)
  moreover have "length rest < limit"
    using cap length_dropWhile_le [of "\<lambda>t. t \<le> now - ?w" "bucket_hits b key"] hits hits_def
    by (metis Suc_le_lessD le_trans length_Cons)
  ultimately show ?thesis by (simp add: rate_check_def b' bucket_hits_def Let_def)
qed

theorem retry_after_suffices_witness:
  "rd_retry_after (fst (rate_check ''k'' 60 1 5000 [''k'' \<mapsto> [1500]])) = Some 57
     \<and> rd_allowed (fst (rate_check ''k'' 60 1 62000 (snd (rate_check ''k'' 60 1 5000 [''k'' \<mapsto> [1500]]))))"
proof -
  have run: "run_window (rate_step 60 1) [(''k'', 1500)] (\<lambda>_. None) = ([(''k'', 1500)], [''k'' \<mapsto> [1500]])"
    by (simp add: rate_step_def rate_check_def bucket_hits_def)
  have r: "rd_retry_after (fst (rate_check ''k'' 60 1 5000 [''k'' \<mapsto> [1500]])) = Some 57"
    by (simp add: rate_check_def bucket_hits_def ceil_div_def)
  with retry_after_suffices [OF run surjective_pairing r, of 62000] show ?thesis by simp
qed

text \<open>
  Served one after the other, the spend guard never lets more than \<open>maxPerWindow\<close> transactions
  be forwarded in any window, whatever the balance calls return.
\<close>

theorem spend_cap_sequential:
  assumes "ordered_from fst snd now rs"
    and "run_window (spend_serve cfg rpc) rs spend_init = (log, s)"
  shows "in_window (spend_window_seconds cfg * 1000) T (hits_of snd () log) \<le> max_per_window cfg"
  by (rule spend.window_bound [OF _ assms]) (simp add: spend_init_def)

definition sample_spend :: spend_config where
  "sample_spend = \<lparr>min_balance_lamports = 50, max_per_window = 1, spend_window_seconds = 60,
     balance_cache_ms = 5000\<rparr>"

theorem spend_cap_sequential_witness:
  "in_window 60000 61000 (hits_of snd () (fst (run_window (spend_serve sample_spend (\<lambda>_. Some 70))
      [((), (10000, 10400)), ((), (20000, 20400))] spend_init))) \<le> 1"
  using spend_cap_sequential [of 0 "[((), (10000, 10400)), ((), (20000, 20400))]" sample_spend "\<lambda>_. Some 70"
      "fst (run_window (spend_serve sample_spend (\<lambda>_. Some 70)) [((), (10000, 10400)), ((), (20000, 20400))] spend_init)"
      "snd (run_window (spend_serve sample_spend (\<lambda>_. Some 70)) [((), (10000, 10400)), ((), (20000, 20400))] spend_init)"
      61000]
  by (simp add: sample_spend_def)

text \<open>Requests whose checks all happen before the first commit, as concurrent handlers allow.\<close>

fun spend_checks :: "spend_config \<Rightarrow> int \<Rightarrow> int option \<Rightarrow> nat \<Rightarrow> spend_state \<Rightarrow> string option list \<times> spend_state" where
  "spend_checks cfg now rpc 0 s = ([], s)"
| "spend_checks cfg now rpc (Suc n) s =
     (case spend_check cfg now rpc s of (d, s') \<Rightarrow>
        (case spend_checks cfg now rpc n s' of (ds, s'') \<Rightarrow> (d # ds, s'')))"

lemma spend_check_idle:
  assumes "sg_hits s = []" "0 < max_per_window cfg" "rpc = Some bal" "min_balance_lamports cfg \<le> bal"
    and "sg_cached_at s = now \<and> sg_cached_balance s = bal \<or> balance_cache_ms cfg \<le> now - sg_cached_at s"
  shows "\<exists>s'. spend_check cfg now rpc s = (None, s') \<and> sg_hits s' = []
     \<and> (sg_cached_at s' = now \<and> sg_cached_balance s' = bal)"
  using assms by (auto simp: spend_check_def spend_balance_def Let_def)

lemma spend_checks_idle:
  assumes "0 < max_per_window cfg" "rpc = Some bal" "min_balance_lamports cfg \<le> bal"
  shows "sg_hits s = [] \<Longrightarrow>
     sg_cached_at s = now \<and> sg_cached_balance s = bal \<or> balance_cache_ms cfg \<le> now - sg_cached_at s \<Longrightarrow>
     \<exists>s'. spend_checks cfg now rpc n s = (replicate n None, s') \<and> sg_hits s' = []"
proof (induction n arbitrary: s)
  case 0
  then show ?case by simp
next
  case (Suc n)
  obtain s1 where s1: "spend_check cfg now rpc s = (None, s1)" "sg_hits s1 = []"
    "sg_cached_at s1 = now \<and> sg_cached_balance s1 = bal"
    using spend_check_idle [OF Suc.prems(1) assms Suc.prems(2)] by blast
  then obtain s2 where "spend_checks cfg now rpc n s1 = (replicate n None, s2)" "sg_hits s2 = []"
    using Suc.IH by blast
  with s1(1) show ?case by simp
qed

text \<open>
  The cap does not hold for concurrent requests: with any cap of at least one, any number \<open>n\<close> of
  requests whose checks run before the first of them commits are all allowed, and their commits
  put \<open>n\<close> hits into one window.
\<close>

theorem spend_cap_concurrent_overrun:
  assumes "0 < max_per_window cfg" "min_balance_lamports cfg \<le> bal"
    and "balance_cache_ms cfg \<le> now" "0 < spend_window_seconds cfg"
  shows "\<exists>s. spend_checks cfg now (Some bal) n spend_init = (replicate n None, s)
     \<and> in_window (spend_window_seconds cfg * 1000) now (sg_hits ((spend_commit now ^^ n) s)) = n"
proof -
  obtain s where s: "spend_checks cfg now (Some bal) n spend_init = (replicate n None, s)" "sg_hits s = []"
    using spend_checks_idle [OF assms(1) refl assms(2), of spend_init now n] assms(3)
    by (auto simp: spend_init_def)
  have "sg_hits ((spend_commit now ^^ m) s) = replicate m now" for m
    by (induction m) (auto simp: spend_commit_def s(2) replicate_append_same)
  with s(1) assms(4) show ?thesis by (simp add: in_window_def)
qed

theorem spend_cap_concurrent_overrun_witness:
  "max_per_window sample_spend = 1 \<and>
     (\<exists>s. spend_checks sample_spend 10000 (Some 70) 5 spend_init = (replicate 5 None, s)
       \<and> in_window 60000 10000 (sg_hits ((spend_commit 10000 ^^ 5) s)) = 5)"
  using spend_cap_concurrent_overrun [of sample_spend 70 10000 5] by (simp add: sample_spend_def)

text \<open>
  C34. Replay defence: once a transaction text has been admitted, every further admission of the
  same text within the TTL is refused, whatever other texts are checked in between and however
  often the map is swept.
\<close>

theorem replay_refused_within_ttl:
  assumes "replay_admit sha ttl t0 tx seen = (True, seen1)"
    and "\<And>now tx'. (now, tx') \<in> set rs \<Longrightarrow> now < t0 + ttl * 1000"
    and "t1 < t0 + ttl * 1000"
  shows "fst (replay_admit sha ttl t1 tx (replay_run sha ttl rs seen1)) = False"
proof (rule replay_admit_seen [OF replay_run_keeps])
  show "map_of seen1 (sha (utf8_latin1 tx)) = Some t0"
    using assms(1) by (auto simp: replay_admit_def Let_def AList.update_conv' split: option.splits if_splits)
qed (use assms in auto)

theorem replay_refused_within_ttl_witness:
  "fst (replay_admit id 120 90000 ''QUJD'' (replay_run id 120 [(5000, ''QQ==''), (6000, ''QUJD'')]
      (snd (replay_admit id 120 1000 ''QUJD'' [])))) = False"
proof -
  let ?rs = "[(5000, ''QQ==''), (6000, ''QUJD'')] :: (int \<times> string) list"
  have adm: "replay_admit id 120 1000 ''QUJD'' [] = (True, snd (replay_admit id 120 1000 ''QUJD'' []))"
    by (simp add: replay_admit_def Let_def)
  have early: "now < 1000 + 120 * 1000" if "(now, tx') \<in> set ?rs" for now tx' using that by auto
  have "(90000 :: int) < 1000 + 120 * 1000" by simp
  from replay_refused_within_ttl [OF adm early this] show ?thesis .
qed

text \<open>
  The guard keys on the text, not on the transaction: for every transaction, its canonical
  base64 text and the same text after a blank decode to the same bytes, yet (as long as SHA-256
  tells the two texts apart) both are admitted, at the same instant, into an empty guard.
\<close>

theorem replay_guard_text_malleable:
  assumes "sha (utf8_latin1 (CHR '' '' # b64_encode bs))
      \<noteq> sha (utf8_latin1 (b64_encode bs))"
  shows "b64_decode (CHR '' '' # b64_encode bs) = b64_decode (b64_encode bs)
     \<and> fst (replay_admit sha ttl now (b64_encode bs) [])
     \<and> fst (replay_admit sha ttl now (CHR '' '' # b64_encode bs)
              (snd (replay_admit sha ttl now (b64_encode bs) [])))"
proof -
  have "b64_decode (CHR '' '' # s) = b64_decode s" for s
    by (simp add: b64_decode_def b64_sextets_def b64_val_def char_code_def map_filter_simps)
  with assms show ?thesis by (simp add: replay_admit_def Let_def)
qed

theorem replay_guard_text_malleable_witness:
  "b64_decode '' QQ=='' = b64_decode ''QQ==''
     \<and> fst (replay_admit id 120 1000 '' QQ=='' (snd (replay_admit id 120 1000 ''QQ=='' [])))"
proof -
  have "b64_encode [65] = ''QQ==''" by code_simp
  moreover have "utf8_latin1 '' QQ=='' \<noteq> utf8_latin1 ''QQ==''" using utf8_latin1_inject by blast
  ultimately show ?thesis using replay_guard_text_malleable [of id "[65]" 120 1000] by simp
qed

text \<open>
  With an API key configured, a request passes \<open>requireAuth\<close> exactly when it carries an
  authorization header whose first seven characters are \<open>bearer\<close> and a blank in any letter case and
  whose rest, trimmed, is the key; every other header is answered 401 or 403.
\<close>

theorem auth_passes_iff:
  "require_auth (Some key) header = Inr () \<longleftrightarrow>
     key = [] \<or> (\<exists>h. header = Some h \<and> h \<noteq> [] \<and> take 7 (to_lower h) = ''bearer '' \<and> js_trim (drop 7 h) = key)"
proof -
  have p: "''bearer '' = bearer_prefix" and len: "length bearer_prefix = 7"
    by (simp_all add: bearer_prefix_def)
  show ?thesis
    unfolding p by (auto simp: require_auth_def len safe_equal_iff Let_def split: option.split)
qed

end
