(* ===== verification/RelayerRoutes.thy ===== *)
theory RelayerRoutes
  imports RelayerTx RelayerPolicy
begin

text \<open>
  The relayer's HTTP handlers: \<open>routes/submit.ts\<close>, \<open>submit-deposit.ts\<close>, \<open>quote.ts\<close>,
  \<open>deposit-quote.ts\<close>, the client of an upstream Kora (\<open>kora.ts\<close>) and the wiring of
  \<open>index.ts\<close>. A request is a record of everything that comes from outside while it is served
  (address, body, clock readings, answers of the RPC node and of the backend); the handlers are
  functions from the policy state to the reply, the text forwarded to the backend if any, and the
  new state.
\<close>

section \<open>Configuration, state, requests\<close>

record relayer_config =
  rc_program_id :: pubkey
  rc_fee_payer :: pubkey
  rc_api_key :: "string option"
  rc_fee_ata :: "pubkey option"
  rc_fee_amount_micro :: int
  rc_rate_ip_limit :: nat
  rc_rate_ip_window :: int
  rc_rate_recipient_limit :: nat
  rc_rate_recipient_window :: int
  rc_denom_tiers :: "(int \<times> int) list"
  rc_fee_bps :: int
  rc_spend :: spend_config
  rc_replay_ttl :: int
  rc_sanctions_source :: bool

record relayer_state =
  rs_ip_buckets :: buckets
  rs_recipient_buckets :: buckets
  rs_blocked :: "string list"
  rs_spend :: spend_state
  rs_seen :: seen

record request =
  rq_ip :: string
  rq_auth :: "string option"
  rq_tx :: "string option"
  rq_t_ip :: int
  rq_t_replay :: int
  rq_t_recipient :: int
  rq_t_spend :: int
  rq_t_commit :: int
  rq_account :: "pubkey \<Rightarrow> string + bytes option"
  rq_balance :: "int option"
  rq_send :: "string \<Rightarrow> string + string"
  rq_blockhash :: "string + string \<times> int"

datatype reply =
    Refused nat string
  | Signature string
  | Quote pubkey pubkey int "(int \<times> string) list" nat nat
  | DepositQuote pubkey pubkey int string int int
  | Health bool pubkey
  | Uncaught string

text \<open>The third-party functions of a relayer: SHA-256, \<open>Transaction.from\<close> and \<open>toBase58\<close>.\<close>

record externals =
  x_sha :: hash_fun
  x_tx_from :: tx_parser
  x_base58 :: "pubkey \<Rightarrow> string"

section \<open>kora.ts\<close>

datatype fetch_outcome =
    FetchTimeout
  | FetchError string
  | FetchStatus nat string
  | FetchOk "string option" "string option"

text \<open>
  \<open>FetchOk error signature\<close> is a 2xx reply with the JSON-RPC error message, if any, and
  \<open>result.signature\<close>, if present and not empty.
\<close>

definition kora_send :: "fetch_outcome \<Rightarrow> string + string" where
  "kora_send r =
     (case r of
        FetchTimeout \<Rightarrow> Inl ''kora request timed out after 15000ms''
      | FetchError m \<Rightarrow> Inl m
      | FetchStatus code txt \<Rightarrow> Inl (''kora '' @ nat_str 10 code @ '': '' @ txt)
      | FetchOk err sig \<Rightarrow>
          (case err of
             Some m \<Rightarrow> Inl (''kora rpc error: '' @ m)
           | None \<Rightarrow> (case sig of None \<Rightarrow> Inl ''kora rpc returned no signature'' | Some s \<Rightarrow> Inr s)))"

definition kora_ping :: "fetch_outcome \<Rightarrow> bool" where
  "kora_ping r = (case r of FetchOk _ _ \<Rightarrow> True | _ \<Rightarrow> False)"

definition js_includes :: "string \<Rightarrow> string \<Rightarrow> bool" where
  "js_includes s sub = list_ex (\<lambda>k. take (length sub) (drop k s) = sub) [0..<length s + 1]"

definition send_error_reply :: "string \<Rightarrow> reply" where
  "send_error_reply msg =
     (if js_includes (to_lower msg) ''rpc'' then Refused 502 ''rpc_error'' else Refused 400 ''submit_failed'')"

section \<open>submit.ts\<close>

definition forward ::
    "relayer_config \<Rightarrow> request \<Rightarrow> string \<Rightarrow> relayer_state \<Rightarrow> reply \<times> string option \<times> relayer_state" where
  "forward cfg rq tx st =
     (case spend_check (rc_spend cfg) (rq_t_spend rq) (rq_balance rq) (rs_spend st) of
        (Some reason, sp) \<Rightarrow> (Refused 503 reason, None, st\<lparr>rs_spend := sp\<rparr>)
      | (None, sp) \<Rightarrow>
          (case rq_send rq tx of
             Inr sig \<Rightarrow> (Signature sig, Some tx, st\<lparr>rs_spend := spend_commit (rq_t_commit rq) sp\<rparr>)
           | Inl msg \<Rightarrow> (send_error_reply msg, Some tx, st\<lparr>rs_spend := sp\<rparr>)))"

definition submit_route ::
    "externals \<Rightarrow> relayer_config \<Rightarrow> request \<Rightarrow> relayer_state \<Rightarrow> reply \<times> string option \<times> relayer_state" where
  "submit_route x cfg rq st =
     (case rate_check (''ip:'' @ rq_ip rq) (rc_rate_ip_window cfg) (rc_rate_ip_limit cfg) (rq_t_ip rq)
             (rs_ip_buckets st) of (d, b) \<Rightarrow>
      let st = st\<lparr>rs_ip_buckets := b\<rparr> in
      if \<not> rd_allowed d then (Refused 429 ''rate_limited'', None, st)
      else case rq_tx rq of
        None \<Rightarrow> (Refused 400 ''missing_param'', None, st)
      | Some tx \<Rightarrow>
          if tx = [] then (Refused 400 ''missing_param'', None, st)
          else case replay_admit (x_sha x) (rc_replay_ttl cfg) (rq_t_replay rq) tx (rs_seen st) of (fresh, seen) \<Rightarrow>
            let st = st\<lparr>rs_seen := seen\<rparr> in
            if \<not> fresh then (Refused 409 ''replayed_tx'', None, st)
            else case decode_and_validate_withdraw (x_sha x) (x_tx_from x) tx (rc_program_id cfg)
                        (rc_fee_payer cfg) of
              Inl code \<Rightarrow> (Refused 400 code, None, st)
            | Inr v \<Rightarrow>
                if \<not> list_ex (\<lambda>t. fst t = uint (vw_denom_id v)) (rc_denom_tiers cfg)
                then (Refused 400 ''unknown_denom_id'', None, st)
                else case rq_account rq (vw_recipient_ata v) of
                  Inl e \<Rightarrow> (Uncaught e, None, st)
                | Inr None \<Rightarrow> (Refused 400 ''recipient_ata_not_found'', None, st)
                | Inr (Some data) \<Rightarrow>
                    (case decode_ata_owner data of
                       Inl code \<Rightarrow> (Refused 400 code, None, st)
                     | Inr owner_pk \<Rightarrow>
                         let owner = x_base58 x owner_pk in
                         if sanctions_is_blocked (rs_blocked st) owner
                         then (Refused 403 ''sanctioned_recipient'', None, st)
                         else case rate_check (''recipient:'' @ owner) (rc_rate_recipient_window cfg)
                                     (rc_rate_recipient_limit cfg) (rq_t_recipient rq)
                                     (rs_recipient_buckets st) of (d2, b2) \<Rightarrow>
                           let st = st\<lparr>rs_recipient_buckets := b2\<rparr> in
                           if \<not> rd_allowed d2 then (Refused 429 ''rate_limited'', None, st)
                           else forward cfg rq tx st))"

section \<open>submit-deposit.ts\<close>

definition deposit_fee :: "relayer_config \<Rightarrow> deposit_fee_expectation option" where
  "deposit_fee cfg = map_option (\<lambda>a. \<lparr>fee_ata = a, min_fee_micro = rc_fee_amount_micro cfg\<rparr>) (rc_fee_ata cfg)"

definition submit_deposit_route ::
    "externals \<Rightarrow> relayer_config \<Rightarrow> request \<Rightarrow> relayer_state \<Rightarrow> reply \<times> string option \<times> relayer_state" where
  "submit_deposit_route x cfg rq st =
     (case rate_check (''deposit:'' @ rq_ip rq) (rc_rate_ip_window cfg) (rc_rate_ip_limit cfg)
             (rq_t_ip rq) (rs_ip_buckets st) of (d, b) \<Rightarrow>
      let st = st\<lparr>rs_ip_buckets := b\<rparr> in
      if \<not> rd_allowed d then (Refused 429 ''rate_limited'', None, st)
      else case rq_tx rq of
        None \<Rightarrow> (Refused 400 ''missing_param'', None, st)
      | Some tx \<Rightarrow>
          if tx = [] then (Refused 400 ''missing_param'', None, st)
          else case replay_admit (x_sha x) (rc_replay_ttl cfg) (rq_t_replay rq) tx (rs_seen st) of (fresh, seen) \<Rightarrow>
            let st = st\<lparr>rs_seen := seen\<rparr> in
            if \<not> fresh then (Refused 409 ''replayed_tx'', None, st)
            else case decode_and_validate_deposit (x_sha x) (x_tx_from x) tx (rc_program_id cfg)
                        (rc_fee_payer cfg) (deposit_fee cfg) of
              Inl code \<Rightarrow> (Refused 400 code, None, st)
            | Inr v \<Rightarrow>
                if sanctions_is_blocked (rs_blocked st) (x_base58 x (vd_depositor v))
                then (Refused 403 ''sanctioned_depositor'', None, st)
                else forward cfg rq tx st)"

section \<open>quote.ts and deposit-quote.ts\<close>

definition quote_route ::
    "relayer_config \<Rightarrow> request \<Rightarrow> relayer_state \<Rightarrow> reply \<times> string option \<times> relayer_state" where
  "quote_route cfg rq st =
     (case rate_check (''ip:'' @ rq_ip rq) (rc_rate_ip_window cfg) (rc_rate_ip_limit cfg) (rq_t_ip rq)
             (rs_ip_buckets st) of (d, b) \<Rightarrow>
      let st = st\<lparr>rs_ip_buckets := b\<rparr> in
      if \<not> rd_allowed d then (Refused 429 ''rate_limited'', None, st)
      else (Quote (rc_fee_payer cfg) (rc_program_id cfg) (rc_fee_bps cfg)
              (map (\<lambda>t. (fst t, int_str 10 (snd t))) (rc_denom_tiers cfg)) (rd_limit d) (rd_remaining d),
            None, st))"

definition deposit_quote_route ::
    "relayer_config \<Rightarrow> request \<Rightarrow> relayer_state \<Rightarrow> reply \<times> string option \<times> relayer_state" where
  "deposit_quote_route cfg rq st =
     (case rate_check (''deposit-quote:'' @ rq_ip rq) (rc_rate_ip_window cfg) (rc_rate_ip_limit cfg)
             (rq_t_ip rq) (rs_ip_buckets st) of (d, b) \<Rightarrow>
      let st = st\<lparr>rs_ip_buckets := b\<rparr> in
      if \<not> rd_allowed d then (Refused 429 ''rate_limited'', None, st)
      else case rq_blockhash rq of
        Inl e \<Rightarrow> (Uncaught e, None, st)
      | Inr (blockhash, height) \<Rightarrow>
          (case rc_fee_ata cfg of
             None \<Rightarrow> (Refused 500 ''fee_ata_not_configured'', None, st)
           | Some ata \<Rightarrow> (DepositQuote (rc_fee_payer cfg) ata (rc_fee_amount_micro cfg) blockhash height
                            (rc_fee_bps cfg), None, st)))"

section \<open>index.ts\<close>

text \<open>Start-up: a configured sanctions source that cannot be loaded stops the process.\<close>

definition relayer_start :: "relayer_config \<Rightarrow> string option \<Rightarrow> string + relayer_state" where
  "relayer_start cfg sanctions_text =
     (let empty = \<lparr>rs_ip_buckets = (\<lambda>_. None), rs_recipient_buckets = (\<lambda>_. None), rs_blocked = [],
                   rs_spend = spend_init, rs_seen = []\<rparr>
      in if rc_sanctions_source cfg
         then (case sanctions_reload sanctions_text [] of
                 Inl _ \<Rightarrow> Inl ''sanctions list initial load failed''
               | Inr blocked \<Rightarrow> Inr (empty\<lparr>rs_blocked := blocked\<rparr>))
         else Inr empty)"

text \<open>The hourly refresh: a failure is logged and the list in force stays.\<close>

definition relayer_refresh :: "string option \<Rightarrow> relayer_state \<Rightarrow> relayer_state" where
  "relayer_refresh sanctions_text st =
     (case sanctions_reload sanctions_text (rs_blocked st) of
        Inl _ \<Rightarrow> st | Inr blocked \<Rightarrow> st\<lparr>rs_blocked := blocked\<rparr>)"

datatype route = GetHealth bool | GetQuote | PostSubmit | GetDepositQuote | PostSubmitDeposit

definition relayer_serve ::
    "externals \<Rightarrow> relayer_config \<Rightarrow> route \<Rightarrow> request \<Rightarrow> relayer_state
      \<Rightarrow> reply \<times> string option \<times> relayer_state" where
  "relayer_serve x cfg route rq st =
     (case route of
        GetHealth ok \<Rightarrow> (Health ok (rc_fee_payer cfg), None, st)
      | _ \<Rightarrow>
          (case require_auth (rc_api_key cfg) (rq_auth rq) of
             Inl (code, err) \<Rightarrow> (Refused code err, None, st)
           | Inr _ \<Rightarrow>
               (case route of
                  GetQuote \<Rightarrow> quote_route cfg rq st
                | PostSubmit \<Rightarrow> submit_route x cfg rq st
                | GetDepositQuote \<Rightarrow> deposit_quote_route cfg rq st
                | _ \<Rightarrow> submit_deposit_route x cfg rq st)))"

section \<open>When a handler forwards\<close>

lemma forward_forwards:
  assumes "forward cfg rq tx st = (r, Some f, st')"
  shows "f = tx \<and> fst (spend_check (rc_spend cfg) (rq_t_spend rq) (rq_balance rq) (rs_spend st)) = None"
  using assms by (auto simp: forward_def split: option.splits prod.splits sum.splits)

lemma forward_signature:
  "forward cfg rq tx st = (Signature s, f, st') \<Longrightarrow> f = Some tx \<and> rq_send rq tx = Inr s"
  by (auto simp: forward_def send_error_reply_def split: option.splits prod.splits sum.splits if_splits)

lemma forward_forwards_iff:
  "(\<exists>r st'. forward cfg rq tx st = (r, Some f, st')) \<longleftrightarrow>
     f = tx \<and> fst (spend_check (rc_spend cfg) (rq_t_spend rq) (rq_balance rq) (rs_spend st)) = None"
  by (auto simp: forward_def split: option.splits prod.splits sum.splits)

text \<open>The gate in front of both submit handlers: rate limit, body, replay.\<close>

definition admitted ::
    "externals \<Rightarrow> relayer_config \<Rightarrow> string \<Rightarrow> request \<Rightarrow> relayer_state \<Rightarrow> string \<Rightarrow> bool" where
  "admitted x cfg prefix rq st tx \<longleftrightarrow>
     rd_allowed (fst (rate_check (prefix @ rq_ip rq) (rc_rate_ip_window cfg) (rc_rate_ip_limit cfg)
        (rq_t_ip rq) (rs_ip_buckets st)))
     \<and> rq_tx rq = Some tx \<and> tx \<noteq> []
     \<and> fst (replay_admit (x_sha x) (rc_replay_ttl cfg) (rq_t_replay rq) tx (rs_seen st))"

definition withdraw_checks ::
    "externals \<Rightarrow> relayer_config \<Rightarrow> request \<Rightarrow> relayer_state \<Rightarrow> string \<Rightarrow> bool" where
  "withdraw_checks x cfg rq st tx \<longleftrightarrow> (\<exists>v data owner.
     decode_and_validate_withdraw (x_sha x) (x_tx_from x) tx (rc_program_id cfg) (rc_fee_payer cfg) = Inr v
     \<and> list_ex (\<lambda>t. fst t = uint (vw_denom_id v)) (rc_denom_tiers cfg)
     \<and> rq_account rq (vw_recipient_ata v) = Inr (Some data) \<and> decode_ata_owner data = Inr owner
     \<and> x_base58 x owner \<notin> set (rs_blocked st)
     \<and> rd_allowed (fst (rate_check (''recipient:'' @ x_base58 x owner) (rc_rate_recipient_window cfg)
          (rc_rate_recipient_limit cfg) (rq_t_recipient rq) (rs_recipient_buckets st))))"

lemma submit_route_forwards_iff:
  "(\<exists>r st'. submit_route x cfg rq st = (r, Some f, st')) \<longleftrightarrow>
     admitted x cfg ''ip:'' rq st f \<and> withdraw_checks x cfg rq st f
     \<and> fst (spend_check (rc_spend cfg) (rq_t_spend rq) (rq_balance rq) (rs_spend st)) = None"
  (is "?L \<longleftrightarrow> ?R")
proof
  assume ?L
  then obtain r st' where run: "submit_route x cfg rq st = (r, Some f, st')" by blast
  then obtain tx st2 where "admitted x cfg ''ip:'' rq st tx" "withdraw_checks x cfg rq st tx"
    and fw: "forward cfg rq tx st2 = (r, Some f, st')" and sp: "rs_spend st2 = rs_spend st"
    by (auto simp: submit_route_def admitted_def withdraw_checks_def sanctions_is_blocked_def Let_def
        split: prod.splits if_splits option.splits sum.splits)
  with forward_forwards [OF fw] show ?R by simp
next
  assume R: ?R
  then show ?L
    by (auto simp: submit_route_def admitted_def withdraw_checks_def sanctions_is_blocked_def Let_def
        forward_forwards_iff split: prod.splits)
qed

lemma submit_deposit_route_forwards_iff:
  "(\<exists>r st'. submit_deposit_route x cfg rq st = (r, Some f, st')) \<longleftrightarrow>
     admitted x cfg ''deposit:'' rq st f
     \<and> (\<exists>v. decode_and_validate_deposit (x_sha x) (x_tx_from x) f (rc_program_id cfg)
           (rc_fee_payer cfg) (deposit_fee cfg) = Inr v
         \<and> x_base58 x (vd_depositor v) \<notin> set (rs_blocked st))
     \<and> fst (spend_check (rc_spend cfg) (rq_t_spend rq) (rq_balance rq) (rs_spend st)) = None"
  (is "?L \<longleftrightarrow> ?R")
proof
  assume ?L
  then obtain r st' where run: "submit_deposit_route x cfg rq st = (r, Some f, st')" by blast
  then obtain tx st2 v where "admitted x cfg ''deposit:'' rq st tx"
    "decode_and_validate_deposit (x_sha x) (x_tx_from x) tx (rc_program_id cfg)
           (rc_fee_payer cfg) (deposit_fee cfg) = Inr v" "x_base58 x (vd_depositor v) \<notin> set (rs_blocked st)"
    and fw: "forward cfg rq tx st2 = (r, Some f, st')" and sp: "rs_spend st2 = rs_spend st"
    by (auto simp: submit_deposit_route_def admitted_def sanctions_is_blocked_def Let_def
        split: prod.splits if_splits option.splits sum.splits)
  with forward_forwards [OF fw] show ?R by simp
next
  assume R: ?R
  then show ?L
    by (auto simp: submit_deposit_route_def admitted_def sanctions_is_blocked_def Let_def
        forward_forwards_iff split: prod.splits)
qed

lemma quotes_forward_nothing:
  "fst (snd (quote_route cfg rq st)) = None" "fst (snd (deposit_quote_route cfg rq st)) = None"
  by (auto simp: quote_route_def deposit_quote_route_def Let_def split: prod.splits sum.splits option.splits)

lemma relayer_serve_forwards:
  assumes "relayer_serve x cfg route rq st = (r, Some f, st')"
  shows "require_auth (rc_api_key cfg) (rq_auth rq) = Inr ()
     \<and> (route = PostSubmit \<and> submit_route x cfg rq st = (r, Some f, st')
        \<or> route = PostSubmitDeposit \<and> submit_deposit_route x cfg rq st = (r, Some f, st'))"
  using assms quotes_forward_nothing [of cfg rq st]
  by (auto simp: relayer_serve_def split: route.splits sum.splits prod.splits)

section \<open>The spend window under every reply\<close>

lemma spend_check_trims:
  "spend_check cfg now rpc s = (d, s') \<Longrightarrow> set (sg_hits s') \<subseteq> set (sg_hits s)"
  by (auto simp: spend_check_def Let_def dest!: spend_balance_hits dest: set_dropWhileD
      split: if_splits option.splits prod.splits)

definition spend_untouched :: "reply \<times> string option \<times> relayer_state \<Rightarrow> relayer_state \<Rightarrow> bool" where
  "spend_untouched res st \<longleftrightarrow> set (sg_hits (rs_spend (snd (snd res)))) \<subseteq> set (sg_hits (rs_spend st))"

lemma forward_spend:
  "(\<exists>s. fst (forward cfg rq tx st) = Signature s \<and> rq_send rq tx = Inr s
      \<and> fst (snd (forward cfg rq tx st)) = Some tx) \<or>
   (\<forall>s. fst (forward cfg rq tx st) \<noteq> Signature s) \<and> spend_untouched (forward cfg rq tx st) st"
  by (auto simp: forward_def spend_untouched_def send_error_reply_def
      split: option.splits prod.splits sum.splits dest!: spend_check_trims)

text \<open>A submit handler either stops without touching the window or ends in \<open>forward\<close>.\<close>

definition ends_in_forward ::
    "relayer_config \<Rightarrow> request \<Rightarrow> relayer_state \<Rightarrow> reply \<times> string option \<times> relayer_state \<Rightarrow> bool" where
  "ends_in_forward cfg rq st res \<longleftrightarrow> (\<exists>tx st2. res = forward cfg rq tx st2 \<and> rs_spend st2 = rs_spend st)"

definition stops :: "relayer_state \<Rightarrow> reply \<times> string option \<times> relayer_state \<Rightarrow> bool" where
  "stops st res \<longleftrightarrow> (\<forall>s. fst res \<noteq> Signature s) \<and> rs_spend (snd (snd res)) = rs_spend st"

lemma ends_in_forwardI [simp]:
  "rs_spend st2 = rs_spend st \<Longrightarrow> ends_in_forward cfg rq st (forward cfg rq tx st2)"
  by (auto simp: ends_in_forward_def)

lemma stopsI [simp]:
  "rs_spend st2 = rs_spend st \<Longrightarrow> stops st (Refused c e, f, st2)"
  "rs_spend st2 = rs_spend st \<Longrightarrow> stops st (Uncaught m, f, st2)"
  by (simp_all add: stops_def)

lemma submit_route_ends: "stops st (submit_route x cfg rq st) \<or> ends_in_forward cfg rq st (submit_route x cfg rq st)"
  by (auto simp: submit_route_def Let_def split: prod.splits option.splits sum.splits)

lemma submit_deposit_route_ends:
  "stops st (submit_deposit_route x cfg rq st) \<or> ends_in_forward cfg rq st (submit_deposit_route x cfg rq st)"
  by (auto simp: submit_deposit_route_def Let_def split: prod.splits option.splits sum.splits)

lemma ends_spend:
  assumes "stops st res \<or> ends_in_forward cfg rq st res"
  shows "(\<exists>s tx. fst res = Signature s \<and> rq_send rq tx = Inr s \<and> fst (snd res) = Some tx) \<or>
    (\<forall>s. fst res \<noteq> Signature s) \<and> spend_untouched res st"
  using assms
proof
  assume "stops st res"
  then show ?thesis by (simp add: spend_untouched_def stops_def)
next
  assume "ends_in_forward cfg rq st res"
  then obtain tx st2 where res: "res = forward cfg rq tx st2" and sp: "rs_spend st2 = rs_spend st"
    unfolding ends_in_forward_def by blast
  from forward_spend [of cfg rq tx st2] show ?thesis
    unfolding res spend_untouched_def sp by blast
qed

lemmas submit_route_spend = ends_spend [OF submit_route_ends]
lemmas submit_deposit_route_spend = ends_spend [OF submit_deposit_route_ends]

lemma quotes_spend:
  "spend_untouched (quote_route cfg rq st) st" "spend_untouched (deposit_quote_route cfg rq st) st"
  "\<forall>s. fst (quote_route cfg rq st) \<noteq> Signature s" "\<forall>s. fst (deposit_quote_route cfg rq st) \<noteq> Signature s"
  by (auto simp: quote_route_def deposit_quote_route_def spend_untouched_def Let_def
      split: prod.splits sum.splits option.splits)

text \<open>What was forwarded is answered with what the backend says.\<close>

lemma forwarded_answer:
  assumes "relayer_serve x cfg route rq st = (r, Some f, st')" "rq_send rq f = Inr sig"
  shows "r = Signature sig"
  using conjunct2 [OF relayer_serve_forwards [OF assms(1)]] assms(2)
  by (auto simp: submit_route_def submit_deposit_route_def forward_def Let_def
      split: prod.splits if_splits option.splits sum.splits)

section \<open>Properties\<close>

text \<open>
  C32. \<open>/submit\<close> forwards a text to the backend exactly when every policy holds: the address is
  within its rate, the text is the non-empty body and not a replay, it validates as a withdraw of
  the configured pool with the relayer as fee payer, its denomination is a known tier, the
  recipient account exists and its owner is neither sanctioned nor over its own rate, and the
  spend guard allows it.
\<close>

theorem submit_forwards_iff_all_checks_pass:
  "(\<exists>r st'. submit_route x cfg rq st = (r, Some tx, st')) \<longleftrightarrow>
     rd_allowed (fst (rate_check (''ip:'' @ rq_ip rq) (rc_rate_ip_window cfg) (rc_rate_ip_limit cfg)
        (rq_t_ip rq) (rs_ip_buckets st)))
     \<and> rq_tx rq = Some tx \<and> tx \<noteq> []
     \<and> fst (replay_admit (x_sha x) (rc_replay_ttl cfg) (rq_t_replay rq) tx (rs_seen st))
     \<and> (\<exists>v data owner.
          decode_and_validate_withdraw (x_sha x) (x_tx_from x) tx (rc_program_id cfg) (rc_fee_payer cfg) = Inr v
        \<and> list_ex (\<lambda>t. fst t = uint (vw_denom_id v)) (rc_denom_tiers cfg)
        \<and> rq_account rq (vw_recipient_ata v) = Inr (Some data) \<and> decode_ata_owner data = Inr owner
        \<and> x_base58 x owner \<notin> set (rs_blocked st)
        \<and> rd_allowed (fst (rate_check (''recipient:'' @ x_base58 x owner) (rc_rate_recipient_window cfg)
             (rc_rate_recipient_limit cfg) (rq_t_recipient rq) (rs_recipient_buckets st))))
     \<and> fst (spend_check (rc_spend cfg) (rq_t_spend rq) (rq_balance rq) (rs_spend st)) = None"
  using submit_route_forwards_iff [of x cfg rq st tx]
  by (simp only: admitted_def withdraw_checks_def conj_assoc)

text \<open>
  What the relayer lends its signature to: the text parses to a transaction naming the relayer as fee
  payer that is either one withdraw of the configured pool, or a token transfer followed by one deposit
  of it, the transfer paying the configured fee account at least the configured fee.
\<close>

definition pool_transaction :: "externals \<Rightarrow> relayer_config \<Rightarrow> string \<Rightarrow> bool" where
  "pool_transaction x cfg f \<longleftrightarrow>
     (\<exists>tx. x_tx_from x (b64_decode f) = Inr tx \<and> tx_fee_payer tx = Some (rc_fee_payer cfg) \<and>
       ((\<exists>w. tx_instructions tx = [w] \<and> ix_program w = rc_program_id cfg
           \<and> slice 0 8 (ix_data w) = anchor_ix_discriminator (x_sha x) ''withdraw'')
        \<or> (\<exists>t d. tx_instructions tx = [t, d] \<and> ix_program t = token_program_id \<and> ix_data t ! 0 = 3
           \<and> ix_program d = rc_program_id cfg
           \<and> slice 0 8 (ix_data d) = anchor_ix_discriminator (x_sha x) ''deposit''
           \<and> (case rc_fee_ata cfg of None \<Rightarrow> True
              | Some a \<Rightarrow> am_pubkey (ix_keys t ! 1) = a
                   \<and> rc_fee_amount_micro cfg \<le> int (read_u64_le (ix_data t) 1)))))"

lemma forwarded_pool_transaction:
  assumes "relayer_serve x cfg route rq st = (r, Some f, st')"
  shows "require_auth (rc_api_key cfg) (rq_auth rq) = Inr ()" "pool_transaction x cfg f"
proof -
  note cases = relayer_serve_forwards [OF assms]
  then show "require_auth (rc_api_key cfg) (rq_auth rq) = Inr ()" by simp
  from cases consider
      (w) v where "decode_and_validate_withdraw (x_sha x) (x_tx_from x) f (rc_program_id cfg) (rc_fee_payer cfg) = Inr v"
    | (d) v where "decode_and_validate_deposit (x_sha x) (x_tx_from x) f (rc_program_id cfg) (rc_fee_payer cfg)
        (deposit_fee cfg) = Inr v"
    using submit_route_forwards_iff [of x cfg rq st f] submit_deposit_route_forwards_iff [of x cfg rq st f]
    unfolding withdraw_checks_def by blast
  then show "pool_transaction x cfg f"
  proof cases
    case w
    then show ?thesis by (auto simp: withdraw_accepted_iff pool_transaction_def)
  next
    case d
    then show ?thesis
      by (cases "rc_fee_ata cfg")
         (auto simp: deposit_accepted_iff check_deposit_ix_Inr_iff check_fee_Inr_iff deposit_fee_def pool_transaction_def)
  qed
qed

definition sample_config :: relayer_config where
  "sample_config = \<lparr>rc_program_id = zeros 32, rc_fee_payer = replicate 32 9, rc_api_key = Some ''key'',
     rc_fee_ata = Some (replicate 32 2), rc_fee_amount_micro = 50000, rc_rate_ip_limit = 20,
     rc_rate_ip_window = 60, rc_rate_recipient_limit = 10, rc_rate_recipient_window = 60,
     rc_denom_tiers = [(1, 1000000)], rc_fee_bps = 50, rc_spend = sample_spend, rc_replay_ttl = 120,
     rc_sanctions_source = False\<rparr>"

definition sample_state :: relayer_state where
  "sample_state = \<lparr>rs_ip_buckets = (\<lambda>_. None), rs_recipient_buckets = (\<lambda>_. None), rs_blocked = [],
     rs_spend = spend_init, rs_seen = []\<rparr>"

definition sample_request :: "string option \<Rightarrow> request" where
  "sample_request auth = \<lparr>rq_ip = ''a'', rq_auth = auth, rq_tx = Some ''AA=='', rq_t_ip = 10000,
     rq_t_replay = 10000, rq_t_recipient = 10000, rq_t_spend = 10000, rq_t_commit = 10000,
     rq_account = (\<lambda>_. Inr None), rq_balance = Some 70, rq_send = (\<lambda>_. Inr ''sig''),
     rq_blockhash = Inl ''no''\<rparr>"

definition sample_externals :: "instruction list \<Rightarrow> externals" where
  "sample_externals ixs = \<lparr>x_sha = toy_sha,
     x_tx_from = (\<lambda>_. Inr \<lparr>tx_fee_payer = Some (replicate 32 9), tx_instructions = ixs\<rparr>),
     x_base58 = (\<lambda>_. ''pk'')\<rparr>"

lemma sample_deposit_forwarded:
  "\<exists>t d. \<forall>send. \<exists>r st'. relayer_serve (sample_externals [t, d]) sample_config PostSubmitDeposit
     ((sample_request (Some ''Bearer key''))\<lparr>rq_send := send\<rparr>) sample_state = (r, Some ''AA=='', st')"
proof -
  let ?fee = "\<lparr>fee_ata = replicate 32 2, min_fee_micro = 50000\<rparr> :: deposit_fee_expectation"
  obtain t d where td: "build_transfer_ix (replicate 32 1) (fee_ata ?fee) (replicate 32 3) 60000 token_program_id = Inr t"
    "build_deposit_ix toy_sha 1 (zeros 32) (sample_deposit_accounts (replicate 32 3) (replicate 32 1)) (zeros 32) = Inr d"
    using sample_deposit_built [of "replicate 32 1" "fee_ata ?fee" "replicate 32 3" "replicate 32 3" "replicate 32 1"]
    by auto
  have auth: "require_auth (Some ''key'') (Some ''Bearer key'') = Inr ()" by code_simp
  have val: "\<exists>v. decode_and_validate_deposit toy_sha (x_tx_from (sample_externals [t, d])) ''AA==''
      (zeros 32) (replicate 32 9) (Some ?fee) = Inr v"
    using gasless_deposit_checked [OF toy_sha_ok _ _ _ _ td, of "x_tx_from (sample_externals [t, d])"
        "''AA==''" "replicate 32 9"] by (simp add: sample_externals_def)
  have "\<exists>r st'. submit_deposit_route (sample_externals [t, d]) sample_config
     ((sample_request (Some ''Bearer key''))\<lparr>rq_send := send\<rparr>) sample_state = (r, Some ''AA=='', st')" for send
    unfolding submit_deposit_route_forwards_iff
    using val by (simp add: admitted_def sample_config_def sample_request_def sample_state_def
        sample_externals_def deposit_fee_def rate_check_def bucket_hits_def replay_admit_def
        spend_check_def spend_balance_def spend_init_def sample_spend_def Let_def)
  then show ?thesis using auth by (fastforce simp: relayer_serve_def sample_config_def sample_request_def)
qed

text \<open>
  Only a successful send costs the relayer: whatever the route and the request, either the
  reply is the signature the backend returned for the very text that was forwarded, or no
  signature is returned and the spend window has gained no hit.
\<close>

theorem only_successful_sends_spend:
  "(\<exists>s tx. fst (relayer_serve x cfg route rq st) = Signature s
      \<and> fst (snd (relayer_serve x cfg route rq st)) = Some tx \<and> rq_send rq tx = Inr s)
   \<or> (\<forall>s. fst (relayer_serve x cfg route rq st) \<noteq> Signature s)
     \<and> set (sg_hits (rs_spend (snd (snd (relayer_serve x cfg route rq st)))))
         \<subseteq> set (sg_hits (rs_spend st))"
  using submit_route_spend [of x cfg rq st] submit_deposit_route_spend [of x cfg rq st]
    quotes_spend [of cfg rq st]
  by (auto simp: relayer_serve_def spend_untouched_def split: route.split sum.split prod.split)

end
