(* ===== verification/SdkProver.thy ===== *)
theory SdkProver
  imports SdkMerkle FieldCodec
begin

text \<open>
  \<open>qietr-sdk/src/prover.ts\<close> and the circuit \<open>qietr_payment.circom\<close> it proves: the witness built
  for a spend, the constraints it has to satisfy, and the packing of a Groth16 proof into the 256
  bytes of the on-chain verifier. Poseidon (\<open>P\<close>), snarkjs' \<open>fullProve\<close> and the random bytes are
  arguments.
\<close>

section \<open>Witness\<close>

record commitment =
  cm_secret :: string
  cm_nullifier :: string
  cm_amount :: int
  cm_denom_id :: int

record merkle_proof_dec =
  mp_path_elements :: "string list"
  mp_path_indices :: "int list"
  mp_root :: string

record witness_inputs =
  wi_secret :: string
  wi_nullifier :: string
  wi_amount :: string
  wi_new_secret :: string
  wi_new_nullifier :: string
  wi_path_elements :: "string list"
  wi_path_indices :: "string list"
  wi_root :: string
  wi_nullifier_hash :: string
  wi_recipient :: string
  wi_payment_amount :: string
  wi_change_commitment :: string

type_synonym poseidon = "int list \<Rightarrow> nat"

definition big :: "string \<Rightarrow> codec_error + int" where
  "big s = optE (BigIntSyntax s) (parse_bigint s)"

text \<open>\<open>rnd1\<close> and \<open>rnd2\<close> are the 31-byte draws of the two \<open>randomFieldString()\<close> calls.\<close>

definition build_witness ::
    "poseidon \<Rightarrow> bytes \<Rightarrow> bytes \<Rightarrow> commitment \<Rightarrow> merkle_proof_dec \<Rightarrow> string \<Rightarrow> int
      \<Rightarrow> codec_error + witness_inputs" where
  "build_witness P rnd1 rnd2 c mp recipient payment_amount =
     bindE (big (cm_secret c)) (\<lambda>secret.
     bindE (big (cm_nullifier c)) (\<lambda>nullifier.
     bindE (bindE (random_field_dec rnd1) big) (\<lambda>new_secret.
     bindE (bindE (random_field_dec rnd2) big) (\<lambda>new_nullifier.
     let amount = cm_amount c;
         change = amount - payment_amount
     in Inr \<lparr>wi_secret = int_str 10 secret, wi_nullifier = int_str 10 nullifier,
             wi_amount = int_str 10 amount, wi_new_secret = int_str 10 new_secret,
             wi_new_nullifier = int_str 10 new_nullifier,
             wi_path_elements = mp_path_elements mp,
             wi_path_indices = map (int_str 10) (mp_path_indices mp),
             wi_root = mp_root mp, wi_nullifier_hash = nat_str 10 (P [nullifier]),
             wi_recipient = recipient, wi_payment_amount = int_str 10 payment_amount,
             wi_change_commitment = nat_str 10 (P [new_secret, new_nullifier, change])\<rparr>))))"

section \<open>Packing a proof\<close>

definition bn254_q :: int where
  "bn254_q = 21888242871839275222246405745257275088696311157297823662689037894645226208583"

definition negate_y :: "int \<Rightarrow> int" where
  "negate_y y = (bn254_q - y mod bn254_q) mod bn254_q"

text \<open>
  \<open>BigInt(triple[1])\<close> is non-negative for snarkjs' decimal coordinates, so JavaScript's \<open>%\<close> is
  \<open>mod\<close>. A G1 point is its list of decimal coordinates; a missing third one reads \<open>"1"\<close>.
\<close>

definition negate_g1 :: "string list \<Rightarrow> codec_error + string list" where
  "negate_g1 triple =
     bindE (big (triple ! 1)) (\<lambda>y.
     Inr [triple ! 0, int_str 10 (negate_y y), if 2 < length triple then triple ! 2 else ''1''])"

definition pack_g1 :: "string list \<Rightarrow> codec_error + bytes" where
  "pack_g1 triple =
     bindE (dec_string_to_be32 (triple ! 0)) (\<lambda>x.
     bindE (dec_string_to_be32 (triple ! 1)) (\<lambda>y. Inr (x @ y)))"

definition pack_g2 :: "string list list \<Rightarrow> codec_error + bytes" where
  "pack_g2 triple =
     bindE (dec_string_to_be32 (triple ! 0 ! 0)) (\<lambda>x0.
     bindE (dec_string_to_be32 (triple ! 0 ! 1)) (\<lambda>x1.
     bindE (dec_string_to_be32 (triple ! 1 ! 0)) (\<lambda>y0.
     bindE (dec_string_to_be32 (triple ! 1 ! 1)) (\<lambda>y1.
     Inr (x1 @ x0 @ y1 @ y0)))))"

record snark_output =
  so_pi_a :: "string list"
  so_pi_b :: "string list list"
  so_pi_c :: "string list"
  so_public_signals :: "string list"

record groth16_proof =
  gp_proof_bytes :: bytes
  gp_public_signals :: "bytes list"

fun map_codec :: "('a \<Rightarrow> codec_error + 'b) \<Rightarrow> 'a list \<Rightarrow> codec_error + 'b list" where
  "map_codec f [] = Inr []"
| "map_codec f (x # xs) = bindE (f x) (\<lambda>y. bindE (map_codec f xs) (\<lambda>ys. Inr (y # ys)))"

text \<open>The part of \<open>proveGroth16\<close> after \<open>fullProve\<close> returned.\<close>

definition pack_groth16 :: "snark_output \<Rightarrow> codec_error + groth16_proof" where
  "pack_groth16 out =
     bindE (bindE (negate_g1 (so_pi_a out)) pack_g1) (\<lambda>a.
     bindE (pack_g2 (so_pi_b out)) (\<lambda>b.
     bindE (pack_g1 (so_pi_c out)) (\<lambda>c.
     bindE (map_codec dec_string_to_be32 (so_public_signals out)) (\<lambda>signals.
     Inr \<lparr>gp_proof_bytes = a @ b @ c, gp_public_signals = signals\<rparr>))))"

section \<open>The circuit\<close>

text \<open>
  The constraints of \<open>QietrPayment(20)\<close> over the scalar field, on integer values of the signals.
  \<open>Num2Bits(64)\<close>, \<open>IsZero\<close> and \<open>LessEqThan(64)\<close> of circomlib are given by their documented
  meaning: a value below \<open>2 ^ 64\<close>, a non-zero value, an order comparison of 64-bit values. An equality
  constraint is an equality in the field.
\<close>

definition fr :: int where
  "fr = int bn254_fr"

fun circuit_path :: "(int \<Rightarrow> int \<Rightarrow> int) \<Rightarrow> int \<Rightarrow> int list \<Rightarrow> int list \<Rightarrow> int option" where
  "circuit_path H cur (e # es) (s # ss) =
     (if s * (1 - s) mod fr = 0
      then circuit_path H (H (((e - cur) * s + cur) mod fr) (((cur - e) * s + e) mod fr)) es ss
      else None)"
| "circuit_path H cur [] [] = Some cur"
| "circuit_path H cur _ _ = None"

record circuit_signals =
  cs_secret :: int
  cs_nullifier :: int
  cs_amount :: int
  cs_new_secret :: int
  cs_new_nullifier :: int
  cs_path_elements :: "int list"
  cs_path_indices :: "int list"
  cs_root :: int
  cs_nullifier_hash :: int
  cs_recipient :: int
  cs_payment_amount :: int
  cs_change_commitment :: int

definition circuit_ok :: "poseidon \<Rightarrow> circuit_signals \<Rightarrow> bool" where
  "circuit_ok P s \<longleftrightarrow>
     length (cs_path_elements s) = 20
     \<and> map_option (\<lambda>root. root mod fr) (circuit_path (\<lambda>l r. int (P [l, r]))
         (int (P [cs_secret s, cs_nullifier s, cs_amount s])) (cs_path_elements s) (cs_path_indices s))
         = Some (cs_root s mod fr)
     \<and> cs_nullifier_hash s mod fr = int (P [cs_nullifier s]) mod fr
     \<and> cs_amount s mod fr < 2 ^ 64
     \<and> cs_payment_amount s mod fr \<noteq> 0
     \<and> cs_payment_amount s mod fr < 2 ^ 64 \<and> cs_payment_amount s mod fr \<le> cs_amount s mod fr
     \<and> cs_change_commitment s mod fr =
         int (P [cs_new_secret s, cs_new_nullifier s, (cs_amount s - cs_payment_amount s) mod fr]) mod fr"

text \<open>The signal values a witness assigns: snarkjs reads decimal strings.\<close>

fun all_some :: "'a option list \<Rightarrow> 'a list option" where
  "all_some [] = Some []"
| "all_some (x # xs) = (case x of None \<Rightarrow> None | Some a \<Rightarrow> map_option ((#) a) (all_some xs))"

definition signals_of :: "witness_inputs \<Rightarrow> circuit_signals option" where
  "signals_of w =
     (case (all_some (map parse_bigint [wi_secret w, wi_nullifier w, wi_amount w, wi_new_secret w,
              wi_new_nullifier w, wi_root w, wi_nullifier_hash w, wi_recipient w,
              wi_payment_amount w, wi_change_commitment w]),
            all_some (map parse_bigint (wi_path_elements w)),
            all_some (map parse_bigint (wi_path_indices w))) of
        (Some [a, b, c, d, e, f, g, h, i, j], Some els, Some idxs) \<Rightarrow>
          Some \<lparr>cs_secret = a, cs_nullifier = b, cs_amount = c, cs_new_secret = d,
                cs_new_nullifier = e, cs_path_elements = els, cs_path_indices = idxs, cs_root = f,
                cs_nullifier_hash = g, cs_recipient = h, cs_payment_amount = i,
                cs_change_commitment = j\<rparr>
      | _ \<Rightarrow> None)"

section \<open>Lemmas\<close>

lemma big_nat [simp]: "big (nat_str 10 n) = Inr (int n)"
  by (simp add: big_def)

lemma big_int [simp]: "big (int_str 10 n) = Inr n"
  by (simp add: big_def)

lemma big_Inr_iff [simp]: "big s = Inr n \<longleftrightarrow> parse_bigint s = Some n"
  by (simp add: big_def optE_Inr_iff)

lemma fr_pos: "0 < fr"
  by (simp add: fr_def bn254_fr_def)

lemma fr_big: "2 ^ 65 < fr"
  by (simp add: fr_def bn254_fr_def)

text \<open>The multiplexer constraint forces each selector to be 0 or 1 modulo the field.\<close>

lemma circuit_path_fold:
  assumes "set ss \<subseteq> {0, 1}" "length es = length ss"
    and "\<forall>e \<in> set es. 0 \<le> e \<and> e < fr" "0 \<le> cur" "cur < fr"
    and "\<And>l r. 0 \<le> H l r \<and> H l r < fr"
  shows "circuit_path H cur es ss = Some (fold_path H cur es ss)"
  using assms
proof (induction ss arbitrary: cur es)
  case Nil
  then show ?case by simp
next
  case (Cons s ss)
  obtain e es' where es: "es = e # es'" using Cons.prems(2) by (cases es) auto
  have e: "0 \<le> e" "e < fr" using Cons.prems(3) es by auto
  have s: "s = 0 \<or> s = 1" using Cons.prems(1) by auto
  let ?next = "if s = 0 then H cur e else H e cur"
  have "circuit_path H ?next es' ss = Some (fold_path H ?next es' ss)"
    using Cons.prems es by (intro Cons.IH) auto
  then show ?case using s e Cons.prems(4,5) by (auto simp: es)
qed

lemma all_some_nat: "all_some (map (parse_bigint \<circ> int_str 10) xs) = Some xs"
  by (induction xs) auto

lemma build_witness_inr:
  assumes "parse_bigint (cm_secret c) = Some sec" "parse_bigint (cm_nullifier c) = Some nul"
    and "r1 \<noteq> []" "r2 \<noteq> []"
  shows "build_witness P r1 r2 c mp recipient pay = Inr
     \<lparr>wi_secret = int_str 10 sec, wi_nullifier = int_str 10 nul, wi_amount = int_str 10 (cm_amount c),
      wi_new_secret = int_str 10 (int (be_val r1)), wi_new_nullifier = int_str 10 (int (be_val r2)),
      wi_path_elements = mp_path_elements mp, wi_path_indices = map (int_str 10) (mp_path_indices mp),
      wi_root = mp_root mp, wi_nullifier_hash = nat_str 10 (P [nul]), wi_recipient = recipient,
      wi_payment_amount = int_str 10 pay,
      wi_change_commitment = nat_str 10 (P [int (be_val r1), int (be_val r2), cm_amount c - pay])\<rparr>"
  using assms by (simp add: build_witness_def big_def random_field_dec_inr Let_def)

lemma negate_y_spec: "0 \<le> negate_y y \<and> negate_y y < bn254_q \<and> (negate_y y + y) mod bn254_q = 0"
proof -
  have pos: "0 < bn254_q" by (simp add: bn254_q_def)
  have "(negate_y y + y) mod bn254_q = (bn254_q - y mod bn254_q + y mod bn254_q) mod bn254_q"
    by (simp only: negate_y_def mod_add_left_eq mod_add_right_eq)
  then show ?thesis using pos by (simp add: negate_y_def)
qed

lemma dec_string_to_be32_length: "dec_string_to_be32 s = Inr bs \<Longrightarrow> length bs = 32"
  by (auto simp: dec_string_to_be32_def Let_def split: option.splits)

lemma pack_g1_length: "pack_g1 t = Inr bs \<Longrightarrow> length bs = 64"
  by (auto simp: pack_g1_def bindE_Inr_iff dest!: dec_string_to_be32_length)

lemma pack_g2_length: "pack_g2 t = Inr bs \<Longrightarrow> length bs = 128"
  by (auto simp: pack_g2_def bindE_Inr_iff dest!: dec_string_to_be32_length)

lemma map_codec_Inr:
  "map_codec f xs = Inr ys \<longleftrightarrow> length ys = length xs \<and> (\<forall>i < length xs. f (xs ! i) = Inr (ys ! i))"
proof (induction xs arbitrary: ys)
  case Nil
  then show ?case by auto
next
  case (Cons x xs)
  show ?case
  proof (cases ys)
    case Nil
    then show ?thesis by (auto simp: bindE_Inr_iff)
  next
    case (Cons z zs)
    then show ?thesis
      by (auto simp: bindE_Inr_iff Cons.IH All_less_Suc2)
  qed
qed

section \<open>The honest witness\<close>

lemma honest_witness:
  fixes P :: poseidon
  defines "H \<equiv> \<lambda>l r. int (P [l, r])"
  assumes P: "\<And>xs. int (P xs) < fr"
    and note_values: "parse_bigint (cm_secret c) = Some sec" "parse_bigint (cm_nullifier c) = Some nul"
    and amount: "0 \<le> cm_amount c" "cm_amount c < 2 ^ 64" "0 \<le> pay" "pay < 2 ^ 64"
    and tree: "merkle_wf H t" "mt_depth t = 20" "length (mt_leaves t) \<le> 2 ^ 20"
      "\<forall>x \<in> set (mt_leaves t). 0 \<le> x \<and> x < fr"
    and leaf: "i < length (mt_leaves t)" "mt_leaves t ! i = int (P [sec, nul, cm_amount c])"
    and path: "merkle_proof H t (int i) = Inr ip"
      "mp = \<lparr>mp_path_elements = map (int_str 10) (ip_elements ip), mp_path_indices = ip_indices ip,
             mp_root = int_str 10 (ip_root ip)\<rparr>"
    and rnd: "r1 \<noteq> []" "r2 \<noteq> []"
  shows "\<exists>w s. build_witness P r1 r2 c mp (int_str 10 rec) pay = Inr w \<and> signals_of w = Some s
     \<and> (circuit_ok P s \<longleftrightarrow> 0 < pay \<and> pay \<le> cm_amount c)"
proof -
  have H: "0 \<le> H l r \<and> H l r < fr" for l r using P by (simp add: H_def)
  have z: "0 \<le> zero_at H d \<and> zero_at H d < fr" for d using H fr_pos by (cases d) auto
  have m: "(\<forall>x \<in> set xs. 0 \<le> x \<and> x < fr) \<Longrightarrow> 0 \<le> mnode H d xs \<and> mnode H d xs < fr" for d xs
    using H fr_pos by (cases d) (auto split: list.split)
  have ne: "0 \<le> node_at H (mt_leaves t) d j \<and> node_at H (mt_leaves t) d j < fr" for d j
    unfolding node_at_def using tree(4) by (intro m) (auto dest: in_set_takeD in_set_dropD)
  have depth: "length (mt_leaves t) \<le> 2 ^ mt_depth t" "length (mt_leaves t) \<le> 2 ^ 31"
    using tree(2,3) by simp_all
  have ip: "ip = \<lparr>ip_root = merkle_root H t, ip_elements = path_els H (mt_leaves t) 0 20 i,
      ip_indices = path_idxs 20 i\<rparr>"
    using merkle_proof_inr [OF tree(1) leaf(1) depth(2)] path(1) tree(2) by simp
  have "circuit_path H (mt_leaves t ! i) (path_els H (mt_leaves t) 0 20 i) (path_idxs 20 i)
      = Some (fold_path H (mt_leaves t ! i) (path_els H (mt_leaves t) 0 20 i) (path_idxs 20 i))"
  proof (rule circuit_path_fold)
    show "set (path_idxs 20 i) \<subseteq> {0, 1}" by (auto simp: path_idxs_def)
    show "\<forall>e \<in> set (path_els H (mt_leaves t) 0 20 i). 0 \<le> e \<and> e < fr"
      using ne by (auto simp: path_els_def)
    show "0 \<le> mt_leaves t ! i" "mt_leaves t ! i < fr" using tree(4) leaf(1) by auto
  qed (simp_all add: H)
  then have root: "circuit_path H (int (P [sec, nul, cm_amount c])) (path_els H (mt_leaves t) 0 20 i)
      (path_idxs 20 i) = Some (merkle_root H t)"
    using sdk_proof_folds [OF tree(1) leaf(1) depth(1)] tree(2) leaf(2) by simp
  have small: "cm_amount c mod fr = cm_amount c" "pay mod fr = pay"
    using amount fr_big by auto
  have change: "(cm_amount c - pay) mod fr = cm_amount c - pay" if "pay \<le> cm_amount c"
    using that amount fr_big by auto
  show ?thesis
    unfolding build_witness_inr [OF note_values rnd]
    using root small change amount
    by (auto simp: signals_of_def path(2) ip all_some_nat circuit_ok_def H_def)
qed

section \<open>Properties\<close>

text \<open>
  C8. An honest spend proves: for a note's commitment \<open>(secret, nullifier, amount)\<close> that is leaf \<open>i\<close> of
  the SDK's tree, \<open>buildWitness\<close> with the tree's own inclusion proof succeeds, and its values satisfy
  every constraint of the circuit exactly when the payment is positive and at most the amount.
\<close>

theorem honest_witness_satisfies_circuit:
  fixes P :: poseidon
  defines "H \<equiv> \<lambda>l r. int (P [l, r])"
  assumes P: "\<And>xs. int (P xs) < fr"
    and note_values: "parse_bigint (cm_secret c) = Some sec" "parse_bigint (cm_nullifier c) = Some nul"
    and amount: "0 \<le> cm_amount c" "cm_amount c < 2 ^ 64" "0 \<le> pay" "pay < 2 ^ 64"
    and tree: "merkle_wf H t" "mt_depth t = 20" "length (mt_leaves t) \<le> 2 ^ 20"
      "\<forall>x \<in> set (mt_leaves t). 0 \<le> x \<and> x < fr"
    and leaf: "i < length (mt_leaves t)" "mt_leaves t ! i = int (P [sec, nul, cm_amount c])"
    and path: "merkle_proof H t (int i) = Inr ip"
      "mp = \<lparr>mp_path_elements = map (int_str 10) (ip_elements ip), mp_path_indices = ip_indices ip,
             mp_root = int_str 10 (ip_root ip)\<rparr>"
    and rnd: "r1 \<noteq> []" "r2 \<noteq> []"
  shows "\<exists>w s. build_witness P r1 r2 c mp (int_str 10 rec) pay = Inr w \<and> signals_of w = Some s
     \<and> (circuit_ok P s \<longleftrightarrow> 0 < pay \<and> pay \<le> cm_amount c)"
  using honest_witness [OF P note_values amount] tree leaf path rnd by (simp add: H_def)

definition sum_poseidon :: poseidon where
  "sum_poseidon xs = nat (sum_list xs mod fr)"

definition sum_tree :: poseidon_merkle_tree where
  "sum_tree = snd (merkle_insert 1000003 (merkle_new (\<lambda>l r. int (sum_poseidon [l, r])) 20))"

theorem honest_witness_satisfies_circuit_witness:
  "\<exists>ip w s. merkle_proof (\<lambda>l r. int (sum_poseidon [l, r])) sum_tree (int 0) = Inr ip
     \<and> build_witness sum_poseidon [1] [2]
         \<lparr>cm_secret = ''1'', cm_nullifier = ''2'', cm_amount = 1000000, cm_denom_id = 1\<rparr>
         \<lparr>mp_path_elements = map (int_str 10) (ip_elements ip), mp_path_indices = ip_indices ip,
          mp_root = int_str 10 (ip_root ip)\<rparr> (int_str 10 9) 400000 = Inr w
     \<and> signals_of w = Some s \<and> circuit_ok sum_poseidon s"
proof -
  let ?H = "\<lambda>l r. int (sum_poseidon [l, r])"
  let ?c = "\<lparr>cm_secret = ''1'', cm_nullifier = ''2'', cm_amount = 1000000, cm_denom_id = 1\<rparr>"
  have P: "int (sum_poseidon xs) < fr" for xs using fr_pos by (simp add: sum_poseidon_def)
  have nums: "parse_bigint (cm_secret ?c) = Some 1" "parse_bigint (cm_nullifier ?c) = Some 2"
    by (simp, code_simp)+
  have tree: "merkle_wf ?H sum_tree" "mt_depth sum_tree = 20" "mt_leaves sum_tree = [1000003]"
    by (simp_all add: sum_tree_def) (simp_all add: merkle_new_def)
  have leaf: "mt_leaves sum_tree ! 0 = int (sum_poseidon [1, 2, cm_amount ?c])"
    by (simp add: tree(3) sum_poseidon_def fr_def bn254_fr_def)
  obtain ip where ip: "merkle_proof ?H sum_tree (int 0) = Inr ip"
    using merkle_proof_inr [OF tree(1), of 0] tree(3) by simp
  have bound: "\<forall>x \<in> set (mt_leaves sum_tree). 0 \<le> x \<and> x < fr"
    by (simp add: tree(3) fr_def bn254_fr_def)
  show ?thesis
    using honest_witness_satisfies_circuit [of sum_poseidon ?c 1 2 400000 sum_tree 0 ip
        "\<lparr>mp_path_elements = map (int_str 10) (ip_elements ip), mp_path_indices = ip_indices ip,
          mp_root = int_str 10 (ip_root ip)\<rparr>" "[1]" "[2]" 9] P nums tree leaf ip bound
    by (fastforce simp: tree(3))
qed

text \<open>
  The packed proof: whenever packing succeeds it yields exactly the 256 bytes the program
  expects, its first point is the curve negation of snarkjs' \<open>pi_a\<close> (same \<open>x\<close>, \<open>y\<close> coordinates adding
  up to a multiple of the base field modulus), and every public signal is 32 bytes in the order given.
\<close>

theorem packed_proof_layout:
  assumes "pack_groth16 out = Inr g"
  shows "length (gp_proof_bytes g) = 256
     \<and> length (gp_public_signals g) = length (so_public_signals out)
     \<and> (\<forall>i < length (so_public_signals out).
          dec_string_to_be32 (so_public_signals out ! i) = Inr (gp_public_signals g ! i)
        \<and> length (gp_public_signals g ! i) = 32)
     \<and> dec_string_to_be32 (so_pi_a out ! 0) = Inr (take 32 (gp_proof_bytes g))
     \<and> (\<exists>y. parse_bigint (so_pi_a out ! 1) = Some y
          \<and> take 32 (drop 32 (gp_proof_bytes g)) = be_bytes 32 (nat (negate_y y))
          \<and> (negate_y y + y) mod bn254_q = 0)"
proof -
  obtain neg a b c where parts: "negate_g1 (so_pi_a out) = Inr neg" "pack_g1 neg = Inr a"
    "pack_g2 (so_pi_b out) = Inr b" "pack_g1 (so_pi_c out) = Inr c"
    and g: "gp_proof_bytes g = a @ b @ c"
    and sigs: "map_codec dec_string_to_be32 (so_public_signals out) = Inr (gp_public_signals g)"
    using assms by (auto simp: pack_groth16_def bindE_Inr_iff)
  have len: "length a = 64" "length b = 128" "length c = 64"
    using parts pack_g1_length pack_g2_length by auto
  obtain y where y: "parse_bigint (so_pi_a out ! 1) = Some y"
    and neg: "neg ! 0 = so_pi_a out ! 0" "neg ! 1 = int_str 10 (negate_y y)"
    using parts(1) by (auto simp: negate_g1_def bindE_Inr_iff)
  have "int_str 10 (negate_y y) = nat_str 10 (nat (negate_y y))"
    using negate_y_spec [of y] by (auto simp: int_str_def)
  then have ny: "dec_string_to_be32 (neg ! 1) = Inr (be_bytes 32 (nat (negate_y y)))"
    unfolding neg(2) by (simp add: dec_string_to_be32_eq field_dec_to_be32_nat)
  obtain xb where xb: "dec_string_to_be32 (so_pi_a out ! 0) = Inr xb"
    and a: "a = xb @ be_bytes 32 (nat (negate_y y))"
    using parts(2) ny by (auto simp: pack_g1_def bindE_Inr_iff neg(1))
  have "length xb = 32" using xb by (rule dec_string_to_be32_length)
  with len g a xb y sigs show ?thesis
    using negate_y_spec [of y] dec_string_to_be32_length by (auto simp: map_codec_Inr)
qed

theorem packed_proof_layout_witness:
  "\<exists>g. pack_groth16 \<lparr>so_pi_a = [''1'', ''2''], so_pi_b = [[''3'', ''4''], [''5'', ''6'']],
        so_pi_c = [''7'', ''8''], so_public_signals = [''9'']\<rparr> = Inr g \<and> length (gp_proof_bytes g) = 256"
proof -
  let ?o = "\<lparr>so_pi_a = [''1'', ''2''], so_pi_b = [[''3'', ''4''], [''5'', ''6'']],
        so_pi_c = [''7'', ''8''], so_public_signals = [''9'']\<rparr>"
  have n: "''1'' = nat_str 10 1" "''2'' = nat_str 10 2" "''3'' = nat_str 10 3" "''4'' = nat_str 10 4"
    "''5'' = nat_str 10 5" "''6'' = nat_str 10 6" "''7'' = nat_str 10 7" "''8'' = nat_str 10 8"
    "''9'' = nat_str 10 9" by code_simp+
  have "\<exists>g. pack_groth16 ?o = Inr g"
    unfolding n
    by (simp add: pack_groth16_def negate_g1_def pack_g1_def pack_g2_def dec_string_to_be32_eq
        field_dec_to_be32_nat int_str_def negate_y_def bn254_q_def)
  then show ?thesis using packed_proof_layout [of ?o] by blast
qed

end
