(* ===== verification/SdkChain.thy ===== *)
theory SdkChain
  imports SdkProver PoolInstructions
begin

text \<open>
  \<open>qietr-sdk/src/chain.ts\<close> and \<open>helpers.ts\<close>: clusters, mints and tiers, associated token
  addresses, the conversion of dollar amounts to micro-USDC, and the note helpers. A Number that
  need not be an integer is a dyadic rational; every product, quotient and sum is rounded to 53
  significant bits as IEEE doubles are.
\<close>

section \<open>Numbers\<close>

datatype js_float = Dyadic int nat | NonFinite

text \<open>\<open>Dyadic m k\<close> is \<open>m / 2 ^ k\<close>. \<open>math_round\<close> is \<open>Math.round\<close>: half-way cases go up.\<close>

definition math_round :: "int \<Rightarrow> nat \<Rightarrow> int" where
  "math_round m k = (2 * m + 2 ^ k) div 2 ^ Suc k"

text \<open>The double nearest to \<open>p / q\<close>, as a dyadic, for a non-zero \<open>q\<close>.\<close>

definition dbl_quot :: "nat \<Rightarrow> nat \<Rightarrow> nat \<times> nat" where
  "dbl_quot p q =
     (let k = 54 + bitlen q - bitlen p; num = p * 2 ^ k; e = bitlen (num div q) - 53
      in (round_half_even num (q * 2 ^ e) * 2 ^ e, k))"

definition usdc_decimals :: nat where
  "usdc_decimals = 6"

text \<open>
  \<open>BigInt(Math.round(amount * 10 ** USDC_DECIMALS))\<close>; \<open>None\<close> is the \<open>RangeError\<close> of \<open>BigInt\<close> on a
  product that is not finite.
\<close>

fun usdc_to_micro :: "js_float \<Rightarrow> int option" where
  "usdc_to_micro (Dyadic m k) =
     (let p = dbl (m * 10 ^ usdc_decimals)
      in if bitlen (nat \<bar>p\<bar>) > 1024 + k then None else Some (math_round p k))"
| "usdc_to_micro NonFinite = None"

section \<open>chain.ts\<close>

datatype cluster = MainnetBeta | Devnet | Localnet

definition associated_token_program_id :: pubkey where
  "associated_token_program_id = be_bytes 32
     63590851936555425018482094543133168213809614203979002813017495418995103889497"

definition usdc_mint_mainnet :: pubkey where
  "usdc_mint_mainnet = be_bytes 32
     90000504370102394704099784797280792267247599056409324908524740370261802442081"

definition usdc_mint_devnet :: pubkey where
  "usdc_mint_devnet = be_bytes 32
     26806912184771358275575279326589213114959716706948233601505532916092626808487"

definition qiet_mint_mainnet :: pubkey where
  "qiet_mint_mainnet = be_bytes 32
     2377786601324954284992771535320886129953964298703768132995581424317411490847"

definition qiet_mint_devnet :: pubkey where
  "qiet_mint_devnet = be_bytes 32
     2377786601324954284992771535320886129953964298703768132995581424317411490847"

definition qiet_mint_placeholder :: pubkey where
  "qiet_mint_placeholder = zeros 32"

definition is_qiet_mint_deployed :: "cluster \<Rightarrow> bool" where
  "is_qiet_mint_deployed c =
     ((if c = MainnetBeta then qiet_mint_mainnet else qiet_mint_devnet) \<noteq> qiet_mint_placeholder)"

datatype sdk_error =
    MissingIndexerUrl | MissingProverPath
  | NoDefaultMint | QietNotDeployed | UnsupportedAmount | NotAnInteger
  | InvalidNote | NoNoteLoaded | NonPositivePayment | NoCommitmentLargeEnough int
  | Codec codec_error | Wire sdk_wire_error
  | IndexerFailed | AlreadySpent nat | ProverFailed | MalformedSignals
  | NullifierSignalMismatch | RecipientSignalMismatch | MissingFeePayer
  | BlockhashFailed | SigningFailed | SubmissionFailed
  | RelayerNotConfigured | RelayerFailed | InvalidPubkey

definition require_qiet_mint :: "cluster \<Rightarrow> sdk_error + pubkey" where
  "require_qiet_mint c =
     (if \<not> is_qiet_mint_deployed c then Inl QietNotDeployed
      else Inr (if c = MainnetBeta then qiet_mint_mainnet else qiet_mint_devnet))"

record tier_definition =
  td_denom_id :: int
  td_amount_micro :: int

definition default_tiers :: "tier_definition list" where
  "default_tiers =
     [\<lparr>td_denom_id = 0, td_amount_micro = 100000\<rparr>, \<lparr>td_denom_id = 1, td_amount_micro = 1000000\<rparr>,
      \<lparr>td_denom_id = 2, td_amount_micro = 10000000\<rparr>, \<lparr>td_denom_id = 3, td_amount_micro = 100000000\<rparr>]"

fun cluster_endpoint :: "cluster \<Rightarrow> string" where
  "cluster_endpoint MainnetBeta = ''https://api.mainnet-beta.solana.com''"
| "cluster_endpoint Devnet = ''https://api.devnet.solana.com''"
| "cluster_endpoint Localnet = ''http://127.0.0.1:8899''"

fun cluster_to_web3 :: "cluster \<Rightarrow> string option" where
  "cluster_to_web3 MainnetBeta = Some ''mainnet-beta''"
| "cluster_to_web3 Devnet = Some ''devnet''"
| "cluster_to_web3 Localnet = None"

fun default_usdc_mint :: "cluster \<Rightarrow> sdk_error + pubkey" where
  "default_usdc_mint MainnetBeta = Inr usdc_mint_mainnet"
| "default_usdc_mint Devnet = Inr usdc_mint_devnet"
| "default_usdc_mint Localnet = Inl NoDefaultMint"

definition find_associated_token_address :: "pda_fun \<Rightarrow> pubkey \<Rightarrow> pubkey \<Rightarrow> pubkey" where
  "find_associated_token_address fpa owner mint =
     fst (fpa [owner, token_program_id, mint] associated_token_program_id)"

definition build_create_ata_idempotent_ix :: "pda_fun \<Rightarrow> pubkey \<Rightarrow> pubkey \<Rightarrow> pubkey \<Rightarrow> instruction" where
  "build_create_ata_idempotent_ix fpa payer owner mint =
     (let ata = find_associated_token_address fpa owner mint
      in \<lparr>ix_program = associated_token_program_id,
          ix_keys = [meta payer True True, meta ata False True, meta owner False False,
                     meta mint False False, meta system_program_id False False,
                     meta token_program_id False False],
          ix_data = [1]\<rparr>)"

datatype chain_id = Solana | Base | Polygon | Ethereum

definition is_cross_chain :: "chain_id \<Rightarrow> chain_id \<Rightarrow> bool" where
  "is_cross_chain origin target \<longleftrightarrow> origin \<noteq> target"

fun get_chain_eid :: "chain_id \<Rightarrow> nat" where
  "get_chain_eid Solana = 1"
| "get_chain_eid Base = 2"
| "get_chain_eid Polygon = 3"
| "get_chain_eid Ethereum = 4"

definition pick_tier :: "js_float \<Rightarrow> tier_definition list \<Rightarrow> sdk_error + tier_definition" where
  "pick_tier amount tiers =
     bindE (optE NotAnInteger (usdc_to_micro amount)) (\<lambda>micro.
     optE UnsupportedAmount (List.find (\<lambda>t. td_amount_micro t = micro) tiers))"

section \<open>helpers.ts\<close>

record shielded_note =
  nt_version :: string
  nt_commitments :: "commitment list"

definition note_version :: string where
  "note_version = ''qietr.v1''"

definition empty_note :: shielded_note where
  "empty_note = \<lparr>nt_version = note_version, nt_commitments = []\<rparr>"

definition get_note_balance :: "shielded_note option \<Rightarrow> int" where
  "get_note_balance n =
     (case n of None \<Rightarrow> 0 | Some nt \<Rightarrow> foldl (\<lambda>sum c. dbl (sum + cm_amount c)) 0 (nt_commitments nt))"

definition has_enough_balance :: "shielded_note option \<Rightarrow> int \<Rightarrow> bool" where
  "has_enough_balance n amount \<longleftrightarrow> get_note_balance n \<ge> dbl amount"

definition get_commitment_count :: "shielded_note option \<Rightarrow> nat" where
  "get_commitment_count n = (case n of None \<Rightarrow> 0 | Some nt \<Rightarrow> length (nt_commitments nt))"

definition get_largest_commitment :: "shielded_note option \<Rightarrow> commitment option" where
  "get_largest_commitment n =
     (case n of None \<Rightarrow> None
      | Some nt \<Rightarrow> (case nt_commitments nt of [] \<Rightarrow> None
          | c # cs \<Rightarrow> Some (foldl (\<lambda>m c. if cm_amount c > cm_amount m then c else m) c cs)))"

definition default_fee_bps :: nat where
  "default_fee_bps = 100"

definition fee_threshold_micro :: nat where
  "fee_threshold_micro = 10000000"

text \<open>\<open>calculateFee\<close> for non-negative amounts and rates.\<close>

definition calculate_fee :: "nat \<Rightarrow> nat \<Rightarrow> nat \<Rightarrow> int" where
  "calculate_fee amount fee_bps threshold =
     (let amt = dbl_nat amount
      in if amt < dbl_nat threshold then 0
         else case dbl_quot (dbl_nat (amt * fee_bps)) 10000 of (m, k) \<Rightarrow> math_round (int m) k)"

section \<open>Rounding\<close>

lemma round_half_even_error:
  assumes "0 < d"
  shows "2 * round_half_even n d * d \<le> 2 * n + d \<and> 2 * n \<le> 2 * round_half_even n d * d + d"
proof -
  define q r where "q = n div d" and "r = n mod d"
  have n: "n = q * d + r" by (simp add: q_def r_def)
  have "r < d" using assms by (simp add: r_def)
  moreover have "round_half_even n d = (if 2 * r < d then q else if 2 * r > d then q + 1
      else if even q then q else q + 1)" by (simp add: round_half_even_def q_def r_def)
  ultimately show ?thesis by (auto simp: n algebra_simps)
qed

lemma bitlen_ge: "n \<noteq> 0 \<Longrightarrow> 2 ^ (bitlen n - 1) \<le> n"
proof (induction n rule: bitlen.induct)
  case (1 n)
  show ?case
  proof (cases "n div 2 = 0")
    case True
    then have "bitlen n = 1" using 1(2) by (simp add: bitlen.simps [of n] bitlen.simps [of 0])
    then show ?thesis using 1(2) by simp
  next
    case False
    have ih: "2 ^ (bitlen (n div 2) - 1) \<le> n div 2" using 1(1) [OF 1(2) False] .
    have "0 < bitlen (n div 2)" using False by (simp add: bitlen.simps [of "n div 2"])
    then have "(2 :: nat) ^ (bitlen n - 1) = 2 * 2 ^ (bitlen (n div 2) - 1)"
      using 1(2) by (simp add: bitlen.simps [of n] power_Suc [symmetric] del: power_Suc)
    then show ?thesis using ih by simp
  qed
qed

lemma dbl_nat_error:
  "2 ^ 53 * dbl_nat n \<le> 2 ^ 53 * n + n \<and> 2 ^ 53 * n \<le> 2 ^ 53 * dbl_nat n + n"
proof (cases "bitlen n \<le> 53")
  case True
  then show ?thesis by (simp add: dbl_nat_def round_half_even_def)
next
  case False
  define e where "e = bitlen n - 53"
  have e: "bitlen n - 1 = e + 52" "0 < e" using False by (simp_all add: e_def)
  have "n \<noteq> 0" using False by (cases "n = 0") (simp_all add: bitlen.simps [of 0])
  from bitlen_ge [OF this] have "2 ^ (e + 52) \<le> n" by (simp only: e(1))
  then have big: "2 ^ 52 * 2 ^ e \<le> n" by (simp add: power_add mult.commute)
  have d: "dbl_nat n = round_half_even n (2 ^ e) * 2 ^ e" by (simp add: dbl_nat_def e_def Let_def)
  from round_half_even_error [of "2 ^ e" n] have
    "2 * dbl_nat n \<le> 2 * n + 2 ^ e" "2 * n \<le> 2 * dbl_nat n + 2 ^ e" by (simp_all add: d mult.assoc)
  then have "2 ^ 52 * (2 * dbl_nat n) \<le> 2 ^ 52 * (2 * n + 2 ^ e)"
    "2 ^ 52 * (2 * n) \<le> 2 ^ 52 * (2 * dbl_nat n + 2 ^ e)" by (simp_all only: mult_le_mono2)
  with big show ?thesis by (simp add: algebra_simps)
qed

lemma dbl_error: "2 ^ 53 * \<bar>dbl n - n\<bar> \<le> \<bar>n\<bar>"
  using dbl_nat_error [of "nat n"] dbl_nat_error [of "nat (- n)"]
  by (auto simp: dbl_def abs_if split: if_splits)

lemma close_bound:
  fixes x T K :: int
  assumes "2 * \<bar>x - T\<bar> < K" "T < 1125899906842624 * K" "0 \<le> T"
  shows "\<bar>x\<bar> < 2251799813685248 * K"
proof -
  have "0 < K" by (rule le_less_trans [OF _ assms(1)]) simp
  have up: "2 * x - 2 * T < K" using assms(1) by arith
  have down: "2 * T - 2 * x < K" using assms(1) by arith
  have "x < 2251799813685248 * K" using up assms(2) \<open>0 < K\<close> by linarith
  moreover have "- x < 2251799813685248 * K" using down assms(3) \<open>0 < K\<close> by linarith
  ultimately show ?thesis by linarith
qed

lemma math_round_unique:
  assumes "2 * \<bar>m - t * 2 ^ k\<bar> < 2 ^ k"
  shows "math_round m k = t"
proof -
  have "t * 2 ^ Suc k \<le> 2 * m + 2 ^ k \<and> 2 * m + 2 ^ k < (t + 1) * 2 ^ Suc k"
    using assms by (simp add: abs_if algebra_simps split: if_splits)
  then show ?thesis unfolding math_round_def
    by (intro int_div_pos_eq [where r = "2 * m + 2 ^ k - t * 2 ^ Suc k"]) (simp_all add: algebra_simps)
qed

section \<open>Properties\<close>

lemma usdc_micro_exact:
  assumes "0 \<le> t" "t < 2 ^ 50"
    and nearest: "2 ^ 53 * \<bar>m * 10 ^ 6 - t * 2 ^ k\<bar> \<le> t * 2 ^ k"
  shows "usdc_to_micro (Dyadic m k) = Some t"
proof -
  define A where "A = m * 10 ^ 6"
  define K where "K = (2 :: int) ^ k"
  have K: "0 < K" by (simp add: K_def)
  have near: "2 ^ 53 * \<bar>A - t * K\<bar> \<le> t * K" using nearest by (simp add: A_def K_def)
  have err: "2 ^ 53 * \<bar>dbl A - A\<bar> \<le> \<bar>A\<bar>" by (rule dbl_error)
  have "0 \<le> t * K" using assms(1) K by simp
  with near have "\<bar>A - t * K\<bar> \<le> t * K" by simp
  with \<open>0 \<le> t * K\<close> have "\<bar>A\<bar> \<le> 2 * (t * K)" by linarith
  moreover have "\<bar>dbl A - t * K\<bar> \<le> \<bar>dbl A - A\<bar> + \<bar>A - t * K\<bar>" by simp
  ultimately have "2 ^ 53 * \<bar>dbl A - t * K\<bar> \<le> 3 * (t * K)" using near err by simp
  then have a: "9007199254740992 * \<bar>dbl A - t * K\<bar> \<le> 3 * (t * K)" by simp
  have b: "t * K < 1125899906842624 * K"
    by (rule mult_strict_right_mono) (use assms(2) K in simp_all)
  from a b \<open>0 \<le> t * K\<close> have close: "2 * \<bar>dbl A - t * K\<bar> < K" by linarith
  have round: "math_round (dbl A) k = t"
    by (rule math_round_unique) (use close in \<open>simp add: K_def\<close>)
  have "\<bar>dbl A\<bar> < 2251799813685248 * K"  by (rule close_bound [OF close b \<open>0 \<le> t * K\<close>])
  also have "\<dots> \<le> 2 ^ 1024 * K" by (rule mult_right_mono) (use K in simp_all)
  finally have "\<bar>dbl A\<bar> < 2 ^ 1024 * K" .
  then have "nat \<bar>dbl A\<bar> < 2 ^ (1024 + k)" by (simp add: nat_less_iff K_def power_add)
  then have "bitlen (nat \<bar>dbl A\<bar>) \<le> 1024 + k" by (rule bitlen_le)
  then show ?thesis using round by (simp add: Let_def A_def usdc_decimals_def)
qed

text \<open>
  Dollar amounts convert exactly: the double nearest to a decimal amount of \<open>t\<close> micro-USDC
  below \<open>2 ^ 50\<close> (relative error at most \<open>2 ^ -53\<close>) is turned by multiplying, rounding to a double
  and \<open>Math.round\<close> into \<open>t\<close> itself, so a deposit of a tier's decimal amount picks that tier.
\<close>

theorem usdc_amounts_convert_exactly:
  assumes "0 \<le> t" "t < 2 ^ 50"
    and nearest: "2 ^ 53 * \<bar>m * 10 ^ 6 - t * 2 ^ k\<bar> \<le> t * 2 ^ k"
  shows "usdc_to_micro (Dyadic m k) = Some t
     \<and> (\<forall>tiers tier. List.find (\<lambda>x. td_amount_micro x = t) tiers = Some tier \<longrightarrow>
          pick_tier (Dyadic m k) tiers = Inr tier)"
  using usdc_micro_exact [OF assms] by (simp add: pick_tier_def)

text \<open>The double 0.1 is \<open>3602879701896397 / 2 ^ 55\<close>.\<close>

theorem usdc_amounts_convert_exactly_witness:
  "usdc_to_micro (Dyadic 3602879701896397 55) = Some 100000
     \<and> pick_tier (Dyadic 3602879701896397 55) default_tiers = Inr \<lparr>td_denom_id = 0, td_amount_micro = 100000\<rparr>"
  using usdc_amounts_convert_exactly [of 100000 3602879701896397 55] by (simp add: default_tiers_def)

end
