(* ===== verification/JsNumber.thy ===== *)
theory JsNumber
  imports SdkChain
begin

text \<open>
  \<open>Number.parseFloat\<close> and \<open>Number\<close> of the text in a form field, and what becomes of an amount of dollars
  that a user types: the exact number of micro-USDC.
\<close>

section \<open>Reading decimal text\<close>

text \<open>A decimal literal at the start of a string: its sign, digits and decimal exponent, and the rest.\<close>

definition scan_exponent :: "string \<Rightarrow> int \<times> string" where
  "scan_exponent r =
     (case r of
        [] \<Rightarrow> (0, r)
      | c # cs \<Rightarrow>
          let neg = (cs \<noteq> [] \<and> hd cs = CHR ''-'');
              body = (if cs \<noteq> [] \<and> hd cs \<in> {CHR ''-'', CHR ''+''} then tl cs else cs);
              ds = takeWhile (is_digit 10) body
          in if c \<in> {CHR ''e'', CHR ''E''} \<and> ds \<noteq> []
             then ((if neg then - int (digits_val 10 ds) else int (digits_val 10 ds)), drop (length ds) body)
             else (0, r))"

definition scan_decimal :: "string \<Rightarrow> ((bool \<times> nat \<times> int) \<times> string) option" where
  "scan_decimal u =
     (let neg = (u \<noteq> [] \<and> hd u = CHR ''-'');
          v = (if u \<noteq> [] \<and> hd u \<in> {CHR ''-'', CHR ''+''} then tl u else u);
          ip = takeWhile (is_digit 10) v;
          r = drop (length ip) v;
          dot = (r \<noteq> [] \<and> hd r = CHR ''.'');
          fp = (if dot then takeWhile (is_digit 10) (tl r) else []);
          (ex, rest) = scan_exponent (if dot then drop (length fp) (tl r) else r)
      in if ip = [] \<and> fp = [] then None
         else Some ((neg, digits_val 10 (ip @ fp), ex - int (length fp)), rest))"

text \<open>The double nearest to \<open>m * 10 ^ e\<close>; subnormal results are not rounded to their fewer bits.\<close>

definition decimal_float :: "bool \<times> nat \<times> int \<Rightarrow> js_float" where
  "decimal_float d = (case d of (neg, m, e) \<Rightarrow>
     (let (n, k) = (if 0 \<le> e then (nat (dbl (int (m * 10 ^ nat e))), 0) else dbl_quot m (10 ^ nat (- e)))
      in if bitlen n > 1024 + k then NonFinite else Dyadic (if neg then - int n else int n) k))"

text \<open>\<open>Number.parseFloat\<close>, and \<open>Number\<close> of a string; \<open>NonFinite\<close> is also \<open>NaN\<close>.\<close>

definition parse_float :: "string \<Rightarrow> js_float" where
  "parse_float s = (case scan_decimal (js_trim_start s) of None \<Rightarrow> NonFinite | Some (d, _) \<Rightarrow> decimal_float d)"

definition js_number :: "string \<Rightarrow> js_float" where
  "js_number s =
     (let u = js_trim s in
      if u = [] then Dyadic 0 0
      else if 2 \<le> length u \<and> hd u = CHR ''0'' \<and> u ! 1 \<in> set ''xXoObB''
      then (case parse_bigint u of None \<Rightarrow> NonFinite
            | Some n \<Rightarrow> if bitlen (nat (dbl n)) > 1024 then NonFinite else Dyadic (dbl n) 0)
      else (case scan_decimal u of Some (d, []) \<Rightarrow> decimal_float d | _ \<Rightarrow> NonFinite))"

fun positive_number :: "js_float \<Rightarrow> bool" where
  "positive_number (Dyadic m k) \<longleftrightarrow> 0 < m"
| "positive_number NonFinite \<longleftrightarrow> False"

text \<open>
  \<open>parseUSDCAmount\<close> of \<open>helpers.ts\<close>: dollar signs and commas are dropped; \<open>None\<close> is the throw on \<open>NaN\<close> and
  on negative amounts, \<open>Some NonFinite\<close> is \<open>Infinity\<close>.
\<close>

definition float_overflows :: "string \<Rightarrow> bool" where
  "float_overflows s \<longleftrightarrow>
     (let u = js_trim_start s
      in starts_with ''Infinity'' u \<or> starts_with ''+Infinity'' u
         \<or> (case scan_decimal u of Some ((neg, _), _) \<Rightarrow> \<not> neg | None \<Rightarrow> False))"

definition money_text :: "string \<Rightarrow> string" where
  "money_text s = filter (\<lambda>c. c \<noteq> CHR ''$'' \<and> c \<noteq> CHR '','') s"

definition parse_usdc_amount :: "string \<Rightarrow> js_float option" where
  "parse_usdc_amount s =
     (let clean = money_text s in
      case parse_float clean of
        NonFinite \<Rightarrow> if float_overflows clean then Some NonFinite else None
      | Dyadic m k \<Rightarrow> if m < 0 then None
          else Some (case usdc_to_micro (Dyadic m k) of Some v \<Rightarrow> Dyadic v 0 | None \<Rightarrow> NonFinite))"

section \<open>The rounding error of a quotient\<close>

lemma bitlen_upper: "n < 2 ^ bitlen n"
proof (induction n rule: bitlen.induct)
  case (1 n)
  show ?case
  proof (cases "n = 0")
    case False
    then have "n div 2 < 2 ^ bitlen (n div 2)" "bitlen n = Suc (bitlen (n div 2))"
      using 1 by (auto simp: bitlen.simps [of n])
    then show ?thesis by (simp add: div_less_iff_less_mult mult.commute)
  qed (simp add: bitlen.simps)
qed

lemma within_half:
  fixes r n d :: nat
  assumes "2 * r \<le> 2 * n + d" "2 * n \<le> 2 * r + d"
  shows "2 * \<bar>int r - int n\<bar> \<le> int d"
proof -
  have "2 * int r \<le> 2 * int n + int d" "2 * int n \<le> 2 * int r + int d" using assms by linarith+
  then show ?thesis by (cases "int n \<le> int r") simp_all
qed

lemma near_twice:
  fixes a b :: int
  assumes "2 ^ 53 * \<bar>a - b\<bar> \<le> b"
  shows "a \<le> 2 * b"
proof -
  have "1 * \<bar>a - b\<bar> \<le> 2 ^ 53 * \<bar>a - b\<bar>" by (rule mult_right_mono) simp_all
  with assms have "\<bar>a - b\<bar> \<le> b" by (simp only: mult_1_left)
  then show ?thesis by linarith
qed

lemma dbl_quot_error:
  assumes "dbl_quot p q = (n, k)" "0 < p" "0 < q"
  shows "2 ^ 53 * \<bar>int (n * q) - int (p * 2 ^ k)\<bar> \<le> int (p * 2 ^ k)"
proof -
  define num where "num = p * 2 ^ k"
  define e where "e = bitlen (num div q) - 53"
  have k: "k = 54 + bitlen q - bitlen p" and n: "n = round_half_even num (q * 2 ^ e) * 2 ^ e"
    using assms(1) by (auto simp: dbl_quot_def Let_def num_def e_def)
  have "2 ^ (bitlen p - 1) \<le> p" using assms(2) by (intro bitlen_ge) simp
  then have "2 ^ (bitlen p - 1) * 2 ^ k \<le> num" by (simp add: num_def)
  then have "2 ^ (bitlen p - 1 + k) \<le> num" by (simp only: power_add)
  moreover have "(2 :: nat) ^ (53 + bitlen q) \<le> 2 ^ (bitlen p - 1 + k)" by (rule power_increasing) (use k in linarith, simp)
  ultimately have "2 ^ (53 + bitlen q) \<le> num" by (rule le_trans [rotated])
  moreover have "2 ^ 53 * q \<le> 2 ^ (53 + bitlen q)" using bitlen_upper [of q] by (simp add: power_add)
  ultimately have big: "2 ^ 53 \<le> num div q" using assms(3) by (simp add: less_eq_div_iff_mult_less_eq mult.commute)
  then have nz: "0 < num div q" by (rule less_le_trans [rotated]) simp
  have "53 \<le> bitlen (num div q)"
  proof (rule ccontr)
    assume "\<not> 53 \<le> bitlen (num div q)"
    then have "(2 :: nat) ^ bitlen (num div q) \<le> 2 ^ 53" by (intro power_increasing) auto
    then show False using bitlen_upper [of "num div q"] big by linarith
  qed
  then have "2 ^ (52 + e) \<le> num div q" using bitlen_ge [of "num div q"] nz by (simp add: e_def)
  then have low: "2 ^ 52 * (q * 2 ^ e) \<le> num"
    using assms(3) by (simp add: less_eq_div_iff_mult_less_eq power_add mult_ac)
  have "0 < q * 2 ^ e" using assms(3) by simp
  from round_half_even_error [OF this, of num]
  have "2 * \<bar>int (round_half_even num (q * 2 ^ e) * (q * 2 ^ e)) - int num\<bar> \<le> int (q * 2 ^ e)"
    by (intro within_half) (simp_all only: mult.assoc)
  then have "2 ^ 53 * \<bar>int (n * q) - int num\<bar> \<le> 2 ^ 52 * int (q * 2 ^ e)" by (simp add: n mult_ac)
  also have "\<dots> = int (2 ^ 52 * (q * 2 ^ e))" by simp
  also have "\<dots> \<le> int num" using low by (simp only: of_nat_le_iff)
  finally show ?thesis by (simp add: num_def)
qed


section \<open>Amounts of dollars\<close>

text \<open>What the fields ask for: digits, and up to six more after a point.\<close>

definition amount_text :: "string \<Rightarrow> string \<Rightarrow> string" where
  "amount_text ip fp = ip @ (if fp = [] then [] else ''.'' @ fp)"

lemma digits_run:
  assumes "list_all (is_digit 10) ds" "rest = [] \<or> \<not> is_digit 10 (hd rest)"
  shows "takeWhile (is_digit 10) (ds @ rest) = ds" "drop (length ds) (ds @ rest) = rest"
proof -
  have "takeWhile (is_digit 10) rest = []" using assms(2) by (cases rest) auto
  then show "takeWhile (is_digit 10) (ds @ rest) = ds" using assms(1) by (simp add: takeWhile_append2 list_all_iff)
qed simp

lemma scan_amount:
  assumes "list_all (is_digit 10) ip" "list_all (is_digit 10) fp" "ip \<noteq> []"
  shows "scan_decimal (amount_text ip fp) = Some ((False, digits_val 10 (ip @ fp), - int (length fp)), [])"
proof -
  obtain c cs where ip: "ip = c # cs" "is_digit 10 c" using assms(1,3) by (cases ip) auto
  have sign: "hd (amount_text ip fp) \<noteq> CHR ''-''" "hd (amount_text ip fp) \<noteq> CHR ''+''" "amount_text ip fp \<noteq> []"
    using is_digit_not_sign [OF ip(2)] by (simp_all add: amount_text_def ip(1))
  have point: "\<not> is_digit 10 CHR ''.''" by (simp add: is_digit_def digit_of_def char_code_def)
  have ip_run: "takeWhile (is_digit 10) ip = ip" using digits_run(1) [OF assms(1), of "[]"] by simp
  have pt_run: "takeWhile (is_digit 10) (ip @ CHR ''.'' # fp) = ip" using digits_run(1) [OF assms(1), of "''.'' @ fp"] point by simp
  have fp_run: "takeWhile (is_digit 10) fp = fp" using digits_run(1) [OF assms(2), of "[]"] by simp
  note eval = scan_decimal_def scan_exponent_def Let_def ip_run pt_run fp_run
  show ?thesis
  proof (cases "fp = []")
    case True
    then have tx: "amount_text ip fp = ip" by (simp add: amount_text_def)
    show ?thesis using sign assms(3) True unfolding tx by (simp add: eval del: takeWhile_eq_all_conv)
  next
    case False
    then have tx: "amount_text ip fp = ip @ CHR ''.'' # fp" by (simp add: amount_text_def)
    show ?thesis using sign assms(3) False unfolding tx by (simp add: eval del: takeWhile_eq_all_conv)
  qed
qed

lemma amount_trimmed:
  assumes "list_all (is_digit 10) ip" "ip \<noteq> []"
  shows "js_trim_start (amount_text ip fp) = amount_text ip fp"
  using assms is_digit_not_space [of 10 "hd ip"] by (cases ip) (simp_all add: amount_text_def js_trim_start_def)

lemma dbl_quot_zero: "dbl_quot 0 q = (n, k) \<Longrightarrow> n = 0"
  by (auto simp: dbl_quot_def Let_def round_half_even_def)

lemma decimal_micro:
  assumes "f \<le> 6" "p * 10 ^ (6 - f) < 2 ^ 50"
  shows "usdc_to_micro (decimal_float (False, p, - int f)) = Some (int (p * 10 ^ (6 - f)))"
proof -
  have "p \<le> p * 10 ^ (6 - f)" by simp
  then have p50: "p < 2 ^ 50" using assms(2) by linarith
  have t50: "int (p * 10 ^ (6 - f)) < 2 ^ 50" using assms(2) by (metis of_nat_less_iff of_nat_numeral of_nat_power)
  show ?thesis
  proof (cases "f = 0")
    case True
    have "dbl (int p) = int p" using p50 by (intro dbl_safe) (simp add: safe_int_def)
    moreover have "bitlen p \<le> 1024" using p50 by (intro bitlen_le less_trans [OF p50]) simp
    ultimately have "decimal_float (False, p, - int f) = Dyadic (int p) 0" using True by (simp add: decimal_float_def)
    then show ?thesis
      using usdc_micro_exact [of "int (p * 10 ^ (6 - f))" "int p" 0] t50 True by (simp del: usdc_to_micro.simps)
  next
    case False
    obtain n k where nk: "dbl_quot p (10 ^ f) = (n, k)" by fastforce
    have err: "2 ^ 53 * \<bar>int (n * 10 ^ f) - int (p * 2 ^ k)\<bar> \<le> int (p * 2 ^ k)"
      using dbl_quot_error [OF nk] dbl_quot_zero [of "10 ^ f" n k] nk by (cases "p = 0") simp_all
    have "n * 1 \<le> n * 10 ^ f" by (rule mult_le_mono2) simp
    then have a: "int n \<le> int (n * 10 ^ f)" by (simp only: of_nat_le_iff mult_1_right)
    have b: "int (n * 10 ^ f) \<le> 2 * int (p * 2 ^ k)" by (rule near_twice [OF err])
    have c: "int (p * 2 ^ k) \<le> int (2 ^ 50 * 2 ^ k)" using p50 by (simp only: of_nat_le_iff) simp
    have "int n \<le> 2 * int (p * 2 ^ k)" using a b by (rule order_trans)
    also have "\<dots> \<le> 2 * int (2 ^ 50 * 2 ^ k)" using c by (rule mult_left_mono) simp
    also have "\<dots> = 2 ^ 51 * 2 ^ k" by simp
    also have "\<dots> < (2 :: int) ^ 1024 * 2 ^ k" by simp
    finally have "n < 2 ^ (1024 + k)" by (simp add: power_add flip: of_nat_less_iff [where 'a = int])
    then have fin: "bitlen n \<le> 1024 + k" by (rule bitlen_le)
    have dec: "decimal_float (False, p, - int f) = Dyadic (int n) k"
      using False nk fin by (simp add: decimal_float_def)
    let ?t = "int (p * 10 ^ (6 - f))" and ?c = "(10 :: int) ^ (6 - f)"
    have six: "(10 :: int) ^ 6 = 10 ^ f * ?c" using assms(1) by (simp flip: power_add)
    have "int n * 10 ^ 6 - ?t * 2 ^ k = ?c * (int (n * 10 ^ f) - int (p * 2 ^ k))"
      unfolding six by (simp add: algebra_simps)
    then have "2 ^ 53 * \<bar>int n * 10 ^ 6 - ?t * 2 ^ k\<bar> = ?c * (2 ^ 53 * \<bar>int (n * 10 ^ f) - int (p * 2 ^ k)\<bar>)"
      by (simp add: abs_mult)
    also have "\<dots> \<le> ?c * int (p * 2 ^ k)" using err by (rule mult_left_mono) simp
    also have "\<dots> = ?t * 2 ^ k" by simp
    finally have near: "2 ^ 53 * \<bar>int n * 10 ^ 6 - ?t * 2 ^ k\<bar> \<le> ?t * 2 ^ k" .
    show ?thesis unfolding dec by (rule usdc_micro_exact [OF _ t50 near]) simp
  qed
qed

lemma typed_micro:
  assumes "list_all (is_digit 10) ip" "list_all (is_digit 10) fp" "ip \<noteq> []" "length fp \<le> 6"
    and "digits_val 10 (ip @ fp) * 10 ^ (6 - length fp) = t" "t < 2 ^ 50"
  shows "usdc_to_micro (parse_float (amount_text ip fp)) = Some (int t)"
proof -
  have "parse_float (amount_text ip fp) = decimal_float (False, digits_val 10 (ip @ fp), - int (length fp))"
    by (simp add: parse_float_def amount_trimmed [OF assms(1,3)] scan_amount [OF assms(1-3)])
  then show ?thesis
    using decimal_micro [OF assms(4), of "digits_val 10 (ip @ fp)"] assms(6) unfolding assms(5) by metis
qed

lemma amount_not_negative:
  assumes "list_all (is_digit 10) ip" "list_all (is_digit 10) fp" "ip \<noteq> []"
    and "parse_float (amount_text ip fp) = Dyadic m k"
  shows "0 \<le> m"
proof -
  have "decimal_float (False, digits_val 10 (ip @ fp), - int (length fp)) = Dyadic m k"
    using assms(4) by (simp add: parse_float_def amount_trimmed [OF assms(1,3)] scan_amount [OF assms(1-3)])
  then show ?thesis by (auto simp: decimal_float_def split: if_splits prod.splits)
qed

text \<open>
  C40. A typed amount of dollars is charged to the unit: for digits with at most six more after a
  point, below \<open>2 ^ 50\<close> micro-USDC, \<open>parseFloat\<close> followed by the SDK's conversion through doubles gives
  exactly the number of micro-USDC the text says, the amount picks the tier of that number, and
  \<open>parseUSDCAmount\<close> reads the same number from the text with dollar signs and commas in it.
\<close>

theorem typed_amount_is_exact:
  assumes "list_all (is_digit 10) ip" "list_all (is_digit 10) fp" "ip \<noteq> []" "length fp \<le> 6"
    and "digits_val 10 (ip @ fp) * 10 ^ (6 - length fp) = t" "t < 2 ^ 50"
  shows "usdc_to_micro (parse_float (amount_text ip fp)) = Some (int t)
     \<and> (\<forall>tiers tier. List.find (\<lambda>x. td_amount_micro x = int t) tiers = Some tier \<longrightarrow>
          pick_tier (parse_float (amount_text ip fp)) tiers = Inr tier)
     \<and> (\<forall>s. money_text s = amount_text ip fp \<longrightarrow> parse_usdc_amount s = Some (Dyadic (int t) 0))"
proof -
  have "usdc_to_micro (parse_float (amount_text ip fp)) = Some (int t)" by (rule typed_micro [OF assms])
  moreover from this obtain m k where "parse_float (amount_text ip fp) = Dyadic m k" "0 \<le> m"
    using amount_not_negative [OF assms(1-3)] by (cases "parse_float (amount_text ip fp)") auto
  ultimately show ?thesis by (auto simp: pick_tier_def parse_usdc_amount_def simp del: usdc_to_micro.simps)
qed

theorem typed_amount_is_exact_witness: "usdc_to_micro (parse_float ''12.34'') = Some 12340000"
proof -
  have "is_digit 10 CHR ''1''" "is_digit 10 CHR ''2''" "is_digit 10 CHR ''3''" "is_digit 10 CHR ''4''"
    by (simp_all add: is_digit_def digit_of_def char_code_def)
  moreover have "digits_val 10 ''1234'' = 1234"
    by (simp add: digits_val_def digit_val_def digit_of_def char_code_def)
  ultimately show ?thesis using typed_amount_is_exact [of "''12''" "''34''" 12340000] by (simp add: amount_text_def)
qed

end
