(* ===== verification/Json.thy ===== *)
theory Json
  imports JsString
begin

text \<open>
  \<open>JSON.stringify\<close> and \<open>JSON.parse\<close>, as far as the code uses them. A string stands for its UTF-8
  bytes; a number keeps the text of its literal; an object is the list of its members in order, and
  looking a key up finds its last occurrence. Escaped surrogates are not paired up. The parser runs
  on fuel, and \<open>json_roundtrip\<close> shows the fuel given to it is enough for everything that is printed.
\<close>

section \<open>Values and printing\<close>

datatype json =
    JNull
  | JBool bool
  | JNum string
  | JStr string
  | JArr "json list"
  | JObj "(string \<times> json) list"

definition json_escape :: "char \<Rightarrow> string" where
  "json_escape c =
     (let n = char_code c
      in if n = 34 then [CHR 0x5C, CHR 0x22] else if n = 92 then [CHR 0x5C, CHR 0x5C]
         else if n = 8 then [CHR 0x5C, CHR ''b''] else if n = 12 then [CHR 0x5C, CHR ''f'']
         else if n = 10 then [CHR 0x5C, CHR ''n''] else if n = 13 then [CHR 0x5C, CHR ''r'']
         else if n = 9 then [CHR 0x5C, CHR ''t'']
         else if n < 32 then CHR 0x5C # ''u'' @ hexpad 4 n
         else [c])"

definition json_string :: "string \<Rightarrow> string" where
  "json_string s = CHR 0x22 # concat (map json_escape s) @ [CHR 0x22]"

fun join :: "string \<Rightarrow> string list \<Rightarrow> string" where
  "join sep [] = []"
| "join sep [x] = x"
| "join sep (x # y # xs) = x @ sep @ join sep (y # xs)"

fun json_print :: "json \<Rightarrow> string" where
  "json_print JNull = ''null''"
| "json_print (JBool b) = (if b then ''true'' else ''false'')"
| "json_print (JNum t) = t"
| "json_print (JStr s) = json_string s"
| "json_print (JArr xs) = ''['' @ join '','' (map json_print xs) @ '']''"
| "json_print (JObj ms) = ''{'' @ join '','' (map (\<lambda>(k, v). json_string k @ '':'' @ json_print v) ms) @ ''}''"

definition json_get :: "string \<Rightarrow> json \<Rightarrow> json option" where
  "json_get k j = (case j of JObj ms \<Rightarrow> map_of (rev ms) k | _ \<Rightarrow> None)"

section \<open>Parsing\<close>

definition skip_ws :: "string \<Rightarrow> string" where
  "skip_ws s = dropWhile (\<lambda>c. char_code c \<in> {9, 10, 13, 32}) s"

definition utf8_of :: "nat \<Rightarrow> string" where
  "utf8_of n =
     (if n < 128 then [char_of n]
      else if n < 2048 then [char_of (192 + n div 64), char_of (128 + n mod 64)]
      else [char_of (224 + n div 4096), char_of (128 + n div 64 mod 64), char_of (128 + n mod 64)])"

definition json_unescape :: "char \<Rightarrow> char option" where
  "json_unescape e =
     (if e \<in> {CHR 0x22, CHR 0x5C, CHR ''/''} then Some e
      else if e = CHR ''b'' then Some (char_of (8 :: nat)) else if e = CHR ''f'' then Some (char_of (12 :: nat))
      else if e = CHR ''n'' then Some (char_of (10 :: nat)) else if e = CHR ''r'' then Some (char_of (13 :: nat))
      else if e = CHR ''t'' then Some (char_of (9 :: nat)) else None)"

text \<open>The rest of a string literal after its opening quote.\<close>

fun json_chars :: "string \<Rightarrow> (string \<times> string) option" where
  "json_chars [] = None"
| "json_chars (c # s) =
     (if c = CHR 0x22 then Some ([], s)
      else if char_code c < 32 then None
      else if c \<noteq> CHR 0x5C then map_option (apfst ((#) c)) (json_chars s)
      else case s of
             [] \<Rightarrow> None
           | e # t \<Rightarrow>
               (case json_unescape e of
                  Some d \<Rightarrow> map_option (apfst ((#) d)) (json_chars t)
                | None \<Rightarrow>
                    if e = CHR ''u'' \<and> length t \<ge> 4 \<and> list_all (is_digit 16) (take 4 t)
                    then map_option (apfst ((@) (utf8_of (digits_val 16 (take 4 t))))) (json_chars (drop 4 t))
                    else None))"

definition num_char :: "char \<Rightarrow> bool" where
  "num_char c \<longleftrightarrow> is_digit 10 c \<or> c \<in> {CHR ''-'', CHR ''+'', CHR ''.'', CHR ''e'', CHR ''E''}"

definition exponent_ok :: "string \<Rightarrow> bool" where
  "exponent_ok s \<longleftrightarrow> (case s of [] \<Rightarrow> True | c # t \<Rightarrow>
     c \<in> {CHR ''e'', CHR ''E''} \<and>
     (let u = (case t of [] \<Rightarrow> [] | d # v \<Rightarrow> if d \<in> {CHR ''-'', CHR ''+''} then v else t)
      in u \<noteq> [] \<and> list_all (is_digit 10) u))"

definition fraction_ok :: "string \<Rightarrow> bool" where
  "fraction_ok s \<longleftrightarrow> (case s of [] \<Rightarrow> True | c # t \<Rightarrow>
     if c = CHR ''.'' then takeWhile (is_digit 10) t \<noteq> [] \<and> exponent_ok (dropWhile (is_digit 10) t)
     else exponent_ok s)"

definition json_number :: "string \<Rightarrow> bool" where
  "json_number s \<longleftrightarrow>
     (let u = (case s of [] \<Rightarrow> [] | c # t \<Rightarrow> if c = CHR ''-'' then t else s); ds = takeWhile (is_digit 10) u
      in ds \<noteq> [] \<and> (length ds = 1 \<or> hd ds \<noteq> CHR ''0'') \<and> fraction_ok (dropWhile (is_digit 10) u))"

text \<open>\<open>next c s\<close>: what follows \<open>c\<close> in \<open>s\<close> after white space.\<close>

definition json_next :: "char \<Rightarrow> string \<Rightarrow> string option" where
  "json_next c s = (case skip_ws s of [] \<Rightarrow> None | d # t \<Rightarrow> if d = c then Some t else None)"

definition json_scalar :: "string \<Rightarrow> (json \<times> string) option" where
  "json_scalar s =
     (if take 4 s = ''null'' then Some (JNull, drop 4 s)
      else if take 4 s = ''true'' then Some (JBool True, drop 4 s)
      else if take 5 s = ''false'' then Some (JBool False, drop 5 s)
      else if json_number (takeWhile num_char s) then Some (JNum (takeWhile num_char s), dropWhile num_char s)
      else None)"

fun json_value :: "nat \<Rightarrow> string \<Rightarrow> (json \<times> string) option"
  and json_elems :: "nat \<Rightarrow> string \<Rightarrow> (json list \<times> string) option"
  and json_members :: "nat \<Rightarrow> string \<Rightarrow> ((string \<times> json) list \<times> string) option" where
  "json_value 0 s = None"
| "json_value (Suc n) s =
     (case json_next (CHR 0x22) s of
        Some t \<Rightarrow> map_option (apfst JStr) (json_chars t)
      | None \<Rightarrow> (case json_next (CHR ''['') s of
          Some t \<Rightarrow> (case json_next (CHR '']'') t of
              Some r \<Rightarrow> Some (JArr [], r)
            | None \<Rightarrow> map_option (apfst JArr) (json_elems n t))
        | None \<Rightarrow> (case json_next (CHR ''{'') s of
            Some t \<Rightarrow> (case json_next (CHR ''}'') t of
                Some r \<Rightarrow> Some (JObj [], r)
              | None \<Rightarrow> map_option (apfst JObj) (json_members n t))
          | None \<Rightarrow> json_scalar (skip_ws s))))"
| "json_elems 0 s = None"
| "json_elems (Suc n) s =
     (case json_value n s of
        None \<Rightarrow> None
      | Some (v, r) \<Rightarrow> (case json_next (CHR '','') r of
          Some t \<Rightarrow> map_option (apfst ((#) v)) (json_elems n t)
        | None \<Rightarrow> map_option (\<lambda>t. ([v], t)) (json_next (CHR '']'') r)))"
| "json_members 0 s = None"
| "json_members (Suc n) s =
     (case Option.bind (json_next (CHR 0x22) s) json_chars of
        None \<Rightarrow> None
      | Some (k, r) \<Rightarrow> (case Option.bind (json_next (CHR '':'') r) (json_value n) of
          None \<Rightarrow> None
        | Some (v, u) \<Rightarrow> (case json_next (CHR '','') u of
            Some t \<Rightarrow> map_option (apfst ((#) (k, v))) (json_members n t)
          | None \<Rightarrow> map_option (\<lambda>t. ([(k, v)], t)) (json_next (CHR ''}'') u))))"

definition json_parse :: "string \<Rightarrow> json option" where
  "json_parse s =
     (case json_value (2 * length s + 2) s of
        Some (v, r) \<Rightarrow> if skip_ws r = [] then Some v else None
      | None \<Rightarrow> None)"

section \<open>Round trip\<close>

fun json_ok :: "json \<Rightarrow> bool" where
  "json_ok (JNum t) \<longleftrightarrow> json_number t"
| "json_ok (JArr xs) \<longleftrightarrow> list_all json_ok xs"
| "json_ok (JObj ms) \<longleftrightarrow> list_all (\<lambda>(_, v). json_ok v) ms"
| "json_ok _ \<longleftrightarrow> True"

lemma json_chars_cons:
  "json_chars (json_escape c @ s) = map_option (apfst ((#) c)) (json_chars s)"
proof -
  let ?n = "char_code c"
  have code: "char_of ?n = c" by (simp add: char_code_def)
  have lt: "?n < 256" by (simp add: char_code_def)
  consider "?n \<in> {34, 92, 8, 12, 10, 13, 9}" | "?n < 32" "?n \<notin> {8, 12, 10, 13, 9}" | "\<not> ?n < 32" "?n \<notin> {34, 92}"
    by fastforce
  then show ?thesis
  proof cases
    case 1
    then have "c \<in> char_of ` {34 :: nat, 92, 8, 12, 10, 13, 9}" using code by (metis imageI)
    moreover have "char_of (34 :: nat) = CHR 0x22" "char_of (92 :: nat) = CHR 0x5C" by code_simp+
    ultimately show ?thesis by (auto simp: json_escape_def json_unescape_def char_code_def Let_def)
  next
    case 2
    have h: "length (hexpad 4 ?n) = 4" "list_all (is_digit 16) (hexpad 4 ?n)" "digits_val 16 (hexpad 4 ?n) = ?n"
      using 2(1) by (simp_all add: hexpad_digits digits_val_hexpad)
    have u: "json_unescape (CHR ''u'') = None" by (simp add: json_unescape_def)
    have "utf8_of ?n = [c]" using 2(1) code by (simp add: utf8_of_def)
    moreover have "(@) [c] = (#) c" by (simp add: fun_eq_iff)
    ultimately show ?thesis using 2 h u by (simp add: json_escape_def Let_def char_code_def)
  next
    case 3
    have "c \<noteq> CHR 0x22" "c \<noteq> CHR 0x5C" using 3(2) by (auto simp: char_code_def)
    then show ?thesis using 3 by (simp add: json_escape_def Let_def)
  qed
qed

lemma json_chars_string: "json_chars (concat (map json_escape s) @ CHR 0x22 # rest) = Some (s, rest)"
  by (induction s) (simp_all add: json_chars_cons)

text \<open>What may follow a value: nothing that would prolong a number.\<close>

definition rest_ok :: "string \<Rightarrow> bool" where
  "rest_ok s \<longleftrightarrow> (case s of [] \<Rightarrow> True | c # _ \<Rightarrow> \<not> num_char c)"

lemma json_next_Cons:
  "char_code d \<notin> {9, 10, 13, 32} \<Longrightarrow> json_next c (d # s) = (if d = c then Some s else None)"
  by (simp add: json_next_def skip_ws_def)

lemma punctuation:
  "char_code (CHR '','') = 44" "char_code (CHR '':'') = 58" "char_code (CHR ''['') = 91" "char_code (CHR '']'') = 93"
  "char_code (CHR ''{'') = 123" "char_code (CHR ''}'') = 125" "char_code (CHR 0x22) = 34"
  "char_code (CHR ''n'') = 110" "char_code (CHR ''t'') = 116" "char_code (CHR ''f'') = 102"
  by (simp_all add: char_code_def)

lemma digit_10_code: "is_digit 10 c \<Longrightarrow> 48 \<le> char_code c \<and> char_code c \<le> 57"
  by (auto simp: is_digit_def digit_of_def Let_def split: if_splits)

lemma num_char_code: "num_char c \<Longrightarrow> char_code c \<in> {43, 45, 46, 69, 101} \<or> 48 \<le> char_code c \<and> char_code c \<le> 57"
  using digit_10_code [of c] by (auto simp: num_char_def char_code_def)

lemma exponent_num_char: "exponent_ok s \<Longrightarrow> list_all num_char s"
  by (auto simp: exponent_ok_def num_char_def list_all_iff Let_def split: list.splits if_splits)

lemma digits_num_char: "list_all num_char (takeWhile (is_digit 10) s)"
  by (auto simp: list_all_iff num_char_def dest: set_takeWhileD)

lemma list_all_takeWhile_dropWhile:
  "list_all P (takeWhile Q s) \<Longrightarrow> list_all P (dropWhile Q s) \<Longrightarrow> list_all P s"
  by (metis list_all_append takeWhile_dropWhile_id)

lemma fraction_num_char: "fraction_ok s \<Longrightarrow> list_all num_char s"
proof (cases s)
  case (Cons c t)
  assume ok: "fraction_ok s"
  show ?thesis
  proof (cases "c = CHR ''.''")
    case True
    then have "exponent_ok (dropWhile (is_digit 10) t)" using ok Cons by (simp add: fraction_ok_def)
    then have "list_all num_char t"
      by (rule list_all_takeWhile_dropWhile [OF digits_num_char exponent_num_char])
    then show ?thesis using True Cons by (simp add: num_char_def)
  next
    case False
    then show ?thesis using ok Cons by (intro exponent_num_char) (simp add: fraction_ok_def)
  qed
qed simp

lemma json_number_num_char: "json_number t \<Longrightarrow> list_all num_char t \<and> t \<noteq> []"
proof -
  assume ok: "json_number t"
  have body: "list_all num_char u" if "fraction_ok (dropWhile (is_digit 10) u)" for u
    using that by (rule list_all_takeWhile_dropWhile [OF digits_num_char fraction_num_char])
  show ?thesis
  proof (cases t)
    case Nil
    then show ?thesis using ok by (simp add: json_number_def)
  next
    case (Cons c u)
    then show ?thesis using ok body [of u] body [of t]
      by (cases "c = CHR ''-''") (auto simp: json_number_def Let_def num_char_def)
  qed
qed

lemma takeWhile_num:
  assumes "list_all num_char t" "rest_ok rest"
  shows "takeWhile num_char (t @ rest) = t" "dropWhile num_char (t @ rest) = rest"
  using assms by (auto simp: takeWhile_append dropWhile_append list_all_iff rest_ok_def split: list.splits)

lemma json_scalar_number:
  assumes "json_number t" "rest_ok rest"
  shows "json_scalar (t @ rest) = Some (JNum t, rest)"
proof -
  have n: "list_all num_char t" "t \<noteq> []" using json_number_num_char [OF assms(1)] by auto
  obtain c s where t: "t = c # s" using n(2) by (cases t) auto
  have "num_char c" using n(1) t by simp
  then have "c \<noteq> CHR ''n''" "c \<noteq> CHR ''t''" "c \<noteq> CHR ''f''"
    using num_char_code [of c] punctuation by auto
  then show ?thesis using takeWhile_num [OF n(1) assms(2)] assms(1) by (simp add: json_scalar_def t)
qed

lemma json_elems_print:
  assumes "xs \<noteq> []" "2 * length (join '','' (map json_print xs)) + 1 \<le> n"
    and "\<And>x n rest. x \<in> set xs \<Longrightarrow> 2 * length (json_print x) \<le> n \<Longrightarrow> rest_ok rest \<Longrightarrow>
       json_value n (json_print x @ rest) = Some (x, rest)"
  shows "json_elems n (join '','' (map json_print xs) @ CHR '']'' # rest) = Some (xs, rest)"
  using assms
proof (induction xs arbitrary: n)
  case (Cons x xs)
  obtain m where n: "n = Suc m" using Cons.prems(2) by (cases n) auto
  have ok: "rest_ok (CHR '']'' # rest)" "rest_ok (CHR '','' # r)" for r
    by (auto simp: rest_ok_def dest: num_char_code simp: punctuation)
  show ?case
  proof (cases xs)
    case Nil
    then have "json_value m (json_print x @ CHR '']'' # rest) = Some (x, CHR '']'' # rest)"
      using Cons.prems n ok by auto
    then show ?thesis using Nil by (simp add: n json_next_Cons punctuation)
  next
    case (Cons y ys)
    let ?r = "join '','' (map json_print xs) @ CHR '']'' # rest"
    have l: "length (join '','' (map json_print (x # xs)))
        = length (json_print x) + 1 + length (join '','' (map json_print xs))"
      using Cons by simp
    have "json_value m (json_print x @ CHR '','' # ?r) = Some (x, CHR '','' # ?r)"
      using Cons.prems n ok l by (intro Cons.prems(3)) auto
    moreover have "json_elems m ?r = Some (xs, rest)"
      using Cons.prems n l Cons by (intro Cons.IH) auto
    ultimately show ?thesis using Cons by (simp add: n json_next_Cons punctuation)
  qed
qed simp

lemma json_string_Cons: "json_string k @ s = CHR 0x22 # concat (map json_escape k) @ CHR 0x22 # s"
  by (simp add: json_string_def)

lemma length_member: "length (json_string k @ '':'' @ json_print v) \<ge> length (json_print v) + 3"
  by (simp add: json_string_def)

lemma json_members_print:
  assumes "ms \<noteq> []"
    and "2 * length (join '','' (map (\<lambda>(k, v). json_string k @ '':'' @ json_print v) ms)) + 1 \<le> n"
    and "\<And>k v n rest. (k, v) \<in> set ms \<Longrightarrow> 2 * length (json_print v) \<le> n \<Longrightarrow> rest_ok rest \<Longrightarrow>
       json_value n (json_print v @ rest) = Some (v, rest)"
  shows "json_members n (join '','' (map (\<lambda>(k, v). json_string k @ '':'' @ json_print v) ms) @ CHR ''}'' # rest)
     = Some (ms, rest)"
  using assms
proof (induction ms arbitrary: n)
  case (Cons m ms)
  let ?p = "\<lambda>(k, v). json_string k @ '':'' @ json_print v"
  obtain k v where m: "m = (k, v)" by (cases m)
  obtain i where n: "n = Suc i" using Cons.prems(2) by (cases n) auto
  have ok: "rest_ok (CHR ''}'' # rest)" "rest_ok (CHR '','' # r)" for r
    by (auto simp: rest_ok_def dest: num_char_code simp: punctuation)
  show ?case
  proof (cases ms)
    case Nil
    then have "json_value i (json_print v @ CHR ''}'' # rest) = Some (v, CHR ''}'' # rest)"
      using Cons.prems n ok m length_member [of v k] by (intro Cons.prems(3) [where k = k]) auto
    then show ?thesis
      using Nil by (simp add: n m json_string_Cons json_next_Cons punctuation json_chars_string)
  next
    case (Cons y ys)
    let ?r = "join '','' (map ?p ms) @ CHR ''}'' # rest"
    have l: "length (join '','' (map ?p (m # ms))) = length (?p m) + 1 + length (join '','' (map ?p ms))"
      using Cons by simp
    have "json_value i (json_print v @ CHR '','' # ?r) = Some (v, CHR '','' # ?r)"
      using Cons.prems n ok l m length_member [of v k] by (intro Cons.prems(3) [where k = k]) auto
    moreover have "json_members i ?r = Some (ms, rest)"
      using Cons.prems n l Cons by (intro Cons.IH) auto
    ultimately show ?thesis
      using Cons by (simp add: n m json_string_Cons json_next_Cons punctuation json_chars_string)
  qed
qed simp

lemma json_print_head:
  "json_ok j \<Longrightarrow> json_print j \<noteq> [] \<and> char_code (hd (json_print j)) \<notin> {9, 10, 13, 32}
     \<and> hd (json_print j) \<notin> {CHR '']'', CHR ''}''}"
proof (cases j)
  case (JNum t)
  assume "json_ok j"
  then have "list_all num_char t" "t \<noteq> []" using json_number_num_char JNum by auto
  then have "num_char (hd t)" "t \<noteq> []" by (cases t; simp)+
  then show ?thesis using JNum num_char_code [of "hd t"] punctuation by auto
qed (simp_all add: json_string_def punctuation)

lemma join_head: "xs \<noteq> [] \<Longrightarrow> hd xs \<noteq> [] \<Longrightarrow> join sep xs \<noteq> [] \<and> hd (join sep xs) = hd (hd xs)"
  by (induction sep xs rule: join.induct) auto

lemma json_next_other:
  "s \<noteq> [] \<Longrightarrow> char_code (hd s) \<notin> {9, 10, 13, 32} \<Longrightarrow> hd s \<noteq> c \<Longrightarrow> json_next c (s @ r) = None"
  by (cases s) (simp_all add: json_next_Cons)

lemma skip_ws_other: "s \<noteq> [] \<Longrightarrow> char_code (hd s) \<notin> {9, 10, 13, 32} \<Longrightarrow> skip_ws (s @ r) = s @ r"
  by (cases s) (simp_all add: skip_ws_def)

lemma json_value_print:
  "json_ok j \<Longrightarrow> 2 * length (json_print j) \<le> n \<Longrightarrow> rest_ok rest \<Longrightarrow>
     json_value n (json_print j @ rest) = Some (j, rest)"
proof (induction j arbitrary: n rest)
  case JNull
  then obtain m where "n = Suc m" by (cases n) auto
  then show ?case by (simp add: json_next_Cons punctuation json_scalar_def skip_ws_def)
next
  case (JBool b)
  then obtain m where "n = Suc m" by (cases n) (auto split: if_splits)
  then show ?case by (simp add: json_next_Cons punctuation json_scalar_def skip_ws_def)
next
  case (JNum t)
  have t: "t \<noteq> []" "char_code (hd t) \<notin> {9, 10, 13, 32}" using json_print_head [of "JNum t"] JNum.prems(1) by auto
  have h: "hd t \<notin> {CHR 0x22, CHR ''['', CHR ''{''}"
  proof -
    have "list_all num_char t" using json_number_num_char JNum.prems(1) by auto
    then have "num_char (hd t)" using t(1) by (cases t) auto
    then show ?thesis using num_char_code [of "hd t"] punctuation by auto
  qed
  obtain m where "n = Suc m" using JNum.prems(2) t(1) by (cases n) auto
  then show ?case
    using json_next_other [OF t] skip_ws_other [OF t] h json_scalar_number [OF _ JNum.prems(3)] JNum.prems(1) by simp
next
  case (JStr s)
  then obtain m where "n = Suc m" by (cases n) (auto simp: json_string_def)
  then show ?case by (simp add: json_string_Cons json_next_Cons punctuation json_chars_string)
next
  case (JArr xs)
  then obtain m where n: "n = Suc m" by (cases n) auto
  show ?case
  proof (cases xs)
    case Nil
    then show ?thesis by (simp add: n json_next_Cons punctuation)
  next
    case (Cons x ys)
    let ?s = "join '','' (map json_print xs)"
    have "json_ok x" using JArr.prems(1) Cons by simp
    then have "?s \<noteq> [] \<and> hd ?s = hd (json_print x)"
      using json_print_head [of x] join_head [of "map json_print xs" "'',''"] Cons by simp
    then have "json_next (CHR '']'') (?s @ CHR '']'' # rest) = None"
      using json_print_head [OF \<open>json_ok x\<close>] by (intro json_next_other) auto
    moreover have "json_elems m (?s @ CHR '']'' # rest) = Some (xs, rest)"
      using JArr n Cons by (intro json_elems_print) (auto simp: list_all_iff)
    ultimately show ?thesis by (simp add: n json_next_Cons punctuation)
  qed
next
  case (JObj ms)
  then obtain m where n: "n = Suc m" by (cases n) auto
  show ?case
  proof (cases ms)
    case Nil
    then show ?thesis by (simp add: n json_next_Cons punctuation)
  next
    case (Cons p ps)
    let ?s = "join '','' (map (\<lambda>(k, v). json_string k @ '':'' @ json_print v) ms)"
    have "?s \<noteq> [] \<and> hd ?s = CHR 0x22"
      using join_head [of "map (\<lambda>(k, v). json_string k @ '':'' @ json_print v) ms" "'',''"] Cons
      by (cases p) (simp add: json_string_def)
    then have "json_next (CHR ''}'') (?s @ CHR ''}'' # rest) = None"
      by (intro json_next_other) (auto simp: punctuation)
    moreover have "json_members m (?s @ CHR ''}'' # rest) = Some (ms, rest)"
    proof (rule json_members_print)
      fix k v i r
      assume "(k, v) \<in> set ms" "2 * length (json_print v) \<le> i" "rest_ok r"
      then show "json_value i (json_print v @ r) = Some (v, r)"
        using JObj.IH [of "(k, v)" v i r] JObj.prems(1) by (auto simp: list_all_iff)
    qed (use JObj n Cons in auto)
    ultimately show ?thesis by (simp add: n json_next_Cons punctuation)
  qed
qed

lemma json_roundtrip:
  assumes "json_ok j"
  shows "json_parse (json_print j) = Some j"
proof -
  have "json_value (2 * length (json_print j) + 2) (json_print j @ []) = Some (j, [])"
    by (rule json_value_print [OF assms]) (simp_all add: rest_ok_def)
  then show ?thesis by (simp add: json_parse_def skip_ws_def)
qed

section \<open>Integer literals\<close>

lemma nat_str_lead: "length (nat_str 10 m) = 1 \<or> hd (nat_str 10 m) \<noteq> CHR ''0''"
proof (induction m rule: less_induct)
  case (less m)
  show ?case
  proof (cases "m < 10")
    case True
    then show ?thesis by (simp add: nat_str.simps [of 10 m])
  next
    case False
    then have n: "nat_str 10 m = nat_str 10 (m div 10) @ [digit_char (m mod 10)]" by (simp add: nat_str.simps [of 10 m])
    have "hd (nat_str 10 (m div 10)) \<noteq> CHR ''0''"
    proof (cases "m div 10 < 10")
      case True
      then have "nat_str 10 (m div 10) = [digit_char (m div 10)]" by (simp add: nat_str.simps [of 10 "m div 10"])
      moreover have "digit_val (digit_char (m div 10)) = m div 10" using True by simp
      moreover have "digit_val (CHR ''0'') = 0" by code_simp
      ultimately show ?thesis using False by auto
    next
      case False
      then have "length (nat_str 10 (m div 10)) \<noteq> 1"
        by (simp add: nat_str.simps [of 10 "m div 10"] nat_str.simps [of 10 "m div 10 div 10"])
      then show ?thesis using less.IH [of "m div 10"] \<open>\<not> m < 10\<close> by auto
    qed
    then show ?thesis by (simp add: n)
  qed
qed

lemma json_number_nat_str: "json_number (nat_str 10 m)" "json_number (CHR ''-'' # nat_str 10 m)"
proof -
  have d: "list_all (is_digit 10) (nat_str 10 m)" by (rule nat_str_digits) simp_all
  have t: "takeWhile (is_digit 10) (nat_str 10 m) = nat_str 10 m" "dropWhile (is_digit 10) (nat_str 10 m) = []"
    using d by (simp_all add: list_all_iff takeWhile_eq_all_conv dropWhile_eq_Nil_conv)
  show "json_number (CHR ''-'' # nat_str 10 m)"
    using nat_str_lead [of m] by (simp add: json_number_def Let_def t) (simp add: fraction_ok_def)
  obtain c s where c: "nat_str 10 m = c # s" by (cases "nat_str 10 m") auto
  have "\<not> is_digit 10 (CHR ''-'')" by code_simp
  then have "c \<noteq> CHR ''-''" using d c by auto
  then have "json_number (nat_str 10 m) \<longleftrightarrow> nat_str 10 m \<noteq> [] \<and> (length (nat_str 10 m) = 1 \<or> hd (nat_str 10 m) \<noteq> CHR ''0'')"
    using t [unfolded c] unfolding json_number_def c by (simp add: fraction_ok_def Let_def)
  then show "json_number (nat_str 10 m)" using nat_str_lead [of m] by simp
qed

lemma json_number_int_str: "json_number (int_str 10 n)"
  using json_number_nat_str by (simp add: int_str_def)

end
