(* ===== verification/RelayerBoot.thy ===== *)
theory RelayerBoot
  imports RelayerRoutes JsNumber Json
begin

text \<open>
  How a relayer comes up: the environment variables that \<open>config.ts\<close> reads, the choice of the backend
  in \<open>index.ts\<close>, and the backend of \<open>kora.ts\<close> that signs in the process and submits to the RPC node.
  The constructors of keys and key pairs, base58, the signing and the node are arguments.
\<close>

section \<open>Numbers from text\<close>

text \<open>\<open>Number(text)\<close> with its infinities kept apart from \<open>NaN\<close>.\<close>

datatype env_number = Num int nat | Infinite bool | NaN

definition overflows :: "string \<Rightarrow> bool" where
  "overflows u \<longleftrightarrow> u \<in> {''Infinity'', ''+Infinity'', ''-Infinity''}
     \<or> (case scan_decimal u of Some (d, r) \<Rightarrow> r = [] | None \<Rightarrow> False) \<or> parse_bigint u \<noteq> None"

definition env_number :: "string \<Rightarrow> env_number" where
  "env_number s =
     (case js_number s of
        Dyadic m k \<Rightarrow> Num m k
      | NonFinite \<Rightarrow> let u = js_trim s in if overflows u then Infinite (starts_with ''-'' u) else NaN)"

fun whole :: "env_number \<Rightarrow> int option" where
  "whole (Num m k) = (if 2 ^ k dvd m then Some (m div 2 ^ k) else None)"
| "whole (Infinite _) = None"
| "whole NaN = None"

text \<open>The comparison \<open>n >= limit\<close> of a count with such a number.\<close>

fun reaches :: "nat \<Rightarrow> env_number \<Rightarrow> bool" where
  "reaches n (Num m k) \<longleftrightarrow> m \<le> int n * 2 ^ k"
| "reaches n (Infinite neg) \<longleftrightarrow> neg"
| "reaches n NaN \<longleftrightarrow> False"

section \<open>config.ts\<close>

record boot_env =
  be_vars :: "string \<rightharpoonup> string"
  be_public_key :: "string \<Rightarrow> pubkey option"
  be_keypair :: "bytes \<Rightarrow> pubkey option"
  be_bs58 :: "string \<Rightarrow> bytes option"
  be_text :: "json \<Rightarrow> string"

text \<open>
  \<open>be_keypair\<close> is the public key of \<open>Keypair.fromSecretKey\<close>; \<open>None\<close> is a throw. \<open>be_text\<close> is the text
  an array or an object converts to.
\<close>

datatype boot_error = BadTiers | BadKey string | MissingVar string | BadFeePayer

record loaded_config =
  lc_port :: env_number
  lc_host :: string
  lc_log_level :: string
  lc_rpc_url :: string
  lc_program_id :: pubkey
  lc_fee_payer :: pubkey
  lc_api_key :: "string option"
  lc_fee_ata :: "pubkey option"
  lc_fee_amount_micro :: env_number
  lc_kora_url :: "string option"
  lc_sanctions_source :: "string option"
  lc_rate_ip_limit :: env_number
  lc_rate_ip_window :: env_number
  lc_rate_recipient_limit :: env_number
  lc_rate_recipient_window :: env_number
  lc_denom_tiers :: "(json option \<times> int) list"
  lc_fee_bps :: env_number
  lc_min_balance_lamports :: env_number
  lc_max_tx_per_window :: env_number
  lc_spend_window :: env_number
  lc_replay_ttl :: env_number
  lc_trust_proxy :: bool

definition tier_entry :: "string \<Rightarrow> string \<Rightarrow> json" where
  "tier_entry d amount = JObj [(''denomId'', JNum d), (''amountMicroUsdc'', JStr amount)]"

definition default_tiers_json :: string where
  "default_tiers_json = json_print (JArr
     [tier_entry ''0'' ''100000'', tier_entry ''1'' ''1000000'', tier_entry ''2'' ''10000000'', tier_entry ''3'' ''100000000''])"

text \<open>\<open>name ?? default\<close>, and a variable read as a number.\<close>

definition env_or :: "boot_env \<Rightarrow> string \<Rightarrow> string \<Rightarrow> string" where
  "env_or env name dflt = (case be_vars env name of Some v \<Rightarrow> v | None \<Rightarrow> dflt)"

definition env_num :: "boot_env \<Rightarrow> string \<Rightarrow> int \<Rightarrow> env_number" where
  "env_num env name dflt = (case be_vars env name of Some v \<Rightarrow> env_number v | None \<Rightarrow> Num dflt 0)"

definition required_var :: "boot_env \<Rightarrow> string \<Rightarrow> boot_error + string" where
  "required_var env name = optE (MissingVar name) (truthy (be_vars env name))"

text \<open>\<open>Number(v)\<close> of a JSON value, and its conversion to a byte of a \<open>Uint8Array\<close>.\<close>

fun json_float :: "(json \<Rightarrow> string) \<Rightarrow> json \<Rightarrow> js_float" where
  "json_float text_of JNull = Dyadic 0 0"
| "json_float text_of (JBool b) = Dyadic (if b then 1 else 0) 0"
| "json_float text_of (JNum t) = js_number t"
| "json_float text_of (JStr s) = js_number s"
| "json_float text_of v = js_number (text_of v)"

definition to_uint8 :: "js_float \<Rightarrow> byte" where
  "to_uint8 x = (case x of Dyadic m k \<Rightarrow> word_of_int (sgn m * (\<bar>m\<bar> div 2 ^ k)) | NonFinite \<Rightarrow> 0)"

definition parse_fee_payer :: "boot_env \<Rightarrow> boot_error + pubkey" where
  "parse_fee_payer env =
     bindE (required_var env ''FEE_PAYER_SECRET_KEY'') (\<lambda>raw.
     if starts_with ''['' (js_trim raw)
     then (case json_parse raw of
             Some (JArr xs) \<Rightarrow> optE BadFeePayer (be_keypair env (map (\<lambda>v. to_uint8 (json_float (be_text env) v)) xs))
           | _ \<Rightarrow> Inl BadFeePayer)
     else bindE (optE BadFeePayer (be_bs58 env raw)) (\<lambda>bs. optE BadFeePayer (be_keypair env bs)))"

text \<open>\<open>BigInt(v)\<close> of a member of a tier, which may be missing.\<close>

fun json_bigint :: "(json \<Rightarrow> string) \<Rightarrow> json option \<Rightarrow> int option" where
  "json_bigint text_of None = None"
| "json_bigint text_of (Some JNull) = None"
| "json_bigint text_of (Some (JBool b)) = Some (if b then 1 else 0)"
| "json_bigint text_of (Some (JNum t)) = whole (env_number t)"
| "json_bigint text_of (Some (JStr s)) = parse_bigint s"
| "json_bigint text_of (Some v) = parse_bigint (text_of v)"

fun load_tiers :: "boot_env \<Rightarrow> json list \<Rightarrow> boot_error + (json option \<times> int) list" where
  "load_tiers env [] = Inr []"
| "load_tiers env (t # ts) =
     bindE (optE BadTiers (json_bigint (be_text env) (json_get ''amountMicroUsdc'' t))) (\<lambda>amount.
     bindE (load_tiers env ts) (\<lambda>rest. Inr ((json_get ''denomId'' t, amount) # rest)))"

definition settings ::
    "boot_env \<Rightarrow> pubkey \<Rightarrow> pubkey \<Rightarrow> (json option \<times> int) list \<Rightarrow> pubkey option \<Rightarrow> loaded_config" where
  "settings env program_id fee_payer tiers ata =
     \<lparr>lc_port = env_num env ''PORT'' 4080,
      lc_host = env_or env ''HOST'' ''0.0.0.0'',
      lc_log_level = env_or env ''LOG_LEVEL'' ''info'',
      lc_rpc_url = env_or env ''SOLANA_RPC_URL'' ''https://api.devnet.solana.com'',
      lc_program_id = program_id, lc_fee_payer = fee_payer,
      lc_api_key = truthy (be_vars env ''API_KEY''), lc_fee_ata = ata,
      lc_fee_amount_micro = env_num env ''FEE_AMOUNT_MICRO'' 50000,
      lc_kora_url = truthy (be_vars env ''KORA_URL''),
      lc_sanctions_source = truthy (be_vars env ''SANCTIONS_LIST''),
      lc_rate_ip_limit = env_num env ''RATE_IP_LIMIT'' 20,
      lc_rate_ip_window = env_num env ''RATE_IP_WINDOW'' 60,
      lc_rate_recipient_limit = env_num env ''RATE_RECIPIENT_LIMIT'' 10,
      lc_rate_recipient_window = env_num env ''RATE_RECIPIENT_WINDOW'' 60,
      lc_denom_tiers = tiers,
      lc_fee_bps = env_num env ''FEE_BPS'' 50,
      lc_min_balance_lamports = env_num env ''MIN_BALANCE_LAMPORTS'' 50000000,
      lc_max_tx_per_window = env_num env ''MAX_TX_PER_WINDOW'' 200,
      lc_spend_window = env_num env ''SPEND_WINDOW_SECONDS'' 60,
      lc_replay_ttl = env_num env ''REPLAY_TTL_SECONDS'' 120,
      lc_trust_proxy = (to_lower (env_or env ''TRUST_PROXY'' ''false'') = ''true'')\<rparr>"

definition load_fee_ata :: "boot_env \<Rightarrow> boot_error + pubkey option" where
  "load_fee_ata env =
     (case truthy (be_vars env ''FEE_ATA'') of
        None \<Rightarrow> Inr None
      | Some v \<Rightarrow> bindE (optE (BadKey ''FEE_ATA'') (be_public_key env v)) (\<lambda>k. Inr (Some k)))"

definition tier_list :: "boot_env \<Rightarrow> json \<Rightarrow> boot_error + (json option \<times> int) list" where
  "tier_list env parsed = (case parsed of JArr ts \<Rightarrow> load_tiers env ts | _ \<Rightarrow> Inl BadTiers)"

definition load_config :: "boot_env \<Rightarrow> boot_error + loaded_config" where
  "load_config env =
     bindE (optE BadTiers (json_parse (env_or env ''DENOM_TIERS'' default_tiers_json))) (\<lambda>parsed.
     bindE (optE (BadKey ''PROGRAM_ID'')
       (be_public_key env (env_or env ''PROGRAM_ID'' ''4XH6f74UFTvqx4j9UarXGrRZRrAwbnNNsRFBTfNqmWib''))) (\<lambda>program_id.
     bindE (parse_fee_payer env) (\<lambda>fee_payer.
     bindE (tier_list env parsed) (\<lambda>tiers.
     bindE (load_fee_ata env) (\<lambda>ata.
     Inr (settings env program_id fee_payer tiers ata))))))"

text \<open>
  The configuration the handlers are modelled for: every number whole, the counts not negative and
  every tier with a whole denomination. The balance cache keeps its default of five seconds.
\<close>

fun tier_denom :: "json option \<Rightarrow> int option" where
  "tier_denom (Some (JNum t)) = whole (env_number t)"
| "tier_denom _ = None"

definition count :: "env_number \<Rightarrow> nat option" where
  "count x = (case whole x of Some n \<Rightarrow> if 0 \<le> n then Some (nat n) else None | None \<Rightarrow> None)"

fun whole_tiers :: "(json option \<times> int) list \<Rightarrow> (int \<times> int) list option" where
  "whole_tiers [] = Some []"
| "whole_tiers ((d, a) # ts) =
     Option.bind (tier_denom d) (\<lambda>d. map_option ((#) (d, a)) (whole_tiers ts))"

definition spend_config_of :: "loaded_config \<Rightarrow> spend_config option" where
  "spend_config_of lc =
     Option.bind (whole (lc_min_balance_lamports lc)) (\<lambda>floor_lamports.
     Option.bind (count (lc_max_tx_per_window lc)) (\<lambda>cap.
     Option.bind (whole (lc_spend_window lc)) (\<lambda>w.
     Some \<lparr>min_balance_lamports = floor_lamports, max_per_window = cap, spend_window_seconds = w, balance_cache_ms = 5000\<rparr>)))"

definition routes_config :: "loaded_config \<Rightarrow> relayer_config option" where
  "routes_config lc =
     Option.bind (whole (lc_fee_amount_micro lc)) (\<lambda>fee.
     Option.bind (count (lc_rate_ip_limit lc)) (\<lambda>ip_limit.
     Option.bind (whole (lc_rate_ip_window lc)) (\<lambda>ip_window.
     Option.bind (count (lc_rate_recipient_limit lc)) (\<lambda>to_limit.
     Option.bind (whole (lc_rate_recipient_window lc)) (\<lambda>to_window.
     Option.bind (whole_tiers (lc_denom_tiers lc)) (\<lambda>tiers.
     Option.bind (whole (lc_fee_bps lc)) (\<lambda>bps.
     Option.bind (spend_config_of lc) (\<lambda>sp.
     Option.bind (whole (lc_replay_ttl lc)) (\<lambda>ttl.
     Some \<lparr>rc_program_id = lc_program_id lc, rc_fee_payer = lc_fee_payer lc, rc_api_key = lc_api_key lc,
        rc_fee_ata = lc_fee_ata lc, rc_fee_amount_micro = fee, rc_rate_ip_limit = ip_limit, rc_rate_ip_window = ip_window,
        rc_rate_recipient_limit = to_limit, rc_rate_recipient_window = to_window, rc_denom_tiers = tiers,
        rc_fee_bps = bps, rc_spend = sp, rc_replay_ttl = ttl, rc_sanctions_source = (lc_sanctions_source lc \<noteq> None)\<rparr>)))))))))"

section \<open>index.ts: warnings and the backend\<close>

definition public_bind :: "loaded_config \<Rightarrow> bool" where
  "public_bind lc \<longleftrightarrow> lc_host lc = ''0.0.0.0'' \<or> lc_host lc = ''::''"

datatype warning = NoApiKey | OneBucketForAll

definition startup_warnings :: "loaded_config \<Rightarrow> warning list" where
  "startup_warnings lc =
     (if truthy (lc_api_key lc) = None \<and> public_bind lc then [NoApiKey] else [])
     @ (if public_bind lc \<and> \<not> lc_trust_proxy lc then [OneBucketForAll] else [])"

text \<open>
  A transaction with its recent blockhash, and the surroundings of the backend that signs itself.
  \<open>de_sign\<close> is \<open>partialSign\<close> with the key pair of a public key followed by \<open>serialize\<close>.
\<close>

record wire_transaction = transaction +
  wt_blockhash :: "string option"

record direct_env =
  de_tx_from :: "bytes \<Rightarrow> string + wire_transaction"
  de_latest_blockhash :: "string + string"
  de_sign :: "pubkey \<Rightarrow> wire_transaction \<Rightarrow> string + bytes"
  de_send_raw :: "bytes \<Rightarrow> string + string"

definition ensure_blockhash :: "direct_env \<Rightarrow> wire_transaction \<Rightarrow> string + wire_transaction" where
  "ensure_blockhash env tx =
     (case truthy (wt_blockhash tx) of
        Some _ \<Rightarrow> Inr tx
      | None \<Rightarrow> bindE (de_latest_blockhash env) (\<lambda>h. Inr (tx\<lparr>wt_blockhash := Some h\<rparr>)))"

definition ensure_fee_payer :: "pubkey \<Rightarrow> wire_transaction \<Rightarrow> wire_transaction" where
  "ensure_fee_payer key tx = (if tx_fee_payer tx = None then tx\<lparr>tx_fee_payer := Some key\<rparr> else tx)"

text \<open>What the key pair is asked to sign, and the outcome of sending a text.\<close>

definition direct_prepare :: "direct_env \<Rightarrow> pubkey \<Rightarrow> string \<Rightarrow> string + wire_transaction" where
  "direct_prepare env key tx_base64 =
     bindE (de_tx_from env (b64_decode tx_base64)) (\<lambda>tx.
     bindE (ensure_blockhash env tx) (\<lambda>tx. Inr (ensure_fee_payer key tx)))"

definition direct_send :: "direct_env \<Rightarrow> pubkey \<Rightarrow> string \<Rightarrow> string + string" where
  "direct_send env key tx_base64 =
     bindE (direct_prepare env key tx_base64) (\<lambda>tx.
     bindE (de_sign env key tx) (de_send_raw env))"

definition direct_ping :: "direct_env \<Rightarrow> bool" where
  "direct_ping env = (case de_latest_blockhash env of Inl _ \<Rightarrow> False | Inr _ \<Rightarrow> True)"

definition backend_send :: "loaded_config \<Rightarrow> (string \<Rightarrow> fetch_outcome) \<Rightarrow> direct_env \<Rightarrow> string \<Rightarrow> string + string" where
  "backend_send lc kora env tx =
     (case lc_kora_url lc of Some _ \<Rightarrow> kora_send (kora tx) | None \<Rightarrow> direct_send env (lc_fee_payer lc) tx)"

section \<open>The defaults\<close>

text \<open>The tiers a relayer accepts by default are the tiers the SDK deposits into.\<close>

lemma default_tiers_text: "json_parse default_tiers_json = Some (JArr
     [tier_entry ''0'' ''100000'', tier_entry ''1'' ''1000000'', tier_entry ''2'' ''10000000'', tier_entry ''3'' ''100000000''])"
  unfolding default_tiers_json_def by (intro json_roundtrip) code_simp

lemma whole_digit_texts:
  "whole (env_number ''0'') = Some 0" "whole (env_number ''1'') = Some 1"
  "whole (env_number ''2'') = Some 2" "whole (env_number ''3'') = Some 3"
  by code_simp+

lemma default_amount_texts:
  "parse_bigint ''100000'' = Some 100000" "parse_bigint ''1000000'' = Some 1000000"
  "parse_bigint ''10000000'' = Some 10000000" "parse_bigint ''100000000'' = Some 100000000"
  by (subst parse_bigint_decimal; simp add: digits_val_def digit_val_def is_digit_def digit_of_def char_code_def)+

lemma json_get_tier [simp]:
  "json_get ''denomId'' (tier_entry d a) = Some (JNum d)"
  "json_get ''amountMicroUsdc'' (tier_entry d a) = Some (JStr a)"
  by (simp_all add: json_get_def tier_entry_def)

lemma load_default_tiers:
  "tier_list env (JArr [tier_entry ''0'' ''100000'', tier_entry ''1'' ''1000000'', tier_entry ''2'' ''10000000'', tier_entry ''3'' ''100000000''])
     = Inr [(Some (JNum ''0''), 100000), (Some (JNum ''1''), 1000000), (Some (JNum ''2''), 10000000), (Some (JNum ''3''), 100000000)]"
  by (simp add: tier_list_def default_amount_texts)

lemma default_tiers_are_sdk_tiers:
  "whole_tiers [(Some (JNum ''0''), 100000), (Some (JNum ''1''), 1000000), (Some (JNum ''2''), 10000000), (Some (JNum ''3''), 100000000)]
     = Some (map (\<lambda>t. (td_denom_id t, td_amount_micro t)) default_tiers)"
  by (simp add: whole_digit_texts default_tiers_def)

lemma load_config_settings:
  assumes "load_config env = Inr lc"
  shows "\<exists>pid k tiers ata. parse_fee_payer env = Inr k \<and> lc = settings env pid k tiers ata"
  using assms unfolding load_config_def bindE_Inr_iff by blast

text \<open>With nothing but a key in the environment the relayer comes up on the SDK's tiers.\<close>

lemma default_configuration:
  assumes key: "parse_fee_payer env = Inr k"
    and pid: "be_public_key env ''4XH6f74UFTvqx4j9UarXGrRZRrAwbnNNsRFBTfNqmWib'' = Some pid"
    and vars: "be_vars env = [''FEE_PAYER_SECRET_KEY'' \<mapsto> v]"
  shows "\<exists>lc cfg. load_config env = Inr lc \<and> routes_config lc = Some cfg \<and> lc_kora_url lc = None
     \<and> startup_warnings lc = [NoApiKey, OneBucketForAll]
     \<and> rc_denom_tiers cfg = map (\<lambda>t. (td_denom_id t, td_amount_micro t)) default_tiers \<and> rc_fee_payer cfg = k"
proof -
  define tiers where "tiers = [(Some (JNum ''0''), 100000 :: int), (Some (JNum ''1''), 1000000), (Some (JNum ''2''), 10000000), (Some (JNum ''3''), 100000000)]"
  have ld: "load_config env = Inr (settings env pid k tiers None)"
    using key pid by (simp add: load_config_def env_or_def vars default_tiers_text load_default_tiers tiers_def load_fee_ata_def truthy_def)
  have whole: "whole_tiers tiers = Some (map (\<lambda>t. (td_denom_id t, td_amount_micro t)) default_tiers)"
    unfolding tiers_def by (rule default_tiers_are_sdk_tiers)
  have lower: "to_lower ''false'' = ''false''" by code_simp
  have "startup_warnings (settings env pid k tiers None) = [NoApiKey, OneBucketForAll]"
    by (simp add: startup_warnings_def public_bind_def settings_def env_or_def vars truthy_def lower)
  moreover have "\<exists>cfg. routes_config (settings env pid k tiers None) = Some cfg
      \<and> rc_denom_tiers cfg = map (\<lambda>t. (td_denom_id t, td_amount_micro t)) default_tiers \<and> rc_fee_payer cfg = k"
    by (simp add: routes_config_def spend_config_of_def count_def settings_def env_num_def vars whole bind_eq_Some_conv)
  ultimately show ?thesis using ld by (auto simp: settings_def vars truthy_def)
qed

section \<open>Numbers that are not checked\<close>

text \<open>\<open>rate-limit.ts\<close> with the limit as it comes from the environment.\<close>

definition rate_admits :: "string \<Rightarrow> int \<Rightarrow> env_number \<Rightarrow> int \<Rightarrow> buckets \<Rightarrow> bool \<times> buckets" where
  "rate_admits key window_seconds limit now b =
     (let hits = dropWhile (\<lambda>t. t \<le> now - window_seconds * 1000) (bucket_hits b key)
      in if reaches (length hits) limit then (False, b(key \<mapsto> hits)) else (True, b(key \<mapsto> hits @ [now])))"

lemma rate_admits_step: "rate_admits key w (Num (int limit) 0) now b = rate_step w limit key now b"
  by (simp add: rate_admits_def rate_step_def rate_check_def Let_def)

text \<open>A limit whose text is not a number is taken without complaint, and admits everything.\<close>

lemma unreadable_limit_admits_everything:
  assumes "load_config env = Inr lc" "be_vars env ''RATE_IP_LIMIT'' = Some limit_text" "env_number limit_text = NaN"
  shows "fst (rate_admits key w (lc_rate_ip_limit lc) now b)"
proof -
  have "lc_rate_ip_limit lc = NaN"
    using load_config_settings [OF assms(1)] assms(2,3) by (auto simp: settings_def env_num_def)
  then show ?thesis by (simp add: rate_admits_def Let_def)
qed

lemma limit_text_is_not_checked: "env_number ''20/min'' = NaN"
  by code_simp

section \<open>What the key pair signs\<close>

lemma signature_is_backend_answer:
  assumes "relayer_serve x cfg route rq st = (Signature sig, f, st')"
  shows "\<exists>t. f = Some t \<and> rq_send rq t = Inr sig"
  using only_successful_sends_spend [of x cfg route rq st] assms by auto

lemma routes_config_keys:
  "routes_config lc = Some cfg \<Longrightarrow> rc_fee_payer cfg = lc_fee_payer lc \<and> rc_api_key cfg = lc_api_key lc
     \<and> rc_program_id cfg = lc_program_id lc \<and> rc_fee_ata cfg = lc_fee_ata lc"
  by (auto simp: routes_config_def bind_eq_Some_conv)

lemma direct_send_ok:
  assumes "direct_send env key t = Inr sig"
  shows "\<exists>wt tx raw. de_tx_from env (b64_decode t) = Inr wt \<and> ensure_blockhash env wt = Inr tx
     \<and> de_sign env key (ensure_fee_payer key tx) = Inr raw \<and> de_send_raw env raw = Inr sig"
  using assms by (auto simp: direct_send_def direct_prepare_def bindE_def split: sum.splits)

lemma ensure_blockhash_keeps:
  "ensure_blockhash env wt = Inr tx \<Longrightarrow> tx_fee_payer tx = tx_fee_payer wt \<and> tx_instructions tx = tx_instructions wt"
  by (auto simp: ensure_blockhash_def bindE_def split: option.splits sum.splits)

text \<open>
  C14. The relayer's key pair only ever signs pool transactions of authenticated callers: when a relayer
  that signs itself answers with a signature, the request passed the API-key check, and the transaction
  the key pair signed and the node took names the relayer as fee payer and is either one withdraw of the
  configured pool, or a token transfer followed by one deposit of it, the transfer paying the configured
  fee account at least the configured fee.
\<close>

theorem key_pair_signs_only_pool_transactions:
  assumes cfg: "routes_config lc = Some cfg" "lc_kora_url lc = None"
    and parser: "\<And>b. x_tx_from x b = map_sum id transaction.truncate (de_tx_from env b)"
    and backend: "rq_send rq = backend_send lc kora env"
    and serve: "relayer_serve x cfg route rq st = (Signature sig, f, st')"
  shows "require_auth (lc_api_key lc) (rq_auth rq) = Inr () \<and>
     (\<exists>tx raw. de_sign env (lc_fee_payer lc) tx = Inr raw \<and> de_send_raw env raw = Inr sig
       \<and> tx_fee_payer tx = Some (lc_fee_payer lc)
       \<and> ((\<exists>w. tx_instructions tx = [w] \<and> ix_program w = lc_program_id lc
           \<and> slice 0 8 (ix_data w) = anchor_ix_discriminator (x_sha x) ''withdraw'')
        \<or> (\<exists>t d. tx_instructions tx = [t, d] \<and> ix_program t = token_program_id \<and> ix_data t ! 0 = 3
           \<and> ix_program d = lc_program_id lc
           \<and> slice 0 8 (ix_data d) = anchor_ix_discriminator (x_sha x) ''deposit''
           \<and> (case lc_fee_ata lc of None \<Rightarrow> True
              | Some a \<Rightarrow> am_pubkey (ix_keys t ! 1) = a
                   \<and> rc_fee_amount_micro cfg \<le> int (read_u64_le (ix_data t) 1)))))"
proof -
  note keys = routes_config_keys [OF cfg(1)]
  obtain t where f: "f = Some t" and sent: "direct_send env (lc_fee_payer lc) t = Inr sig"
    using signature_is_backend_answer [OF serve] cfg(2) by (auto simp: backend backend_send_def)
  obtain wt tx raw where wt: "de_tx_from env (b64_decode t) = Inr wt" "ensure_blockhash env wt = Inr tx"
    and sent: "de_sign env (lc_fee_payer lc) (ensure_fee_payer (lc_fee_payer lc) tx) = Inr raw" "de_send_raw env raw = Inr sig"
    using direct_send_ok [OF sent] by blast
  have auth: "require_auth (lc_api_key lc) (rq_auth rq) = Inr ()"
    and pool: "pool_transaction x cfg t" using forwarded_pool_transaction [OF serve [unfolded f]] keys by simp_all
  have parsed: "x_tx_from x (b64_decode t) = Inr (transaction.truncate wt)" using parser wt(1) by simp
  have same: "ensure_fee_payer (lc_fee_payer lc) tx = tx" "tx_fee_payer tx = Some (lc_fee_payer lc)"
     "tx_instructions tx = tx_instructions wt"
    using pool keys ensure_blockhash_keeps [OF wt(2)]
    by (auto simp: ensure_fee_payer_def pool_transaction_def parsed transaction.defs)
  show ?thesis
    using auth sent pool keys unfolding same(1)
    by (intro conjI exI [of _ tx] exI [of _ raw]) (auto simp: same pool_transaction_def parsed transaction.defs)
qed

definition sample_loaded :: loaded_config where
  "sample_loaded = \<lparr>lc_port = Num 4080 0, lc_host = ''127.0.0.1'', lc_log_level = ''info'', lc_rpc_url = [],
     lc_program_id = zeros 32, lc_fee_payer = replicate 32 9, lc_api_key = Some ''key'', lc_fee_ata = Some (replicate 32 2),
     lc_fee_amount_micro = Num 50000 0, lc_kora_url = None, lc_sanctions_source = None, lc_rate_ip_limit = Num 20 0,
     lc_rate_ip_window = Num 60 0, lc_rate_recipient_limit = Num 10 0, lc_rate_recipient_window = Num 60 0,
     lc_denom_tiers = [(Some (JNum ''1''), 1000000)], lc_fee_bps = Num 50 0, lc_min_balance_lamports = Num (min_balance_lamports sample_spend) 0,
     lc_max_tx_per_window = Num (int (max_per_window sample_spend)) 0, lc_spend_window = Num (spend_window_seconds sample_spend) 0,
     lc_replay_ttl = Num 120 0, lc_trust_proxy = False\<rparr>"

definition sample_direct :: "instruction list \<Rightarrow> direct_env" where
  "sample_direct ixs = \<lparr>de_tx_from = (\<lambda>_. Inr \<lparr>tx_fee_payer = Some (replicate 32 9), tx_instructions = ixs, wt_blockhash = None\<rparr>),
     de_latest_blockhash = Inr ''hash'', de_sign = (\<lambda>_ _. Inr [1]), de_send_raw = (\<lambda>_. Inr ''sig'')\<rparr>"

lemma sample_loaded_config: "routes_config sample_loaded = Some sample_config"
  by (simp add: routes_config_def sample_loaded_def sample_config_def count_def spend_config_of_def sample_spend_def whole_digit_texts)

theorem key_pair_signs_only_pool_transactions_witness:
  "\<exists>t d st'. relayer_serve (sample_externals [t, d]) sample_config PostSubmitDeposit
       ((sample_request (Some ''Bearer key''))\<lparr>rq_send := backend_send sample_loaded (\<lambda>_. FetchTimeout) (sample_direct [t, d])\<rparr>)
       sample_state = (Signature ''sig'', Some ''AA=='', st')
     \<and> require_auth (lc_api_key sample_loaded) (Some ''Bearer key'') = Inr ()"
proof -
  let ?send = "\<lambda>ixs. backend_send sample_loaded (\<lambda>_. FetchTimeout) (sample_direct ixs)"
  obtain t d where all: "\<forall>send. \<exists>r st'. relayer_serve (sample_externals [t, d]) sample_config PostSubmitDeposit
     ((sample_request (Some ''Bearer key''))\<lparr>rq_send := send\<rparr>) sample_state = (r, Some ''AA=='', st')"
    using sample_deposit_forwarded by (elim exE)
  obtain r st' where run: "relayer_serve (sample_externals [t, d]) sample_config PostSubmitDeposit
     ((sample_request (Some ''Bearer key''))\<lparr>rq_send := ?send [t, d]\<rparr>) sample_state = (r, Some ''AA=='', st')"
    using all [THEN spec, of "?send [t, d]"] by (elim exE)
  have "?send [t, d] ''AA=='' = Inr ''sig''"
    by (simp add: backend_send_def sample_loaded_def direct_send_def direct_prepare_def ensure_blockhash_def sample_direct_def truthy_def)
  then have r: "r = Signature ''sig''" using forwarded_answer [OF run] by simp
  have "require_auth (lc_api_key sample_loaded) (rq_auth ((sample_request (Some ''Bearer key''))\<lparr>rq_send := ?send [t, d]\<rparr>)) = Inr ()"
    using key_pair_signs_only_pool_transactions [OF sample_loaded_config _ _ _ run [unfolded r], of "sample_direct [t, d]" "\<lambda>_. FetchTimeout"]
    by (simp add: sample_loaded_def sample_externals_def sample_direct_def transaction.defs)
  then show ?thesis using run r by (auto simp: sample_request_def)
qed

end
