(* ===== verification/SdkWallet.thy ===== *)
theory SdkWallet
  imports SdkChain PoolDecode Base64
begin

text \<open>
  The class \<open>QietrSDK\<close> of \<open>qietr-sdk/src/sdk.ts\<close> with the parts of \<open>types.ts\<close> it stores: note
  management, deposit, gasless deposit and pay. Everything outside the SDK that a call consults is a
  field of \<open>sdk_env\<close> (\<open>None\<close> is a thrown exception): the indexer and relayer services, snarkjs, the
  RPC connection, Poseidon, SHA-256, the program-address derivation and the random draws, in the
  order in which the code draws them. A transaction is its fee payer and its instructions; the
  blockhash and the signatures added by a signer are not represented.
\<close>

section \<open>Configuration and state\<close>

record sdk_config =
  sc_cluster :: cluster
  sc_relayer_url :: "string option"
  sc_prover_path :: "string option"
  sc_rpc_url :: "string option"
  sc_usdc_mint :: "pubkey option"
  sc_program_id :: "pubkey option"
  sc_indexer_url :: "string option"
  sc_tiers :: "tier_definition list option"

record sdk =
  sk_config :: sdk_config
  sk_endpoint :: string
  sk_program_id :: pubkey
  sk_usdc_mint :: pubkey
  sk_tiers :: "tier_definition list"
  sk_indexer_url :: string
  sk_wasm :: string
  sk_zkey :: string
  sk_note :: "shielded_note option"
  sk_last_updated :: "shielded_note option"
  sk_last_deposit_sig :: "string option"

text \<open>\<open>replace(/\/+$/, "")\<close>.\<close>

definition strip_slashes :: "string \<Rightarrow> string" where
  "strip_slashes s = rev (dropWhile (\<lambda>c. c = CHR ''/'') (rev s))"

definition make_connection :: "sdk_config \<Rightarrow> string" where
  "make_connection cfg = default_to (cluster_endpoint (sc_cluster cfg)) (sc_rpc_url cfg)"

definition sdk_new :: "sdk_config \<Rightarrow> sdk_error + sdk" where
  "sdk_new cfg =
     bindE (case sc_usdc_mint cfg of Some m \<Rightarrow> Inr m | None \<Rightarrow> default_usdc_mint (sc_cluster cfg)) (\<lambda>mint.
     bindE (optE MissingIndexerUrl (truthy (sc_indexer_url cfg))) (\<lambda>indexer.
     bindE (optE MissingProverPath (truthy (sc_prover_path cfg))) (\<lambda>prover.
     let base = strip_slashes prover in
     Inr \<lparr>sk_config = cfg, sk_endpoint = make_connection cfg,
          sk_program_id = default_to qietr_pool_program_id (sc_program_id cfg),
          sk_usdc_mint = mint, sk_tiers = default_to default_tiers (sc_tiers cfg),
          sk_indexer_url = strip_slashes indexer,
          sk_wasm = base @ ''/qietr_payment.wasm'', sk_zkey = base @ ''/qietr_payment_final.zkey'',
          sk_note = None, sk_last_updated = None, sk_last_deposit_sig = None\<rparr>)))"

definition set_note :: "shielded_note \<Rightarrow> sdk \<Rightarrow> sdk" where
  "set_note n s = s\<lparr>sk_note := Some n\<rparr>"

definition get_balance :: "sdk \<Rightarrow> int" where
  "get_balance s = (case sk_note s of None \<Rightarrow> 0 | Some n \<Rightarrow> get_note_balance (Some n))"

definition has_balance :: "sdk \<Rightarrow> int \<Rightarrow> bool" where
  "has_balance s amount = (case sk_note s of None \<Rightarrow> False | Some n \<Rightarrow> has_enough_balance (Some n) amount)"

definition restore_note :: "commitment list \<Rightarrow> sdk \<Rightarrow> shielded_note \<times> sdk" where
  "restore_note cs s =
     (let n = \<lparr>nt_version = (case sk_note s of None \<Rightarrow> note_version | Some old \<Rightarrow> nt_version old),
               nt_commitments = cs\<rparr>
      in (n, s\<lparr>sk_note := Some n\<rparr>))"

definition ensure_note :: "sdk \<Rightarrow> sdk_error + unit" where
  "ensure_note s =
     (case sk_note s of None \<Rightarrow> Inl InvalidNote
      | Some n \<Rightarrow> guardE (nt_commitments n \<noteq> []) InvalidNote)"

section \<open>The outside\<close>

record signer =
  sg_key :: pubkey
  sg_sign :: "transaction \<Rightarrow> transaction option"

record merkle_proof_response =
  mr_root :: string
  mr_path_elements :: "string list"
  mr_path_indices :: "int list"

record nullifier_status_response =
  ns_spent :: bool
  ns_spent_at_slot :: nat

record relayer_quote =
  rq_fee_payer :: string
  rq_fee_ata :: string
  rq_fee_amount_micro :: int

record sdk_env =
  se_poseidon :: poseidon
  se_sha :: hash_fun
  se_fpa :: pda_fun
  se_rnd1 :: bytes
  se_rnd2 :: bytes
  se_merkle_proof :: "int \<Rightarrow> string \<Rightarrow> merkle_proof_response option"
  se_nullifier_status :: "int \<Rightarrow> string \<Rightarrow> nullifier_status_response option"
  se_prove :: "witness_inputs \<Rightarrow> string \<Rightarrow> string \<Rightarrow> snark_output option"
  se_blockhash :: "unit option"
  se_send :: "transaction \<Rightarrow> string option"
  se_parse_key :: "string \<Rightarrow> pubkey option"
  se_quote :: "string \<Rightarrow> relayer_quote option"
  se_serialize :: "transaction \<Rightarrow> bytes"
  se_submit_deposit :: "string \<Rightarrow> string \<Rightarrow> string option"

definition codecE :: "codec_error + 'a \<Rightarrow> sdk_error + 'a" where
  "codecE r = (case r of Inl e \<Rightarrow> Inl (Codec e) | Inr a \<Rightarrow> Inr a)"

definition wireE :: "sdk_wire_error + 'a \<Rightarrow> sdk_error + 'a" where
  "wireE r = (case r of Inl e \<Rightarrow> Inl (Wire e) | Inr a \<Rightarrow> Inr a)"

text \<open>A failed confirmation is ignored by the code, so it does not appear.\<close>

definition send_ixs :: "sdk_env \<Rightarrow> instruction list \<Rightarrow> signer \<Rightarrow> sdk_error + string" where
  "send_ixs env ixs sg =
     (let tx = \<lparr>tx_fee_payer = Some (sg_key sg), tx_instructions = ixs\<rparr> in
      bindE (optE BlockhashFailed (se_blockhash env)) (\<lambda>_.
      bindE (optE SigningFailed (sg_sign sg tx)) (\<lambda>signed.
      optE SubmissionFailed (se_send env signed))))"

definition bytes_equal :: "bytes \<Rightarrow> bytes \<Rightarrow> bool" where
  "bytes_equal a b = (if length a \<noteq> length b then False else list_all (\<lambda>i. a ! i = b ! i) [0..<length a])"

definition cluster_network_id :: "cluster \<Rightarrow> string" where
  "cluster_network_id c =
     (if c = Devnet then ''solana-devnet'' else if c = Localnet then ''solana-localnet'' else ''solana'')"

section \<open>Deposits\<close>

definition add_commitment :: "commitment \<Rightarrow> sdk \<Rightarrow> shielded_note \<times> sdk" where
  "add_commitment c s =
     (let current = default_to empty_note (sk_note s);
          next = \<lparr>nt_version = nt_version current, nt_commitments = nt_commitments current @ [c]\<rparr>
      in (next, s\<lparr>sk_note := Some next, sk_last_updated := Some next\<rparr>))"

definition deposit_accounts_for :: "sdk_env \<Rightarrow> sdk \<Rightarrow> int \<Rightarrow> pubkey \<Rightarrow> deposit_accounts" where
  "deposit_accounts_for env s denom depositor =
     \<lparr>da_config = fst (find_pool_config_pda (se_fpa env) (sk_program_id s)),
      da_denomination = fst (find_denomination_pda (se_fpa env) denom (sk_program_id s)),
      da_tree = fst (find_merkle_tree_pda (se_fpa env) denom (sk_program_id s)),
      da_vault = fst (find_vault_pda (se_fpa env) denom (sk_program_id s)),
      da_depositor_ata = find_associated_token_address (se_fpa env) depositor (sk_usdc_mint s),
      da_depositor = depositor, da_token_program = None\<rparr>"

definition sdk_deposit ::
    "sdk_env \<Rightarrow> js_float \<Rightarrow> signer \<Rightarrow> sdk \<Rightarrow> sdk_error + shielded_note \<times> sdk" where
  "sdk_deposit env amount payer s =
     bindE (pick_tier amount (sk_tiers s)) (\<lambda>tier.
     bindE (codecE (random_field_dec (se_rnd1 env))) (\<lambda>secret.
     bindE (codecE (random_field_dec (se_rnd2 env))) (\<lambda>nullifier.
     bindE (codecE (commitment_hash (se_poseidon env) secret nullifier (td_amount_micro tier))) (\<lambda>dec.
     bindE (codecE (field_dec_to_be32 dec)) (\<lambda>be.
     bindE (wireE (build_deposit_ix (se_sha env) (td_denom_id tier) be
              (deposit_accounts_for env s (td_denom_id tier) (sg_key payer)) (sk_program_id s))) (\<lambda>ix.
     bindE (send_ixs env [ix] payer) (\<lambda>sig.
     let (n, s') = add_commitment \<lparr>cm_secret = secret, cm_nullifier = nullifier,
           cm_amount = dbl (td_amount_micro tier), cm_denom_id = td_denom_id tier\<rparr> s
     in Inr (n, s'\<lparr>sk_last_deposit_sig := Some sig\<rparr>))))))))"

definition sdk_deposit_gasless ::
    "sdk_env \<Rightarrow> js_float \<Rightarrow> signer \<Rightarrow> string option \<Rightarrow> sdk \<Rightarrow> sdk_error + (shielded_note \<times> string) \<times> sdk" where
  "sdk_deposit_gasless env amount depositor url s =
     bindE (optE RelayerNotConfigured (truthy (map_option strip_slashes
              (case url of None \<Rightarrow> sc_relayer_url (sk_config s) | Some u \<Rightarrow> Some u)))) (\<lambda>relayer.
     bindE (pick_tier amount (sk_tiers s)) (\<lambda>tier.
     bindE (codecE (random_field_dec (se_rnd1 env))) (\<lambda>secret.
     bindE (codecE (random_field_dec (se_rnd2 env))) (\<lambda>nullifier.
     bindE (codecE (commitment_hash (se_poseidon env) secret nullifier (td_amount_micro tier))) (\<lambda>dec.
     bindE (codecE (field_dec_to_be32 dec)) (\<lambda>be.
     bindE (optE RelayerFailed (se_quote env relayer)) (\<lambda>quote.
     bindE (optE InvalidPubkey (se_parse_key env (rq_fee_payer quote))) (\<lambda>fee_payer.
     bindE (optE InvalidPubkey (se_parse_key env (rq_fee_ata quote))) (\<lambda>fee_ata.
     let accts = deposit_accounts_for env s (td_denom_id tier) (sg_key depositor) in
     bindE (wireE (build_deposit_ix (se_sha env) (td_denom_id tier) be accts (sk_program_id s))) (\<lambda>deposit_ix.
     bindE (wireE (build_transfer_ix (da_depositor_ata accts) fee_ata (sg_key depositor)
              (rq_fee_amount_micro quote) token_program_id)) (\<lambda>fee_ix.
     bindE (optE SigningFailed (sg_sign depositor
              \<lparr>tx_fee_payer = Some fee_payer, tx_instructions = [fee_ix, deposit_ix]\<rparr>)) (\<lambda>signed.
     bindE (optE RelayerFailed (se_submit_deposit env relayer (b64_encode (se_serialize env signed)))) (\<lambda>sig.
     let (n, s') = add_commitment \<lparr>cm_secret = secret, cm_nullifier = nullifier,
           cm_amount = dbl (td_amount_micro tier), cm_denom_id = td_denom_id tier\<rparr> s
     in Inr ((n, sig), s'))))))))))))))"

section \<open>Pay\<close>

text \<open>The smallest commitment that covers the payment: a stable sort by amount, then the first match.\<close>

definition select_commitment :: "int \<Rightarrow> commitment list \<Rightarrow> commitment option" where
  "select_commitment payment cs = List.find (\<lambda>c. cm_amount c \<ge> payment) (sort_key cm_amount cs)"

definition withdraw_accounts_for ::
    "sdk_env \<Rightarrow> sdk \<Rightarrow> int \<Rightarrow> pubkey \<Rightarrow> pubkey \<Rightarrow> pubkey \<Rightarrow> withdraw_accounts" where
  "withdraw_accounts_for env s denom nullifier to payer =
     \<lparr>wa_config = fst (find_pool_config_pda (se_fpa env) (sk_program_id s)),
      wa_denomination = fst (find_denomination_pda (se_fpa env) denom (sk_program_id s)),
      wa_tree = fst (find_merkle_tree_pda (se_fpa env) denom (sk_program_id s)),
      wa_vault = fst (find_vault_pda (se_fpa env) denom (sk_program_id s)),
      wa_nullifier = nullifier,
      wa_recipient_ata = find_associated_token_address (se_fpa env) to (sk_usdc_mint s),
      wa_fee_payer = payer, wa_fee_vault = None, wa_token_program = None, wa_system_program = None\<rparr>"

definition decimal_path :: "merkle_proof_response \<Rightarrow> codec_error + merkle_proof_dec" where
  "decimal_path r =
     bindE (map_codec (\<lambda>h. bindE (big h) (\<lambda>n. Inr (int_str 10 n))) (mr_path_elements r)) (\<lambda>els.
     bindE (big (mr_root r)) (\<lambda>root.
     Inr \<lparr>mp_path_elements = els, mp_path_indices = mr_path_indices r, mp_root = int_str 10 root\<rparr>))"

text \<open>\<open>payMicroExact\<close> up to the submission: the commitment to spend, its witness, the instruction.\<close>

definition pay_prepare ::
    "sdk_env \<Rightarrow> sdk \<Rightarrow> pubkey \<Rightarrow> int \<Rightarrow> signer option
      \<Rightarrow> sdk_error + commitment \<times> witness_inputs \<times> instruction \<times> signer" where
  "pay_prepare env s to payment fee_payer =
     bindE (case sk_note s of None \<Rightarrow> Inl NoNoteLoaded
            | Some n \<Rightarrow> if nt_commitments n = [] then Inl NoNoteLoaded else Inr n) (\<lambda>n.
     bindE (guardE (0 < payment) NonPositivePayment) (\<lambda>_.
     bindE (optE (NoCommitmentLargeEnough payment) (select_commitment payment (nt_commitments n))) (\<lambda>c.
     bindE (codecE (commitment_hash (se_poseidon env) (cm_secret c) (cm_nullifier c) (cm_amount c))) (\<lambda>leaf_dec.
     bindE (codecE (field_dec_to_be32 leaf_dec)) (\<lambda>leaf_be.
     bindE (optE IndexerFailed (se_merkle_proof env (cm_denom_id c) (''0x'' @ buffer_to_hex leaf_be))) (\<lambda>resp.
     bindE (codecE (decimal_path resp)) (\<lambda>mp.
     bindE (codecE (pubkey_to_field_string to)) (\<lambda>recipient.
     bindE (codecE (build_witness (se_poseidon env) (se_rnd1 env) (se_rnd2 env) c mp recipient payment)) (\<lambda>w.
     bindE (codecE (nullifier_hash (se_poseidon env) (cm_nullifier c))) (\<lambda>null_dec.
     bindE (codecE (field_dec_to_be32 null_dec)) (\<lambda>null_be.
     bindE (case se_nullifier_status env (cm_denom_id c) (''0x'' @ buffer_to_hex null_be) of
              None \<Rightarrow> Inr ()
            | Some st \<Rightarrow> guardE (\<not> ns_spent st) (AlreadySpent (ns_spent_at_slot st))) (\<lambda>_.
     bindE (optE ProverFailed (se_prove env w (sk_wasm s) (sk_zkey s))) (\<lambda>out.
     bindE (codecE (pack_groth16 out)) (\<lambda>groth.
     bindE (guardE (3 < length (gp_public_signals groth)) MalformedSignals) (\<lambda>_.
     bindE (guardE (bytes_equal (gp_public_signals groth ! 2) null_be) NullifierSignalMismatch) (\<lambda>_.
     bindE (codecE (pubkey_to_field to)) (\<lambda>to_field.
     bindE (guardE (bytes_equal (gp_public_signals groth ! 3) to_field) RecipientSignalMismatch) (\<lambda>_.
     bindE (wireE (find_nullifier_pda (se_fpa env) (cm_denom_id c) null_be (sk_program_id s))) (\<lambda>(nullifier, _).
     bindE (optE MissingFeePayer fee_payer) (\<lambda>payer.
     bindE (wireE (build_withdraw_ix (se_sha env) (cm_denom_id c) null_be (gp_proof_bytes groth)
              (gp_public_signals groth)
              (withdraw_accounts_for env s (cm_denom_id c) nullifier to (sg_key payer)) (sk_program_id s))) (\<lambda>ix.
     Inr (c, w, ix, payer))))))))))))))))))))))"

text \<open>After the submission: the spent commitment leaves the note, the change enters it.\<close>

definition pay_settle ::
    "commitment \<Rightarrow> witness_inputs \<Rightarrow> int \<Rightarrow> shielded_note \<Rightarrow> codec_error + shielded_note" where
  "pay_settle c w payment n =
     (let change = cm_amount c - payment;
          rest = filter (\<lambda>x. \<not> (cm_secret x = cm_secret c \<and> cm_nullifier x = cm_nullifier c)) (nt_commitments n)
      in if 0 < change
         then bindE (big (wi_new_secret w)) (\<lambda>sec.
              bindE (big (wi_new_nullifier w)) (\<lambda>nul.
              Inr \<lparr>nt_version = nt_version n,
                   nt_commitments = rest @ [\<lparr>cm_secret = int_str 10 sec, cm_nullifier = int_str 10 nul,
                     cm_amount = dbl change, cm_denom_id = cm_denom_id c\<rparr>]\<rparr>))
         else Inr \<lparr>nt_version = nt_version n, nt_commitments = rest\<rparr>)"

definition pay_micro_exact ::
    "sdk_env \<Rightarrow> pubkey \<Rightarrow> int \<Rightarrow> signer option \<Rightarrow> sdk \<Rightarrow> sdk_error + (shielded_note \<times> string) \<times> sdk" where
  "pay_micro_exact env to payment fee_payer s =
     bindE (pay_prepare env s to payment fee_payer) (\<lambda>(c, w, ix, payer).
     bindE (send_ixs env [ix] payer) (\<lambda>sig.
     bindE (optE NoNoteLoaded (sk_note s)) (\<lambda>n.
     bindE (codecE (pay_settle c w payment n)) (\<lambda>updated.
     Inr ((updated, sig), s\<lparr>sk_note := Some updated, sk_last_updated := Some updated\<rparr>)))))"

definition sdk_pay ::
    "sdk_env \<Rightarrow> pubkey \<Rightarrow> js_float \<Rightarrow> signer option \<Rightarrow> sdk \<Rightarrow> sdk_error + (shielded_note \<times> string) \<times> sdk" where
  "sdk_pay env to amount fee_payer s =
     bindE (optE NotAnInteger (usdc_to_micro amount)) (\<lambda>micro. pay_micro_exact env to micro fee_payer s)"

end
