(* ===== verification/SdkPay.thy ===== *)
theory SdkPay
  imports SdkWallet
begin

text \<open>
  What \<open>deposit\<close> and \<open>pay\<close> of the SDK guarantee: the note's balance, the choice of the commitment
  to spend, and the agreement between the note and the leaves the submitted instructions append.
\<close>

section \<open>Balances\<close>

definition note_ok :: "shielded_note \<Rightarrow> bool" where
  "note_ok n \<longleftrightarrow> (\<forall>c \<in> set (nt_commitments n). 0 \<le> cm_amount c)
     \<and> sum_list (map cm_amount (nt_commitments n)) < 2 ^ 53
     \<and> distinct (map (\<lambda>c. (cm_secret c, cm_nullifier c)) (nt_commitments n))"

lemma balance_fold:
  assumes "\<forall>c \<in> set cs. 0 \<le> cm_amount c" "0 \<le> b" "b + sum_list (map cm_amount cs) < 2 ^ 53"
  shows "foldl (\<lambda>sum c. dbl (sum + cm_amount c)) b cs = b + sum_list (map cm_amount cs)"
  using assms
proof (induction cs arbitrary: b)
  case Nil
  then show ?case by simp
next
  case (Cons c cs)
  have "0 \<le> sum_list (map cm_amount cs)" using Cons.prems(1) by (auto intro!: sum_list_nonneg)
  then have "safe_int (b + cm_amount c)" using Cons.prems by (simp add: safe_int_def)
  then have "dbl (b + cm_amount c) = b + cm_amount c" by (rule dbl_safe)
  then show ?case using Cons.IH [of "b + cm_amount c"] Cons.prems by simp
qed

lemma balance_exact:
  "\<forall>c \<in> set (nt_commitments n). 0 \<le> cm_amount c \<Longrightarrow> sum_list (map cm_amount (nt_commitments n)) < 2 ^ 53 \<Longrightarrow>
     get_note_balance (Some n) = sum_list (map cm_amount (nt_commitments n))"
  using balance_fold [of "nt_commitments n" 0] by (simp add: get_note_balance_def)

section \<open>Selection\<close>

lemma find_sorted_least:
  assumes "sorted (map f xs)" "List.find (\<lambda>x. p \<le> f x) xs = Some c"
  shows "c \<in> set xs \<and> p \<le> f c \<and> (\<forall>d \<in> set xs. p \<le> f d \<longrightarrow> f c \<le> f d)"
  using assms by (induction xs) (auto split: if_splits)

lemma select_commitment_Some:
  assumes "select_commitment payment cs = Some c"
  shows "c \<in> set cs \<and> payment \<le> cm_amount c
     \<and> (\<forall>d \<in> set cs. payment \<le> cm_amount d \<longrightarrow> cm_amount c \<le> cm_amount d)"
  using assms find_sorted_least [of cm_amount "sort_key cm_amount cs" payment c]
  by (simp add: select_commitment_def)

lemma select_commitment_None:
  "select_commitment payment cs = None \<longleftrightarrow> (\<forall>c \<in> set cs. cm_amount c < payment)"
  by (auto simp: select_commitment_def find_None_iff not_le)

section \<open>What a successful call did\<close>

lemma codecE_Inr [res_simps]: "codecE r = Inr a \<longleftrightarrow> r = Inr a"
  by (cases r) (simp_all add: codecE_def)

lemma wireE_Inr [res_simps]: "wireE r = Inr a \<longleftrightarrow> r = Inr a"
  by (cases r) (simp_all add: wireE_def)

lemma bytes_equal_iff [simp]: "bytes_equal a b \<longleftrightarrow> a = b"
  by (auto simp: bytes_equal_def list_all_iff intro: nth_equalityI)

lemma send_ixs_Inr:
  "send_ixs env ixs sg = Inr sig \<longleftrightarrow> se_blockhash env = Some () \<and>
     (\<exists>signed. sg_sign sg \<lparr>tx_fee_payer = Some (sg_key sg), tx_instructions = ixs\<rparr> = Some signed
       \<and> se_send env signed = Some sig)"
  by (auto simp: send_ixs_def Let_def res_simps)

lemma pay_prepare_Inr:
  assumes "pay_prepare env s to payment fp = Inr (c, w, ix, payer)"
  obtains n groth out null_dec null_be nullifier bump mp recipient where
    "sk_note s = Some n" "0 < payment" "select_commitment payment (nt_commitments n) = Some c"
    "build_witness (se_poseidon env) (se_rnd1 env) (se_rnd2 env) c mp recipient payment = Inr w"
    "pubkey_to_field_string to = Inr recipient"
    "nullifier_hash (se_poseidon env) (cm_nullifier c) = Inr null_dec" "field_dec_to_be32 null_dec = Inr null_be"
    "se_prove env w (sk_wasm s) (sk_zkey s) = Some out" "pack_groth16 out = Inr groth"
    "3 < length (gp_public_signals groth)" "gp_public_signals groth ! 2 = null_be"
    "pubkey_to_field to = Inr (gp_public_signals groth ! 3)" "fp = Some payer"
    "build_withdraw_ix (se_sha env) (cm_denom_id c) null_be (gp_proof_bytes groth) (gp_public_signals groth)
       (withdraw_accounts_for env s (cm_denom_id c) nullifier to (sg_key payer)) (sk_program_id s) = Inr ix"
    "find_nullifier_pda (se_fpa env) (cm_denom_id c) null_be (sk_program_id s) = Inr (nullifier, bump)"
proof -
  obtain n where n: "sk_note s = Some n" "nt_commitments n \<noteq> []"
    using assms by (cases "sk_note s") (auto simp: pay_prepare_def split: if_splits)
  note d = assms [unfolded pay_prepare_def n(1), simplified option.case n(2) if_False bindE_simps]
  show ?thesis
    using d n(1) that by (auto simp: res_simps n(2) split: option.splits)
qed

lemma pay_micro_exact_Inr:
  assumes "pay_micro_exact env to payment fp s = Inr ((updated, sig), s')"
  obtains n c w ix payer where "pay_prepare env s to payment fp = Inr (c, w, ix, payer)"
    "sk_note s = Some n" "send_ixs env [ix] payer = Inr sig" "pay_settle c w payment n = Inr updated"
    "s' = s\<lparr>sk_note := Some updated, sk_last_updated := Some updated\<rparr>"
  using assms by (auto simp: pay_micro_exact_def res_simps)

lemma pay_settle_Inr:
  assumes "pay_settle c w payment n = Inr updated"
  defines "rest \<equiv> filter (\<lambda>x. \<not> (cm_secret x = cm_secret c \<and> cm_nullifier x = cm_nullifier c)) (nt_commitments n)"
  shows "nt_version updated = nt_version n
     \<and> (cm_amount c \<le> payment \<longrightarrow> nt_commitments updated = rest)
     \<and> (payment < cm_amount c \<longrightarrow> (\<exists>sec nul. parse_bigint (wi_new_secret w) = Some sec
          \<and> parse_bigint (wi_new_nullifier w) = Some nul
          \<and> nt_commitments updated = rest @ [\<lparr>cm_secret = int_str 10 sec, cm_nullifier = int_str 10 nul,
               cm_amount = dbl (cm_amount c - payment), cm_denom_id = cm_denom_id c\<rparr>]))"
  using assms by (auto simp: pay_settle_def Let_def res_simps split: if_splits)

lemma filter_key_eq:
  assumes "distinct (map k xs)" "c \<in> set xs"
  shows "filter (\<lambda>x. k x \<noteq> k c) xs = filter (\<lambda>x. x \<noteq> c) xs"
  using assms by (intro filter_cong) (auto dest: distinct_map [THEN iffD1] inj_onD)

lemma settled_rest:
  assumes "note_ok n" "c \<in> set (nt_commitments n)"
  shows "filter (\<lambda>x. \<not> (cm_secret x = cm_secret c \<and> cm_nullifier x = cm_nullifier c)) (nt_commitments n)
     = filter (\<lambda>x. x \<noteq> c) (nt_commitments n)"
  using filter_key_eq [of "\<lambda>c. (cm_secret c, cm_nullifier c)" "nt_commitments n" c] assms
  by (simp add: note_ok_def)

lemma bindE_neq_Inl: "m \<noteq> Inl e \<Longrightarrow> (\<And>a. f a \<noteq> Inl e) \<Longrightarrow> bindE m f \<noteq> Inl e"
  by (cases m) auto

lemma pay_settle_change:
  assumes "pay_settle c w payment n = Inr updated" "note_ok n" "c \<in> set (nt_commitments n)"
    and "payment \<le> cm_amount c" "dbl (cm_amount c - payment) = cm_amount c - payment"
  shows "\<exists>change. nt_commitments updated = filter (\<lambda>x. x \<noteq> c) (nt_commitments n) @ change
     \<and> sum_list (map cm_amount change) = cm_amount c - payment
     \<and> (\<forall>x \<in> set change. cm_denom_id x = cm_denom_id c \<and> cm_amount x = cm_amount c - payment)"
proof (cases "payment < cm_amount c")
  case True
  obtain sec nul where "nt_commitments updated = filter (\<lambda>x. x \<noteq> c) (nt_commitments n)
      @ [\<lparr>cm_secret = int_str 10 sec, cm_nullifier = int_str 10 nul,
           cm_amount = cm_amount c - payment, cm_denom_id = cm_denom_id c\<rparr>]"
    using pay_settle_Inr [OF assms(1)] True unfolding settled_rest [OF assms(2,3)] assms(5) by blast
  then show ?thesis by (intro exI) (rule conjI, assumption, simp)
next
  case False
  then have "nt_commitments updated = filter (\<lambda>x. x \<noteq> c) (nt_commitments n) @ []"
    using pay_settle_Inr [OF assms(1)] unfolding settled_rest [OF assms(2,3)] by simp
  then show ?thesis using False assms(4) by (intro exI) (rule conjI, assumption, simp)
qed

section \<open>An honest outside\<close>

text \<open>The public inputs of a witness in the order in which snarkjs reports them (declaration order).\<close>

definition witness_publics :: "witness_inputs \<Rightarrow> string list" where
  "witness_publics w = [wi_amount w, wi_root w, wi_nullifier_hash w, wi_recipient w, wi_payment_amount w,
     wi_change_commitment w]"

definition honest_prover :: "sdk_env \<Rightarrow> bool" where
  "honest_prover env \<longleftrightarrow> (\<forall>w wasm zkey out. se_prove env w wasm zkey = Some out \<longrightarrow>
     so_public_signals out = witness_publics w)"

lemma build_witness_fields:
  assumes "build_witness P r1 r2 c mp recipient payment = Inr w"
  obtains ns nn nul where "parse_bigint (cm_nullifier c) = Some nul"
    "wi_new_secret w = int_str 10 ns" "wi_new_nullifier w = int_str 10 nn"
    "wi_change_commitment w = nat_str 10 (P [ns, nn, cm_amount c - payment])"
    "wi_amount w = int_str 10 (cm_amount c)" "wi_root w = mp_root mp" "wi_recipient w = recipient"
    "wi_payment_amount w = int_str 10 payment" "wi_nullifier_hash w = nat_str 10 (P [nul])"
  using assms by (auto simp: build_witness_def bindE_Inr_iff Let_def)

text \<open>The leaf of a commitment as the SDK computes it: \<open>fieldDecToBE32(await commitmentHash(...))\<close>.\<close>

definition leaf_bytes :: "poseidon \<Rightarrow> commitment \<Rightarrow> codec_error + bytes" where
  "leaf_bytes P c = bindE (commitment_hash P (cm_secret c) (cm_nullifier c) (cm_amount c)) field_dec_to_be32"

lemma packed_signal:
  assumes "pack_groth16 out = Inr groth" "i < length (so_public_signals out)"
  shows "dec_string_to_be32 (so_public_signals out ! i) = Inr (gp_public_signals groth ! i)"
    and "length (gp_public_signals groth) = length (so_public_signals out)"
  using assms by (auto simp: pack_groth16_def bindE_Inr_iff map_codec_Inr)

lemma parse_built_withdraw:
  assumes "sha_ok sha" "build_withdraw_ix sha d nul pf sigs accts pid = Inr ix"
  shows "parse_withdraw_ix sha (ix_data ix) = Some \<lparr>ci_denom_id = word_of_int d, ci_commitment = sigs ! 5\<rparr>"
proof -
  have "length nul = 32 \<and> length pf = 256 \<and> length sigs = 6 \<and> list_all (\<lambda>s. length s = 32) sigs"
    using build_withdraw_ix_succeeds_iff [OF assms(1), of d nul pf sigs accts pid] assms(2) by blast
  with withdraw_wire.roundtrip [of sha "(d, nul, pf, sigs, accts, pid)"] assms show ?thesis
    by (simp add: ix_bytes_def)
qed

lemma parse_built_deposit:
  assumes "sha_ok sha" "build_deposit_ix sha d c accts pid = Inr ix"
  shows "parse_deposit_ix sha (ix_data ix) = Some \<lparr>ci_denom_id = word_of_int d, ci_commitment = c\<rparr>"
proof -
  have "length c = 32" using assms(2) by (auto simp: build_deposit_ix_def split: if_splits)
  with deposit_wire.roundtrip [of sha "(d, c, accts, pid)"] assms show ?thesis
    by (simp add: ix_bytes_def)
qed

text \<open>A concrete outside for the witnesses, in which every service answers.\<close>

definition toy_sdk_env :: sdk_env where
  "toy_sdk_env = \<lparr>se_poseidon = (\<lambda>xs. length xs), se_sha = toy_sha, se_fpa = (\<lambda>_ _. (zeros 32, 255)),
     se_rnd1 = [1], se_rnd2 = [2],
     se_merkle_proof = (\<lambda>_ _. Some \<lparr>mr_root = ''0'', mr_path_elements = [], mr_path_indices = []\<rparr>),
     se_nullifier_status = (\<lambda>_ _. None),
     se_prove = (\<lambda>w _ _. Some \<lparr>so_pi_a = [''0'', ''0''], so_pi_b = [[''0'', ''0''], [''0'', ''0'']],
                   so_pi_c = [''0'', ''0''], so_public_signals = witness_publics w\<rparr>),
     se_blockhash = Some (), se_send = (\<lambda>_. Some ''sig''),
     se_parse_key = (\<lambda>_. Some (zeros 32)),
     se_quote = (\<lambda>_. Some \<lparr>rq_fee_payer = ''p'', rq_fee_ata = ''a'', rq_fee_amount_micro = 60000\<rparr>),
     se_serialize = (\<lambda>_. []), se_submit_deposit = (\<lambda>_ _. Some ''sig'')\<rparr>"

definition toy_signer :: signer where
  "toy_signer = \<lparr>sg_key = zeros 32, sg_sign = Some\<rparr>"

definition toy_sdk :: "shielded_note option \<Rightarrow> sdk" where
  "toy_sdk n = \<lparr>sk_config = \<lparr>sc_cluster = Devnet, sc_relayer_url = Some ''r'', sc_prover_path = Some ''p'',
       sc_rpc_url = None, sc_usdc_mint = None, sc_program_id = None, sc_indexer_url = Some ''i'', sc_tiers = None\<rparr>,
     sk_endpoint = [], sk_program_id = zeros 32, sk_usdc_mint = zeros 32, sk_tiers = default_tiers,
     sk_indexer_url = ''i'', sk_wasm = [], sk_zkey = [], sk_note = n, sk_last_updated = None,
     sk_last_deposit_sig = None\<rparr>"

definition toy_note :: shielded_note where
  "toy_note = \<lparr>nt_version = note_version, nt_commitments =
     [\<lparr>cm_secret = ''1'', cm_nullifier = ''2'', cm_amount = 1000000, cm_denom_id = 1\<rparr>,
      \<lparr>cm_secret = ''3'', cm_nullifier = ''4'', cm_amount = 100000, cm_denom_id = 0\<rparr>]\<rparr>"

text \<open>
  \<open>pay\<close> gets as far as the submission whenever the note covers the payment, its secrets are
  decimal, the indexer answers without reporting the note spent, and snarkjs returns a proof whose
  public signals are the witness's. The instruction it submits is then this one.
\<close>

definition withdraw_instruction ::
    "sdk_env \<Rightarrow> sdk \<Rightarrow> int \<Rightarrow> bytes \<Rightarrow> groth16_proof \<Rightarrow> pubkey \<Rightarrow> pubkey \<Rightarrow> instruction" where
  "withdraw_instruction env s denom nul groth to payer =
     \<lparr>ix_program = sk_program_id s,
      ix_keys = withdraw_metas (withdraw_accounts_for env s denom
        (fst (se_fpa env [utf8_ascii ''nullifier'', [denom_byte denom], nul] (sk_program_id s))) to payer) (sk_program_id s),
      ix_data = withdraw_bytes (se_sha env) denom nul (gp_proof_bytes groth) (gp_public_signals groth)\<rparr>"

lemma pay_prepare_ok:
  assumes sha: "sha_ok (se_sha env)" and to: "length to = 32"
    and n: "sk_note s = Some n" "0 < payment" "select_commitment payment (nt_commitments n) = Some c"
    and keys: "parse_bigint (cm_secret c) = Some sec" "parse_bigint (cm_nullifier c) = Some nul"
    and rnd: "se_rnd1 env \<noteq> []" "se_rnd2 env \<noteq> []"
    and leaf: "leaf_bytes (se_poseidon env) c = Inr leaf"
    and resp: "se_merkle_proof env (cm_denom_id c) (''0x'' @ buffer_to_hex leaf) = Some resp"
      "decimal_path resp = Inr mp"
    and status: "\<And>st. se_nullifier_status env (cm_denom_id c)
        (''0x'' @ buffer_to_hex (be_bytes 32 (se_poseidon env [nul]))) = Some st \<Longrightarrow> \<not> ns_spent st"
    and recip: "pubkey_to_field_string to = Inr recipient"
    and w: "build_witness (se_poseidon env) (se_rnd1 env) (se_rnd2 env) c mp recipient payment = Inr w"
    and out: "se_prove env w (sk_wasm s) (sk_zkey s) = Some out" "so_public_signals out = witness_publics w"
      "pack_groth16 out = Inr groth"
  shows "pay_prepare env s to payment (Some payer) = Inr (c, w, withdraw_instruction env s (cm_denom_id c)
       (be_bytes 32 (se_poseidon env [nul])) groth to (sg_key payer), payer)
     \<and> length (gp_proof_bytes groth) = 256 \<and> length (gp_public_signals groth) = 6
     \<and> list_all (\<lambda>x. length x = 32) (gp_public_signals groth)"
proof -
  let ?P = "se_poseidon env" and ?sigs = "gp_public_signals groth"
  let ?nul = "be_bytes 32 (?P [nul])"
  have ne: "nt_commitments n \<noteq> []" using select_commitment_Some [OF n(3)] by auto
  have null: "nullifier_hash ?P (cm_nullifier c) = Inr (nat_str 10 (?P [nul]))"
    using keys(2) by (simp add: nullifier_hash_def)
  have nullbe: "field_dec_to_be32 (nat_str 10 (?P [nul])) = Inr ?nul" by (rule field_dec_to_be32_nat)
  have wn: "wi_nullifier_hash w = nat_str 10 (?P [nul])" "wi_recipient w = recipient"
    using w keys(2) by (auto elim!: build_witness_fields)
  have len: "length ?sigs = 6" using packed_signal(2) [OF out(3), of 0] out(2) by (simp add: witness_publics_def)
  have s2: "?sigs ! 2 = ?nul"
    using packed_signal(1) [OF out(3), of 2] out(2) wn nullbe
    by (simp add: witness_publics_def dec_string_to_be32_eq)
  obtain tf where tf: "pubkey_to_field to = Inr tf" "length tf = 32" "recipient = nat_str 10 (be_val tf)"
    using recip to by (auto simp: pubkey_to_field_string_def pubkey_to_field_def as_bytes_def)
  have s3: "?sigs ! 3 = tf"
    using packed_signal(1) [OF out(3), of 3] out(2) wn tf be_bytes_be_val [OF tf(2)]
    by (simp add: witness_publics_def dec_string_to_be32_eq field_dec_to_be32_nat)
  have all32: "list_all (\<lambda>x. length x = 32) ?sigs"
    unfolding list_all_length len
    using dec_string_to_be32_length [OF packed_signal(1) [OF out(3)]] packed_signal(2) [OF out(3), of 0]
      len out(2) by (simp add: witness_publics_def)
  have pf: "length (gp_proof_bytes groth) = 256"
    using out(3) by (auto simp: pack_groth16_def bindE_Inr_iff dest!: pack_g1_length pack_g2_length)
  let ?nac = "fst (se_fpa env [utf8_ascii ''nullifier'', [denom_byte (cm_denom_id c)], ?nul] (sk_program_id s))"
  let ?accts = "withdraw_accounts_for env s (cm_denom_id c) ?nac to (sg_key payer)"
  have nac: "find_nullifier_pda (se_fpa env) (cm_denom_id c) ?nul (sk_program_id s) = Inr
      (se_fpa env [utf8_ascii ''nullifier'', [denom_byte (cm_denom_id c)], ?nul] (sk_program_id s))"
    by (simp add: find_nullifier_pda_def)
  let ?ix = "withdraw_instruction env s (cm_denom_id c) ?nul groth to (sg_key payer)"
  have ix: "build_withdraw_ix (se_sha env) (cm_denom_id c) ?nul (gp_proof_bytes groth) ?sigs ?accts
      (sk_program_id s) = Inr ?ix"
    using build_withdraw_ix_eq [OF sha _ pf len all32, of ?nul] by (simp add: withdraw_instruction_def)
  obtain leaf_dec where ld: "commitment_hash ?P (cm_secret c) (cm_nullifier c) (cm_amount c) = Inr leaf_dec"
    "field_dec_to_be32 leaf_dec = Inr leaf" using leaf by (auto simp: leaf_bytes_def bindE_Inr_iff)
  have st: "(case se_nullifier_status env (cm_denom_id c) (''0x'' @ buffer_to_hex ?nul) of
      None \<Rightarrow> Inr () | Some st \<Rightarrow> guardE (\<not> ns_spent st) (AlreadySpent (ns_spent_at_slot st))) = Inr ()"
    using status by (auto split: option.split)
  have "pay_prepare env s to payment (Some payer) = Inr (c, w, ?ix, payer)"
    unfolding pay_prepare_def
    by (simp only: n(1,3) option.case ne if_False bindE_simps guardE_simps n(2) optE_simps codecE_def ld resp
        sum.case recip w null nullbe st out len s2 s3 tf(1) nac bytes_equal_iff wireE_def prod.case_eq_if ix)
      (simp add: ix)
  then show ?thesis using pf len all32 by blast
qed

lemma build_witness_draws:
  assumes "build_witness P r1 r2 c mp recipient payment = Inr w" "r1 \<noteq> []" "r2 \<noteq> []"
  shows "wi_new_secret w = nat_str 10 (be_val r1) \<and> wi_new_nullifier w = nat_str 10 (be_val r2)"
  using assms by (auto simp: build_witness_def bindE_Inr_iff Let_def random_field_dec_inr int_str_def)

lemma toy_env_simps:
  "se_poseidon toy_sdk_env = (\<lambda>xs. length xs)" "se_sha toy_sdk_env = toy_sha"
  "se_rnd1 toy_sdk_env = [1]" "se_rnd2 toy_sdk_env = [2]"
  "se_blockhash toy_sdk_env = Some ()" "se_send toy_sdk_env tx = Some ''sig''"
  "sg_key toy_signer = zeros 32" "sg_sign toy_signer tx = Some tx"
  "sk_tiers (toy_sdk n) = default_tiers" "sk_program_id (toy_sdk n) = zeros 32" "sk_note (toy_sdk n) = n"
  by (simp_all add: toy_sdk_env_def toy_signer_def toy_sdk_def)

lemma toy_dec: "''0'' = nat_str 10 0" "''1'' = nat_str 10 1" "''2'' = nat_str 10 2" by code_simp+

lemma toy_pay_general:
  assumes env: "env = toy_sdk_env\<lparr>se_rnd1 := r1\<rparr>" "r1 \<noteq> []"
    and n: "sk_note s = Some n" "0 < payment" "select_commitment payment (nt_commitments n) = Some c"
    and keys: "parse_bigint (cm_secret c) = Some sec" "parse_bigint (cm_nullifier c) = Some nul"
  shows "\<exists>updated s' w. pay_micro_exact env (zeros 32) payment (Some toy_signer) s = Inr ((updated, ''sig''), s')
     \<and> pay_settle c w payment n = Inr updated
     \<and> wi_new_secret w = nat_str 10 (be_val r1) \<and> wi_new_nullifier w = nat_str 10 2"
proof -
  let ?P = "\<lambda>xs :: int list. length xs"
  let ?mp = "\<lparr>mp_path_elements = [], mp_path_indices = [], mp_root = int_str 10 0\<rparr>"
  have pos: "0 \<le> cm_amount c" using select_commitment_Some [OF n(3)] n(2) by linarith
  have leaf: "leaf_bytes ?P c = Inr (be_bytes 32 3)"
    using keys by (simp add: leaf_bytes_def commitment_hash_def field_dec_to_be32_nat numeral_3_eq_3)
  have mp: "decimal_path \<lparr>mr_root = ''0'', mr_path_elements = [], mr_path_indices = []\<rparr> = Inr ?mp"
    by (simp add: decimal_path_def toy_dec)
  have rnd2: "be_val [2] = 2" by (simp add: be_val_Cons)
  obtain r where r: "pubkey_to_field_string (zeros 32) = Inr r"
    by (simp add: pubkey_to_field_string_def pubkey_to_field_def as_bytes_def zeros_def)
  obtain k where rd: "r = nat_str 10 k" using r by (auto simp: pubkey_to_field_string_def bindE_Inr_iff)
  obtain w where w: "build_witness ?P r1 [2] c ?mp r payment = Inr w"
    using build_witness_inr [OF keys env(2), of "[2]" ?P ?mp r payment] by simp
  let ?out = "\<lparr>so_pi_a = [''0'', ''0''], so_pi_b = [[''0'', ''0''], [''0'', ''0'']],
      so_pi_c = [''0'', ''0''], so_public_signals = witness_publics w\<rparr>"
  have "\<exists>groth. pack_groth16 ?out = Inr groth"
    using w rd pos n(2)
    by (auto elim!: build_witness_fields simp: pack_groth16_def negate_g1_def negate_y_def bn254_q_def
        pack_g1_def pack_g2_def toy_dec witness_publics_def dec_string_to_be32_eq field_dec_to_be32_nat int_str_def)
  then obtain groth where groth: "pack_groth16 ?out = Inr groth" ..
  have sims: "se_poseidon env = ?P" "se_sha env = toy_sha" "se_rnd1 env = r1" "se_rnd2 env = [2]"
    "se_blockhash env = Some ()" "se_send env tx = Some ''sig''" "se_nullifier_status env d h = None"
    "se_merkle_proof env d h = Some \<lparr>mr_root = ''0'', mr_path_elements = [], mr_path_indices = []\<rparr>"
    "se_prove env w (sk_wasm s) (sk_zkey s) = Some ?out" for tx d h
    by (simp_all add: env(1) toy_sdk_env_def)
  have "pay_prepare env s (zeros 32) payment (Some toy_signer) = Inr (c, w, withdraw_instruction env s (cm_denom_id c)
       (be_bytes 32 (se_poseidon env [nul])) groth (zeros 32) (sg_key toy_signer), toy_signer)
     \<and> length (gp_proof_bytes groth) = 256 \<and> length (gp_public_signals groth) = 6
     \<and> list_all (\<lambda>x. length x = 32) (gp_public_signals groth)"
    by (rule pay_prepare_ok [OF _ _ n keys, where leaf = "be_bytes 32 3" and recipient = r and out = ?out])
      (use leaf mp r w groth env(2) in \<open>simp_all add: sims toy_sha_ok\<close>)
  then obtain ix where ix: "pay_prepare env s (zeros 32) payment (Some toy_signer) = Inr (c, w, ix, toy_signer)"
    by blast
  have draws: "wi_new_secret w = nat_str 10 (be_val r1)" "wi_new_nullifier w = nat_str 10 2"
    using build_witness_draws [OF w env(2)] rnd2 by simp_all
  have "\<exists>updated. pay_settle c w payment n = Inr updated"
    using draws by (simp add: pay_settle_def Let_def)
  then obtain updated where up: "pay_settle c w payment n = Inr updated" ..
  then have "\<exists>s'. pay_micro_exact env (zeros 32) payment (Some toy_signer) s = Inr ((updated, ''sig''), s')"
    using ix n(1) by (simp add: pay_micro_exact_def send_ixs_def toy_env_simps sims Let_def codecE_def)
  with up draws show ?thesis by blast
qed

lemma toy_pay: "\<exists>updated s'. pay_micro_exact toy_sdk_env (zeros 32) 400000 (Some toy_signer)
    (toy_sdk (Some toy_note)) = Inr ((updated, ''sig''), s')"
proof -
  let ?c = "\<lparr>cm_secret = ''1'', cm_nullifier = ''2'', cm_amount = 1000000, cm_denom_id = 1\<rparr>"
  have "select_commitment 400000 (nt_commitments toy_note) = Some ?c"
    by (simp add: select_commitment_def toy_note_def)
  from toy_pay_general [OF _ _ _ _ this, of toy_sdk_env "[1]" "toy_sdk (Some toy_note)" 1 2] show ?thesis
    by (auto simp: toy_sdk_env_def toy_sdk_def toy_dec)
qed

lemma toy_note_ok: "note_ok toy_note"
  by (simp add: note_ok_def toy_note_def)

section \<open>Conservation\<close>

lemma pay_conserves:
  assumes "pay_micro_exact env to payment fp s = Inr ((updated, sig), s')"
    and "sk_note s = Some n" "note_ok n"
  shows "get_note_balance (Some updated) = get_note_balance (Some n) - payment
     \<and> sk_note s' = Some updated
     \<and> (\<exists>c \<in> set (nt_commitments n). payment \<le> cm_amount c
          \<and> (\<exists>change. nt_commitments updated = filter (\<lambda>x. x \<noteq> c) (nt_commitments n) @ change
               \<and> sum_list (map cm_amount change) = cm_amount c - payment
               \<and> (\<forall>x \<in> set change. cm_denom_id x = cm_denom_id c)))"
proof -
  obtain c w ix payer where p: "pay_prepare env s to payment fp = Inr (c, w, ix, payer)"
    "pay_settle c w payment n = Inr updated" "s' = s\<lparr>sk_note := Some updated, sk_last_updated := Some updated\<rparr>"
    using assms(1,2) by (auto elim!: pay_micro_exact_Inr)
  have pos: "0 < payment" and sel: "select_commitment payment (nt_commitments n) = Some c"
    using p(1) assms(2) by (auto elim!: pay_prepare_Inr)
  from select_commitment_Some [OF sel] have c: "c \<in> set (nt_commitments n)" "payment \<le> cm_amount c"
    by auto
  let ?rest = "filter (\<lambda>x. x \<noteq> c) (nt_commitments n)"
  have d: "distinct (nt_commitments n)" using assms(3) by (auto simp: note_ok_def distinct_map)
  have sum: "sum_list (map cm_amount ?rest) = sum_list (map cm_amount (nt_commitments n)) - cm_amount c"
    by (rule sum_list_filter_neq [OF d c(1)])
  have nn: "0 \<le> sum_list (map cm_amount ?rest)"
    using assms(3) by (auto simp: note_ok_def intro!: sum_list_nonneg)
  have tot: "sum_list (map cm_amount (nt_commitments n)) < 2 ^ 53"
    "\<forall>c \<in> set (nt_commitments n). 0 \<le> cm_amount c" using assms(3) by (simp_all add: note_ok_def)
  have "safe_int (cm_amount c - payment)" using c(2) pos sum nn tot(1) by (simp add: safe_int_def)
  then have dbl: "dbl (cm_amount c - payment) = cm_amount c - payment" by (rule dbl_safe)
  obtain change where ch: "nt_commitments updated = ?rest @ change"
    "sum_list (map cm_amount change) = cm_amount c - payment"
    "\<forall>x \<in> set change. cm_denom_id x = cm_denom_id c \<and> cm_amount x = cm_amount c - payment"
    using pay_settle_change [OF p(2) assms(3) c dbl] by blast
  have total: "sum_list (map cm_amount (nt_commitments updated))
      = sum_list (map cm_amount (nt_commitments n)) - payment" by (simp add: ch(1,2) sum)
  have "\<forall>x \<in> set (nt_commitments updated). 0 \<le> cm_amount x"
    using tot(2) ch(1,3) c(2) by auto
  moreover have "sum_list (map cm_amount (nt_commitments updated)) < 2 ^ 53" using total tot(1) pos by simp
  ultimately have "get_note_balance (Some updated) = sum_list (map cm_amount (nt_commitments updated))"
    by (rule balance_exact)
  also have "\<dots> = get_note_balance (Some n) - payment"
    using total balance_exact [OF tot(2,1)] by simp
  finally show ?thesis using c ch p(3) by auto
qed

text \<open>The key of a commitment, and the one a payment draws for its change.\<close>

definition note_key :: "commitment \<Rightarrow> string \<times> string" where
  "note_key c = (cm_secret c, cm_nullifier c)"

definition draw_key :: "sdk_env \<Rightarrow> string \<times> string" where
  "draw_key env = (nat_str 10 (be_val (se_rnd1 env)), nat_str 10 (be_val (se_rnd2 env)))"

lemma pay_keeps_note_ok:
  assumes "pay_micro_exact env to payment fp s = Inr ((updated, sig), s')"
    and "sk_note s = Some n" "note_ok n" "se_rnd1 env \<noteq> []" "se_rnd2 env \<noteq> []"
    and "draw_key env \<notin> note_key ` set (nt_commitments n)"
  shows "note_ok updated \<and> note_key ` set (nt_commitments updated) \<subseteq> insert (draw_key env) (note_key ` set (nt_commitments n))"
proof -
  obtain c w ix payer where p: "pay_prepare env s to payment fp = Inr (c, w, ix, payer)"
    "pay_settle c w payment n = Inr updated" using assms(1,2) by (auto elim!: pay_micro_exact_Inr)
  obtain mp recipient where q: "0 < payment" "select_commitment payment (nt_commitments n) = Some c"
    "build_witness (se_poseidon env) (se_rnd1 env) (se_rnd2 env) c mp recipient payment = Inr w"
    using p(1) assms(2) by (rule_tac pay_prepare_Inr) auto
  have c: "c \<in> set (nt_commitments n)" "payment \<le> cm_amount c" using select_commitment_Some [OF q(2)] by auto
  note draws = build_witness_draws [OF q(3) assms(4,5)]
  let ?rest = "filter (\<lambda>x. x \<noteq> c) (nt_commitments n)"
  have nn: "\<forall>x \<in> set (nt_commitments n). 0 \<le> cm_amount x" using assms(3) by (simp add: note_ok_def)
  have dist: "distinct (nt_commitments n)" using assms(3) by (auto simp: note_ok_def distinct_map)
  have sum: "sum_list (map cm_amount ?rest) = sum_list (map cm_amount (nt_commitments n)) - cm_amount c"
    by (rule sum_list_filter_neq [OF dist c(1)])
  have "0 \<le> sum_list (map cm_amount ?rest)" using nn by (auto intro!: sum_list_nonneg)
  then have "safe_int (cm_amount c - payment)" using assms(3) sum c(2) q(1) by (simp add: note_ok_def safe_int_def)
  then have dbl: "dbl (cm_amount c - payment) = cm_amount c - payment" by (rule dbl_safe)
  have tot: "sum_list (map cm_amount (nt_commitments n)) < 2 ^ 53" using assms(3) by (simp add: note_ok_def)
  have keys: "distinct (map note_key ?rest)"
    using assms(3) by (auto simp: note_ok_def note_key_def [abs_def] distinct_map inj_on_def)
  show ?thesis
  proof (cases "payment < cm_amount c")
    case True
    let ?new = "\<lparr>cm_secret = fst (draw_key env), cm_nullifier = snd (draw_key env),
        cm_amount = cm_amount c - payment, cm_denom_id = cm_denom_id c\<rparr>"
    have up: "nt_commitments updated = ?rest @ [?new]"
      using pay_settle_Inr [OF p(2)] True draws unfolding settled_rest [OF assms(3) c(1)] dbl
      by (auto simp: draw_key_def int_str_def)
    have "distinct (map note_key (nt_commitments updated))"
      using keys assms(6) by (auto simp: up note_key_def [of ?new])
    moreover have "sum_list (map cm_amount (nt_commitments updated)) < 2 ^ 53"
      using sum tot q(1) by (simp add: up)
    ultimately show ?thesis
      using nn True by (auto simp: note_ok_def note_key_def [abs_def] up)
  next
    case False
    have up: "nt_commitments updated = ?rest"
      using pay_settle_Inr [OF p(2)] False unfolding settled_rest [OF assms(3) c(1)] by simp
    have "sum_list (map cm_amount ?rest) < 2 ^ 53" using sum tot nn c by auto
    then show ?thesis using nn keys by (auto simp: note_ok_def note_key_def [abs_def] up)
  qed
qed

section \<open>Properties\<close>

text \<open>
  C5. Paying conserves value: after a successful pay the note's balance has dropped by exactly the
  payment, one commitment that covered the payment is gone, every other one is still there in its
  place, and what was left of the spent one is the only addition, under the same denomination.
\<close>

theorem pay_conserves_balance:
  assumes "pay_micro_exact env to payment fp s = Inr ((updated, sig), s')"
    and "sk_note s = Some n" "note_ok n"
  shows "get_note_balance (Some updated) = get_note_balance (Some n) - payment
     \<and> sk_note s' = Some updated
     \<and> (\<exists>c \<in> set (nt_commitments n). payment \<le> cm_amount c
          \<and> (\<exists>change. nt_commitments updated = filter (\<lambda>x. x \<noteq> c) (nt_commitments n) @ change
               \<and> sum_list (map cm_amount change) = cm_amount c - payment
               \<and> (\<forall>x \<in> set change. cm_denom_id x = cm_denom_id c)))"
  by (rule pay_conserves [OF assms])

theorem pay_conserves_balance_witness:
  "\<exists>updated s'. pay_micro_exact toy_sdk_env (zeros 32) 400000 (Some toy_signer) (toy_sdk (Some toy_note))
       = Inr ((updated, ''sig''), s')
     \<and> get_note_balance (Some updated) = 700000"
proof -
  obtain updated s' where run: "pay_micro_exact toy_sdk_env (zeros 32) 400000 (Some toy_signer)
      (toy_sdk (Some toy_note)) = Inr ((updated, ''sig''), s')" using toy_pay by blast
  have n: "sk_note (toy_sdk (Some toy_note)) = Some toy_note" by (simp add: toy_sdk_def)
  have "get_note_balance (Some toy_note) = 1100000"
    using balance_exact [of toy_note] by (simp add: toy_note_def)
  with pay_conserves_balance [OF run n toy_note_ok] run show ?thesis by auto
qed

text \<open>
  \<open>pay\<close> spends the smallest commitment that covers the payment, whatever the order of the note,
  and refuses with "no single commitment large enough" exactly when none does, even if their sum is
  enough for \<open>hasBalance\<close>.
\<close>

theorem pay_selects_smallest:
  assumes "sk_note s = Some n" "nt_commitments n \<noteq> []" "0 < payment"
  shows "(pay_prepare env s to payment fp = Inl (NoCommitmentLargeEnough payment)
       \<longleftrightarrow> (\<forall>c \<in> set (nt_commitments n). cm_amount c < payment))
     \<and> (\<forall>c w ix payer. pay_prepare env s to payment fp = Inr (c, w, ix, payer) \<longrightarrow>
          c \<in> set (nt_commitments n) \<and> payment \<le> cm_amount c
          \<and> (\<forall>d \<in> set (nt_commitments n). payment \<le> cm_amount d \<longrightarrow> cm_amount c \<le> cm_amount d))"
proof (cases "select_commitment payment (nt_commitments n)")
  case None
  then have "pay_prepare env s to payment fp = Inl (NoCommitmentLargeEnough payment)"
    using assms by (simp add: pay_prepare_def)
  with None show ?thesis by (simp add: select_commitment_None)
next
  case (Some c)
  have "pay_prepare env s to payment fp \<noteq> Inl (NoCommitmentLargeEnough payment)"
    using assms Some
    by (simp add: pay_prepare_def)
      ((rule bindE_neq_Inl | simp add: codecE_def wireE_def optE_def guardE_def
          split: sum.split option.split prod.split)+)
  moreover have "\<not> (\<forall>c \<in> set (nt_commitments n). cm_amount c < payment)"
    using Some select_commitment_None by (metis option.distinct(1))
  ultimately show ?thesis
    using select_commitment_Some [OF Some] assms(1) Some by (auto elim!: pay_prepare_Inr)
qed

theorem pay_selects_smallest_witness:
  "pay_prepare toy_sdk_env (toy_sdk (Some toy_note)) (zeros 32) 1050000 (Some toy_signer)
     = Inl (NoCommitmentLargeEnough 1050000) \<and> has_balance (toy_sdk (Some toy_note)) 1050000"
proof -
  have n: "sk_note (toy_sdk (Some toy_note)) = Some toy_note" by (simp add: toy_sdk_def)
  have "get_note_balance (Some toy_note) = 1100000"
    using balance_exact [of toy_note] by (simp add: toy_note_def)
  then have "has_balance (toy_sdk (Some toy_note)) 1050000"
    by (simp add: has_balance_def n has_enough_balance_def dbl_safe safe_int_def)
  then show ?thesis
    using pay_selects_smallest [OF n, of 1050000 toy_sdk_env "zeros 32" "Some toy_signer"] by (simp add: toy_note_def)
qed

text \<open>
  C17. The change the wallet keeps is the change the chain gets: the instruction \<open>pay\<close> submitted
  parses, with the indexer's parser, to the denomination of the spent commitment and a leaf; and the
  commitment \<open>pay\<close> added to the note, when something is left, hashes to that very leaf.
\<close>

theorem pay_change_is_appended_leaf:
  assumes "sha_ok (se_sha env)" "honest_prover env"
    and "pay_micro_exact env to payment fp s = Inr ((updated, sig), s')"
    and "sk_note s = Some n" "note_ok n"
  shows "\<exists>c ix payer leaf signed. c \<in> set (nt_commitments n) \<and> fp = Some payer
     \<and> sg_sign payer \<lparr>tx_fee_payer = Some (sg_key payer), tx_instructions = [ix]\<rparr> = Some signed
     \<and> se_send env signed = Some sig
     \<and> parse_withdraw_ix (se_sha env) (ix_data ix) = Some \<lparr>ci_denom_id = word_of_int (cm_denom_id c), ci_commitment = leaf\<rparr>
     \<and> (payment < cm_amount c \<longrightarrow> leaf_bytes (se_poseidon env) (last (nt_commitments updated)) = Inr leaf)"
proof -
  obtain c w ix payer where p: "pay_prepare env s to payment fp = Inr (c, w, ix, payer)"
    "send_ixs env [ix] payer = Inr sig" "pay_settle c w payment n = Inr updated"
    using assms(3,4) by (auto elim!: pay_micro_exact_Inr)
  obtain null_be mp recipient out groth nullifier where q: "0 < payment"
    "select_commitment payment (nt_commitments n) = Some c" "fp = Some payer"
    "build_witness (se_poseidon env) (se_rnd1 env) (se_rnd2 env) c mp recipient payment = Inr w"
    "se_prove env w (sk_wasm s) (sk_zkey s) = Some out" "pack_groth16 out = Inr groth"
    "build_withdraw_ix (se_sha env) (cm_denom_id c) null_be (gp_proof_bytes groth) (gp_public_signals groth)
       (withdraw_accounts_for env s (cm_denom_id c) nullifier to (sg_key payer)) (sk_program_id s) = Inr ix"
    using p(1) assms(4) by (rule_tac pay_prepare_Inr) auto
  have c: "c \<in> set (nt_commitments n)" "payment \<le> cm_amount c" using select_commitment_Some [OF q(2)] by auto
  obtain ns nn where w: "wi_new_secret w = int_str 10 ns" "wi_new_nullifier w = int_str 10 nn"
    "wi_change_commitment w = nat_str 10 (se_poseidon env [ns, nn, cm_amount c - payment])"
    using q(4) by (elim build_witness_fields)
  have pub: "so_public_signals out = witness_publics w" using assms(2) q(5) by (auto simp: honest_prover_def)
  have leaf: "gp_public_signals groth ! 5 = be_bytes 32 (se_poseidon env [ns, nn, cm_amount c - payment])"
    using packed_signal(1) [OF q(6), of 5] pub w(3)
    by (simp add: witness_publics_def dec_string_to_be32_eq field_dec_to_be32_nat)
  have small: "dbl (cm_amount c - payment) = cm_amount c - payment"
  proof -
    have "cm_amount c \<le> sum_list (map cm_amount (nt_commitments n))"
      using assms(5) c(1) by (intro member_le_sum_list) (auto simp: note_ok_def)
    then show ?thesis using assms(5) c(2) q(1) by (intro dbl_safe) (simp add: note_ok_def safe_int_def)
  qed
  have "payment < cm_amount c \<longrightarrow> leaf_bytes (se_poseidon env) (last (nt_commitments updated))
      = Inr (gp_public_signals groth ! 5)"
    using pay_settle_Inr [OF p(3)] w small
    by (auto simp: leaf_bytes_def commitment_hash_def leaf field_dec_to_be32_nat)
  then show ?thesis
    using c(1) q(3) p(2) parse_built_withdraw [OF assms(1) q(7)] by (auto simp: send_ixs_Inr)
qed

theorem pay_change_is_appended_leaf_witness:
  "\<exists>updated s' (ix :: instruction) leaf. pay_micro_exact toy_sdk_env (zeros 32) 400000 (Some toy_signer) (toy_sdk (Some toy_note))
       = Inr ((updated, ''sig''), s')
     \<and> parse_withdraw_ix toy_sha (ix_data ix) = Some leaf"
proof -
  obtain updated s' where run: "pay_micro_exact toy_sdk_env (zeros 32) 400000 (Some toy_signer)
      (toy_sdk (Some toy_note)) = Inr ((updated, ''sig''), s')" using toy_pay by blast
  have n: "sk_note (toy_sdk (Some toy_note)) = Some toy_note" by (simp add: toy_sdk_def)
  have env: "sha_ok (se_sha toy_sdk_env)" "honest_prover toy_sdk_env" "se_sha toy_sdk_env = toy_sha"
    by (auto simp: toy_sdk_env_def toy_sha_ok honest_prover_def)
  obtain ix :: instruction and leaf where "parse_withdraw_ix toy_sha (ix_data ix) = Some leaf"
    using pay_change_is_appended_leaf [OF env(1,2) run n toy_note_ok] unfolding env(3) by blast
  with run show ?thesis by blast
qed

lemma toy_tier:
  "pick_tier (Dyadic 1 0) default_tiers = Inr \<lparr>td_denom_id = 1, td_amount_micro = 1000000\<rparr>"
proof -
  have "bitlen 1000000 \<le> 1024" by (rule bitlen_le) simp
  then show ?thesis
    by (simp add: pick_tier_def usdc_decimals_def math_round_def dbl_safe safe_int_def default_tiers_def Let_def)
qed

lemma toy_deposit_run: "\<exists>n s'. sdk_deposit toy_sdk_env (Dyadic 1 0) toy_signer (toy_sdk None) = Inr (n, s')"
proof -
  have r: "random_field_dec [1] = Inr (nat_str 10 1)" "random_field_dec [2] = Inr (nat_str 10 2)"
    by (simp_all add: random_field_dec_inr be_val_Cons)
  obtain ix where ix: "build_deposit_ix toy_sha 1 (be_bytes 32 3)
      (deposit_accounts_for toy_sdk_env (toy_sdk None) 1 (zeros 32)) (zeros 32) = Inr ix"
    using build_deposit_ix_inr [OF toy_sha_ok, of "be_bytes 32 3"] by fastforce
  have c: "commitment_hash (\<lambda>xs. length xs) (nat_str 10 1) (nat_str 10 2) 1000000 = Inr (nat_str 10 3)"
    by (simp add: commitment_hash_def numeral_3_eq_3)
  show ?thesis
    unfolding sdk_deposit_def add_commitment_def Let_def send_ixs_def
    by (simp only: toy_env_simps toy_tier r ix codecE_def wireE_def c field_dec_to_be32_nat bindE_simps optE_simps
        sum.case tier_definition.select_convs prod.case) blast
qed

text \<open>
  A deposit leaves a note that matches the chain: a successful \<open>deposit\<close> submitted one instruction
  that the indexer's parser reads as the tier's denomination and the hash of the commitment it
  appended to the note, whose amount is the tier's; nothing else of the note changes.
\<close>

theorem deposit_records_its_leaf:
  assumes "sha_ok (se_sha env)" "\<forall>t \<in> set (sk_tiers s). safe_int (td_amount_micro t)"
    and "sdk_deposit env amount payer s = Inr (n, s')"
  shows "\<exists>c ix leaf sig signed tier. nt_commitments n = nt_commitments (default_to empty_note (sk_note s)) @ [c]
     \<and> sk_note s' = Some n \<and> sk_last_deposit_sig s' = Some sig
     \<and> pick_tier amount (sk_tiers s) = Inr tier
     \<and> cm_amount c = td_amount_micro tier \<and> cm_denom_id c = td_denom_id tier
     \<and> sg_sign payer \<lparr>tx_fee_payer = Some (sg_key payer), tx_instructions = [ix]\<rparr> = Some signed
     \<and> se_send env signed = Some sig
     \<and> parse_deposit_ix (se_sha env) (ix_data ix) = Some \<lparr>ci_denom_id = word_of_int (td_denom_id tier), ci_commitment = leaf\<rparr>
     \<and> leaf_bytes (se_poseidon env) c = Inr leaf"
proof -
  obtain tier sec nul dec leaf ix sig where d: "pick_tier amount (sk_tiers s) = Inr tier"
    "commitment_hash (se_poseidon env) sec nul (td_amount_micro tier) = Inr dec" "field_dec_to_be32 dec = Inr leaf"
    "build_deposit_ix (se_sha env) (td_denom_id tier) leaf
       (deposit_accounts_for env s (td_denom_id tier) (sg_key payer)) (sk_program_id s) = Inr ix"
    "send_ixs env [ix] payer = Inr sig"
    and r: "nt_commitments n = nt_commitments (default_to empty_note (sk_note s)) @
         [\<lparr>cm_secret = sec, cm_nullifier = nul, cm_amount = dbl (td_amount_micro tier), cm_denom_id = td_denom_id tier\<rparr>]"
      "sk_note s' = Some n" "sk_last_deposit_sig s' = Some sig"
    using assms(3) by (auto simp: sdk_deposit_def res_simps add_commitment_def Let_def)
  have "td_amount_micro tier \<in> td_amount_micro ` set (sk_tiers s)"
    using d(1) by (auto simp: pick_tier_def res_simps find_Some_iff)
  then have "dbl (td_amount_micro tier) = td_amount_micro tier" using assms(2) by (auto intro: dbl_safe)
  with d r parse_built_deposit [OF assms(1) d(4)] show ?thesis
    by (auto simp: leaf_bytes_def send_ixs_Inr)
qed

theorem deposit_records_its_leaf_witness:
  "\<exists>n s'. sdk_deposit toy_sdk_env (Dyadic 1 0) toy_signer (toy_sdk None) = Inr (n, s')
     \<and> (\<exists>c. nt_commitments n = [c] \<and> cm_amount c = 1000000)"
proof -
  obtain n s' where run: "sdk_deposit toy_sdk_env (Dyadic 1 0) toy_signer (toy_sdk None) = Inr (n, s')"
    using toy_deposit_run by blast
  have env: "sha_ok (se_sha toy_sdk_env)" by (simp add: toy_sdk_env_def toy_sha_ok)
  have tiers: "\<forall>t \<in> set (sk_tiers (toy_sdk None)). safe_int (td_amount_micro t)"
    by (simp add: toy_sdk_def default_tiers_def safe_int_def)
  have fresh: "nt_commitments (default_to empty_note (sk_note (toy_sdk None))) = []"
    "sk_tiers (toy_sdk None) = default_tiers"
    by (simp_all add: toy_sdk_def default_to_def empty_note_def)
  obtain c t where "nt_commitments n = [c]" "pick_tier (Dyadic 1 0) default_tiers = Inr t"
    "cm_amount c = td_amount_micro t"
    using deposit_records_its_leaf [OF env tiers run] unfolding fresh by (elim exE conjE) (rule that, simp_all)
  with toy_tier run show ?thesis by simp
qed

end
