(* ===== verification/PoolProgram.thy ===== *)
theory PoolProgram
  imports PoolDecode
begin

text \<open>
  The handlers of the on-chain program \<open>qietr_pool/src/lib.rs\<close>, together with the account
  constraints Anchor checks before them, in the order in which they are checked. A transaction that
  fails leaves the state as it was. The Groth16 verifier, the keccak hash of the verifying key, the
  associated-token derivation, the Poseidon syscall and the token program are third-party; they are
  gathered in the record \<open>chain_env\<close>. \<open>'l\<close> is the token ledger, which only the token program reads.
\<close>

section \<open>State\<close>

record pool_config =
  pc_admin :: pubkey
  pc_fee_bps :: "16 word"
  pc_paused :: bool
  pc_vk_hash :: bytes
  pc_pending_vk_hash :: bytes
  pc_pending_slot :: u64
  pc_fee_vault :: pubkey

record 'l pool_state =
  ps_config :: pool_config
  ps_denom :: denomination_account
  ps_tree :: merkle_account
  ps_nullifiers :: "nullifier_account list"
  ps_ledger :: 'l

record 'l chain_env =
  ce_hash2 :: poseidon2
  ce_verify :: "bytes \<Rightarrow> bytes list \<Rightarrow> bool"
  ce_vk_hash :: bytes
  ce_ata :: "pubkey \<Rightarrow> pubkey \<Rightarrow> pubkey"
  ce_transfer :: "pubkey \<Rightarrow> pubkey \<Rightarrow> u64 \<Rightarrow> 'l \<Rightarrow> 'l option"
  ce_slot :: u64

datatype chain_error = Pool pool_error | ConstraintSeeds | AccountInUse | TokenError

definition default_pubkey :: pubkey where
  "default_pubkey = zeros 32"

definition pending_vk_lock_slots :: u64 where
  "pending_vk_lock_slots = 432000"

section \<open>Helpers\<close>

definition field_from_u64 :: "u64 \<Rightarrow> bytes" where
  "field_from_u64 v = zeros 24 @ be_bytes 8 (unat v)"

definition pool_pubkey_to_field :: "pubkey \<Rightarrow> bytes" where
  "pool_pubkey_to_field pk = pk[0 := pk ! 0 AND 0x1f]"

definition lift_pool :: "pool_error + 'a \<Rightarrow> chain_error + 'a" where
  "lift_pool r = (case r of Inl e \<Rightarrow> Inl (Pool e) | Inr a \<Rightarrow> Inr a)"

definition transfer ::
    "'l chain_env \<Rightarrow> pubkey \<Rightarrow> pubkey \<Rightarrow> u64 \<Rightarrow> 'l \<Rightarrow> chain_error + 'l" where
  "transfer env src dst amount l = optE TokenError (ce_transfer env src dst amount l)"

section \<open>Administration\<close>

definition initialize_pool :: "'l chain_env \<Rightarrow> pubkey \<Rightarrow> 16 word \<Rightarrow> pool_error + pool_config" where
  "initialize_pool env admin fee_bps =
     (if \<not> fee_bps \<le> 10000 then Inl FeeBpsTooHigh
      else Inr \<lparr>pc_admin = admin, pc_fee_bps = fee_bps, pc_paused = False, pc_vk_hash = ce_vk_hash env,
                pc_pending_vk_hash = zeros 32, pc_pending_slot = 0, pc_fee_vault = default_pubkey\<rparr>)"

definition admin_only :: "pool_config \<Rightarrow> pubkey \<Rightarrow> (pool_config \<Rightarrow> pool_error + pool_config)
    \<Rightarrow> pool_error + pool_config" where
  "admin_only cfg signer f = (if pc_admin cfg \<noteq> signer then Inl NotAdmin else f cfg)"

definition set_paused :: "pubkey \<Rightarrow> bool \<Rightarrow> pool_config \<Rightarrow> pool_error + pool_config" where
  "set_paused signer p cfg = admin_only cfg signer (\<lambda>c. Inr (c\<lparr>pc_paused := p\<rparr>))"

definition queue_vk_upgrade :: "pubkey \<Rightarrow> u64 \<Rightarrow> bytes \<Rightarrow> pool_config \<Rightarrow> pool_error + pool_config" where
  "queue_vk_upgrade signer now new_hash cfg = admin_only cfg signer (\<lambda>c.
     let c = c\<lparr>pc_pending_vk_hash := new_hash\<rparr> in
     if unat now + unat pending_vk_lock_slots \<ge> 2 ^ 64 then Inl Overflow
     else Inr (c\<lparr>pc_pending_slot := now + pending_vk_lock_slots\<rparr>))"

definition apply_vk_upgrade :: "pubkey \<Rightarrow> u64 \<Rightarrow> pool_config \<Rightarrow> pool_error + pool_config" where
  "apply_vk_upgrade signer now cfg = admin_only cfg signer (\<lambda>c.
     if pc_pending_slot c = 0 then Inl NoPendingUpgrade
     else if \<not> now \<ge> pc_pending_slot c then Inl VkUpgradeLocked
     else Inr (c\<lparr>pc_vk_hash := pc_pending_vk_hash c, pc_pending_vk_hash := zeros 32, pc_pending_slot := 0\<rparr>))"

definition set_fee_vault :: "pubkey \<Rightarrow> pubkey \<Rightarrow> pool_config \<Rightarrow> pool_error + pool_config" where
  "set_fee_vault signer fee_vault cfg = admin_only cfg signer (\<lambda>c. Inr (c\<lparr>pc_fee_vault := fee_vault\<rparr>))"

section \<open>deposit\<close>

record token_view =
  tv_key :: pubkey
  tv_owner :: pubkey
  tv_mint :: pubkey

definition pool_deposit ::
    "'l chain_env \<Rightarrow> token_view \<Rightarrow> pubkey \<Rightarrow> byte \<Rightarrow> bytes \<Rightarrow> 'l pool_state \<Rightarrow> chain_error + 'l pool_state" where
  "pool_deposit env ata depositor denom_id commitment st =
     bindE (guardE (denom_id = dn_denom_id (ps_denom st)) ConstraintSeeds) (\<lambda>_.
     bindE (guardE (tv_mint ata = dn_mint (ps_denom st)) (Pool UnknownDenomination)) (\<lambda>_.
     bindE (guardE (tv_owner ata = depositor) (Pool UnknownDenomination)) (\<lambda>_.
     bindE (guardE (\<not> pc_paused (ps_config st)) (Pool Paused)) (\<lambda>_.
     bindE (transfer env (tv_key ata) (dn_vault (ps_denom st)) (dn_amount (ps_denom st)) (ps_ledger st)) (\<lambda>ledger.
     bindE (lift_pool (merkle_append (ce_hash2 env) commitment (ps_tree st))) (\<lambda>(_, tree).
     bindE (guardE (unat (dn_deposit_count (ps_denom st)) + 1 < 2 ^ 64) (Pool Overflow)) (\<lambda>_.
     Inr (st\<lparr>ps_ledger := ledger, ps_tree := tree,
             ps_denom := (ps_denom st)\<lparr>dn_deposit_count := dn_deposit_count (ps_denom st) + 1\<rparr>\<rparr>))))))))"

section \<open>withdraw\<close>

record withdraw_ctx =
  wc_recipient :: token_view
  wc_fee_vault :: "token_view option"
  wc_bump :: byte

text \<open>The payout of step 9: recipient only, or net amount and fee.\<close>

definition pay_out ::
    "'l chain_env \<Rightarrow> withdraw_ctx \<Rightarrow> u64 \<Rightarrow> 'l pool_state \<Rightarrow> chain_error + 'l" where
  "pay_out env ctx payment st =
     (let vault = dn_vault (ps_denom st); rcpt = tv_key (wc_recipient ctx);
          fee_vault_pk = pc_fee_vault (ps_config st)
      in if fee_vault_pk \<noteq> default_pubkey
         then bindE (guardE (unat payment * unat (pc_fee_bps (ps_config st)) < 2 ^ 64) (Pool Overflow)) (\<lambda>_.
              let fee = payment * ucast (pc_fee_bps (ps_config st)) div 10000 in
              bindE (guardE (fee \<le> payment) (Pool Overflow)) (\<lambda>_.
              bindE (optE (Pool FeeVaultNotSet) (wc_fee_vault ctx)) (\<lambda>fv.
              bindE (guardE (tv_key fv = fee_vault_pk) (Pool FeeVaultMismatch)) (\<lambda>_.
              bindE (transfer env vault rcpt (payment - fee) (ps_ledger st)) (\<lambda>l.
              transfer env vault fee_vault_pk fee l)))))
         else transfer env vault rcpt payment (ps_ledger st))"

definition nullifier_used :: "'l pool_state \<Rightarrow> byte \<Rightarrow> bytes \<Rightarrow> bool" where
  "nullifier_used st denom h =
     list_ex (\<lambda>n. nr_denom_id n = denom \<and> nr_nullifier_hash n = h) (ps_nullifiers st)"

definition pool_withdraw ::
    "'l chain_env \<Rightarrow> withdraw_ctx \<Rightarrow> byte \<Rightarrow> bytes \<Rightarrow> bytes \<Rightarrow> bytes list \<Rightarrow> 'l pool_state
      \<Rightarrow> chain_error + 'l pool_state" where
  "pool_withdraw env ctx denom_id nullifier_arg proof sigs st =
     (let rcpt = wc_recipient ctx; mint = dn_mint (ps_denom st) in
     bindE (guardE (\<not> nullifier_used st denom_id nullifier_arg) AccountInUse) (\<lambda>_.
     bindE (guardE (denom_id = dn_denom_id (ps_denom st)) ConstraintSeeds) (\<lambda>_.
     bindE (guardE (tv_mint rcpt = mint) (Pool UnknownDenomination)) (\<lambda>_.
     bindE (guardE (case wc_fee_vault ctx of None \<Rightarrow> True | Some fv \<Rightarrow> tv_mint fv = mint)
              (Pool FeeVaultMismatch)) (\<lambda>_.
     bindE (guardE (\<not> pc_paused (ps_config st)) (Pool Paused)) (\<lambda>_.
     bindE (guardE (nullifier_arg = sigs ! 2) (Pool NullifierMismatch)) (\<lambda>_.
     bindE (guardE (sigs ! 3 = pool_pubkey_to_field (tv_owner rcpt)) (Pool RecipientMismatch)) (\<lambda>_.
     bindE (guardE (ce_ata env (tv_owner rcpt) mint = tv_key rcpt) (Pool NonCanonicalAta)) (\<lambda>_.
     bindE (guardE (is_known_root (ps_tree st) (sigs ! 1)) (Pool StaleRoot)) (\<lambda>_.
     bindE (guardE (sigs ! 0 = field_from_u64 (dn_amount (ps_denom st))) (Pool AmountMismatch)) (\<lambda>_.
     bindE (guardE (ce_vk_hash env = pc_vk_hash (ps_config st)) (Pool VkHashMismatch)) (\<lambda>_.
     bindE (guardE (ce_verify env proof sigs) (Pool InvalidProof)) (\<lambda>_.
     bindE (guardE (list_all (\<lambda>b. b = 0) (take 24 (sigs ! 4))) (Pool PaymentAmountOverflow)) (\<lambda>_.
     let payment = word_of_nat (be_val (slice 24 32 (sigs ! 4))) in
     bindE (pay_out env ctx payment st) (\<lambda>ledger.
     bindE (lift_pool (merkle_append (ce_hash2 env) (sigs ! 5) (ps_tree st))) (\<lambda>(_, tree).
     Inr (st\<lparr>ps_ledger := ledger, ps_tree := tree,
             ps_nullifiers := \<lparr>nr_denom_id = denom_id, nr_nullifier_hash = sigs ! 2,
               nr_spent_at_slot = ce_slot env, nr_bump = wc_bump ctx\<rparr> # ps_nullifiers st\<rparr>)))))))))))))))))"

section \<open>Executions\<close>

datatype pool_call =
    Deposit token_view pubkey byte bytes
  | Withdraw withdraw_ctx byte bytes bytes "bytes list"
  | SetPaused pubkey bool
  | QueueVk pubkey bytes
  | ApplyVk pubkey
  | SetFeeVault pubkey pubkey

definition with_config :: "pool_error + pool_config \<Rightarrow> 'l pool_state \<Rightarrow> chain_error + 'l pool_state" where
  "with_config r st = bindE (lift_pool r) (\<lambda>cfg. Inr (st\<lparr>ps_config := cfg\<rparr>))"

fun pool_exec :: "'l chain_env \<Rightarrow> pool_call \<Rightarrow> 'l pool_state \<Rightarrow> chain_error + 'l pool_state" where
  "pool_exec env (Deposit ata d den c) st = pool_deposit env ata d den c st"
| "pool_exec env (Withdraw ctx den nul pf sigs) st = pool_withdraw env ctx den nul pf sigs st"
| "pool_exec env (SetPaused signer p) st = with_config (set_paused signer p (ps_config st)) st"
| "pool_exec env (QueueVk signer vk) st =
     with_config (queue_vk_upgrade signer (ce_slot env) vk (ps_config st)) st"
| "pool_exec env (ApplyVk signer) st = with_config (apply_vk_upgrade signer (ce_slot env) (ps_config st)) st"
| "pool_exec env (SetFeeVault signer fv) st = with_config (set_fee_vault signer fv (ps_config st)) st"

text \<open>
  A run of the program from \<open>st0\<close>: the successful calls, last first, with the slot each was
  executed in; a failed call changes nothing and is not recorded. The environment may differ from
  call to call (slots advance, the program may be redeployed with another verifying key), but not
  the Poseidon syscall \<open>hash2\<close>.
\<close>

inductive pool_run ::
    "poseidon2 \<Rightarrow> 'l pool_state \<Rightarrow> (u64 \<times> pool_call) list \<Rightarrow> 'l pool_state \<Rightarrow> bool"
  for hash2 :: poseidon2 and st0 :: "'l pool_state" where
  start: "pool_run hash2 st0 [] st0"
| call: "pool_run hash2 st0 h st \<Longrightarrow> ce_hash2 env = hash2 \<Longrightarrow> pool_exec env c st = Inr st' \<Longrightarrow>
     pool_run hash2 st0 ((ce_slot env, c) # h) st'"

inductive_cases pool_run_NilE: "pool_run hash2 st0 [] st"
inductive_cases pool_run_ConsE: "pool_run hash2 st0 (e # h) st"

fun leaves_of :: "pool_call \<Rightarrow> bytes list" where
  "leaves_of (Deposit ata d den c) = [c]"
| "leaves_of (Withdraw ctx den nul pf sigs) = [sigs ! 5]"
| "leaves_of _ = []"

fun spent_of :: "pool_call \<Rightarrow> (byte \<times> bytes) list" where
  "spent_of (Withdraw ctx den nul pf sigs) = [(den, nul)]"
| "spent_of _ = []"

definition spent_keys :: "'l pool_state \<Rightarrow> (byte \<times> bytes) list" where
  "spent_keys st = map (\<lambda>n. (nr_denom_id n, nr_nullifier_hash n)) (ps_nullifiers st)"

section \<open>What a successful call did\<close>

lemma lift_pool_Inr [res_simps]: "lift_pool r = Inr a \<longleftrightarrow> r = Inr a"
  by (auto simp: lift_pool_def split: sum.split)

lemma transfer_Inr [res_simps]: "transfer env src dst a l = Inr l' \<longleftrightarrow> ce_transfer env src dst a l = Some l'"
  by (auto simp: transfer_def res_simps)

lemma nullifier_used_iff: "nullifier_used st den nul \<longleftrightarrow> (den, nul) \<in> set (spent_keys st)"
  by (auto simp: nullifier_used_def spent_keys_def list_ex_iff)

lemma pool_deposit_Inr:
  assumes "pool_deposit env ata d den c st = Inr st'"
  obtains l root tree where
    "ce_transfer env (tv_key ata) (dn_vault (ps_denom st)) (dn_amount (ps_denom st)) (ps_ledger st) = Some l"
    "merkle_append (ce_hash2 env) c (ps_tree st) = Inr (root, tree)"
    "st' = st\<lparr>ps_ledger := l, ps_tree := tree,
             ps_denom := (ps_denom st)\<lparr>dn_deposit_count := dn_deposit_count (ps_denom st) + 1\<rparr>\<rparr>"
  using assms by (auto simp: pool_deposit_def res_simps)

text \<open>The checks of \<open>withdraw\<close> in one place.\<close>

definition withdraw_checks ::
    "'l chain_env \<Rightarrow> withdraw_ctx \<Rightarrow> byte \<Rightarrow> bytes \<Rightarrow> bytes \<Rightarrow> bytes list \<Rightarrow> 'l pool_state \<Rightarrow> bool" where
  "withdraw_checks env ctx den nul pf sigs st \<longleftrightarrow>
     (den, nul) \<notin> set (spent_keys st) \<and> den = dn_denom_id (ps_denom st)
     \<and> tv_mint (wc_recipient ctx) = dn_mint (ps_denom st)
     \<and> (\<forall>fv. wc_fee_vault ctx = Some fv \<longrightarrow> tv_mint fv = dn_mint (ps_denom st))
     \<and> \<not> pc_paused (ps_config st) \<and> nul = sigs ! 2
     \<and> sigs ! 3 = pool_pubkey_to_field (tv_owner (wc_recipient ctx))
     \<and> ce_ata env (tv_owner (wc_recipient ctx)) (dn_mint (ps_denom st)) = tv_key (wc_recipient ctx)
     \<and> is_known_root (ps_tree st) (sigs ! 1)
     \<and> sigs ! 0 = field_from_u64 (dn_amount (ps_denom st))
     \<and> ce_vk_hash env = pc_vk_hash (ps_config st) \<and> ce_verify env pf sigs
     \<and> list_all (\<lambda>b. b = 0) (take 24 (sigs ! 4))"

definition payment_of :: "bytes list \<Rightarrow> u64" where
  "payment_of sigs = word_of_nat (be_val (slice 24 32 (sigs ! 4)))"

lemma pool_withdraw_Inr:
  assumes "pool_withdraw env ctx den nul pf sigs st = Inr st'"
  obtains l root tree where "withdraw_checks env ctx den nul pf sigs st"
    "pay_out env ctx (payment_of sigs) st = Inr l"
    "merkle_append (ce_hash2 env) (sigs ! 5) (ps_tree st) = Inr (root, tree)"
    "st' = st\<lparr>ps_ledger := l, ps_tree := tree,
             ps_nullifiers := \<lparr>nr_denom_id = den, nr_nullifier_hash = sigs ! 2,
               nr_spent_at_slot = ce_slot env, nr_bump = wc_bump ctx\<rparr> # ps_nullifiers st\<rparr>"
  using assms
  by (auto simp: pool_withdraw_def res_simps Let_def withdraw_checks_def payment_of_def
      nullifier_used_iff [symmetric] split: option.splits)

lemma with_config_Inr:
  "with_config r st = Inr st' \<longleftrightarrow> (\<exists>cfg. r = Inr cfg \<and> st' = st\<lparr>ps_config := cfg\<rparr>)"
  by (auto simp: with_config_def res_simps)

section \<open>Every run\<close>

lemma pool_exec_spent:
  assumes "pool_exec env c st = Inr st'"
  shows "spent_keys st' = spent_of c @ spent_keys st \<and> (\<forall>k \<in> set (spent_of c). k \<notin> set (spent_keys st))"
proof (cases c)
  case (Deposit ata d den c')
  then have "pool_deposit env ata d den c' st = Inr st'" using assms by simp
  then show ?thesis by (rule pool_deposit_Inr) (simp add: Deposit spent_keys_def)
next
  case (Withdraw ctx den nul pf sigs)
  then have "pool_withdraw env ctx den nul pf sigs st = Inr st'" using assms by simp
  then show ?thesis by (rule pool_withdraw_Inr) (auto simp: Withdraw spent_keys_def withdraw_checks_def)
qed (use assms in \<open>auto simp: with_config_Inr spent_keys_def\<close>)

lemma pool_exec_tree:
  assumes "pool_exec env c st = Inr st'"
  shows "(leaves_of c = [] \<and> ps_tree st' = ps_tree st)
     \<or> (\<exists>leaf root. leaves_of c = [leaf] \<and> merkle_append (ce_hash2 env) leaf (ps_tree st) = Inr (root, ps_tree st'))"
proof (cases c)
  case (Deposit ata d den c')
  then have "pool_deposit env ata d den c' st = Inr st'" using assms by simp
  then show ?thesis by (rule pool_deposit_Inr) (simp add: Deposit)
next
  case (Withdraw ctx den nul pf sigs)
  then have "pool_withdraw env ctx den nul pf sigs st = Inr st'" using assms by simp
  then show ?thesis by (rule pool_withdraw_Inr) (simp add: Withdraw)
qed (use assms in \<open>auto simp: with_config_Inr\<close>)

lemma replay_refused:
  "(den, nul) \<in> set (spent_keys st) \<Longrightarrow> pool_withdraw env ctx den nul pf sigs st = Inl AccountInUse"
  by (simp add: pool_withdraw_def nullifier_used_iff Let_def)

text \<open>The leaves of a run in the order they were appended.\<close>

definition history_leaves :: "(u64 \<times> pool_call) list \<Rightarrow> bytes list" where
  "history_leaves h = concat (map (\<lambda>e. leaves_of (snd e)) (rev h))"

lemma history_leaves_Cons [simp]: "history_leaves (e # h) = history_leaves h @ leaves_of (snd e)"
  by (simp add: history_leaves_def)

lemma pool_run_tree:
  assumes "pool_run hash2 st0 h st" and par: "poseidon_parity H hash2"
    and "tree_rel H xs0 (ps_tree st0)"
    and "history_leaves h = map fe_bytes xs" "list_all is_field xs"
  shows "tree_rel H (xs0 @ xs) (ps_tree st)"
  using assms(1,4,5)
proof (induction arbitrary: xs)
  case start
  then show ?case using assms(3) by (simp add: history_leaves_def)
next
  case (call h st env c st')
  consider "leaves_of c = []" "ps_tree st' = ps_tree st"
    | leaf root where "leaves_of c = [leaf]" "merkle_append hash2 leaf (ps_tree st) = Inr (root, ps_tree st')"
    using pool_exec_tree [OF call.hyps(3)] call.hyps(2) by auto
  then show ?case
  proof cases
    case 1
    then show ?thesis using call by simp
  next
    case 2
    then obtain ys y where xs: "xs = ys @ [y]" "history_leaves h = map fe_bytes ys" "leaf = fe_bytes y"
      using call.prems(1) by (cases xs rule: rev_cases) auto
    then have fields: "list_all is_field ys" "is_field y" using call.prems(2) by auto
    have rel: "tree_rel H (xs0 @ ys) (ps_tree st)" by (rule call.IH [OF xs(2) fields(1)])
    have "length (xs0 @ ys) < 2 ^ pool_merkle_depth"
      using merkle_append_full [OF rel] 2(2) rel by (force simp: tree_rel_def)
    then show ?thesis
      using merkle_append_inr [OF par rel _ fields(2)] 2(2) xs by auto
  qed
qed

text \<open>
  A concrete environment for the witnesses: a hash that is constantly 7, a verifier that accepts,
  and a ledger of balances.
\<close>

definition seven_syscall :: poseidon2 where
  "seven_syscall l r = Inr (fe_bytes 7)"

lemma seven_parity: "poseidon_parity (\<lambda>_ _. 7) seven_syscall"
  by (simp add: poseidon_parity_def seven_syscall_def is_field_def bn254_fr_def)

type_synonym balances = "pubkey \<Rightarrow> nat"

definition toy_transfer :: "pubkey \<Rightarrow> pubkey \<Rightarrow> u64 \<Rightarrow> balances \<Rightarrow> balances option" where
  "toy_transfer src dst a l =
     (if unat a \<le> l src
      then (let l1 = l(src := l src - unat a) in Some (l1(dst := l1 dst + unat a))) else None)"

definition toy_env :: "u64 \<Rightarrow> balances chain_env" where
  "toy_env slot = \<lparr>ce_hash2 = seven_syscall, ce_verify = (\<lambda>pf sigs. True), ce_vk_hash = zeros 32,
     ce_ata = (\<lambda>owner mint. owner), ce_transfer = toy_transfer, ce_slot = slot\<rparr>"

definition toy_tv :: token_view where
  "toy_tv = \<lparr>tv_key = zeros 32, tv_owner = zeros 32, tv_mint = zeros 32\<rparr>"

definition toy_vault :: pubkey where
  "toy_vault = replicate 32 1"

lemma toy_vault_neq [simp]: "toy_vault \<noteq> zeros 32" "zeros 32 \<noteq> toy_vault"
  by (simp_all add: toy_vault_def zeros_def replicate_eq_replicate)

definition toy_state :: "merkle_account \<Rightarrow> balances pool_state" where
  "toy_state t = \<lparr>
     ps_config = \<lparr>pc_admin = zeros 32, pc_fee_bps = 100, pc_paused = False, pc_vk_hash = zeros 32,
       pc_pending_vk_hash = zeros 32, pc_pending_slot = 0, pc_fee_vault = default_pubkey\<rparr>,
     ps_denom = \<lparr>dn_denom_id = 1, dn_amount = 1000000, dn_deposit_count = 0, dn_vault = toy_vault,
       dn_mint = zeros 32, dn_vault_bump = 255, dn_bump = 255\<rparr>,
     ps_tree = t, ps_nullifiers = [], ps_ledger = (\<lambda>_. 5000000)\<rparr>"

definition toy_signals :: "bytes list" where
  "toy_signals = [field_from_u64 1000000, fe_bytes 7, fe_bytes 5, zeros 32, field_from_u64 400000, fe_bytes 9]"

definition toy_ctx :: withdraw_ctx where
  "toy_ctx = \<lparr>wc_recipient = toy_tv, wc_fee_vault = None, wc_bump = 255\<rparr>"

definition toy_deposit :: pool_call where
  "toy_deposit = Deposit toy_tv (zeros 32) 1 (fe_bytes 3)"

definition toy_withdraw :: pool_call where
  "toy_withdraw = Withdraw toy_ctx 1 (fe_bytes 5) [] toy_signals"

lemma toy_payment: "payment_of toy_signals = 400000"
proof -
  have "slice 24 32 (zeros 24 @ be_bytes 8 400000) = be_bytes 8 400000"
    by (simp add: slice_def zeros_def)
  then have "payment_of toy_signals = word_of_nat (be_val (be_bytes 8 400000))"
    by (simp add: payment_of_def toy_signals_def field_from_u64_def)
  then show ?thesis by (simp add: be_val_be_bytes)
qed

text \<open>In this environment a deposit and a withdraw of it succeed.\<close>

lemma toy_steps:
  assumes "init_merkle_account seven_syscall 1 255 = Inr t"
  shows "\<exists>st1 st. pool_exec (toy_env 10) toy_deposit (toy_state t) = Inr st1
     \<and> pool_exec (toy_env 20) toy_withdraw st1 = Inr st
     \<and> ps_config st1 = ps_config (toy_state t) \<and> dn_vault (ps_denom st1) = toy_vault"
proof -
  let ?H = "\<lambda>_ _ :: int. 7 :: int"
  have f: "is_field 3" "is_field 9" "is_field 7" by (simp_all add: is_field_def bn254_fr_def)
  have rel: "tree_rel ?H [] t"
    using init_merkle_account_inr [OF seven_parity, of 1 255] assms by auto
  obtain t1 where t1: "merkle_append seven_syscall (fe_bytes 3) t = Inr (pool_root ?H [3], t1)"
    "tree_rel ?H [3] t1"
    using merkle_append_inr [OF seven_parity rel _ f(1)] by (auto simp: pool_depth_simps)
  obtain t2 where t2: "merkle_append seven_syscall (fe_bytes 9) t1 = Inr (pool_root ?H [3, 9], t2)"
    using merkle_append_inr [OF seven_parity t1(2) _ f(2)] by (auto simp: pool_depth_simps)
  have depth20: "(20 :: nat) = Suc 19" by simp
  have root: "pool_root ?H [3] = fe_bytes 7"
    by (simp only: pool_root_def spec_root_def pool_depth_simps depth20 mnode.simps)
  have "fe_bytes 7 \<noteq> fe_bytes 0" using fe_bytes_inject f(3) is_field_0 by (metis zero_neq_numeral)
  then have known: "is_known_root t1 (fe_bytes 7)"
    using is_known_root_iff [OF t1(2)] root by (auto simp: fe_bytes_0)
  let ?st1 = "(toy_state t)\<lparr>ps_tree := t1, ps_denom := (ps_denom (toy_state t))\<lparr>dn_deposit_count := 1\<rparr>,
      ps_ledger := (\<lambda>_. 5000000)(zeros 32 := 4000000, toy_vault := 6000000)\<rparr>"
  have dep: "pool_exec (toy_env 10) toy_deposit (toy_state t) = Inr ?st1"
    using t1(1) by (simp add: toy_deposit_def pool_deposit_def toy_state_def toy_env_def toy_tv_def transfer_def
        lift_pool_def toy_transfer_def Let_def)
  have pk: "pool_pubkey_to_field (zeros 32) = zeros 32" by code_simp
  have hi: "list_all (\<lambda>b. b = 0) (take 24 (field_from_u64 400000))"
    by (simp add: field_from_u64_def zeros_def list_all_iff)
  have pay: "word_of_nat (be_val (slice 24 32 (toy_signals ! 4))) = (400000 :: u64)"
    using toy_payment by (simp add: payment_of_def)
  have sigs: "toy_signals ! 0 = field_from_u64 1000000" "toy_signals ! 1 = fe_bytes 7"
    "toy_signals ! 2 = fe_bytes 5" "toy_signals ! 3 = zeros 32" "toy_signals ! 4 = field_from_u64 400000"
    "toy_signals ! 5 = fe_bytes 9" by (simp_all add: toy_signals_def)
  have "\<exists>st. pool_exec (toy_env 20) toy_withdraw ?st1 = Inr st"
    using t2 known pk hi pay [unfolded sigs]
    by (simp add: toy_withdraw_def pool_withdraw_def toy_state_def toy_env_def toy_tv_def transfer_def
        lift_pool_def nullifier_used_def pay_out_def Let_def toy_ctx_def toy_transfer_def sigs sigs [unfolded One_nat_def])
  with dep show ?thesis by (auto simp: toy_state_def)
qed

lemma toy_run:
  assumes "init_merkle_account seven_syscall 1 255 = Inr t"
  shows "\<exists>st. pool_run seven_syscall (toy_state t) [(20, toy_withdraw), (10, toy_deposit)] st"
proof -
  obtain st1 st where st: "pool_exec (toy_env 10) toy_deposit (toy_state t) = Inr st1"
    "pool_exec (toy_env 20) toy_withdraw st1 = Inr st" using toy_steps [OF assms] by blast
  have env: "ce_hash2 (toy_env n) = seven_syscall" "ce_slot (toy_env n) = n" for n by (simp_all add: toy_env_def)
  show ?thesis
    using pool_run.call [OF pool_run.call [OF pool_run.start env(1) st(1)] env(1) st(2)]
    by (auto simp: env(2))
qed

text \<open>A tree account that stores the leaves \<open>xs\<close> accepts the root of the SDK's tree over them.\<close>

lemma tree_rel_knows_root:
  assumes par: "poseidon_parity H hash2" and rel: "tree_rel H xs t" and ne: "xs \<noteq> []" "spec_root H 20 xs \<noteq> 0"
  shows "is_known_root t (fe_bytes (spec_root H 20 xs))"
proof -
  have "list_all is_field xs" using rel by (simp add: tree_rel_def)
  then have f: "is_field (spec_root H 20 xs)" using is_field_mnode [OF par] by (simp add: spec_root_def)
  have root: "fe_bytes (spec_root H 20 xs) = pool_root H xs" by (simp add: pool_root_def pool_depth_simps)
  have "pool_root H xs \<noteq> zeros 32"
    unfolding root [symmetric] using fe_bytes_inject [OF f is_field_0] ne(2) by (simp add: fe_bytes_0)
  moreover have "\<exists>j. 0 < j \<and> j \<le> length xs \<and> length xs < j + 30 \<and> pool_root H xs = pool_root H (take j xs)"
    using ne(1) by (intro exI [of _ "length xs"]) simp
  ultimately show ?thesis by (simp only: is_known_root_iff [OF rel] root) blast
qed

lemma tree_rel_sdk:
  assumes par: "poseidon_parity H hash2" and rel: "tree_rel H xs t"
  shows "\<exists>roots s. feed (sdk_append H) xs (merkle_new H 20) = Inr (roots, s)
     \<and> unat (next_leaf_index t) = length xs
     \<and> (xs \<noteq> [] \<longrightarrow> merkle_root H s \<noteq> 0 \<longrightarrow> is_known_root t (fe_bytes (merkle_root H s)))"
proof -
  have len: "length xs \<le> 2 ^ 20" using rel by (simp add: tree_rel_def pool_depth_simps)
  obtain s where s: "feed (sdk_append H) xs (merkle_new H 20) = Inr (sdk_acc.root_trace H 20 [] xs, s)"
    "sdk_rel H 20 xs s"
    using sdk_acc.feed_ok [OF sdk_rel_new, of xs 20 H] len rel by (auto simp: list_all_iff)
  have "merkle_root H s = spec_root H 20 xs"
    using s(2) len by (simp add: sdk_rel_def merkle_root_node node_at_root)
  then show ?thesis using s(1) rel tree_rel_knows_root [OF assms] by (auto simp: tree_rel_def)
qed

section \<open>Properties\<close>

text \<open>
  C2. No note is spent twice: over any sequence of successful calls of the program, the pairs of
  denomination and nullifier hash it withdrew are all different, they are exactly the nullifier
  records created, and a further withdraw of any of them fails.
\<close>

theorem no_double_spend:
  assumes "pool_run hash2 st0 h st" "ps_nullifiers st0 = []"
  shows "distinct (concat (map (\<lambda>e. spent_of (snd e)) h))
     \<and> spent_keys st = concat (map (\<lambda>e. spent_of (snd e)) h)
     \<and> (\<forall>env ctx den nul pf sigs. (den, nul) \<in> set (concat (map (\<lambda>e. spent_of (snd e)) h)) \<longrightarrow>
          pool_withdraw env ctx den nul pf sigs st = Inl AccountInUse)"
proof -
  have "distinct (concat (map (\<lambda>e. spent_of (snd e)) h))
      \<and> spent_keys st = concat (map (\<lambda>e. spent_of (snd e)) h)"
    using assms(1)
  proof induction
    case start
    then show ?case using assms(2) by (simp add: spent_keys_def)
  next
    case (call h st env c st')
    then show ?case using pool_exec_spent [OF call.hyps(3)] by (cases c) auto
  qed
  then show ?thesis using replay_refused [of _ _ st] by simp
qed

theorem no_double_spend_witness:
  "\<exists>t st h. init_merkle_account seven_syscall 1 255 = Inr t \<and> pool_run seven_syscall (toy_state t) h st
     \<and> spent_keys st = [(1, fe_bytes 5)]
     \<and> (\<forall>ctx pf sigs. pool_withdraw (toy_env 30) ctx 1 (fe_bytes 5) pf sigs st = Inl AccountInUse)"
proof -
  obtain t where t: "init_merkle_account seven_syscall 1 255 = Inr t"
    using init_merkle_account_inr [OF seven_parity] by blast
  obtain st where run: "pool_run seven_syscall (toy_state t)
     [(20, toy_withdraw), (10, toy_deposit)] st" using toy_run [OF t] ..
  have "ps_nullifiers (toy_state t) = []" by (simp add: toy_state_def)
  from no_double_spend [OF run this] t run show ?thesis by (auto simp: toy_withdraw_def toy_deposit_def)
qed

text \<open>
  C4. The program's tree is the SDK's tree: after any sequence of successful calls on a fresh pool
  (deposits, withdraws with their change notes, administration) whose leaves are field elements,
  the SDK's tree fed the same leaves in the same order accepts them all, the on-chain leaf count is
  their number, and the SDK's root is one the program accepts unless it is zero or nothing was added.
\<close>

theorem pool_history_is_sdk_tree:
  assumes "pool_run hash2 st0 h st" "poseidon_parity H hash2"
    and "init_merkle_account hash2 den bump = Inr (ps_tree st0)"
    and "history_leaves h = map fe_bytes xs" "list_all is_field xs"
  shows "\<exists>roots s. feed (sdk_append H) xs (merkle_new H 20) = Inr (roots, s)
     \<and> unat (next_leaf_index (ps_tree st)) = length xs
     \<and> (xs \<noteq> [] \<longrightarrow> merkle_root H s \<noteq> 0 \<longrightarrow> is_known_root (ps_tree st) (fe_bytes (merkle_root H s)))"
proof -
  have "tree_rel H [] (ps_tree st0)"
    using init_merkle_account_inr [OF assms(2), of den bump] assms(3) by auto
  from pool_run_tree [OF assms(1,2) this assms(4,5)] have "tree_rel H xs (ps_tree st)" by simp
  then show ?thesis by (rule tree_rel_sdk [OF assms(2)])
qed

theorem pool_history_is_sdk_tree_witness:
  "\<exists>t st h roots s. init_merkle_account seven_syscall 1 255 = Inr t \<and> pool_run seven_syscall (toy_state t) h st
     \<and> feed (sdk_append (\<lambda>_ _. 7)) [3, 9] (merkle_new (\<lambda>_ _. 7) 20) = Inr (roots, s)
     \<and> unat (next_leaf_index (ps_tree st)) = 2"
proof -
  obtain t where t: "init_merkle_account seven_syscall 1 255 = Inr t"
    using init_merkle_account_inr [OF seven_parity] by blast
  then have t': "init_merkle_account seven_syscall 1 255 = Inr (ps_tree (toy_state t))"
    by (simp add: toy_state_def)
  let ?h = "[(20 :: u64, toy_withdraw), (10, toy_deposit)]"
  obtain st where run: "pool_run seven_syscall (toy_state t) ?h st" using toy_run [OF t] ..
  have leaves: "history_leaves ?h = map fe_bytes [3, 9]"
    by (simp add: history_leaves_def toy_signals_def toy_withdraw_def toy_deposit_def)
  have f: "list_all is_field [3, 9]" by (simp add: is_field_def bn254_fr_def)
  from pool_history_is_sdk_tree [OF run seven_parity t' leaves f] t run show ?thesis by auto
qed

end
