(* ===== verification/PoolSpend.thy ===== *)
theory PoolSpend
  imports PoolProgram SdkProver
begin

text \<open>
  What a spend means on chain: who is paid how much, under which verifying key, and which notes
  the handler of \<open>withdraw\<close> can accept at all, stated between the values the SDK's prover puts into
  the public signals and the checks of the program.
\<close>

section \<open>Payout\<close>

text \<open>The token program moves exactly the amount between two different accounts, or fails.\<close>

definition ledger_moves :: "('l \<Rightarrow> pubkey \<Rightarrow> nat) \<Rightarrow> 'l chain_env \<Rightarrow> bool" where
  "ledger_moves bal env \<longleftrightarrow> (\<forall>src dst a l l'. src \<noteq> dst \<longrightarrow> ce_transfer env src dst a l = Some l' \<longrightarrow>
     unat a \<le> bal l src \<and> bal l' = (bal l)(src := bal l src - unat a, dst := bal l dst + unat a))"

lemma ledger_movesD:
  "ledger_moves bal env \<Longrightarrow> ce_transfer env src dst a l = Some l' \<Longrightarrow> src \<noteq> dst \<Longrightarrow>
     unat a \<le> bal l src \<and> bal l' = (bal l)(src := bal l src - unat a, dst := bal l dst + unat a)"
  by (auto simp: ledger_moves_def)

definition protocol_fee :: "pool_config \<Rightarrow> nat \<Rightarrow> nat" where
  "protocol_fee cfg pay = (if pc_fee_vault cfg = default_pubkey then 0 else pay * unat (pc_fee_bps cfg) div 10000)"

lemma fee_word:
  assumes "unat (payment :: u64) * unat bps < 2 ^ 64"
  shows "unat (payment * ucast (bps :: 16 word) div 10000) = unat payment * unat bps div 10000"
proof -
  have "unat bps < 2 ^ 64" by (rule less_trans [OF unsigned_less]) simp
  then have "unat (ucast bps :: u64) = unat bps" by (simp add: unsigned_ucast_eq take_bit_eq_mod)
  then have "unat (payment * ucast bps) = unat payment * unat bps"
    using assms by (simp add: unat_word_ariths take_bit_eq_mod)
  then show ?thesis by (simp add: unat_div)
qed

lemma pay_out_Inr:
  assumes run: "pay_out env ctx payment st = Inr l" and led: "ledger_moves bal env"
    and vault: "v = dn_vault (ps_denom st)" and rcpt: "r = tv_key (wc_recipient ctx)" "v \<noteq> r"
    and fv: "f = pc_fee_vault (ps_config st)" "f \<noteq> default_pubkey \<Longrightarrow> f \<noteq> v \<and> f \<noteq> r"
    and fee: "fee = protocol_fee (ps_config st) (unat payment)"
  shows "unat payment \<le> bal (ps_ledger st) v \<and> fee \<le> unat payment
     \<and> bal l = (\<lambda>k. if k = v then bal (ps_ledger st) v - unat payment
              else if k = r then bal (ps_ledger st) r + (unat payment - fee)
              else if k = f \<and> f \<noteq> default_pubkey then bal (ps_ledger st) f + fee
              else bal (ps_ledger st) k)"
proof (cases "f = default_pubkey")
  case True
  then have "ce_transfer env v r payment (ps_ledger st) = Some l"
    using run by (simp add: pay_out_def Let_def vault rcpt fv(1) res_simps)
  from ledger_movesD [OF led this rcpt(2)] show ?thesis
    using True rcpt(2) by (auto simp: fee protocol_fee_def fv(1) [symmetric])
next
  case False
  let ?w = "payment * ucast (pc_fee_bps (ps_config st)) div 10000"
  obtain l1 where ok: "unat payment * unat (pc_fee_bps (ps_config st)) < 2 ^ 64" "?w \<le> payment"
    "ce_transfer env v r (payment - ?w) (ps_ledger st) = Some l1" "ce_transfer env v f ?w l1 = Some l"
    using run False by (auto simp: pay_out_def Let_def vault rcpt fv(1) res_simps)
  have w: "unat ?w = fee" using fee_word [OF ok(1)] False by (simp add: fee protocol_fee_def fv(1))
  then have le: "fee \<le> unat payment" using ok(2) by (simp add: word_le_nat_alt)
  have sub: "unat (payment - ?w) = unat payment - fee" using ok(2) w by (simp add: unat_sub)
  have f: "f \<noteq> v" "f \<noteq> r" using fv(2) False by auto
  have s1: "unat payment - fee \<le> bal (ps_ledger st) v"
    "bal l1 = (bal (ps_ledger st))(v := bal (ps_ledger st) v - (unat payment - fee),
       r := bal (ps_ledger st) r + (unat payment - fee))"
    using ledger_movesD [OF led ok(3) rcpt(2)] by (simp_all add: sub)
  have s2: "fee \<le> bal l1 v" "bal l = (bal l1)(v := bal l1 v - fee, f := bal l1 f + fee)"
    using ledger_movesD [OF led ok(4) f(1) [symmetric]] by (simp_all only: w)
  show ?thesis using s1 s2 f rcpt(2) le False by (auto simp: fun_eq_iff)
qed

lemma field_from_u64_eq: "field_from_u64 v = be_bytes 32 (unat v)"
proof -
  have "unat v < 256 ^ 8" using unsigned_less [of v] by simp
  then have "be_val (field_from_u64 v) = be_val (be_bytes 32 (unat v))"
    by (simp add: field_from_u64_def be_val_zeros_append be_val_be_bytes)
  then show ?thesis
    by (subst (asm) be_val_inject) (simp_all add: field_from_u64_def zeros_def)
qed

lemma payment_of_val:
  assumes "list_all (\<lambda>b. b = 0) (take 24 (sigs ! 4))" "length (sigs ! 4) = 32"
  shows "unat (payment_of sigs) = be_val (sigs ! 4)"
proof -
  let ?tl = "drop 24 (sigs ! 4)"
  have "take 24 (sigs ! 4) = zeros 24"
    using assms by (intro nth_equalityI) (auto simp: list_all_length zeros_def)
  then have v: "be_val (sigs ! 4) = be_val ?tl"
    by (metis append_take_drop_id be_val_zeros_append)
  have "be_val ?tl < 2 ^ 64" using be_val_less [of ?tl] assms(2) by simp
  moreover have "slice 24 32 (sigs ! 4) = ?tl" using assms(2) by (simp add: slice_def)
  ultimately show ?thesis by (simp add: payment_of_def v unat_of_nat take_bit_eq_mod)
qed

section \<open>The verifying key\<close>

text \<open>What the log of a run has to contain for the key hash to have become \<open>vk\<close>.\<close>

definition timelocked_upgrade :: "pubkey \<Rightarrow> (u64 \<times> pool_call) list \<Rightarrow> bytes \<Rightarrow> bool" where
  "timelocked_upgrade admin h vk \<longleftrightarrow>
     (\<exists>s s'. (s, QueueVk admin vk) \<in> set h \<and> (s', ApplyVk admin) \<in> set h \<and> unat s + 432000 \<le> unat s')"

lemma timelocked_upgrade_mono: "timelocked_upgrade admin h vk \<Longrightarrow> timelocked_upgrade admin (e # h) vk"
  by (auto simp: timelocked_upgrade_def)

definition vk_inv :: "pool_config \<Rightarrow> (u64 \<times> pool_call) list \<Rightarrow> pool_config \<Rightarrow> bool" where
  "vk_inv c0 h c \<longleftrightarrow> pc_admin c = pc_admin c0
     \<and> (pc_vk_hash c = pc_vk_hash c0 \<or> timelocked_upgrade (pc_admin c0) h (pc_vk_hash c))
     \<and> (pc_pending_slot c \<noteq> 0 \<longrightarrow> (\<exists>s. (s, QueueVk (pc_admin c0) (pc_pending_vk_hash c)) \<in> set h
          \<and> unat (pc_pending_slot c) = unat s + 432000))"

lemma vk_inv_frame: "vk_inv c0 h c \<Longrightarrow> pc_admin c' = pc_admin c \<Longrightarrow> pc_vk_hash c' = pc_vk_hash c \<Longrightarrow>
    pc_pending_slot c' = pc_pending_slot c \<Longrightarrow> pc_pending_vk_hash c' = pc_pending_vk_hash c \<Longrightarrow>
    vk_inv c0 (e # h) c'"
  by (auto simp: vk_inv_def intro: timelocked_upgrade_mono)

lemma queue_vk_Inr:
  assumes "queue_vk_upgrade signer now vk c = Inr c'"
  shows "pc_admin c = signer \<and> c' = c\<lparr>pc_pending_vk_hash := vk, pc_pending_slot := now + 432000\<rparr>
     \<and> unat (now + 432000) = unat now + 432000"
  using assms
  by (auto simp: queue_vk_upgrade_def admin_only_def pending_vk_lock_slots_def Let_def unat_word_ariths
      take_bit_eq_mod split: if_splits)

lemma apply_vk_Inr:
  assumes "apply_vk_upgrade signer now c = Inr c'"
  shows "pc_admin c = signer \<and> pc_pending_slot c \<noteq> 0 \<and> pc_pending_slot c \<le> now
     \<and> c' = c\<lparr>pc_vk_hash := pc_pending_vk_hash c, pc_pending_vk_hash := zeros 32, pc_pending_slot := 0\<rparr>"
  using assms by (auto simp: apply_vk_upgrade_def admin_only_def split: if_splits)

lemma vk_inv_exec:
  assumes "pool_exec env c st = Inr st'" "vk_inv c0 h (ps_config st)"
  shows "vk_inv c0 ((ce_slot env, c) # h) (ps_config st')"
proof (cases c)
  case (Deposit ata d den c')
  then have "pool_deposit env ata d den c' st = Inr st'" using assms by simp
  then show ?thesis by (rule pool_deposit_Inr) (simp add: vk_inv_frame [OF assms(2)])
next
  case (Withdraw ctx den nul pf sigs)
  then have "pool_withdraw env ctx den nul pf sigs st = Inr st'" using assms by simp
  then show ?thesis by (rule pool_withdraw_Inr) (simp add: vk_inv_frame [OF assms(2)])
next
  case (SetPaused signer p)
  then show ?thesis using assms
    by (auto simp: with_config_Inr set_paused_def admin_only_def intro!: vk_inv_frame split: if_splits)
next
  case (SetFeeVault signer fv)
  then show ?thesis using assms
    by (auto simp: with_config_Inr set_fee_vault_def admin_only_def intro!: vk_inv_frame split: if_splits)
next
  case (QueueVk signer vk)
  then obtain cfg where cfg: "queue_vk_upgrade signer (ce_slot env) vk (ps_config st) = Inr cfg"
    "st' = st\<lparr>ps_config := cfg\<rparr>" using assms(1) by (auto simp: with_config_Inr)
  from queue_vk_Inr [OF cfg(1)] show ?thesis
    using assms(2) QueueVk cfg(2) by (auto simp: vk_inv_def intro: timelocked_upgrade_mono)
next
  case (ApplyVk signer)
  then obtain cfg where cfg: "apply_vk_upgrade signer (ce_slot env) (ps_config st) = Inr cfg"
    "st' = st\<lparr>ps_config := cfg\<rparr>" using assms(1) by (auto simp: with_config_Inr)
  from apply_vk_Inr [OF cfg(1)] have a: "pc_admin (ps_config st) = signer"
    "pc_pending_slot (ps_config st) \<noteq> 0" "unat (pc_pending_slot (ps_config st)) \<le> unat (ce_slot env)"
    "cfg = (ps_config st)\<lparr>pc_vk_hash := pc_pending_vk_hash (ps_config st), pc_pending_vk_hash := zeros 32,
       pc_pending_slot := 0\<rparr>" by (auto simp: word_le_nat_alt)
  obtain s where s: "(s, QueueVk (pc_admin c0) (pc_pending_vk_hash (ps_config st))) \<in> set h"
    "unat (pc_pending_slot (ps_config st)) = unat s + 432000" using assms(2) a(2) by (auto simp: vk_inv_def)
  have "timelocked_upgrade (pc_admin c0) ((ce_slot env, c) # h) (pc_vk_hash cfg)"
    unfolding timelocked_upgrade_def
    using s a ApplyVk assms(2) by (intro exI [of _ s] exI [of _ "ce_slot env"]) (auto simp: vk_inv_def)
  then show ?thesis using assms(2) a(4) cfg(2) by (simp add: vk_inv_def)
qed

section \<open>Properties\<close>

text \<open>
  C9. A withdraw pays exactly what its proof says: the vault loses the payment amount of public
  signal 4, the recipient gains it less the protocol fee \<open>payment * fee_bps / 10000\<close>, the configured
  fee vault gains that fee (none is taken when no fee vault is set), no other account changes, and
  the note's nullifier is the only record created.
\<close>

theorem withdraw_pays_exactly:
  assumes "pool_withdraw env ctx den nul pf sigs st = Inr st'" "ledger_moves bal env"
    and "length (sigs ! 4) = 32"
    and "v = dn_vault (ps_denom st)" "r = tv_key (wc_recipient ctx)" "v \<noteq> r"
    and "f = pc_fee_vault (ps_config st)" "f \<noteq> default_pubkey \<Longrightarrow> f \<noteq> v \<and> f \<noteq> r"
    and "pay = be_val (sigs ! 4)" "fee = protocol_fee (ps_config st) pay"
  shows "pay \<le> bal (ps_ledger st) v \<and> fee \<le> pay
     \<and> bal (ps_ledger st') = (\<lambda>k. if k = v then bal (ps_ledger st) v - pay
              else if k = r then bal (ps_ledger st) r + (pay - fee)
              else if k = f \<and> f \<noteq> default_pubkey then bal (ps_ledger st) f + fee
              else bal (ps_ledger st) k)
     \<and> spent_keys st' = (den, nul) # spent_keys st"
proof -
  obtain l root tree where w: "withdraw_checks env ctx den nul pf sigs st"
    "pay_out env ctx (payment_of sigs) st = Inr l" "st' = st\<lparr>ps_ledger := l, ps_tree := tree,
             ps_nullifiers := \<lparr>nr_denom_id = den, nr_nullifier_hash = sigs ! 2,
               nr_spent_at_slot = ce_slot env, nr_bump = wc_bump ctx\<rparr> # ps_nullifiers st\<rparr>"
    using assms(1) by (rule pool_withdraw_Inr)
  have pay: "unat (payment_of sigs) = pay"
    using w(1) assms(3,9) by (simp add: payment_of_val withdraw_checks_def)
  have "spent_keys st' = (den, nul) # spent_keys st"
    using w(1,3) by (simp add: spent_keys_def withdraw_checks_def)
  then show ?thesis
    using pay_out_Inr [OF w(2) assms(2,4,5,6,7,8), of fee, unfolded pay] assms(10) w(3) by simp
qed

lemma toy_ledger_moves: "ledger_moves (\<lambda>l. l) (toy_env slot)"
  by (auto simp: ledger_moves_def toy_env_def toy_transfer_def Let_def fun_eq_iff split: if_splits)

theorem withdraw_pays_exactly_witness:
  "\<exists>t st1 st. init_merkle_account seven_syscall 1 255 = Inr t
     \<and> pool_exec (toy_env 10) toy_deposit (toy_state t) = Inr st1
     \<and> pool_exec (toy_env 20) toy_withdraw st1 = Inr st
     \<and> ps_ledger st toy_vault + 400000 = ps_ledger st1 toy_vault
     \<and> ps_ledger st (zeros 32) = ps_ledger st1 (zeros 32) + 400000"
proof -
  obtain t where t: "init_merkle_account seven_syscall 1 255 = Inr t"
    using init_merkle_account_inr [OF seven_parity] by blast
  obtain st1 st where run: "pool_exec (toy_env 10) toy_deposit (toy_state t) = Inr st1"
    "pool_exec (toy_env 20) toy_withdraw st1 = Inr st"
    "ps_config st1 = ps_config (toy_state t)" "dn_vault (ps_denom st1) = toy_vault"
    using toy_steps [OF t] by blast
  have w: "pool_withdraw (toy_env 20) toy_ctx 1 (fe_bytes 5) [] toy_signals st1 = Inr st"
    using run(2) by (simp add: toy_withdraw_def)
  have sig: "length (toy_signals ! 4) = 32" "400000 = be_val (toy_signals ! 4)"
    by (simp_all add: toy_signals_def field_from_u64_eq be_val_be_bytes)
  have fv: "pc_fee_vault (ps_config st1) = default_pubkey" by (simp add: run(3) toy_state_def)
  have fee: "0 = protocol_fee (ps_config st1) 400000" by (simp add: protocol_fee_def fv)
  have v: "toy_vault = dn_vault (ps_denom st1)" "zeros 32 = tv_key (wc_recipient toy_ctx)"
    "toy_vault \<noteq> zeros 32" by (simp_all add: run(4) toy_ctx_def toy_tv_def)
  from withdraw_pays_exactly [OF w toy_ledger_moves sig(1) v fv [symmetric] _ sig(2) fee]
  show ?thesis using t run(1,2) by (auto simp: fun_eq_iff)
qed

text \<open>
  C21. The verifying key is time-locked: however calls follow each other, the key hash of the
  configuration is the initial one or one the admin queued and applied at least 432000 slots later,
  and a withdraw succeeds only while the program embeds the key of that hash.
\<close>

theorem vk_upgrade_timelocked:
  assumes "pool_run hash2 st0 h st" "pc_pending_slot (ps_config st0) = 0"
    and "pool_withdraw env ctx den nul pf sigs st = Inr st'"
  shows "ce_vk_hash env = pc_vk_hash (ps_config st0)
     \<or> timelocked_upgrade (pc_admin (ps_config st0)) h (ce_vk_hash env)"
proof -
  have "vk_inv (ps_config st0) h (ps_config st)"
    using assms(1)
  proof induction
    case start
    then show ?case using assms(2) by (simp add: vk_inv_def)
  next
    case (call h st env c st')
    then show ?case by (blast intro: vk_inv_exec)
  qed
  moreover have "ce_vk_hash env = pc_vk_hash (ps_config st)"
    using assms(3) by (rule pool_withdraw_Inr) (simp add: withdraw_checks_def)
  ultimately show ?thesis by (simp add: vk_inv_def)
qed

theorem vk_upgrade_timelocked_witness:
  "\<exists>t st1 st. init_merkle_account seven_syscall 1 255 = Inr t
     \<and> pool_run seven_syscall (toy_state t) [(10, toy_deposit)] st1
     \<and> pool_exec (toy_env 20) toy_withdraw st1 = Inr st
     \<and> (ce_vk_hash (toy_env 20) = zeros 32 \<or> timelocked_upgrade (zeros 32) [(10, toy_deposit)] (ce_vk_hash (toy_env 20)))"
proof -
  obtain t where t: "init_merkle_account seven_syscall 1 255 = Inr t"
    using init_merkle_account_inr [OF seven_parity] by blast
  obtain st1 st where ex: "pool_exec (toy_env 10) toy_deposit (toy_state t) = Inr st1"
    "pool_exec (toy_env 20) toy_withdraw st1 = Inr st" using toy_steps [OF t] by blast
  have "pool_run seven_syscall (toy_state t) [(ce_slot (toy_env 10), toy_deposit)] st1"
    by (rule pool_run.call [OF pool_run.start _ ex(1)]) (simp add: toy_env_def)
  then have run: "pool_run seven_syscall (toy_state t) [(10, toy_deposit)] st1" by (simp add: toy_env_def)
  have w: "pool_withdraw (toy_env 20) toy_ctx 1 (fe_bytes 5) [] toy_signals st1 = Inr st"
    using ex(2) by (simp add: toy_withdraw_def)
  have p: "pc_pending_slot (ps_config (toy_state t)) = 0" by (simp add: toy_state_def)
  from vk_upgrade_timelocked [OF run p w] show ?thesis
    using t run ex(2) by (auto simp: toy_state_def)
qed

text \<open>
  C22. The handler spends only notes of the tier's full value: whatever proof comes with it, a
  withdraw whose amount signal is that of a note of another value fails, so the change note of a
  partial payment, which carries what is left under the same denomination, is never accepted.
\<close>

theorem change_note_never_accepted:
  assumes "build_witness P r1 r2 c mp recipient pay = Inr w"
    and "dec_string_to_be32 (wi_amount w) = Inr (sigs ! 0)"
    and "0 \<le> cm_amount c" "cm_amount c < 2 ^ 64"
    and "cm_amount c \<noteq> int (unat (dn_amount (ps_denom st)))"
  shows "\<exists>e. pool_withdraw env ctx den nul pf sigs st = Inl e"
proof (rule ccontr)
  assume "\<not> ?thesis"
  then obtain st' where "pool_withdraw env ctx den nul pf sigs st = Inr st'"
    by (metis sum.exhaust)
  then have eq: "sigs ! 0 = be_bytes 32 (unat (dn_amount (ps_denom st)))"
    by (rule pool_withdraw_Inr) (simp add: withdraw_checks_def field_from_u64_eq)
  obtain n where n: "cm_amount c = int n" using assms(3) nonneg_int_cases by blast
  have "wi_amount w = nat_str 10 n"
    using assms(1) by (auto simp: build_witness_def bindE_Inr_iff Let_def n int_str_def)
  then have "sigs ! 0 = be_bytes 32 n"
    using assms(2) by (simp add: dec_string_to_be32_eq field_dec_to_be32_nat)
  moreover have "n < 256 ^ 32" using assms(4) n by simp
  moreover have "unat (dn_amount (ps_denom st)) < 256 ^ 32"
    by (rule less_trans [OF unsigned_less]) simp
  ultimately show False using eq assms(5) n be_bytes_inject by (metis of_nat_eq_iff)
qed

theorem change_note_never_accepted_witness:
  "\<exists>w t. build_witness (\<lambda>_. 7) [1] [2] \<lparr>cm_secret = ''1'', cm_nullifier = ''2'', cm_amount = 600000, cm_denom_id = 1\<rparr>
       \<lparr>mp_path_elements = [], mp_path_indices = [], mp_root = ''7''\<rparr> ''5'' 100000 = Inr w
     \<and> (\<exists>e. pool_withdraw (toy_env 20) toy_ctx 1 (fe_bytes 5) [] (be_bytes 32 600000 # tl toy_signals)
           (toy_state t) = Inl e)"
proof -
  let ?c = "\<lparr>cm_secret = ''1'', cm_nullifier = ''2'', cm_amount = 600000, cm_denom_id = 1\<rparr>"
  let ?mp = "\<lparr>mp_path_elements = [], mp_path_indices = [], mp_root = ''7''\<rparr>"
  have n: "''1'' = nat_str 10 1" "''2'' = nat_str 10 2" by code_simp+
  have bw: "\<exists>w. build_witness (\<lambda>_. 7) [1] [2] ?c ?mp ''5'' 100000 = Inr w \<and> wi_amount w = nat_str 10 600000"
    by (subst build_witness_inr [where sec = 1 and nul = 2]) (simp_all add: n int_str_def)
  then obtain w where w: "build_witness (\<lambda>_. 7) [1] [2] ?c ?mp ''5'' 100000 = Inr w"
    "wi_amount w = nat_str 10 600000" by blast
  let ?s = "be_bytes 32 600000 # tl toy_signals"
  have a: "dec_string_to_be32 (wi_amount w) = Inr (?s ! 0)"
    by (simp add: w(2) dec_string_to_be32_eq field_dec_to_be32_nat)
  have "\<exists>e. pool_withdraw (toy_env 20) toy_ctx 1 (fe_bytes 5) [] ?s (toy_state t) = Inl e" for t
    by (rule change_note_never_accepted [OF w(1) a]) (simp_all add: toy_state_def)
  with w(1) show ?thesis by blast
qed

text \<open>
  SDK and program agree on the recipient: the decimal string the SDK proves for a 32-byte
  public key is below the field modulus, and its public signal is the word the program computes
  from the owner of the recipient's token account.
\<close>

theorem recipient_signal_agrees:
  assumes "length pk = 32"
  shows "\<exists>s. pubkey_to_field_string pk = Inr s
     \<and> dec_string_to_be32 s = Inr (pool_pubkey_to_field pk)
     \<and> be_val (pool_pubkey_to_field pk) < bn254_fr"
proof -
  have out: "pubkey_to_field pk = Inr (pool_pubkey_to_field pk)"
    using assms by (simp add: pubkey_to_field_def as_bytes_def pool_pubkey_to_field_def)
  have "pool_pubkey_to_field pk = (pk ! 0 AND 0x1f) # tl pk"
    using assms by (cases pk) (simp_all add: pool_pubkey_to_field_def)
  moreover have "(2 :: nat) ^ 253 < bn254_fr" by (simp add: bn254_fr_def)
  ultimately have bound: "be_val (pool_pubkey_to_field pk) < bn254_fr"
    using pubkey_field_bound [OF assms] by (metis less_trans)
  have "length (pool_pubkey_to_field pk) = 32" using assms by (simp add: pool_pubkey_to_field_def)
  then have "be_bytes 32 (be_val (pool_pubkey_to_field pk)) = pool_pubkey_to_field pk"
    by (rule be_bytes_be_val)
  then show ?thesis
    using bound out
    by (simp add: pubkey_to_field_string_def dec_string_to_be32_eq field_dec_to_be32_nat)
qed

theorem recipient_signal_agrees_witness:
  "\<exists>s. pubkey_to_field_string token_program_id = Inr s
     \<and> dec_string_to_be32 s = Inr (pool_pubkey_to_field token_program_id)"
  using recipient_signal_agrees [of token_program_id] by (auto simp: token_program_id_def)

end
