(* ===== verification/PoolDispatch.thy ===== *)
theory PoolDispatch
  imports PoolSpend
begin

text \<open>
  The program \<open>qietr_pool\<close> from the outside: an instruction with its account list and its data goes
  through Anchor's dispatch, the Borsh arguments, the account constraints of \<open>lib.rs\<close> (addresses by
  seeds, \<open>mut\<close>, \<open>Signer\<close>, program ids, \<open>init\<close>) and then into the handlers of \<open>PoolProgram\<close>. The state
  holds the configuration and all denominations. Rent and the owner and discriminator of an account
  are left to the address: \<open>init\<close> is the only way an account of the program comes into being, at the
  address of its seeds and with the bump found there, so an account of a type stands at no other one.
\<close>

section \<open>State\<close>

record 'l pool_world =
  pw_config :: "pool_config option"
  pw_denoms :: "byte \<rightharpoonup> denomination_account \<times> merkle_account"
  pw_nullifiers :: "nullifier_account list"
  pw_ledger :: 'l

text \<open>
  What the runtime and the libraries supply besides the environment of the handlers: SHA-256,
  \<open>find_program_address\<close>, the program's id, the rent sysvar, and of the token program the owner and
  mint of a token account, which accounts are mints, and the opening of a vault that owns itself.
\<close>

record 'l program_env =
  pe_chain :: "'l chain_env"
  pe_sha :: hash_fun
  pe_fpa :: pda_fun
  pe_id :: pubkey
  pe_rent :: pubkey
  pe_token :: "'l \<Rightarrow> pubkey \<Rightarrow> (pubkey \<times> pubkey) option"
  pe_mint :: "'l \<Rightarrow> pubkey \<Rightarrow> bool"
  pe_open_vault :: "pubkey \<Rightarrow> pubkey \<Rightarrow> 'l \<Rightarrow> 'l option"

datatype program_error =
    Chain chain_error | OtherProgram | InstructionFallbackNotFound | DidNotDeserialize | AccountNotEnoughKeys
  | AccountNotInitialized | AlreadyInUse | ConstraintMut | AccountNotSigner | InvalidProgramId | InvalidSysvar

definition chainE :: "chain_error + 'a \<Rightarrow> program_error + 'a" where
  "chainE r = (case r of Inl e \<Rightarrow> Inl (Chain e) | Inr a \<Rightarrow> Inr a)"

text \<open>The accounts of one denomination, as the handlers see them, and their way back.\<close>

definition denom_state :: "byte \<Rightarrow> 'l pool_world \<Rightarrow> 'l pool_state option" where
  "denom_state d w =
     (case (pw_config w, pw_denoms w d) of
        (Some cfg, Some (dn, t)) \<Rightarrow> Some \<lparr>ps_config = cfg, ps_denom = dn, ps_tree = t,
          ps_nullifiers = pw_nullifiers w, ps_ledger = pw_ledger w\<rparr>
      | _ \<Rightarrow> None)"

definition store_denom :: "byte \<Rightarrow> 'l pool_state \<Rightarrow> 'l pool_world \<Rightarrow> 'l pool_world" where
  "store_denom d st w = w\<lparr>pw_config := Some (ps_config st), pw_denoms := (pw_denoms w)(d \<mapsto> (ps_denom st, ps_tree st)),
     pw_nullifiers := ps_nullifiers st, pw_ledger := ps_ledger st\<rparr>"

section \<open>Account constraints\<close>

text \<open>The seeds of \<open>lib.rs\<close>; \<open>u8::to_le_bytes\<close> is the byte itself.\<close>

definition config_seeds :: "bytes list" where
  "config_seeds = [utf8_ascii ''config'']"

definition denom_seeds :: "byte \<Rightarrow> bytes list" where
  "denom_seeds d = [utf8_ascii ''denom'', [d]]"

definition tree_seeds :: "byte \<Rightarrow> bytes list" where
  "tree_seeds d = [utf8_ascii ''tree'', [d]]"

definition vault_seeds :: "byte \<Rightarrow> bytes list" where
  "vault_seeds d = [utf8_ascii ''vault'', [d]]"

definition nullifier_seeds :: "byte \<Rightarrow> bytes \<Rightarrow> bytes list" where
  "nullifier_seeds d h = [utf8_ascii ''nullifier'', [d], h]"

definition pda :: "'l program_env \<Rightarrow> bytes list \<Rightarrow> pubkey" where
  "pda env seeds = fst (pe_fpa env seeds (pe_id env))"

definition bump_of :: "'l program_env \<Rightarrow> bytes list \<Rightarrow> byte" where
  "bump_of env seeds = word_of_nat (snd (pe_fpa env seeds (pe_id env)))"

text \<open>Constraints are checked one after the other; the first that fails is the error.\<close>

fun check_all :: "(bool \<times> program_error) list \<Rightarrow> program_error + unit" where
  "check_all [] = Inr ()"
| "check_all ((ok, e) # cs) = bindE (guardE ok e) (\<lambda>_. check_all cs)"

definition at_seeds :: "'l program_env \<Rightarrow> account_meta list \<Rightarrow> nat \<Rightarrow> bytes list \<Rightarrow> bool \<times> program_error" where
  "at_seeds env keys i seeds = (am_pubkey (keys ! i) = pda env seeds, Chain ConstraintSeeds)"

definition is_mut :: "account_meta list \<Rightarrow> nat \<Rightarrow> bool \<times> program_error" where
  "is_mut keys i = (am_writable (keys ! i), ConstraintMut)"

definition is_signer :: "account_meta list \<Rightarrow> nat \<Rightarrow> bool \<times> program_error" where
  "is_signer keys i = (am_signer (keys ! i), AccountNotSigner)"

definition is_program :: "account_meta list \<Rightarrow> nat \<Rightarrow> pubkey \<Rightarrow> bool \<times> program_error" where
  "is_program keys i pid = (am_pubkey (keys ! i) = pid, InvalidProgramId)"

definition is_token :: "'l program_env \<Rightarrow> 'l pool_world \<Rightarrow> account_meta list \<Rightarrow> nat \<Rightarrow> bool \<times> program_error" where
  "is_token env w keys i = (pe_token env (pw_ledger w) (am_pubkey (keys ! i)) \<noteq> None, AccountNotInitialized)"

definition is_vault :: "byte \<Rightarrow> 'l pool_world \<Rightarrow> account_meta list \<Rightarrow> nat \<Rightarrow> bool \<times> program_error" where
  "is_vault d w keys i = (case pw_denoms w d of Some (dn, t) \<Rightarrow> am_pubkey (keys ! i) = dn_vault dn | None \<Rightarrow> False,
     Chain (Pool UnknownDenomination))"

definition token_at :: "'l program_env \<Rightarrow> 'l pool_world \<Rightarrow> pubkey \<Rightarrow> program_error + token_view" where
  "token_at env w k =
     (case pe_token env (pw_ledger w) k of
        None \<Rightarrow> Inl AccountNotInitialized
      | Some (owner, mint) \<Rightarrow> Inr \<lparr>tv_key = k, tv_owner = owner, tv_mint = mint\<rparr>)"

definition initialize_pool_constraints ::
    "'l program_env \<Rightarrow> account_meta list \<Rightarrow> 'l pool_world \<Rightarrow> (bool \<times> program_error) list" where
  "initialize_pool_constraints env keys w =
     [(3 \<le> length keys, AccountNotEnoughKeys),
      at_seeds env keys 0 config_seeds, is_mut keys 0, (pw_config w = None, AlreadyInUse),
      is_mut keys 1, is_signer keys 1, is_program keys 2 system_program_id]"

definition initialize_denomination_constraints ::
    "'l program_env \<Rightarrow> byte \<Rightarrow> account_meta list \<Rightarrow> 'l pool_world \<Rightarrow> (bool \<times> program_error) list" where
  "initialize_denomination_constraints env d keys w =
     [(9 \<le> length keys, AccountNotEnoughKeys),
      at_seeds env keys 0 config_seeds, (pw_config w \<noteq> None, AccountNotInitialized),
      (map_option pc_admin (pw_config w) = Some (am_pubkey (keys ! 5)), Chain (Pool NotAdmin)),
      at_seeds env keys 1 (denom_seeds d), is_mut keys 1, (pw_denoms w d = None, AlreadyInUse),
      at_seeds env keys 2 (tree_seeds d), is_mut keys 2,
      at_seeds env keys 3 (vault_seeds d), is_mut keys 3,
      (pe_mint env (pw_ledger w) (am_pubkey (keys ! 4)), AccountNotInitialized),
      is_mut keys 5, is_signer keys 5,
      is_program keys 6 token_program_id, is_program keys 7 system_program_id,
      (am_pubkey (keys ! 8) = pe_rent env, InvalidSysvar)]"

definition deposit_constraints ::
    "'l program_env \<Rightarrow> byte \<Rightarrow> account_meta list \<Rightarrow> 'l pool_world \<Rightarrow> (bool \<times> program_error) list" where
  "deposit_constraints env d keys w =
     [(7 \<le> length keys, AccountNotEnoughKeys),
      at_seeds env keys 0 config_seeds, (pw_config w \<noteq> None, AccountNotInitialized),
      at_seeds env keys 1 (denom_seeds d), is_mut keys 1, (pw_denoms w d \<noteq> None, AccountNotInitialized),
      at_seeds env keys 2 (tree_seeds d), is_mut keys 2,
      at_seeds env keys 3 (vault_seeds d), is_mut keys 3, is_token env w keys 3, is_vault d w keys 3,
      is_mut keys 4, is_mut keys 5, is_signer keys 5, is_program keys 6 token_program_id]"

definition withdraw_constraints ::
    "'l program_env \<Rightarrow> byte \<Rightarrow> bytes \<Rightarrow> account_meta list \<Rightarrow> 'l pool_world \<Rightarrow> (bool \<times> program_error) list" where
  "withdraw_constraints env d nul keys w =
     [(10 \<le> length keys, AccountNotEnoughKeys),
      at_seeds env keys 0 config_seeds, (pw_config w \<noteq> None, AccountNotInitialized),
      at_seeds env keys 1 (denom_seeds d), (pw_denoms w d \<noteq> None, AccountNotInitialized),
      at_seeds env keys 2 (tree_seeds d), is_mut keys 2,
      at_seeds env keys 3 (vault_seeds d), is_mut keys 3, is_token env w keys 3, is_vault d w keys 3,
      at_seeds env keys 4 (nullifier_seeds d nul), is_mut keys 4,
      is_mut keys 5, (am_pubkey (keys ! 6) = pe_id env \<or> am_writable (keys ! 6), ConstraintMut),
      is_mut keys 7, is_signer keys 7,
      is_program keys 8 token_program_id, is_program keys 9 system_program_id]"

definition admin_constraints :: "'l program_env \<Rightarrow> account_meta list \<Rightarrow> 'l pool_world \<Rightarrow> (bool \<times> program_error) list" where
  "admin_constraints env keys w =
     [(2 \<le> length keys, AccountNotEnoughKeys),
      at_seeds env keys 0 config_seeds, is_mut keys 0, (pw_config w \<noteq> None, AccountNotInitialized), is_signer keys 1]"

definition set_fee_vault_constraints ::
    "'l program_env \<Rightarrow> account_meta list \<Rightarrow> 'l pool_world \<Rightarrow> (bool \<times> program_error) list" where
  "set_fee_vault_constraints env keys w =
     (3 \<le> length keys, AccountNotEnoughKeys) # admin_constraints env keys w @ [is_token env w keys 2]"

section \<open>Instructions\<close>

definition new_denomination :: "'l program_env \<Rightarrow> byte \<Rightarrow> u64 \<Rightarrow> pubkey \<Rightarrow> denomination_account" where
  "new_denomination env d amount mint =
     \<lparr>dn_denom_id = d, dn_amount = amount, dn_deposit_count = 0, dn_vault = pda env (vault_seeds d), dn_mint = mint,
      dn_vault_bump = bump_of env (vault_seeds d), dn_bump = bump_of env (denom_seeds d)\<rparr>"

definition initialize_denomination ::
    "'l program_env \<Rightarrow> byte \<Rightarrow> u64 \<Rightarrow> pubkey \<Rightarrow> 'l pool_world \<Rightarrow> program_error + 'l pool_world" where
  "initialize_denomination env d amount mint w =
     bindE (optE (Chain TokenError) (pe_open_vault env (pda env (vault_seeds d)) mint (pw_ledger w))) (\<lambda>ledger.
     bindE (chainE (lift_pool (init_merkle_account (ce_hash2 (pe_chain env)) d (bump_of env (tree_seeds d))))) (\<lambda>tree.
     Inr (w\<lparr>pw_denoms := (pw_denoms w)(d \<mapsto> (new_denomination env d amount mint, tree)), pw_ledger := ledger\<rparr>)))"

text \<open>Borsh reads the arguments in their order and does not look at what follows them.\<close>

definition withdraw_signals :: "bytes \<Rightarrow> bytes list" where
  "withdraw_signals data = map (\<lambda>i. slice (297 + 32 * i) (329 + 32 * i) data) [0..<6]"

definition run_deposit :: "'l program_env \<Rightarrow> account_meta list \<Rightarrow> bytes \<Rightarrow> 'l pool_world \<Rightarrow> program_error + 'l pool_world" where
  "run_deposit env keys data w =
     bindE (guardE (41 \<le> length data) DidNotDeserialize) (\<lambda>_.
     let d = data ! 8; commitment = slice 9 41 data in
     bindE (check_all (deposit_constraints env d keys w)) (\<lambda>_.
     bindE (optE AccountNotInitialized (denom_state d w)) (\<lambda>st.
     bindE (token_at env w (am_pubkey (keys ! 4))) (\<lambda>ata.
     bindE (chainE (pool_deposit (pe_chain env) ata (am_pubkey (keys ! 5)) d commitment st)) (\<lambda>st'.
     Inr (store_denom d st' w))))))"

definition run_withdraw :: "'l program_env \<Rightarrow> account_meta list \<Rightarrow> bytes \<Rightarrow> 'l pool_world \<Rightarrow> program_error + 'l pool_world" where
  "run_withdraw env keys data w =
     bindE (guardE (489 \<le> length data) DidNotDeserialize) (\<lambda>_.
     let d = data ! 8; nul = slice 9 41 data; proof = slice 41 297 data; sigs = withdraw_signals data in
     bindE (check_all (withdraw_constraints env d nul keys w)) (\<lambda>_.
     bindE (optE AccountNotInitialized (denom_state d w)) (\<lambda>st.
     bindE (token_at env w (am_pubkey (keys ! 5))) (\<lambda>rcpt.
     bindE (if am_pubkey (keys ! 6) = pe_id env then Inr None
            else bindE (token_at env w (am_pubkey (keys ! 6))) (\<lambda>fv. Inr (Some fv))) (\<lambda>fee_vault.
     bindE (chainE (pool_withdraw (pe_chain env)
              \<lparr>wc_recipient = rcpt, wc_fee_vault = fee_vault, wc_bump = bump_of env (nullifier_seeds d nul)\<rparr>
              d nul proof sigs st)) (\<lambda>st'.
     Inr (store_denom d st' w)))))))"

definition run_admin ::
    "(bool \<times> program_error) list \<Rightarrow> (pool_config \<Rightarrow> pool_error + pool_config) \<Rightarrow> 'l pool_world \<Rightarrow> program_error + 'l pool_world" where
  "run_admin constraints f w =
     bindE (check_all constraints) (\<lambda>_.
     bindE (optE AccountNotInitialized (pw_config w)) (\<lambda>cfg.
     bindE (chainE (lift_pool (f cfg))) (\<lambda>cfg'.
     Inr (w\<lparr>pw_config := Some cfg'\<rparr>))))"

definition run_initialize_pool :: "'l program_env \<Rightarrow> account_meta list \<Rightarrow> bytes \<Rightarrow> 'l pool_world \<Rightarrow> program_error + 'l pool_world" where
  "run_initialize_pool env keys data w =
     bindE (guardE (10 \<le> length data) DidNotDeserialize) (\<lambda>_.
     bindE (check_all (initialize_pool_constraints env keys w)) (\<lambda>_.
     bindE (chainE (lift_pool (initialize_pool (pe_chain env) (am_pubkey (keys ! 1)) (word_of_nat (read_u16_le data 8))))) (\<lambda>cfg.
     Inr (w\<lparr>pw_config := Some cfg\<rparr>))))"

definition run_initialize_denomination ::
    "'l program_env \<Rightarrow> account_meta list \<Rightarrow> bytes \<Rightarrow> 'l pool_world \<Rightarrow> program_error + 'l pool_world" where
  "run_initialize_denomination env keys data w =
     bindE (guardE (17 \<le> length data) DidNotDeserialize) (\<lambda>_.
     bindE (check_all (initialize_denomination_constraints env (data ! 8) keys w)) (\<lambda>_.
     initialize_denomination env (data ! 8) (word_of_nat (read_u64_le data 9)) (am_pubkey (keys ! 4)) w))"

text \<open>Anchor's dispatch on the first eight bytes.\<close>

definition pool_process :: "'l program_env \<Rightarrow> instruction \<Rightarrow> 'l pool_world \<Rightarrow> program_error + 'l pool_world" where
  "pool_process env ix w =
     (let data = ix_data ix; keys = ix_keys ix; d = slice 0 8 data; signer = am_pubkey (keys ! 1);
          is = (\<lambda>name. d = anchor_ix_discriminator (pe_sha env) name)
      in if ix_program ix \<noteq> pe_id env then Inl OtherProgram
         else if length data < 8 then Inl InstructionFallbackNotFound
         else if is ''initialize_pool'' then run_initialize_pool env keys data w
         else if is ''initialize_denomination'' then run_initialize_denomination env keys data w
         else if is ''deposit'' then run_deposit env keys data w
         else if is ''withdraw'' then run_withdraw env keys data w
         else if is ''set_paused'' then
           bindE (guardE (9 \<le> length data \<and> data ! 8 \<in> {0, 1}) DidNotDeserialize) (\<lambda>_.
           run_admin (admin_constraints env keys w) (set_paused signer (data ! 8 = 1)) w)
         else if is ''queue_vk_upgrade'' then
           bindE (guardE (40 \<le> length data) DidNotDeserialize) (\<lambda>_.
           run_admin (admin_constraints env keys w) (queue_vk_upgrade signer (ce_slot (pe_chain env)) (slice 8 40 data)) w)
         else if is ''apply_vk_upgrade'' then
           run_admin (admin_constraints env keys w) (apply_vk_upgrade signer (ce_slot (pe_chain env))) w
         else if is ''set_fee_vault'' then
           run_admin (set_fee_vault_constraints env keys w) (set_fee_vault signer (am_pubkey (keys ! 2))) w
         else Inl InstructionFallbackNotFound)"


section \<open>What a successful instruction did\<close>

lemma check_all_Inr [res_simps]: "check_all cs = Inr u \<longleftrightarrow> list_all fst cs"
  by (induction cs) (auto simp: res_simps)

lemma chainE_Inr [res_simps]: "chainE r = Inr a \<longleftrightarrow> r = Inr a"
  by (cases r) (simp_all add: chainE_def)

lemma denom_state_Some:
  "denom_state d w = Some st \<longleftrightarrow> pw_config w = Some (ps_config st) \<and> pw_denoms w d = Some (ps_denom st, ps_tree st)
     \<and> ps_nullifiers st = pw_nullifiers w \<and> ps_ledger st = pw_ledger w"
  by (auto simp: denom_state_def split: option.split)

lemma store_denom_simps [simp]:
  "pw_config (store_denom d st w) = Some (ps_config st)"
  "pw_denoms (store_denom d st w) = (pw_denoms w)(d \<mapsto> (ps_denom st, ps_tree st))"
  "pw_nullifiers (store_denom d st w) = ps_nullifiers st" "pw_ledger (store_denom d st w) = ps_ledger st"
  by (simp_all add: store_denom_def)

lemma run_deposit_Inr:
  assumes "run_deposit env keys data w = Inr w'"
  obtains st ata st' where "41 \<le> length data" "denom_state (data ! 8) w = Some st"
    "pool_exec (pe_chain env) (Deposit ata (am_pubkey (keys ! 5)) (data ! 8) (slice 9 41 data)) st = Inr st'"
    "w' = store_denom (data ! 8) st' w"
  using assms by (auto simp: run_deposit_def Let_def res_simps)

lemma run_withdraw_Inr:
  assumes "run_withdraw env keys data w = Inr w'"
  obtains st ctx st' where "489 \<le> length data" "denom_state (data ! 8) w = Some st"
    "pool_exec (pe_chain env) (Withdraw ctx (data ! 8) (slice 9 41 data) (slice 41 297 data) (withdraw_signals data)) st = Inr st'"
    "w' = store_denom (data ! 8) st' w"
  using assms by (auto simp: run_withdraw_def Let_def res_simps)

lemma run_admin_Inr:
  assumes "run_admin cs f w = Inr w'"
  shows "\<exists>cfg. w' = w\<lparr>pw_config := Some cfg\<rparr>"
  using assms by (auto simp: run_admin_def res_simps)

lemma initialize_denomination_Inr:
  assumes "run_initialize_denomination env keys data w = Inr w'"
  obtains dn t where "pw_denoms w (data ! 8) = None" "dn_denom_id dn = data ! 8" "dn_vault dn = pda env (vault_seeds (data ! 8))"
    "init_merkle_account (ce_hash2 (pe_chain env)) (data ! 8) (bump_of env (tree_seeds (data ! 8))) = Inr t"
    "pw_denoms w' = (pw_denoms w)(data ! 8 \<mapsto> (dn, t))" "pw_nullifiers w' = pw_nullifiers w"
proof -
  let ?d = "data ! 8" and ?dn = "new_denomination env (data ! 8) (word_of_nat (read_u64_le data 9)) (am_pubkey (keys ! 4))"
  obtain t where "pw_denoms w ?d = None" "init_merkle_account (ce_hash2 (pe_chain env)) ?d (bump_of env (tree_seeds ?d)) = Inr t"
    "pw_denoms w' = (pw_denoms w)(?d \<mapsto> (?dn, t))" "pw_nullifiers w' = pw_nullifiers w"
    using assms
    by (auto simp: run_initialize_denomination_def initialize_denomination_def initialize_denomination_constraints_def res_simps)
  then show ?thesis by (intro that [of ?dn t]) (simp_all add: new_denomination_def)
qed

section \<open>Discriminators\<close>

text \<open>The eight names have different discriminators under SHA-256.\<close>

definition pool_names :: "string list" where
  "pool_names = [''initialize_pool'', ''initialize_denomination'', ''deposit'', ''withdraw'', ''set_paused'',
     ''queue_vk_upgrade'', ''apply_vk_upgrade'', ''set_fee_vault'']"

definition pool_sha_ok :: "hash_fun \<Rightarrow> bool" where
  "pool_sha_ok sha \<longleftrightarrow> sha_ok sha \<and> distinct (map (anchor_ix_discriminator sha) pool_names)"

text \<open>The leaf the indexer reads from an instruction: \<open>parseDepositIx\<close>, then \<open>parseWithdrawIx\<close>.\<close>

definition indexed_leaf :: "hash_fun \<Rightarrow> bytes \<Rightarrow> commitment_ix option" where
  "indexed_leaf sha data = (case parse_deposit_ix sha data of Some dep \<Rightarrow> Some dep | None \<Rightarrow> parse_withdraw_ix sha data)"

definition leaves_read :: "hash_fun \<Rightarrow> byte \<Rightarrow> instruction \<Rightarrow> bytes list" where
  "leaves_read sha d ix = (case indexed_leaf sha (ix_data ix) of
     None \<Rightarrow> [] | Some ci \<Rightarrow> if ci_denom_id ci = d then [ci_commitment ci] else [])"

lemma pool_sha_distinct:
  assumes "pool_sha_ok sha" "a \<in> set pool_names" "b \<in> set pool_names"
  shows "anchor_ix_discriminator sha a = anchor_ix_discriminator sha b \<longleftrightarrow> a = b"
proof -
  have "inj_on (anchor_ix_discriminator sha) (set pool_names)"
    using assms(1) by (simp add: pool_sha_ok_def distinct_map)
  then show ?thesis using assms(2,3) by (simp add: inj_on_eq_iff)
qed

lemma withdraw_signals_nth: "i < 6 \<Longrightarrow> withdraw_signals data ! i = slice (297 + 32 * i) (329 + 32 * i) data"
  by (simp add: withdraw_signals_def)

lemma indexed_leaf_deposit:
  assumes "pool_sha_ok sha" "slice 0 8 data = anchor_ix_discriminator sha ''deposit''" "41 \<le> length data"
  shows "indexed_leaf sha data = Some \<lparr>ci_denom_id = data ! 8, ci_commitment = slice 9 41 data\<rparr>"
  using assms by (simp add: indexed_leaf_def parse_deposit_ix_def)

lemma indexed_leaf_withdraw:
  assumes "pool_sha_ok sha" "slice 0 8 data = anchor_ix_discriminator sha ''withdraw''" "489 \<le> length data"
  shows "indexed_leaf sha data = Some \<lparr>ci_denom_id = data ! 8, ci_commitment = withdraw_signals data ! 5\<rparr>"
  using assms pool_sha_distinct [OF assms(1), of "''withdraw''" "''deposit''"]
  by (simp add: indexed_leaf_def parse_deposit_ix_def parse_withdraw_ix_def withdraw_min_len_def
      withdraw_change_offset_def withdraw_signals_nth pool_names_def)

lemma indexed_leaf_other:
  assumes "slice 0 8 data \<noteq> anchor_ix_discriminator sha ''deposit''" "slice 0 8 data \<noteq> anchor_ix_discriminator sha ''withdraw''"
  shows "indexed_leaf sha data = None"
  using assms by (simp add: indexed_leaf_def parse_deposit_ix_def parse_withdraw_ix_def)

text \<open>
  The three kinds of a successful instruction: it calls \<open>deposit\<close> or \<open>withdraw\<close> of the denomination in
  its data and the leaf it appends is the one the indexer reads; it opens a denomination with an
  empty tree; or it touches the configuration only. The last two carry no leaf.
\<close>

lemma pool_process_cases:
  assumes sha: "pool_sha_ok (pe_sha env)" and run: "pool_process env ix w = Inr w'"
  obtains (exec) d c st st' leaf where
      "pool_exec (pe_chain env) c st = Inr st'" "denom_state d w = Some st" "w' = store_denom d st' w"
      "leaves_of c = [leaf]" "indexed_leaf (pe_sha env) (ix_data ix) = Some \<lparr>ci_denom_id = d, ci_commitment = leaf\<rparr>"
    | (open_denom) d dn t where "pw_denoms w d = None" "dn_denom_id dn = d" "dn_vault dn = pda env (vault_seeds d)"
      "init_merkle_account (ce_hash2 (pe_chain env)) d (bump_of env (tree_seeds d)) = Inr t"
      "pw_denoms w' = (pw_denoms w)(d \<mapsto> (dn, t))" "pw_nullifiers w' = pw_nullifiers w"
      "indexed_leaf (pe_sha env) (ix_data ix) = None"
    | (config) cfg where "w' = w\<lparr>pw_config := Some cfg\<rparr>" "indexed_leaf (pe_sha env) (ix_data ix) = None"
proof -
  let ?data = "ix_data ix" and ?keys = "ix_keys ix"
  let ?is = "\<lambda>name. slice 0 8 ?data = anchor_ix_discriminator (pe_sha env) name"
  note ne = pool_sha_distinct [OF sha]
  have quiet: "indexed_leaf (pe_sha env) ?data = None" if "?is n" "n \<in> set pool_names" "n \<noteq> ''deposit''" "n \<noteq> ''withdraw''" for n
    using that ne [of n] by (intro indexed_leaf_other) (auto simp: pool_names_def)
  have "ix_program ix = pe_id env" using run by (auto simp: pool_process_def Let_def split: if_splits)
  note r = run [unfolded pool_process_def Let_def]
  consider (ip) "?is ''initialize_pool''" "run_initialize_pool env ?keys ?data w = Inr w'"
    | (idn) "?is ''initialize_denomination''" "run_initialize_denomination env ?keys ?data w = Inr w'"
    | (dep) "?is ''deposit''" "run_deposit env ?keys ?data w = Inr w'"
    | (wd) "?is ''withdraw''" "run_withdraw env ?keys ?data w = Inr w'"
    | (adm) n cs f where "?is n" "n \<in> set (drop 4 pool_names)" "run_admin cs f w = Inr w'"
    using r by (auto simp: pool_names_def res_simps split: if_splits)
  then show ?thesis
  proof cases
    case ip
    then have "\<exists>cfg. w' = w\<lparr>pw_config := Some cfg\<rparr>" by (auto simp: run_initialize_pool_def res_simps)
    then show ?thesis using config quiet [OF ip(1)] by (auto simp: pool_names_def)
  next
    case idn
    from idn(2) show ?thesis
      by (rule initialize_denomination_Inr) (use open_denom quiet [OF idn(1)] in \<open>simp add: pool_names_def\<close>)
  next
    case dep
    then obtain st ata st' where r: "41 \<le> length ?data" "denom_state (?data ! 8) w = Some st"
      "pool_exec (pe_chain env) (Deposit ata (am_pubkey (?keys ! 5)) (?data ! 8) (slice 9 41 ?data)) st = Inr st'"
      "w' = store_denom (?data ! 8) st' w" by (blast elim: run_deposit_Inr)
    show ?thesis
      by (rule exec [OF r(3,2,4)]) (use indexed_leaf_deposit [OF sha dep(1) r(1)] in simp_all)
  next
    case wd
    then obtain st ctx st' where r: "489 \<le> length ?data" "denom_state (?data ! 8) w = Some st"
      "pool_exec (pe_chain env) (Withdraw ctx (?data ! 8) (slice 9 41 ?data) (slice 41 297 ?data) (withdraw_signals ?data)) st = Inr st'"
      "w' = store_denom (?data ! 8) st' w" by (blast elim: run_withdraw_Inr)
    show ?thesis
      by (rule exec [OF r(3,2,4)]) (use indexed_leaf_withdraw [OF sha wd(1) r(1)] in simp_all)
  next
    case adm
    then have "indexed_leaf (pe_sha env) ?data = None" by (intro quiet) (auto simp: pool_names_def)
    then show ?thesis using config run_admin_Inr [OF adm(3)] by blast
  qed
qed

section \<open>Runs\<close>

text \<open>
  A run of the deployed program: the successful instructions, last first. The surroundings may
  change from one to the next, but not the hash functions, the derivation of addresses and the
  program's id; in between tokens move outside the program.
\<close>

inductive world_run ::
    "hash_fun \<Rightarrow> pda_fun \<Rightarrow> pubkey \<Rightarrow> poseidon2 \<Rightarrow> instruction list \<Rightarrow> 'l pool_world \<Rightarrow> bool"
  for sha :: hash_fun and fpa :: pda_fun and pid :: pubkey and hash2 :: poseidon2 where
  deployed: "world_run sha fpa pid hash2 [] \<lparr>pw_config = None, pw_denoms = Map.empty, pw_nullifiers = [], pw_ledger = l\<rparr>"
| called: "world_run sha fpa pid hash2 h w \<Longrightarrow> pe_sha env = sha \<Longrightarrow> pe_fpa env = fpa \<Longrightarrow> pe_id env = pid
    \<Longrightarrow> ce_hash2 (pe_chain env) = hash2 \<Longrightarrow> pool_process env ix w = Inr w' \<Longrightarrow> world_run sha fpa pid hash2 (ix # h) w'"
| moved: "world_run sha fpa pid hash2 h w \<Longrightarrow> world_run sha fpa pid hash2 h (w\<lparr>pw_ledger := l\<rparr>)"

definition run_leaves :: "hash_fun \<Rightarrow> byte \<Rightarrow> instruction list \<Rightarrow> bytes list" where
  "run_leaves sha d h = concat (map (leaves_read sha d) (rev h))"

lemma run_leaves_simps [simp]:
  "run_leaves sha d [] = []" "run_leaves sha d (ix # h) = run_leaves sha d h @ leaves_read sha d ix"
  by (simp_all add: run_leaves_def)

text \<open>Where the accounts of a denomination are, and its tree against the leaves read from the instructions.\<close>

definition denom_ok ::
    "(int \<Rightarrow> int \<Rightarrow> int) \<Rightarrow> pda_fun \<Rightarrow> pubkey \<Rightarrow> byte \<Rightarrow> bytes list \<Rightarrow> denomination_account \<times> merkle_account \<Rightarrow> bool" where
  "denom_ok H fpa pid d leaves = (\<lambda>(dn, t). dn_denom_id dn = d \<and> dn_vault dn = fst (fpa (vault_seeds d) pid)
     \<and> (\<forall>xs. leaves = map fe_bytes xs \<longrightarrow> list_all is_field xs \<longrightarrow> tree_rel H xs t))"

lemma denom_ok_append:
  assumes par: "poseidon_parity H hash2" and ok: "denom_ok H fpa pid d leaves (dn, t)"
    and app: "merkle_append hash2 leaf t = Inr (root, t')" and dn: "dn_denom_id dn' = d" "dn_vault dn' = dn_vault dn"
  shows "denom_ok H fpa pid d (leaves @ [leaf]) (dn', t')"
proof -
  have "tree_rel H xs t'" if xs: "leaves @ [leaf] = map fe_bytes xs" "list_all is_field xs" for xs
  proof -
    obtain ys y where ys: "xs = ys @ [y]" "leaves = map fe_bytes ys" "leaf = fe_bytes y"
      using xs(1) by (cases xs rule: rev_cases) auto
    then have rel: "tree_rel H ys t" and f: "is_field y" using ok xs(2) by (auto simp: denom_ok_def)
    have "length ys < 2 ^ pool_merkle_depth"
      using merkle_append_full [OF rel] app rel by (force simp: tree_rel_def)
    then show ?thesis using merkle_append_inr [OF par rel _ f] app ys by auto
  qed
  then show ?thesis using ok dn by (simp add: denom_ok_def)
qed

lemma pool_exec_denom:
  assumes "pool_exec env c st = Inr st'"
  shows "dn_denom_id (ps_denom st') = dn_denom_id (ps_denom st) \<and> dn_vault (ps_denom st') = dn_vault (ps_denom st)"
proof (cases c)
  case (Deposit ata d den c')
  then have "pool_deposit env ata d den c' st = Inr st'" using assms by simp
  then show ?thesis by (rule pool_deposit_Inr) simp
next
  case (Withdraw ctx den nul pf sigs)
  then have "pool_withdraw env ctx den nul pf sigs st = Inr st'" using assms by simp
  then show ?thesis by (rule pool_withdraw_Inr) simp
qed (use assms in \<open>auto simp: with_config_Inr\<close>)

lemma world_run_inv:
  assumes run: "world_run sha fpa pid hash2 h w" and par: "poseidon_parity H hash2" and sha: "pool_sha_ok sha"
  shows "case pw_denoms w d of None \<Rightarrow> run_leaves sha d h = [] | Some x \<Rightarrow> denom_ok H fpa pid d (run_leaves sha d h) x"
  using run
proof induction
  case (deployed l)
  then show ?case by simp
next
  case (moved h w l)
  then show ?case by simp
next
  case (called h w env ix w')
  have sha': "pool_sha_ok (pe_sha env)" using sha called.hyps(2) by simp
  have none: "leaves_read sha d ix = []" if "indexed_leaf sha (ix_data ix) = None"
    using that by (simp add: leaves_read_def)
  from sha' called.hyps(6) show ?case
  proof (cases rule: pool_process_cases)
    case (exec d' c st st' leaf)
    have at: "pw_denoms w d' = Some (ps_denom st, ps_tree st)" using exec(2) by (simp add: denom_state_Some)
    show ?thesis
    proof (cases "d' = d")
      case True
      obtain root where app: "merkle_append hash2 leaf (ps_tree st) = Inr (root, ps_tree st')"
        using pool_exec_tree [OF exec(1)] exec(4) called.hyps(5) by auto
      have ok: "denom_ok H fpa pid d (run_leaves sha d h) (ps_denom st, ps_tree st)"
        using called.IH at True by simp
      show ?thesis
        using denom_ok_append [OF par ok app, of "ps_denom st'"] pool_exec_denom [OF exec(1)] ok exec(3,5) True called.hyps(2)
        by (simp add: leaves_read_def denom_ok_def)
    next
      case False
      then show ?thesis
        using called.IH exec(3,5) called.hyps(2) by (cases "pw_denoms w d") (simp_all add: leaves_read_def)
    qed
  next
    case (open_denom d' dn t)
    have q: "leaves_read sha d ix = []" using open_denom(7) none called.hyps(2) by simp
    show ?thesis
    proof (cases "d' = d")
      case True
      have "tree_rel H [] t" using init_merkle_account_inr [OF par, of d' "bump_of env (tree_seeds d')"]
          open_denom(4) called.hyps(5) by auto
      then show ?thesis
        using called.IH open_denom(1-3,5) q True called.hyps(3,4) by (simp add: denom_ok_def pda_def)
    next
      case False
      then show ?thesis using called.IH open_denom(5) q by (cases "pw_denoms w d") simp_all
    qed
  next
    case (config cfg)
    then show ?thesis using called.IH none called.hyps(2) by (cases "pw_denoms w d") simp_all
  qed
qed


text \<open>At the level of instructions, over all denominations: no nullifier record is created twice.\<close>

definition world_spent :: "'l pool_world \<Rightarrow> (byte \<times> bytes) list" where
  "world_spent w = map (\<lambda>n. (nr_denom_id n, nr_nullifier_hash n)) (pw_nullifiers w)"

lemma world_spent_state: "denom_state d w = Some st \<Longrightarrow> world_spent w = spent_keys st"
  "world_spent (store_denom d st w) = spent_keys st"
  by (auto simp: world_spent_def spent_keys_def denom_state_Some)

lemma spent_of_distinct: "distinct (spent_of c)"
  by (cases c) simp_all

lemma world_spends_once:
  assumes "world_run sha fpa pid hash2 h w" "pool_sha_ok sha"
  shows "distinct (world_spent w)"
  using assms(1)
proof induction
  case (called h w env ix w')
  have "pool_sha_ok (pe_sha env)" using assms(2) called.hyps(2) by simp
  from this called.hyps(6) show ?case
  proof (cases rule: pool_process_cases)
    case (exec d c st st' leaf)
    then show ?thesis
      using called.IH pool_exec_spent [OF exec(1)] spent_of_distinct by (auto simp: world_spent_state)
  qed (use called.IH in \<open>simp_all add: world_spent_def\<close>)
qed (simp_all add: world_spent_def)

section \<open>A concrete program\<close>

text \<open>Every key owns the token account of its own address; the vault is opened empty-handed.\<close>

definition plain_sha :: hash_fun where
  "plain_sha bs = word_of_nat (length bs) # (bs ! 9) # zeros 30"

definition plain_fpa :: pda_fun where
  "plain_fpa seeds pid = (take 32 (concat seeds @ zeros 32), 255)"

definition plain_program :: "u64 \<Rightarrow> balances program_env" where
  "plain_program slot = \<lparr>pe_chain = toy_env slot, pe_sha = plain_sha, pe_fpa = plain_fpa, pe_id = zeros 32, pe_rent = zeros 32,
     pe_token = (\<lambda>l k. Some (k, zeros 32)), pe_mint = (\<lambda>l k. True), pe_open_vault = (\<lambda>v m l. Some l)\<rparr>"

lemma plain_sha_ok: "pool_sha_ok plain_sha"
proof -
  have "anchor_ix_discriminator plain_sha n = slice 0 8 (plain_sha (utf8_ascii (''global:'' @ n)))" for n
    by (simp add: anchor_ix_discriminator_def)
  moreover have "distinct (map (\<lambda>n. slice 0 8 (plain_sha (utf8_ascii (''global:'' @ n)))) pool_names)"
    by code_simp
  ultimately show ?thesis by (simp add: pool_sha_ok_def sha_ok_def plain_sha_def cong: map_cong)
qed

definition plain_init_pool :: instruction where
  "plain_init_pool = \<lparr>ix_program = zeros 32,
     ix_keys = [meta (pda (plain_program 0) config_seeds) False True, meta (zeros 32) True True, meta system_program_id False False],
     ix_data = anchor_ix_discriminator plain_sha ''initialize_pool'' @ le_bytes 2 100\<rparr>"

definition plain_init_denomination :: instruction where
  "plain_init_denomination = \<lparr>ix_program = zeros 32,
     ix_keys = [meta (pda (plain_program 0) config_seeds) False False, meta (pda (plain_program 0) (denom_seeds 1)) False True,
       meta (pda (plain_program 0) (tree_seeds 1)) False True, meta (pda (plain_program 0) (vault_seeds 1)) False True,
       meta (zeros 32) False False, meta (zeros 32) True True, meta token_program_id False False,
       meta system_program_id False False, meta (zeros 32) False False],
     ix_data = anchor_ix_discriminator plain_sha ''initialize_denomination'' @ [1] @ le_bytes 8 1000000\<rparr>"

text \<open>The deposit is the one the SDK builds.\<close>

definition plain_deposit :: instruction where
  "plain_deposit = (case build_deposit_ix plain_sha 1 (fe_bytes 7)
       \<lparr>da_config = fst (find_pool_config_pda plain_fpa (zeros 32)), da_denomination = fst (find_denomination_pda plain_fpa 1 (zeros 32)),
        da_tree = fst (find_merkle_tree_pda plain_fpa 1 (zeros 32)), da_vault = fst (find_vault_pda plain_fpa 1 (zeros 32)),
        da_depositor_ata = zeros 32, da_depositor = zeros 32, da_token_program = None\<rparr> (zeros 32) of
     Inr ix \<Rightarrow> ix | Inl e \<Rightarrow> plain_init_pool)"

definition plain_config :: pool_config where
  "plain_config = \<lparr>pc_admin = zeros 32, pc_fee_bps = 100, pc_paused = False, pc_vk_hash = zeros 32,
     pc_pending_vk_hash = zeros 32, pc_pending_slot = 0, pc_fee_vault = default_pubkey\<rparr>"

lemma plain_simps [simp]:
  "pe_chain (plain_program k) = toy_env k" "pe_sha (plain_program k) = plain_sha" "pe_fpa (plain_program k) = plain_fpa"
  "pe_id (plain_program k) = zeros 32" "pe_rent (plain_program k) = zeros 32" "pe_token (plain_program k) l key = Some (key, zeros 32)"
  "pe_mint (plain_program k) l key" "pe_open_vault (plain_program k) v m l = Some l"
  by (simp_all add: plain_program_def)

lemma plain_disc_length: "length (anchor_ix_discriminator plain_sha a) = 8"
  using plain_sha_ok by (simp add: pool_sha_ok_def)

lemma plain_disc:
  "a \<in> set pool_names \<Longrightarrow> b \<in> set pool_names \<Longrightarrow>
     slice 0 8 (anchor_ix_discriminator plain_sha a @ rest) = anchor_ix_discriminator plain_sha b \<longleftrightarrow> a = b"
  using pool_sha_distinct [OF plain_sha_ok] plain_disc_length by (simp add: slice_def)

lemma plain_pda: "pda (plain_program k) seeds = take 32 (concat seeds @ zeros 32)"
  by (simp add: pda_def plain_fpa_def)

definition plain_vault :: pubkey where
  "plain_vault = pda (plain_program 0) (vault_seeds 1)"

lemma plain_vault_neq: "plain_vault \<noteq> zeros 32"
proof -
  have "plain_vault ! 0 = 118" by (simp add: plain_vault_def plain_pda vault_seeds_def utf8_ascii_def)
  moreover have "zeros 32 ! 0 = (0 :: byte)" by (simp add: zeros_def)
  ultimately show ?thesis by auto
qed

lemma plain_step_pool:
  assumes "w = \<lparr>pw_config = None, pw_denoms = Map.empty, pw_nullifiers = [], pw_ledger = l\<rparr>"
  shows "pool_process (plain_program k) plain_init_pool w = Inr (w\<lparr>pw_config := Some plain_config\<rparr>)"
proof -
  let ?d = "anchor_ix_discriminator plain_sha ''initialize_pool''"
  note l = plain_disc_length
  have arg: "read_u16_le (?d @ le_bytes 2 100) 8 = 100"
    using l by (simp add: read_u16_le_def slice_def le_val_le_bytes)
  show ?thesis
    using l by (simp add: pool_process_def plain_init_pool_def Let_def plain_disc pool_names_def run_initialize_pool_def
      initialize_pool_constraints_def at_seeds_def is_mut_def is_signer_def is_program_def plain_pda assms arg
      initialize_pool_def lift_pool_def chainE_def plain_config_def toy_env_def)
qed


text \<open>The denomination as opened, and after the deposit.\<close>

definition plain_denom :: "u64 \<Rightarrow> denomination_account" where
  "plain_denom count = (new_denomination (plain_program 0) 1 1000000 (zeros 32))\<lparr>dn_deposit_count := count\<rparr>"

lemma plain_denom_simps [simp]:
  "dn_denom_id (plain_denom k) = 1" "dn_amount (plain_denom k) = 1000000" "dn_vault (plain_denom k) = plain_vault"
  "dn_mint (plain_denom k) = zeros 32" "dn_deposit_count (plain_denom k) = k"
  "plain_denom k\<lparr>dn_deposit_count := j\<rparr> = plain_denom j"
  by (simp_all add: plain_denom_def new_denomination_def plain_vault_def)

lemma plain_env_indep: "pda (plain_program k) seeds = pda (plain_program 0) seeds"
  "bump_of (plain_program k) seeds = bump_of (plain_program 0) seeds"
  "new_denomination (plain_program k) d a m = new_denomination (plain_program 0) d a m"
  by (simp_all add: pda_def bump_of_def new_denomination_def)

lemma plain_step_denomination:
  assumes "w = \<lparr>pw_config = Some plain_config, pw_denoms = Map.empty, pw_nullifiers = [], pw_ledger = l\<rparr>"
    and t: "init_merkle_account seven_syscall 1 255 = Inr t"
  shows "pool_process (plain_program k) plain_init_denomination w = Inr (w\<lparr>pw_denoms := [1 \<mapsto> (plain_denom 0, t)]\<rparr>)"
proof -
  let ?d = "anchor_ix_discriminator plain_sha ''initialize_denomination''"
  note l = plain_disc_length
  have arg: "read_u64_le (?d @ 1 # le_bytes 8 1000000) 9 = 1000000"
    using l read_u64_after [of "?d @ [1]" 9 1000000 "[]"] by (simp add: i64_le_def)
  have d8: "(?d @ 1 # rest) ! 8 = 1" for rest using l by (simp add: nth_append)
  have bump: "bump_of (plain_program 0) (tree_seeds 1) = 255" by (simp add: bump_of_def plain_fpa_def)
  show ?thesis
    using l t by (simp add: pool_process_def plain_init_denomination_def Let_def plain_disc pool_names_def
      run_initialize_denomination_def initialize_denomination_constraints_def at_seeds_def is_mut_def is_signer_def
      is_program_def plain_env_indep [of k] assms arg d8 initialize_denomination_def bump lift_pool_def chainE_def
      plain_config_def plain_denom_def new_denomination_def toy_env_def)
qed

lemma plain_deposit_eq:
  "ix_program plain_deposit = zeros 32" "ix_data plain_deposit = anchor_ix_discriminator plain_sha ''deposit'' @ 1 # fe_bytes 7"
  "ix_keys plain_deposit = [meta (pda (plain_program 0) config_seeds) False False, meta (pda (plain_program 0) (denom_seeds 1)) False True,
     meta (pda (plain_program 0) (tree_seeds 1)) False True, meta plain_vault False True, meta (zeros 32) False True,
     meta (zeros 32) True True, meta token_program_id False False]"
proof -
  have sha: "sha_ok plain_sha" using plain_sha_ok by (simp add: pool_sha_ok_def)
  note eq = build_deposit_ix_eq [OF sha, of "fe_bytes 7" 1]
  show "ix_program plain_deposit = zeros 32"
    "ix_data plain_deposit = anchor_ix_discriminator plain_sha ''deposit'' @ 1 # fe_bytes 7"
    "ix_keys plain_deposit = [meta (pda (plain_program 0) config_seeds) False False, meta (pda (plain_program 0) (denom_seeds 1)) False True,
       meta (pda (plain_program 0) (tree_seeds 1)) False True, meta plain_vault False True, meta (zeros 32) False True,
       meta (zeros 32) True True, meta token_program_id False False]"
    by (simp_all add: plain_deposit_def eq deposit_bytes_def find_pool_config_pda_def find_denomination_pda_def
      find_merkle_tree_pda_def find_vault_pda_def pda_def config_seeds_def denom_seeds_def tree_seeds_def
      vault_seeds_def plain_vault_def denom_byte_eq default_to_def)
qed

lemma plain_step_deposit:
  assumes "w = \<lparr>pw_config = Some plain_config, pw_denoms = [1 \<mapsto> (plain_denom 0, t)], pw_nullifiers = [], pw_ledger = \<lambda>_. 5000000\<rparr>"
    and t: "merkle_append seven_syscall (fe_bytes 7) t = Inr (root, t')"
  shows "pool_process (plain_program k) plain_deposit w
     = Inr (w\<lparr>pw_denoms := [1 \<mapsto> (plain_denom 1, t')], pw_ledger := (\<lambda>_. 5000000)(zeros 32 := 4000000, plain_vault := 6000000)\<rparr>)"
proof -
  let ?d = "anchor_ix_discriminator plain_sha ''deposit''"
  note l = plain_disc_length
  have d8: "(?d @ 1 # rest) ! 8 = 1" "slice 9 41 (?d @ 1 # fe_bytes 7) = fe_bytes 7" for rest
    using l by (simp_all add: nth_append slice_def)
  have st: "denom_state 1 w = Some \<lparr>ps_config = plain_config, ps_denom = plain_denom 0, ps_tree = t, ps_nullifiers = [],
      ps_ledger = \<lambda>_. 5000000\<rparr>" by (simp add: assms denom_state_def)
  show ?thesis
    using l t plain_vault_neq by (simp add: pool_process_def plain_deposit_eq Let_def plain_disc pool_names_def
      run_deposit_def deposit_constraints_def at_seeds_def is_mut_def is_signer_def is_token_def is_vault_def
      is_program_def plain_env_indep [of k] d8 st token_at_def lift_pool_def chainE_def pool_deposit_def transfer_def
      toy_transfer_def toy_env_def) (simp add: assms plain_config_def plain_vault_def store_denom_def)
qed

definition plain_world :: "merkle_account \<Rightarrow> balances pool_world" where
  "plain_world t = \<lparr>pw_config = Some plain_config, pw_denoms = [1 \<mapsto> (plain_denom 1, t)], pw_nullifiers = [],
     pw_ledger = (\<lambda>_. 5000000)(zeros 32 := 4000000, plain_vault := 6000000)\<rparr>"

definition plain_history :: "instruction list" where
  "plain_history = [plain_deposit, plain_init_denomination, plain_init_pool]"

lemma plain_run:
  obtains t where "world_run plain_sha plain_fpa (zeros 32) seven_syscall plain_history (plain_world t)"
    "tree_rel (\<lambda>_ _. 7) [7] t"
proof -
  let ?w = "\<lambda>cfg ds l. \<lparr>pw_config = cfg, pw_denoms = ds, pw_nullifiers = [], pw_ledger = l\<rparr> :: balances pool_world"
  have f7: "is_field 7" by (simp add: is_field_def bn254_fr_def)
  obtain t0 where t0: "init_merkle_account seven_syscall 1 255 = Inr t0" "tree_rel (\<lambda>_ _. 7) [] t0"
    using init_merkle_account_inr [OF seven_parity] by blast
  obtain root t where t: "merkle_append seven_syscall (fe_bytes 7) t0 = Inr (root, t)" "tree_rel (\<lambda>_ _. 7) [7] t"
    using merkle_append_inr [OF seven_parity t0(2) _ f7] by (auto simp: pool_depth_simps)
  let ?run = "world_run plain_sha plain_fpa (zeros 32) seven_syscall"
  have hash: "ce_hash2 (pe_chain (plain_program 10)) = seven_syscall" by (simp add: toy_env_def)
  have run0: "?run [] (?w None Map.empty (\<lambda>_. 5000000))" by (rule deployed)
  have run1: "?run [plain_init_pool] (?w (Some plain_config) Map.empty (\<lambda>_. 5000000))"
    using called [OF run0 _ _ _ hash plain_step_pool [OF refl]] by simp
  have run2: "?run [plain_init_denomination, plain_init_pool] (?w (Some plain_config) [1 \<mapsto> (plain_denom 0, t0)] (\<lambda>_. 5000000))"
    using called [OF run1 _ _ _ hash plain_step_denomination [OF refl t0(1)]] by simp
  have "?run plain_history (plain_world t)"
    using called [OF run2 _ _ _ hash plain_step_deposit [OF refl t(1)]] by (simp add: plain_history_def plain_world_def)
  then show ?thesis using that t(2) by blast
qed

lemma plain_leaves: "run_leaves plain_sha 1 plain_history = [fe_bytes 7]"
proof -
  have d8: "(anchor_ix_discriminator plain_sha a @ 1 # rest) ! 8 = 1"
    "slice 9 41 (anchor_ix_discriminator plain_sha a @ 1 # fe_bytes 7) = fe_bytes 7" for a rest
    using plain_disc_length [of a] by (simp_all add: nth_append slice_def)
  have "indexed_leaf plain_sha (ix_data plain_deposit) = Some \<lparr>ci_denom_id = 1, ci_commitment = fe_bytes 7\<rparr>"
    using indexed_leaf_deposit [OF plain_sha_ok, of "ix_data plain_deposit"]
    by (simp add: plain_deposit_eq plain_disc pool_names_def plain_disc_length d8)
  moreover have "indexed_leaf plain_sha (ix_data plain_init_denomination) = None" "indexed_leaf plain_sha (ix_data plain_init_pool) = None"
    by (rule indexed_leaf_other;
        simp add: plain_init_denomination_def plain_init_pool_def plain_disc pool_names_def)+
  ultimately show ?thesis by (simp add: plain_history_def leaves_read_def)
qed

section \<open>Properties\<close>

text \<open>
  C31. What the indexer reads is what the program did. Take any sequence of instructions the deployed
  program accepted, from its start, over all denominations, and for one denomination the leaves that
  \<open>parseDepositIx\<close> and \<open>parseWithdrawIx\<close> find in the data of those instructions, in order. If
  they are field elements, the SDK's tree takes all of them, the tree account holds as many leaves and
  knows the root of the SDK's tree (unless there is no leaf or that root is zero). And over all
  denominations no nullifier record was created twice.
\<close>

theorem program_tree_is_indexed_tree:
  assumes "world_run sha fpa pid hash2 h w" and "poseidon_parity H hash2" and "pool_sha_ok sha"
    and "pw_denoms w d = Some (dn, t)"
    and "run_leaves sha d h = map fe_bytes xs" "list_all is_field xs"
  shows "(\<exists>roots s. feed (sdk_append H) xs (merkle_new H 20) = Inr (roots, s)
       \<and> unat (next_leaf_index t) = length xs
       \<and> (xs \<noteq> [] \<longrightarrow> merkle_root H s \<noteq> 0 \<longrightarrow> is_known_root t (fe_bytes (merkle_root H s))))
     \<and> distinct (world_spent w)"
proof -
  have "tree_rel H xs t" using world_run_inv [OF assms(1-3), of d] assms(4-6) by (simp add: denom_ok_def)
  from tree_rel_sdk [OF assms(2) this] show ?thesis using world_spends_once [OF assms(1,3)] by blast
qed

theorem program_tree_is_indexed_tree_witness:
  "\<exists>t roots s. world_run plain_sha plain_fpa (zeros 32) seven_syscall plain_history (plain_world t)
     \<and> feed (sdk_append (\<lambda>_ _. 7)) [7] (merkle_new (\<lambda>_ _. 7) 20) = Inr (roots, s) \<and> unat (next_leaf_index t) = 1
     \<and> (merkle_root (\<lambda>_ _. 7) s \<noteq> 0 \<longrightarrow> is_known_root t (fe_bytes (merkle_root (\<lambda>_ _. 7) s)))"
proof -
  obtain t where run: "world_run plain_sha plain_fpa (zeros 32) seven_syscall plain_history (plain_world t)"
    using plain_run by blast
  have "list_all is_field [7]" by (simp add: is_field_def bn254_fr_def)
  with program_tree_is_indexed_tree [OF run seven_parity plain_sha_ok, of 1 "plain_denom 1" t "[7]"] plain_leaves
  show ?thesis using run by (fastforce simp: plain_world_def)
qed

end
