(* ===== verification/SdkEndToEnd.thy ===== *)
theory SdkEndToEnd
  imports SdkPay PoolDispatch
begin

text \<open>
  A payment across components: the SDK's \<open>pay\<close> on a note whose leaf is in the tree, an indexer that
  answers with the tree's path, a prover that proves satisfiable witnesses, and the pool program.
\<close>

section \<open>What the services answer\<close>

text \<open>The \<open>0x\<close> strings of 64 digits in which the API serves field elements.\<close>

definition hex_be32 :: "int \<Rightarrow> string" where
  "hex_be32 x = ''0x'' @ hexpad 64 (nat x)"

definition path_response :: "merkle_inclusion_proof \<Rightarrow> merkle_proof_response" where
  "path_response ip = \<lparr>mr_root = hex_be32 (ip_root ip), mr_path_elements = map hex_be32 (ip_elements ip),
     mr_path_indices = ip_indices ip\<rparr>"

lemma parse_hex_be32:
  assumes "0 \<le> x" "x < fr"
  shows "parse_bigint (hex_be32 x) = Some x"
proof -
  have "nat x < 256 ^ 32" using assms bn254_fr_256 by (simp add: fr_def nat_less_iff)
  from bigint_to_hex_be32_inr(2) [OF this] assms(1) show ?thesis by (simp add: hex_be32_def)
qed

lemma map_codec_hex:
  "(\<forall>x \<in> set xs. 0 \<le> x \<and> x < fr) \<Longrightarrow>
     map_codec (\<lambda>h. bindE (big h) (\<lambda>n. Inr (int_str 10 n))) (map hex_be32 xs) = Inr (map (int_str 10) xs)"
  by (induction xs) (simp_all add: big_def parse_hex_be32)

lemma decimal_path_response:
  assumes "\<forall>x \<in> set (ip_elements ip). 0 \<le> x \<and> x < fr" "0 \<le> ip_root ip" "ip_root ip < fr"
  shows "decimal_path (path_response ip) = Inr \<lparr>mp_path_elements = map (int_str 10) (ip_elements ip),
     mp_path_indices = ip_indices ip, mp_root = int_str 10 (ip_root ip)\<rparr>"
  using map_codec_hex [OF assms(1)] parse_hex_be32 [OF assms(2,3)]
  by (simp add: decimal_path_def path_response_def big_def)

text \<open>The service over the leaves of one tree: the path of the first leaf with the string asked for.\<close>

definition tree_answer :: "(int \<Rightarrow> int \<Rightarrow> int) \<Rightarrow> poseidon_merkle_tree \<Rightarrow> string \<Rightarrow> merkle_proof_response option" where
  "tree_answer H t h =
     (case List.find (\<lambda>i. hex_be32 (mt_leaves t ! i) = h) [0..<length (mt_leaves t)] of
        None \<Rightarrow> None
      | Some i \<Rightarrow> (case merkle_proof H t (int i) of Inl _ \<Rightarrow> None | Inr ip \<Rightarrow> Some (path_response ip)))"

lemma hex_be32_inject: "0 \<le> x \<Longrightarrow> x < fr \<Longrightarrow> 0 \<le> y \<Longrightarrow> y < fr \<Longrightarrow> hex_be32 x = hex_be32 y \<longleftrightarrow> x = y"
  by (metis option.inject parse_hex_be32)

lemma buffer_to_hex_be32: "''0x'' @ buffer_to_hex (be_bytes 32 n) = hex_be32 (int n)"
proof -
  have "2 * 32 = (64 :: nat)" by simp
  then show ?thesis using buffer_to_hex_be_bytes [of 32 n] by (simp only: hex_be32_def nat_int)
qed

lemma tree_answer_Some:
  assumes "i < length (mt_leaves t)" "merkle_wf H t" "length (mt_leaves t) \<le> 2 ^ 31"
    and "\<forall>x \<in> set (mt_leaves t). 0 \<le> x \<and> x < fr"
  obtains j ip where "j < length (mt_leaves t)" "mt_leaves t ! j = mt_leaves t ! i" "merkle_proof H t (int j) = Inr ip"
    "tree_answer H t (hex_be32 (mt_leaves t ! i)) = Some (path_response ip)"
proof -
  let ?P = "\<lambda>j. hex_be32 (mt_leaves t ! j) = hex_be32 (mt_leaves t ! i)"
  have "List.find ?P [0..<length (mt_leaves t)] \<noteq> None" using assms(1) by (auto simp: find_None_iff)
  then obtain j where j: "List.find ?P [0..<length (mt_leaves t)] = Some j" by blast
  then have jl: "j < length (mt_leaves t)" "?P j" by (auto simp: find_Some_iff)
  then have "mt_leaves t ! j = mt_leaves t ! i" using assms(1,4) hex_be32_inject by (meson nth_mem)
  moreover obtain ip where "merkle_proof H t (int j) = Inr ip" using merkle_proof_inr [OF assms(2) jl(1) assms(3)] by blast
  ultimately show ?thesis using that [OF jl(1)] j by (simp add: tree_answer_def)
qed

text \<open>Groth16 is complete: a witness that satisfies the circuit has a proof the program's verifier accepts.\<close>

definition prover_complete :: "sdk_env \<Rightarrow> 'l chain_env \<Rightarrow> bool" where
  "prover_complete env cenv \<longleftrightarrow> (\<forall>w sg wasm zkey. signals_of w = Some sg \<longrightarrow> circuit_ok (se_poseidon env) sg \<longrightarrow>
     (\<exists>out groth. se_prove env w wasm zkey = Some out \<and> so_public_signals out = witness_publics w
        \<and> pack_groth16 out = Inr groth \<and> ce_verify cenv (gp_proof_bytes groth) (gp_public_signals groth)))"

section \<open>Fields of the tree's nodes\<close>

lemma proof_fields:
  assumes "\<And>l r. 0 \<le> H l r \<and> H l r < fr" "\<forall>x \<in> set (mt_leaves t). 0 \<le> x \<and> x < fr"
    and "merkle_wf H t" "i < length (mt_leaves t)" "length (mt_leaves t) \<le> 2 ^ 31"
    and "merkle_proof H t (int i) = Inr ip"
  shows "(\<forall>x \<in> set (ip_elements ip). 0 \<le> x \<and> x < fr) \<and> 0 \<le> ip_root ip \<and> ip_root ip < fr
     \<and> ip_root ip = merkle_root H t"
proof -
  have m: "(\<forall>x \<in> set xs. 0 \<le> x \<and> x < fr) \<Longrightarrow> 0 \<le> mnode H d xs \<and> mnode H d xs < fr" for d xs
    using assms(1) fr_pos by (cases d) (auto split: list.split)
  have ne: "0 \<le> node_at H (mt_leaves t) d j \<and> node_at H (mt_leaves t) d j < fr" for d j
    unfolding node_at_def using assms(2) by (intro m) (auto dest: in_set_takeD in_set_dropD)
  have "ip = \<lparr>ip_root = merkle_root H t, ip_elements = path_els H (mt_leaves t) 0 (mt_depth t) i,
      ip_indices = path_idxs (mt_depth t) i\<rparr>"
    using merkle_proof_inr [OF assms(3-5)] assms(6) by simp
  then show ?thesis using ne merkle_root_node [OF assms(3)] by (auto simp: path_els_def)
qed

section \<open>The program accepts the payment\<close>

text \<open>What the pool has to be like for a withdraw of this note to this owner to be possible.\<close>

definition pool_ready ::
    "'l chain_env \<Rightarrow> (int \<Rightarrow> int \<Rightarrow> int) \<Rightarrow> int list \<Rightarrow> 'l pool_state \<Rightarrow> pubkey \<Rightarrow> pubkey \<Rightarrow> u64 \<Rightarrow> bool" where
  "pool_ready cenv H xs st to ata amount \<longleftrightarrow>
     \<not> pc_paused (ps_config st) \<and> ce_vk_hash cenv = pc_vk_hash (ps_config st)
     \<and> pc_fee_vault (ps_config st) = default_pubkey
     \<and> ce_ata cenv to (dn_mint (ps_denom st)) = ata
     \<and> ce_transfer cenv (dn_vault (ps_denom st)) ata amount (ps_ledger st) \<noteq> None
     \<and> poseidon_parity H (ce_hash2 cenv) \<and> tree_rel H xs (ps_tree st) \<and> length xs < 2 ^ 20"

lemma pool_withdraw_ok:
  assumes ready: "pool_ready cenv H xs st to ata amount"
    and ctx: "ctx = \<lparr>wc_recipient = \<lparr>tv_key = ata, tv_owner = to, tv_mint = dn_mint (ps_denom st)\<rparr>,
        wc_fee_vault = None, wc_bump = bump\<rparr>"
    and fresh: "(den, nul) \<notin> set (spent_keys st)" "den = dn_denom_id (ps_denom st)"
    and sigs: "sigs ! 0 = field_from_u64 (dn_amount (ps_denom st))" "sigs ! 2 = nul"
      "sigs ! 3 = pool_pubkey_to_field to" "sigs ! 4 = field_from_u64 amount" "sigs ! 5 = fe_bytes leaf"
    and known: "is_known_root (ps_tree st) (sigs ! 1)" and leaf: "is_field leaf"
    and proof_ok: "ce_verify cenv pf sigs"
  obtains l tree where "ce_transfer cenv (dn_vault (ps_denom st)) ata amount (ps_ledger st) = Some l"
    "tree_rel H (xs @ [leaf]) tree"
    "pool_withdraw cenv ctx den nul pf sigs st = Inr (st\<lparr>ps_ledger := l, ps_tree := tree,
       ps_nullifiers := \<lparr>nr_denom_id = den, nr_nullifier_hash = nul, nr_spent_at_slot = ce_slot cenv, nr_bump = bump\<rparr>
         # ps_nullifiers st\<rparr>)"
proof -
  have hi: "list_all (\<lambda>b. b = 0) (take 24 (sigs ! 4))"
    by (simp add: sigs field_from_u64_def zeros_def list_all_iff)
  have "length (sigs ! 4) = 32" by (simp add: sigs field_from_u64_def zeros_def)
  moreover have "unat amount < 256 ^ 32" by (rule less_trans [OF unsigned_less]) simp
  ultimately have "unat (payment_of sigs) = unat amount"
    using payment_of_val [OF hi]
    by (simp add: sigs field_from_u64_eq be_val_be_bytes)
  then have pay: "word_of_nat (be_val (slice 24 32 (sigs ! 4))) = amount"
    by (simp add: payment_of_def word_unat_eq_iff)
  obtain t' where app: "merkle_append (ce_hash2 cenv) (fe_bytes leaf) (ps_tree st) = Inr (pool_root H (xs @ [leaf]), t')"
    "tree_rel H (xs @ [leaf]) t'"
    using merkle_append_inr [of H "ce_hash2 cenv" xs "ps_tree st" leaf] ready leaf
    by (auto simp: pool_ready_def pool_depth_simps)
  obtain l where l: "ce_transfer cenv (dn_vault (ps_denom st)) ata amount (ps_ledger st) = Some l"
    using ready by (auto simp: pool_ready_def)
  have "pay_out cenv ctx amount st = Inr l"
    using ready l by (simp add: pay_out_def pool_ready_def Let_def transfer_def ctx)
  then have "pool_withdraw cenv ctx den nul pf sigs st = Inr (st\<lparr>ps_ledger := l, ps_tree := t',
       ps_nullifiers := \<lparr>nr_denom_id = den, nr_nullifier_hash = nul, nr_spent_at_slot = ce_slot cenv, nr_bump = bump\<rparr>
         # ps_nullifiers st\<rparr>)"
    unfolding pool_withdraw_def Let_def pay
    using ready fresh known proof_ok hi sigs(1-3) app sigs(5)
    by (simp add: ctx pool_ready_def nullifier_used_iff lift_pool_def)
  then show ?thesis using that l app(2) by blast
qed

text \<open>The six public signals the prover packs, in the order the program reads them.\<close>

lemma packed_signals:
  assumes w: "build_witness P r1 r2 c mp (int_str 10 (int r)) payment = Inr w" "parse_bigint (cm_nullifier c) = Some nul"
    and g: "so_public_signals out = witness_publics w" "pack_groth16 out = Inr groth"
    and nonneg: "mp_root mp = int_str 10 root" "0 \<le> root" "0 \<le> cm_amount c" "0 \<le> payment"
  shows "\<exists>ns nn. gp_public_signals groth ! 0 = be_bytes 32 (nat (cm_amount c)) \<and> gp_public_signals groth ! 1 = be_bytes 32 (nat root)
     \<and> gp_public_signals groth ! 2 = be_bytes 32 (P [nul]) \<and> gp_public_signals groth ! 3 = be_bytes 32 r
     \<and> gp_public_signals groth ! 4 = be_bytes 32 (nat payment)
     \<and> gp_public_signals groth ! 5 = be_bytes 32 (P [ns, nn, cm_amount c - payment])
     \<and> wi_change_commitment w = nat_str 10 (P [ns, nn, cm_amount c - payment])"
proof -
  obtain ns nn where wf: "wi_change_commitment w = nat_str 10 (P [ns, nn, cm_amount c - payment])"
    "wi_amount w = int_str 10 (cm_amount c)" "wi_root w = mp_root mp" "wi_recipient w = int_str 10 (int r)"
    "wi_payment_amount w = int_str 10 payment" "wi_nullifier_hash w = nat_str 10 (P [nul])"
    using w by (auto elim!: build_witness_fields)
  have dec: "dec_string_to_be32 (int_str 10 x) = Inr (be_bytes 32 (nat x))" if "0 \<le> x" for x
    using that by (simp add: int_str_def dec_string_to_be32_eq field_dec_to_be32_nat)
  have dec': "dec_string_to_be32 (nat_str 10 k) = Inr (be_bytes 32 k)" for k
    by (simp add: dec_string_to_be32_eq field_dec_to_be32_nat)
  note sig = packed_signal(1) [OF g(2), unfolded g(1) witness_publics_def]
  show ?thesis
    using sig [of 0] sig [of 1] sig [of 2] sig [of 3] sig [of 4] sig [of 5] wf nonneg
    by (intro exI [of _ ns] exI [of _ nn]) (simp add: dec dec')
qed


section \<open>The instruction at the program\<close>

lemma chunk_concat:
  "list_all (\<lambda>x. length x = n) xss \<Longrightarrow> i < length xss \<Longrightarrow> take n (drop (n * i) (concat xss)) = xss ! i"
proof (induction xss arbitrary: i)
  case (Cons x xss)
  then show ?case by (cases i) simp_all
qed simp

lemma withdraw_bytes_parts:
  fixes d :: int
  assumes "sha_ok sha" "length nul = 32" "length pf = 256" "length sigs = 6" "list_all (\<lambda>x. length x = 32) sigs"
  defines "data \<equiv> withdraw_bytes sha d nul pf sigs"
  shows "length data = 489" "slice 0 8 data = anchor_ix_discriminator sha ''withdraw''" "data ! 8 = word_of_int d"
    "slice 9 41 data = nul" "slice 41 297 data = pf" "withdraw_signals data = sigs"
proof -
  define hdr where "hdr = anchor_ix_discriminator sha ''withdraw'' @ [word_of_int d] @ nul @ pf"
  have data: "data = hdr @ concat sigs" by (simp add: data_def hdr_def withdraw_bytes_def)
  have hdr: "length hdr = 297" using assms(1-3) by (simp add: hdr_def)
  have sig: "slice (297 + 32 * i) (329 + 32 * i) data = sigs ! i" if "i < 6" for i
  proof -
    have "slice (297 + 32 * i) (329 + 32 * i) data = take 32 (drop (32 * i) (concat sigs))"
      unfolding slice_def data using hdr by simp
    also have "\<dots> = sigs ! i" by (rule chunk_concat) (use assms(4,5) that in simp_all)
    finally show ?thesis .
  qed
  show "withdraw_signals data = sigs"
    by (rule nth_equalityI) (simp_all add: withdraw_signals_def assms(4) sig)
  show "length data = 489" using length_concat_const [OF assms(5)] hdr assms(4) by (simp add: data)
  show "slice 0 8 data = anchor_ix_discriminator sha ''withdraw''" "data ! 8 = word_of_int d"
    "slice 9 41 data = nul" "slice 41 297 data = pf"
    using assms(1-3) by (simp_all add: data hdr_def slice_def nth_append)
qed

lemma withdraw_signals_length: "length (withdraw_signals data) = 6"
  by (simp add: withdraw_signals_def)

text \<open>The addresses the SDK puts into the account list are those of the program's seeds.\<close>

lemma withdraw_metas_constraints:
  assumes "pe_fpa penv = se_fpa env" "pe_id penv = sk_program_id s" "d = word_of_int den"
    and "pw_config w \<noteq> None" "pw_denoms w d = Some (dn, t)" "dn_vault dn = fst (se_fpa env (vault_seeds d) (sk_program_id s))"
    and "pe_token penv (pw_ledger w) (dn_vault dn) \<noteq> None"
  shows "list_all fst (withdraw_constraints penv d nul
     (withdraw_metas (withdraw_accounts_for env s den
        (fst (se_fpa env [utf8_ascii ''nullifier'', [denom_byte den], nul] (sk_program_id s))) to payer) (sk_program_id s)) w)"
  using assms
  by (simp add: withdraw_constraints_def withdraw_metas_def withdraw_accounts_for_def at_seeds_def pda_def is_mut_def
      is_signer_def is_program_def is_token_def is_vault_def config_seeds_def denom_seeds_def tree_seeds_def vault_seeds_def
      nullifier_seeds_def find_pool_config_pda_def find_denomination_pda_def find_merkle_tree_pda_def find_vault_pda_def
      denom_byte_eq default_to_def)

lemma withdraw_instruction_accepted:
  assumes sha: "pool_sha_ok (se_sha env)"
    and at: "pe_sha penv = se_sha env" "pe_fpa penv = se_fpa env" "pe_id penv = sk_program_id s" "d = word_of_int den"
    and st: "denom_state d w = Some st" "dn_vault (ps_denom st) = fst (se_fpa env (vault_seeds d) (sk_program_id s))"
    and tok: "pe_token penv (pw_ledger w) (dn_vault (ps_denom st)) \<noteq> None"
      "pe_token penv (pw_ledger w) ata = Some (own, mint)" "ata = find_associated_token_address (se_fpa env) to (sk_usdc_mint s)"
    and len: "length nul = 32" "length (gp_proof_bytes groth) = 256" "length (gp_public_signals groth) = 6"
      "list_all (\<lambda>x. length x = 32) (gp_public_signals groth)"
    and run: "pool_withdraw (pe_chain penv) \<lparr>wc_recipient = \<lparr>tv_key = ata, tv_owner = own, tv_mint = mint\<rparr>,
        wc_fee_vault = None, wc_bump = bump_of penv (nullifier_seeds d nul)\<rparr> d nul (gp_proof_bytes groth)
        (gp_public_signals groth) st = Inr st'"
  shows "pool_process penv (withdraw_instruction env s den nul groth to payer) w = Inr (store_denom d st' w)"
proof -
  let ?ix = "withdraw_instruction env s den nul groth to payer"
  have sha': "sha_ok (se_sha env)" using sha by (simp add: pool_sha_ok_def)
  note parts = withdraw_bytes_parts [OF sha' len, of den]
  have data: "ix_data ?ix = withdraw_bytes (se_sha env) den nul (gp_proof_bytes groth) (gp_public_signals groth)"
    by (simp add: withdraw_instruction_def)
  have disc: "anchor_ix_discriminator (se_sha env) ''withdraw'' = anchor_ix_discriminator (se_sha env) n \<longleftrightarrow> ''withdraw'' = n"
    if "n \<in> set pool_names" for n using pool_sha_distinct [OF sha _ that] by (simp add: pool_names_def)
  have keys: "am_pubkey (ix_keys ?ix ! 5) = ata" "am_pubkey (ix_keys ?ix ! 6) = sk_program_id s"
    by (simp_all add: withdraw_instruction_def withdraw_metas_def withdraw_accounts_for_def default_to_def tok(3))
  have st': "pw_config w = Some (ps_config st)" "pw_denoms w d = Some (ps_denom st, ps_tree st)"
    using st(1) by (simp_all add: denom_state_Some)
  have cons: "check_all (withdraw_constraints penv d nul (ix_keys ?ix) w) = Inr ()"
    using withdraw_metas_constraints [OF at(2-4) _ st'(2) st(2) tok(1)] st'(1)
    by (simp add: check_all_Inr withdraw_instruction_def)
  have "run_withdraw penv (ix_keys ?ix) (ix_data ?ix) w = Inr (store_denom d st' w)"
    unfolding run_withdraw_def data parts Let_def at(4) [symmetric]
    using st(1) cons keys run tok(2) at(3) by (simp add: token_at_def chainE_def)
  moreover have "pool_process penv ?ix w = run_withdraw penv (ix_keys ?ix) (ix_data ?ix) w"
    unfolding pool_process_def data Let_def parts
    by (simp add: at parts disc pool_names_def) (simp add: withdraw_instruction_def)
  ultimately show ?thesis by simp
qed

section \<open>What \<open>pay\<close> submits\<close>

text \<open>With the leaf in the indexer's tree and a complete prover: the instruction and its six public signals.\<close>

lemma pay_builds_withdraw:
  fixes env :: sdk_env
  defines "H \<equiv> \<lambda>l r. int (se_poseidon env [l, r])"
  assumes P: "\<And>xs. int (se_poseidon env xs) < fr" and sha: "sha_ok (se_sha env)"
    and wallet: "sk_note s = Some n" "0 < payment" "select_commitment payment (nt_commitments n) = Some c"
      "parse_bigint (cm_secret c) = Some sec" "parse_bigint (cm_nullifier c) = Some nul"
      "se_rnd1 env \<noteq> []" "se_rnd2 env \<noteq> []" "length to = 32" "0 \<le> cm_amount c" "cm_amount c < 2 ^ 64"
    and tree: "merkle_wf H t" "mt_depth t = 20" "length (mt_leaves t) \<le> 2 ^ 20"
      "\<forall>x \<in> set (mt_leaves t). 0 \<le> x \<and> x < fr" "int (se_poseidon env [sec, nul, cm_amount c]) \<in> set (mt_leaves t)"
    and indexer: "\<And>h. se_merkle_proof env (cm_denom_id c) h = tree_answer H t h"
      "\<And>ns. se_nullifier_status env (cm_denom_id c) (hex_be32 (int (se_poseidon env [nul]))) = Some ns \<Longrightarrow> \<not> ns_spent ns"
    and prover: "prover_complete env cenv"
  obtains w groth change where "pay_prepare env s to payment (Some payer) = Inr (c, w, withdraw_instruction env s
       (cm_denom_id c) (be_bytes 32 (se_poseidon env [nul])) groth to (sg_key payer), payer)"
    "length (gp_proof_bytes groth) = 256" "length (gp_public_signals groth) = 6"
    "list_all (\<lambda>x. length x = 32) (gp_public_signals groth)" "ce_verify cenv (gp_proof_bytes groth) (gp_public_signals groth)"
    "is_field change" "wi_change_commitment w = int_str 10 change"
    "gp_public_signals groth ! 0 = be_bytes 32 (nat (cm_amount c))" "gp_public_signals groth ! 1 = fe_bytes (merkle_root H t)"
    "gp_public_signals groth ! 2 = be_bytes 32 (se_poseidon env [nul])" "gp_public_signals groth ! 3 = pool_pubkey_to_field to"
    "gp_public_signals groth ! 4 = be_bytes 32 (nat payment)" "gp_public_signals groth ! 5 = fe_bytes change"
proof -
  let ?P = "se_poseidon env"
  have H: "0 \<le> H l r \<and> H l r < fr" for l r using P by (simp add: H_def)
  have len31: "length (mt_leaves t) \<le> 2 ^ 31" using tree(3) by simp
  obtain i where i: "i < length (mt_leaves t)" "mt_leaves t ! i = int (?P [sec, nul, cm_amount c])"
    using tree(5) by (auto simp: in_set_conv_nth)
  obtain j ip where j: "j < length (mt_leaves t)" "mt_leaves t ! j = int (?P [sec, nul, cm_amount c])"
    "merkle_proof H t (int j) = Inr ip" "tree_answer H t (hex_be32 (int (?P [sec, nul, cm_amount c]))) = Some (path_response ip)"
    using tree_answer_Some [OF i(1) tree(1) len31 tree(4), of thesis] i(2) by metis
  let ?mp = "\<lparr>mp_path_elements = map (int_str 10) (ip_elements ip), mp_path_indices = ip_indices ip,
      mp_root = int_str 10 (ip_root ip)\<rparr>"
  note fields = proof_fields [OF H tree(4,1) j(1) len31 j(3)]
  have mp: "decimal_path (path_response ip) = Inr ?mp" using fields by (simp add: decimal_path_response)
  have amt: "payment \<le> cm_amount c" using select_commitment_Some [OF wallet(3)] by simp
  have pay64: "0 \<le> payment" "payment < 2 ^ 64" using amt wallet(2,10) by simp_all
  define r where "r = be_val (pool_pubkey_to_field to)"
  have pf32: "length (pool_pubkey_to_field to) = 32" using wallet(8) by (simp add: pool_pubkey_to_field_def)
  have recip: "pubkey_to_field_string to = Inr (int_str 10 (int r))"
    using wallet(8) by (simp add: pubkey_to_field_string_def pubkey_to_field_def as_bytes_def
        pool_pubkey_to_field_def r_def int_str_def)
  obtain w sg where w: "build_witness ?P (se_rnd1 env) (se_rnd2 env) c ?mp (int_str 10 (int r)) payment = Inr w"
    "signals_of w = Some sg" "circuit_ok ?P sg"
    using honest_witness [of ?P c sec nul payment t j ip ?mp "se_rnd1 env" "se_rnd2 env" "int r"]
      P wallet(2,4-7,9,10) pay64 tree amt j unfolding H_def by blast
  obtain out groth where g: "se_prove env w (sk_wasm s) (sk_zkey s) = Some out"
    "so_public_signals out = witness_publics w" "pack_groth16 out = Inr groth"
    "ce_verify cenv (gp_proof_bytes groth) (gp_public_signals groth)"
    using prover w(2,3) unfolding prover_complete_def by blast
  have leaf: "leaf_bytes ?P c = Inr (be_bytes 32 (?P [sec, nul, cm_amount c]))"
    using wallet(4,5) by (simp add: leaf_bytes_def commitment_hash_def field_dec_to_be32_nat)
  have asked: "se_merkle_proof env (cm_denom_id c) (''0x'' @ buffer_to_hex (be_bytes 32 (?P [sec, nul, cm_amount c])))
      = Some (path_response ip)"
    unfolding indexer(1) buffer_to_hex_be32 by (rule j(4))
  note prep = pay_prepare_ok [OF sha wallet(8,1-7) leaf asked mp _ recip w(1) g(1-3), unfolded buffer_to_hex_be32, OF indexer(2)]
  let ?sigs = "gp_public_signals groth"
  obtain ns nn where six: "?sigs ! 0 = be_bytes 32 (nat (cm_amount c)) \<and> ?sigs ! 1 = be_bytes 32 (nat (ip_root ip))
     \<and> ?sigs ! 2 = be_bytes 32 (?P [nul]) \<and> ?sigs ! 3 = be_bytes 32 r \<and> ?sigs ! 4 = be_bytes 32 (nat payment)
     \<and> ?sigs ! 5 = be_bytes 32 (?P [ns, nn, cm_amount c - payment])
     \<and> wi_change_commitment w = nat_str 10 (?P [ns, nn, cm_amount c - payment])"
    using packed_signals [OF w(1) wallet(5) g(2,3) _ _ wallet(9) pay64(1), of "ip_root ip"] fields by auto
  let ?change = "int (?P [ns, nn, cm_amount c - payment])"
  have "is_field ?change" using P by (simp add: is_field_def fr_def)
  moreover have "?sigs ! 1 = fe_bytes (merkle_root H t)" "?sigs ! 3 = pool_pubkey_to_field to" "?sigs ! 5 = fe_bytes ?change"
    "wi_change_commitment w = int_str 10 ?change"
    using six fields be_bytes_be_val [OF pf32] by (simp_all add: fe_bytes_def r_def int_str_def)
  ultimately show ?thesis using prep g(4) six by (intro that [of w groth ?change]) simp_all
qed

section \<open>Properties\<close>

text \<open>
  C1. A payment goes through end to end, from the wallet to the deployed program. Take a program
  reached by any run of instructions, a wallet whose selected commitment is worth the denomination's
  amount, the tree of the leaves the indexer reads from that run, which contains the commitment, and
  an indexer that answers a request for a leaf with the path of that leaf in that tree. If the
  program is not paused, runs its configured verifying key and charges no fee, the nullifier is
  unspent, the vault can pay and the recipient's associated token account exists, and the prover is
  complete, then \<open>pay\<close> builds an instruction, and the program, given that whole instruction with
  its account list and data, accepts it: the vault's transfer of exactly the payment to the recipient's
  associated account is the only change of the ledger, the note's nullifier is recorded, and the
  tree of this denomination, and nothing else, grows by the change commitment of the witness,
  which is also the leaf the indexer reads from the instruction.
\<close>

theorem sdk_payment_accepted_on_chain:
  fixes env :: sdk_env and penv :: "'l program_env"
  defines "H \<equiv> \<lambda>l r. int (se_poseidon env [l, r])"
  assumes P: "\<And>xs. int (se_poseidon env xs) < fr"
    and wallet: "sk_note s = Some n" "0 < payment" "select_commitment payment (nt_commitments n) = Some c"
      "parse_bigint (cm_secret c) = Some sec" "parse_bigint (cm_nullifier c) = Some nul"
      "se_rnd1 env \<noteq> []" "se_rnd2 env \<noteq> []" "length to = 32"
      "d = word_of_int (cm_denom_id c)" "ata = find_associated_token_address (se_fpa env) to (sk_usdc_mint s)"
    and deployed: "pe_sha penv = se_sha env" "pe_fpa penv = se_fpa env" "pe_id penv = sk_program_id s"
      "ce_ata (pe_chain penv) = find_associated_token_address (se_fpa env)" "pool_sha_ok (se_sha env)"
      "poseidon_parity H (ce_hash2 (pe_chain penv))"
    and run: "world_run (se_sha env) (se_fpa env) (sk_program_id s) (ce_hash2 (pe_chain penv)) h pw"
    and tree: "merkle_wf H t" "mt_depth t = 20" "length (mt_leaves t) < 2 ^ 20" "list_all is_field (mt_leaves t)"
      "run_leaves (se_sha env) d h = map fe_bytes (mt_leaves t)" "merkle_root H t \<noteq> 0"
      "int (se_poseidon env [sec, nul, cm_amount c]) \<in> set (mt_leaves t)"
    and indexer: "\<And>x. se_merkle_proof env (cm_denom_id c) x = tree_answer H t x"
      "\<And>ns. se_nullifier_status env (cm_denom_id c) (hex_be32 (int (se_poseidon env [nul]))) = Some ns \<Longrightarrow> \<not> ns_spent ns"
    and prover: "prover_complete env (pe_chain penv)"
    and pool: "pw_config pw = Some cfg" "\<not> pc_paused cfg" "ce_vk_hash (pe_chain penv) = pc_vk_hash cfg"
      "pc_fee_vault cfg = default_pubkey" "pw_denoms pw d = Some (dn, acc)" "dn_mint dn = sk_usdc_mint s"
      "cm_amount c = int (unat (dn_amount dn))" "(d, be_bytes 32 (se_poseidon env [nul])) \<notin> set (world_spent pw)"
    and tokens: "pe_token penv (pw_ledger pw) (dn_vault dn) \<noteq> None" "pe_token penv (pw_ledger pw) ata = Some (to, sk_usdc_mint s)"
      "ce_transfer (pe_chain penv) (dn_vault dn) ata (word_of_int payment) (pw_ledger pw) \<noteq> None"
  shows "\<exists>w ix pw' change acc'. pay_prepare env s to payment (Some payer) = Inr (c, w, ix, payer)
     \<and> pool_process penv ix pw = Inr pw'
     \<and> ce_transfer (pe_chain penv) (dn_vault dn) ata (word_of_int payment) (pw_ledger pw) = Some (pw_ledger pw')
     \<and> world_spent pw' = (d, be_bytes 32 (se_poseidon env [nul])) # world_spent pw
     \<and> wi_change_commitment w = int_str 10 change \<and> leaves_read (se_sha env) d ix = [fe_bytes change]
     \<and> pw_denoms pw' = (pw_denoms pw)(d \<mapsto> (dn, acc')) \<and> tree_rel H (mt_leaves t @ [change]) acc'
     \<and> pw_config pw' = pw_config pw"
proof -
  let ?P = "se_poseidon env"
  let ?nul = "be_bytes 32 (?P [nul])"
  have sha: "sha_ok (se_sha env)" using deployed(5) by (simp add: pool_sha_ok_def)
  have "unat (dn_amount dn) < 2 ^ 64" by (rule less_le_trans [OF unsigned_less]) simp
  then have amt64: "0 \<le> cm_amount c" "cm_amount c < 2 ^ 64"
    using pool(7) by (simp_all flip: of_nat_less_iff [where 'a = int])
  have pay64: "payment < 2 ^ 64" using select_commitment_Some [OF wallet(3)] amt64 by simp
  have leaves: "\<forall>x \<in> set (mt_leaves t). 0 \<le> x \<and> x < fr" using tree(4) by (auto simp: list_all_iff is_field_def fr_def)
  have ok: "dn_denom_id dn = d" "dn_vault dn = fst (se_fpa env (vault_seeds d) (sk_program_id s))" "tree_rel H (mt_leaves t) acc"
    using world_run_inv [OF run deployed(6,5), of d] pool(5) tree(4,5) by (simp_all add: denom_ok_def)
  have root: "merkle_root H t = spec_root H 20 (mt_leaves t)"
    using merkle_root_node [OF tree(1)] tree(2,3) by (simp add: node_at_root)
  have ne: "mt_leaves t \<noteq> []" using tree(7) by auto
  have known: "is_known_root acc (fe_bytes (merkle_root H t))"
    using tree_rel_knows_root [OF deployed(6) ok(3) ne] tree(6) root by simp
  obtain w groth change where p: "pay_prepare env s to payment (Some payer) = Inr (c, w, withdraw_instruction env s
       (cm_denom_id c) ?nul groth to (sg_key payer), payer)"
    and len: "length (gp_proof_bytes groth) = 256" "length (gp_public_signals groth) = 6"
      "list_all (\<lambda>x. length x = 32) (gp_public_signals groth)"
    and pf: "ce_verify (pe_chain penv) (gp_proof_bytes groth) (gp_public_signals groth)"
    and ch: "is_field change" "wi_change_commitment w = int_str 10 change"
    and sigs: "gp_public_signals groth ! 0 = be_bytes 32 (nat (cm_amount c))" "gp_public_signals groth ! 1 = fe_bytes (merkle_root H t)"
    "gp_public_signals groth ! 2 = ?nul" "gp_public_signals groth ! 3 = pool_pubkey_to_field to"
    "gp_public_signals groth ! 4 = be_bytes 32 (nat payment)" "gp_public_signals groth ! 5 = fe_bytes change"
    by (rule pay_builds_withdraw [OF P sha wallet(1-8) amt64 tree(1,2) [unfolded H_def] less_imp_le [OF tree(3)] leaves tree(7)
        indexer [unfolded H_def] prover, where payer = payer, folded H_def]) (assumption, (rule that; assumption))
  define st where "st = \<lparr>ps_config = cfg, ps_denom = dn, ps_tree = acc, ps_nullifiers = pw_nullifiers pw,
      ps_ledger = pw_ledger pw\<rparr>"
  have st: "denom_state d pw = Some st" by (simp add: st_def denom_state_Some pool)
  define ctx where "ctx = \<lparr>wc_recipient = \<lparr>tv_key = ata, tv_owner = to, tv_mint = sk_usdc_mint s\<rparr>, wc_fee_vault = None,
      wc_bump = bump_of penv (nullifier_seeds d ?nul)\<rparr>"
  have ready: "pool_ready (pe_chain penv) H (mt_leaves t) st to ata (word_of_int payment)"
    using pool(1-6) deployed(4,6) wallet(10) tokens(3) ok(3) tree(3) by (simp add: pool_ready_def st_def)
  have fresh: "(d, ?nul) \<notin> set (spent_keys st)" using pool(8) by (simp add: spent_keys_def world_spent_def st_def)
  have amounts: "gp_public_signals groth ! 0 = field_from_u64 (dn_amount dn)"
    "gp_public_signals groth ! 4 = field_from_u64 (word_of_int payment)"
    using sigs(1,5) pool(7) wallet(2) pay64 by (simp_all add: field_from_u64_eq unsigned_of_int take_bit_int_eq_self)
  have st_sel: "ps_denom st = dn" "ps_tree st = acc" "ps_ledger st = pw_ledger pw" "ps_config st = cfg"
    "ps_nullifiers st = pw_nullifiers pw" by (simp_all add: st_def)
  have ctx: "ctx = \<lparr>wc_recipient = \<lparr>tv_key = ata, tv_owner = to, tv_mint = dn_mint (ps_denom st)\<rparr>, wc_fee_vault = None,
      wc_bump = bump_of penv (nullifier_seeds d ?nul)\<rparr>" by (simp add: ctx_def st_sel pool(6))
  obtain l acc' where w: "ce_transfer (pe_chain penv) (dn_vault dn) ata (word_of_int payment) (pw_ledger pw) = Some l"
    "tree_rel H (mt_leaves t @ [change]) acc'"
    "pool_withdraw (pe_chain penv) ctx d ?nul (gp_proof_bytes groth) (gp_public_signals groth) st = Inr (st\<lparr>ps_ledger := l,
       ps_tree := acc', ps_nullifiers := \<lparr>nr_denom_id = d, nr_nullifier_hash = ?nul, nr_spent_at_slot = ce_slot (pe_chain penv),
         nr_bump = bump_of penv (nullifier_seeds d ?nul)\<rparr> # ps_nullifiers st\<rparr>)" (is "_ = Inr ?st'")
    using pool_withdraw_ok [OF ready ctx fresh, of "gp_public_signals groth" change "gp_proof_bytes groth"]
      amounts sigs(2-4,6) known ch(1) pf ok(1) by (simp only: st_sel) blast
  let ?ix = "withdraw_instruction env s (cm_denom_id c) ?nul groth to (sg_key payer)"
  have "pool_process penv ?ix pw = Inr (store_denom d ?st' pw)"
    by (rule withdraw_instruction_accepted [OF deployed(5,1-3) wallet(9) st _ _ tokens(2) wallet(10) _ len w(3) [unfolded ctx_def]])
      (use ok(2) tokens(1) in \<open>simp_all add: st_def\<close>)
  moreover have "leaves_read (se_sha env) d ?ix = [fe_bytes change]"
  proof -
    note parts = withdraw_bytes_parts [OF sha _ len, of ?nul "cm_denom_id c"]
    show ?thesis
      using indexed_leaf_withdraw [OF deployed(5), of "ix_data ?ix"] parts sigs(6)
      by (simp add: withdraw_instruction_def leaves_read_def wallet(9))
  qed
  ultimately show ?thesis
    using p w(1,2) ch(2) pool(1)
    by (intro exI [of _ w] exI [of _ ?ix] exI [of _ "store_denom d ?st' pw"] exI [of _ change] exI [of _ acc'])
      (simp add: st_def world_spent_def store_denom_def)
qed

text \<open>A wallet, an indexer and a prover around the toy pool: Poseidon is constantly 7.\<close>

definition seven_tree :: poseidon_merkle_tree where
  "seven_tree = snd (merkle_insert 7 (merkle_new (\<lambda>_ _. 7) 20))"

definition seven_env :: sdk_env where
  "seven_env = toy_sdk_env\<lparr>se_poseidon := (\<lambda>_. 7), se_sha := plain_sha, se_fpa := plain_fpa,
     se_merkle_proof := (\<lambda>_. tree_answer (\<lambda>_ _. 7) seven_tree)\<rparr>"

lemma seven_env_simps:
  "se_poseidon seven_env = (\<lambda>_. 7)" "se_sha seven_env = plain_sha" "se_fpa seven_env = plain_fpa"
  "se_rnd1 seven_env = [1]" "se_rnd2 seven_env = [2]"
  "se_merkle_proof seven_env d h = tree_answer (\<lambda>_ _. 7) seven_tree h" "se_nullifier_status seven_env d h = None"
  "se_prove seven_env w wasm zkey = Some \<lparr>so_pi_a = [''0'', ''0''], so_pi_b = [[''0'', ''0''], [''0'', ''0'']],
     so_pi_c = [''0'', ''0''], so_public_signals = witness_publics w\<rparr>"
  by (simp_all add: seven_env_def toy_sdk_env_def)

text \<open>The program that opened the denomination and took the deposit, with the SDK's associated addresses.\<close>

definition plain_chain :: "balances chain_env" where
  "plain_chain = (toy_env 20)\<lparr>ce_ata := find_associated_token_address plain_fpa\<rparr>"

definition plain_spender :: "balances program_env" where
  "plain_spender = (plain_program 20)\<lparr>pe_chain := plain_chain\<rparr>"

lemma plain_spender_simps:
  "pe_chain plain_spender = plain_chain" "pe_sha plain_spender = plain_sha" "pe_fpa plain_spender = plain_fpa"
  "pe_id plain_spender = zeros 32" "pe_token plain_spender l k = Some (k, zeros 32)"
  "ce_ata plain_chain = find_associated_token_address plain_fpa" "ce_hash2 plain_chain = seven_syscall"
  "ce_vk_hash plain_chain = zeros 32" "ce_verify plain_chain = (\<lambda>pf sigs. True)" "ce_transfer plain_chain = toy_transfer"
  by (simp_all add: plain_spender_def plain_program_def plain_chain_def toy_env_def)

lemma plain_ata: "find_associated_token_address plain_fpa (zeros 32) mint = zeros 32"
  by (simp add: find_associated_token_address_def plain_fpa_def)

lemma all_some_Some: "all_some xs = Some ys \<longleftrightarrow> xs = map Some ys"
  by (induction xs arbitrary: ys) (auto split: option.splits)

lemma toy_pack:
  assumes "signals_of w = Some sg"
  shows "\<exists>groth. pack_groth16 \<lparr>so_pi_a = [''0'', ''0''], so_pi_b = [[''0'', ''0''], [''0'', ''0'']],
     so_pi_c = [''0'', ''0''], so_public_signals = witness_publics w\<rparr> = Inr groth"
proof -
  have d: "parse_bigint x = Some n \<Longrightarrow> \<exists>bs. dec_string_to_be32 x = Inr bs" for x n
    by (simp add: dec_string_to_be32_def Let_def)
  have p: "parse_bigint (wi_amount w) \<noteq> None" "parse_bigint (wi_root w) \<noteq> None"
    "parse_bigint (wi_nullifier_hash w) \<noteq> None" "parse_bigint (wi_recipient w) \<noteq> None"
    "parse_bigint (wi_payment_amount w) \<noteq> None" "parse_bigint (wi_change_commitment w) \<noteq> None"
    using assms by (auto simp: signals_of_def split: option.splits)
  obtain a b c e f g where "dec_string_to_be32 (wi_amount w) = Inr a" "dec_string_to_be32 (wi_root w) = Inr b"
    "dec_string_to_be32 (wi_nullifier_hash w) = Inr c" "dec_string_to_be32 (wi_recipient w) = Inr e"
    "dec_string_to_be32 (wi_payment_amount w) = Inr f" "dec_string_to_be32 (wi_change_commitment w) = Inr g"
    using p d by (metis option.exhaust)
  then show ?thesis
    by (simp add: pack_groth16_def negate_g1_def negate_y_def bn254_q_def pack_g1_def pack_g2_def toy_dec
        witness_publics_def dec_string_to_be32_eq field_dec_to_be32_nat int_str_def)
qed

theorem sdk_payment_accepted_on_chain_witness:
  "\<exists>acc c w ix pw'.
     world_run plain_sha plain_fpa (zeros 32) seven_syscall plain_history (plain_world acc)
     \<and> pay_prepare seven_env (toy_sdk (Some toy_note)) (zeros 32) 400000 (Some toy_signer) = Inr (c, w, ix, toy_signer)
     \<and> pool_process plain_spender ix (plain_world acc) = Inr pw'
     \<and> pw_ledger pw' plain_vault = 5600000 \<and> pw_ledger pw' (zeros 32) = 4400000 \<and> world_spent pw' = [(1, be_bytes 32 7)]"
proof -
  let ?H = "\<lambda>_ _ :: int. 7 :: int"
  let ?c = "\<lparr>cm_secret = ''1'', cm_nullifier = ''2'', cm_amount = 1000000, cm_denom_id = 1\<rparr>"
  have f7: "is_field 7" by (simp add: is_field_def bn254_fr_def)
  obtain acc where run: "world_run plain_sha plain_fpa (zeros 32) seven_syscall plain_history (plain_world acc)"
    using plain_run by blast
  have tree: "merkle_wf ?H seven_tree" "mt_depth seven_tree = 20" "mt_leaves seven_tree = [7]"
    by (simp_all add: seven_tree_def) (simp_all add: merkle_new_def)
  have depth20: "(20 :: nat) = Suc 19" by simp
  have "spec_root ?H 20 [7] = 7" by (simp only: spec_root_def depth20 mnode.simps)
  then have root: "merkle_root ?H seven_tree = 7" by (simp add: merkle_root_node [OF tree(1)] tree node_at_root)
  have complete: "prover_complete seven_env plain_chain"
    unfolding prover_complete_def using toy_pack by (simp add: seven_env_simps plain_spender_simps)
  have sel: "select_commitment 400000 (nt_commitments toy_note) = Some ?c"
    by (simp add: select_commitment_def toy_note_def)
  have moves: "toy_transfer plain_vault (zeros 32) 400000 ((\<lambda>_. 5000000)(zeros 32 := 4000000, plain_vault := 6000000))
      = Some ((\<lambda>_. 5000000)(zeros 32 := 4400000, plain_vault := 5600000))"
    using plain_vault_neq by (simp add: toy_transfer_def Let_def fun_eq_iff)
  have "\<exists>w ix pw' change acc'. pay_prepare seven_env (toy_sdk (Some toy_note)) (zeros 32) 400000 (Some toy_signer)
       = Inr (?c, w, ix, toy_signer)
     \<and> pool_process plain_spender ix (plain_world acc) = Inr pw'
     \<and> ce_transfer (pe_chain plain_spender) (dn_vault (plain_denom 1)) (zeros 32) (word_of_int 400000)
          (pw_ledger (plain_world acc)) = Some (pw_ledger pw')
     \<and> world_spent pw' = (1, be_bytes 32 (se_poseidon seven_env [2])) # world_spent (plain_world acc)
     \<and> wi_change_commitment w = int_str 10 change \<and> leaves_read (se_sha seven_env) 1 ix = [fe_bytes change]
     \<and> pw_denoms pw' = (pw_denoms (plain_world acc))(1 \<mapsto> (plain_denom 1, acc'))
     \<and> tree_rel (\<lambda>l r. int (se_poseidon seven_env [l, r])) (mt_leaves seven_tree @ [change]) acc'
     \<and> pw_config pw' = pw_config (plain_world acc)"
    by (rule sdk_payment_accepted_on_chain [where t = seven_tree and n = toy_note and sec = 1 and nul = 2 and cfg = plain_config
          and h = plain_history and acc = acc])
      (use sel tree run complete plain_sha_ok seven_parity plain_leaves root f7 moves in
        \<open>simp_all add: seven_env_simps toy_env_simps toy_dec fr_def bn254_fr_def plain_spender_simps plain_ata toy_sdk_def
          plain_world_def plain_config_def world_spent_def\<close>)
  then obtain w ix pw' where pay: "pay_prepare seven_env (toy_sdk (Some toy_note)) (zeros 32) 400000 (Some toy_signer)
       = Inr (?c, w, ix, toy_signer)" "pool_process plain_spender ix (plain_world acc) = Inr pw'"
    and l: "toy_transfer plain_vault (zeros 32) 400000 (pw_ledger (plain_world acc)) = Some (pw_ledger pw')"
    and spent: "world_spent pw' = (1, be_bytes 32 7) # world_spent (plain_world acc)"
    by (auto simp: plain_spender_simps seven_env_simps)
  have "pw_ledger pw' = (\<lambda>_. 5000000)(zeros 32 := 4400000, plain_vault := 5600000)"
    using l moves by (simp add: plain_world_def)
  then have "pw_ledger pw' plain_vault = 5600000 \<and> pw_ledger pw' (zeros 32) = 4400000" using plain_vault_neq by simp
  moreover have "world_spent pw' = [(1, be_bytes 32 7)]" using spent by (simp add: world_spent_def plain_world_def)
  ultimately show ?thesis using run pay by blast
qed

end
