(* ===== verification/X402.thy ===== *)
theory X402
  imports SdkPay Json
begin

text \<open>
  The HTTP 402 wrapper of \<open>qietr-sdk/src/x402.ts\<close>. A merchant is a state \<open>'m\<close> that answers requests, a
  wallet a state \<open>'w\<close> that pays; both are passed through the loop. JSON bodies are taken well typed;
  a missing field is \<open>None\<close>; a string stands for its UTF-8 bytes. Besides what the code returns, the
  model returns the list of requirements it has settled, each with the amount paid, latest first; the
  code keeps the set of their keys.
\<close>

section \<open>Requirements and options\<close>

record requirement =
  rq_scheme :: string
  rq_network :: string
  rq_asset :: "string option"
  rq_pay_to :: string
  rq_max_amount_required :: "string option"
  rq_amount :: "string option"
  rq_resource :: "string option"
  rq_max_timeout_seconds :: "nat option"

record body402 =
  bd_accepts :: "requirement list option"
  bd_invoice_id :: "string option"

record response402 =
  rs_status :: nat
  rs_body :: "body402 option"

datatype x402_error =
    X402Config
  | Malformed
  | NoMatchingRequirement nat
  | AssetMismatch string string
  | AmountExceeded int int
  | PayToNotAllowed string
  | PaymentFailed
  | InvalidPayTo
  | FetchTimedOut nat
  | FetchFailed

record wrap_options =
  wo_max_retries :: "nat option"
  wo_max_amount_micro :: int
  wo_allowlist :: "string list option"
  wo_usdc_mint :: string
  wo_network_id :: "string option"
  wo_default_timeout_ms :: "nat option"

text \<open>A request as the merchant sees it: the resource, the payment header, the abort timeout if any.\<close>

record fetch_request =
  fr_input :: string
  fr_payment :: "string option"
  fr_timeout :: "nat option"

datatype fetch_failure = Aborted | Rejected

definition x402_version :: nat where
  "x402_version = 1"

definition supported_schemes :: "string list" where
  "supported_schemes = [''exact'', ''qietr-private'']"

definition default_network_id :: string where
  "default_network_id = ''solana''"

definition default_timeout_ms :: nat where
  "default_timeout_ms = 30000"

definition normalize_network :: "string \<Rightarrow> string" where
  "normalize_network label =
     (let l = to_lower (js_trim label)
      in if l \<in> set [''solana'', ''solana-mainnet'', ''mainnet-beta'', ''solana:mainnet'', ''solana-mainnet-beta'']
         then ''solana''
         else if l \<in> set [''solana-devnet'', ''devnet'', ''solana:devnet''] then ''solana-devnet''
         else if l \<in> set [''solana-testnet'', ''testnet'', ''solana:testnet''] then ''solana-testnet''
         else if l \<in> set [''localnet'', ''solana-localnet''] then ''solana-localnet'' else l)"

section \<open>The payment header\<close>

text \<open>\<open>JSON.stringify\<close> leaves undefined members out.\<close>

definition json_object :: "(string \<times> json option) list \<Rightarrow> json" where
  "json_object ms = JObj (List.map_filter (\<lambda>(k, v). map_option (Pair k) v) ms)"

definition base64_encode :: "string \<Rightarrow> string" where
  "base64_encode s = b64_encode (utf8_ascii s)"

definition payment_payload :: "requirement \<Rightarrow> int \<Rightarrow> string \<Rightarrow> string \<Rightarrow> string option \<Rightarrow> json" where
  "payment_payload r micro resource sig invoice =
     json_object
       [(''scheme'', Some (JStr (rq_scheme r))), (''network'', Some (JStr (rq_network r))),
        (''asset'', map_option JStr (rq_asset r)), (''payTo'', Some (JStr (rq_pay_to r))),
        (''amount'', Some (JStr (int_str 10 micro))), (''resource'', Some (JStr resource)),
        (''signature'', Some (JStr sig)), (''nonce'', Some (JStr sig)), (''invoiceId'', map_option JStr invoice)]"

definition payment_header :: "requirement \<Rightarrow> int \<Rightarrow> string \<Rightarrow> string \<Rightarrow> string option \<Rightarrow> string" where
  "payment_header r micro resource sig invoice =
     base64_encode (json_print (JObj
       [(''x402Version'', JNum (nat_str 10 x402_version)), (''scheme'', JStr (rq_scheme r)),
        (''network'', JStr (rq_network r)), (''payload'', payment_payload r micro resource sig invoice)]))"

text \<open>What a merchant reads back from the header: the JSON text, hence every field of the payload.\<close>

lemma payment_header_read:
  "json_parse (ascii_of (b64_decode (payment_header r micro resource sig invoice))) = Some (JObj
     [(''x402Version'', JNum ''1''), (''scheme'', JStr (rq_scheme r)), (''network'', JStr (rq_network r)),
      (''payload'', payment_payload r micro resource sig invoice)])"
proof -
  have one: "nat_str 10 x402_version = ''1''" by (simp add: x402_version_def) code_simp
  have num: "json_number ''1''" by code_simp
  have "json_ok (payment_payload r micro resource sig invoice)"
    by (cases "rq_asset r"; cases invoice) (simp_all add: payment_payload_def json_object_def List.map_filter_simps)
  then have "json_ok (JObj [(''x402Version'', JNum ''1''), (''scheme'', JStr (rq_scheme r)), (''network'', JStr (rq_network r)),
      (''payload'', payment_payload r micro resource sig invoice)])"
    using num by simp
  from json_roundtrip [OF this] show ?thesis
    by (simp add: payment_header_def base64_encode_def b64_decode_encode one)
qed

section \<open>Guards\<close>

type_synonym settlement = "requirement \<times> int"

definition dedupe_key :: "settlement \<Rightarrow> string" where
  "dedupe_key k = (case k of (r, micro) \<Rightarrow>
     rq_pay_to r @ '':'' @ int_str 10 micro @ '':'' @ default_to [] (rq_resource r))"

definition parse_amount :: "requirement \<Rightarrow> x402_error + int" where
  "parse_amount r =
     bindE (optE Malformed (case rq_max_amount_required r of Some a \<Rightarrow> Some a | None \<Rightarrow> rq_amount r)) (\<lambda>s.
     bindE (optE Malformed (parse_bigint s)) (\<lambda>micro.
     bindE (guardE (\<not> micro \<le> 0) Malformed) (\<lambda>_. Inr micro)))"

text \<open>Everything the wrapper checks before it pays.\<close>

definition check_requirements ::
    "wrap_options \<Rightarrow> settlement list \<Rightarrow> body402 option \<Rightarrow> x402_error + requirement \<times> int" where
  "check_requirements opts settled body =
     bindE (optE Malformed body) (\<lambda>b.
     bindE (optE Malformed (bd_accepts b)) (\<lambda>accepts.
     bindE (guardE (accepts \<noteq> []) Malformed) (\<lambda>_.
     bindE (optE (NoMatchingRequirement (length accepts))
              (List.find (\<lambda>r. rq_scheme r \<in> set supported_schemes \<and>
                   normalize_network (rq_network r)
                     = normalize_network (default_to default_network_id (wo_network_id opts))) accepts)) (\<lambda>r.
     bindE (case truthy (rq_asset r) of None \<Rightarrow> Inr ()
            | Some a \<Rightarrow> guardE (a = wo_usdc_mint opts) (AssetMismatch a (wo_usdc_mint opts))) (\<lambda>_.
     bindE (parse_amount r) (\<lambda>micro.
     bindE (guardE (\<not> micro > wo_max_amount_micro opts) (AmountExceeded micro (wo_max_amount_micro opts))) (\<lambda>_.
     bindE (case wo_allowlist opts of None \<Rightarrow> Inr ()
            | Some l \<Rightarrow> guardE (rq_pay_to r \<in> set l) (PayToNotAllowed (rq_pay_to r))) (\<lambda>_.
     bindE (guardE (dedupe_key (r, micro) \<notin> dedupe_key ` set settled) PaymentFailed) (\<lambda>_.
     Inr (r, micro))))))))))"

section \<open>The wrapper\<close>

record ('m, 'w) x402_env =
  xe_fetch :: "fetch_request \<Rightarrow> 'm \<Rightarrow> (fetch_failure + response402) \<times> 'm"
  xe_on_error :: "x402_error \<Rightarrow> 'm \<Rightarrow> 'm"
  xe_parse_key :: "string \<Rightarrow> pubkey option"
  xe_get_note :: "'w \<Rightarrow> shielded_note option"
  xe_set_note :: "shielded_note \<Rightarrow> 'w \<Rightarrow> 'w"
  xe_pay :: "pubkey \<Rightarrow> int \<Rightarrow> 'w \<Rightarrow> (sdk_error + shielded_note \<times> string) \<times> 'w"

text \<open>\<open>has_signal\<close>: the caller supplied an abort signal of its own, so no timeout is set.\<close>

definition timed_fetch ::
    "('m, 'w) x402_env \<Rightarrow> string \<Rightarrow> bool \<Rightarrow> string option \<Rightarrow> nat \<Rightarrow> 'm \<Rightarrow> (x402_error + response402) \<times> 'm" where
  "timed_fetch env input has_signal header timeout m =
     (case xe_fetch env \<lparr>fr_input = input, fr_payment = header,
              fr_timeout = (if has_signal then None else Some timeout)\<rparr> m of
        (Inr res, m') \<Rightarrow> (Inr res, m')
      | (Inl f, m') \<Rightarrow> (Inl (if \<not> has_signal \<and> f = Aborted then FetchTimedOut timeout else FetchFailed), m'))"

type_synonym ('m, 'w) x402_result = "(x402_error + response402) \<times> 'm \<times> 'w \<times> settlement list"

definition raise_error ::
    "('m, 'w) x402_env \<Rightarrow> x402_error \<Rightarrow> 'm \<Rightarrow> 'w \<Rightarrow> settlement list \<Rightarrow> ('m, 'w) x402_result" where
  "raise_error env e m w settled = (Inl e, xe_on_error env e m, w, settled)"

fun x402_loop ::
    "('m, 'w) x402_env \<Rightarrow> wrap_options \<Rightarrow> string \<Rightarrow> bool \<Rightarrow> nat \<Rightarrow> settlement list \<Rightarrow> response402 \<Rightarrow> 'm \<Rightarrow> 'w
      \<Rightarrow> ('m, 'w) x402_result" where
  "x402_loop env opts input has_signal 0 settled res m w = (Inr res, m, w, settled)"
| "x402_loop env opts input has_signal (Suc left) settled res m w =
     (if rs_status res \<noteq> 402 then (Inr res, m, w, settled)
      else case check_requirements opts settled (rs_body res) of
        Inl e \<Rightarrow> raise_error env e m w settled
      | Inr (r, micro) \<Rightarrow>
          if (case xe_get_note env w of None \<Rightarrow> True | Some n \<Rightarrow> nt_commitments n = [])
          then raise_error env PaymentFailed m w settled
          else case xe_parse_key env (rq_pay_to r) of
            None \<Rightarrow> (Inl InvalidPayTo, m, w, settled)
          | Some payto \<Rightarrow> (case xe_pay env payto micro w of
              (Inl _, w') \<Rightarrow> raise_error env PaymentFailed m w' settled
            | (Inr (n, sig), w') \<Rightarrow>
                let settled' = (r, micro) # settled;
                    w'' = xe_set_note env n w';
                    default_ms = default_to default_timeout_ms (wo_default_timeout_ms opts);
                    timeout = (case rq_max_timeout_seconds r of None \<Rightarrow> default_ms
                               | Some s \<Rightarrow> if s = 0 then default_ms else s * 1000);
                    header = payment_header r micro (default_to input (rq_resource r)) sig
                               (case rs_body res of None \<Rightarrow> None | Some b \<Rightarrow> bd_invoice_id b)
                in (case timed_fetch env input has_signal (Some header) timeout m of
                      (Inl _, m') \<Rightarrow> raise_error env PaymentFailed m' w'' settled'
                    | (Inr res', m') \<Rightarrow> x402_loop env opts input has_signal left settled' res' m' w'')))"

definition wrap_fetch ::
    "('m, 'w) x402_env \<Rightarrow> wrap_options \<Rightarrow> string \<Rightarrow> bool \<Rightarrow> 'm \<Rightarrow> 'w \<Rightarrow> ('m, 'w) x402_result" where
  "wrap_fetch env opts input has_signal m w =
     (if wo_max_amount_micro opts \<le> 0 then (Inl X402Config, m, w, [])
      else case timed_fetch env input has_signal None
                  (default_to default_timeout_ms (wo_default_timeout_ms opts)) m of
        (Inl e, m') \<Rightarrow> (Inl e, m', w, [])
      | (Inr res, m') \<Rightarrow> x402_loop env opts input has_signal (default_to 1 (wo_max_retries opts)) [] res m' w)"

section \<open>What the loop settles\<close>

definition settled_total :: "settlement list \<Rightarrow> int" where
  "settled_total ks = sum_list (map snd ks)"

text \<open>A requirement the caller has agreed to pay: scheme, network, asset, amount and recipient are accepted.\<close>

definition settlement_ok :: "wrap_options \<Rightarrow> settlement \<Rightarrow> bool" where
  "settlement_ok opts k = (case k of (r, micro) \<Rightarrow>
     rq_scheme r \<in> {''exact'', ''qietr-private''}
     \<and> normalize_network (rq_network r) = normalize_network (default_to ''solana'' (wo_network_id opts))
     \<and> rq_asset r \<in> {None, Some [], Some (wo_usdc_mint opts)}
     \<and> map_option parse_bigint (case rq_max_amount_required r of Some a \<Rightarrow> Some a | None \<Rightarrow> rq_amount r) = Some (Some micro)
     \<and> 0 < micro \<and> micro \<le> wo_max_amount_micro opts
     \<and> (case wo_allowlist opts of None \<Rightarrow> True | Some l \<Rightarrow> rq_pay_to r \<in> set l))"

lemma find_holds: "List.find P xs = Some x \<Longrightarrow> P x"
  by (auto simp: find_Some_iff)

lemma check_requirements_Inr:
  assumes "check_requirements opts settled body = Inr (r, micro)"
  shows "settlement_ok opts (r, micro) \<and> dedupe_key (r, micro) \<notin> dedupe_key ` set settled"
proof -
  obtain accepts where find: "List.find (\<lambda>r. rq_scheme r \<in> set supported_schemes \<and> normalize_network (rq_network r)
      = normalize_network (default_to default_network_id (wo_network_id opts))) accepts = Some r"
    and rest: "case truthy (rq_asset r) of None \<Rightarrow> True | Some a \<Rightarrow> a = wo_usdc_mint opts" "parse_amount r = Inr micro"
      "micro \<le> wo_max_amount_micro opts" "case wo_allowlist opts of None \<Rightarrow> True | Some l \<Rightarrow> rq_pay_to r \<in> set l"
      "dedupe_key (r, micro) \<notin> dedupe_key ` set settled"
    using assms by (auto simp: check_requirements_def res_simps split: option.splits)
  have "0 < micro" "map_option parse_bigint (case rq_max_amount_required r of Some a \<Rightarrow> Some a | None \<Rightarrow> rq_amount r)
      = Some (Some micro)"
    using rest(2) by (auto simp: parse_amount_def res_simps split: option.splits)
  moreover have "rq_asset r \<in> {None, Some [], Some (wo_usdc_mint opts)}"
    using rest(1) by (auto simp: truthy_def split: option.splits if_splits)
  ultimately show ?thesis
    using find_holds [OF find] rest(3-5) by (simp add: settlement_ok_def supported_schemes_def default_network_id_def)
qed

definition settled_ok :: "wrap_options \<Rightarrow> settlement list \<Rightarrow> bool" where
  "settled_ok opts ks \<longleftrightarrow> list_all (settlement_ok opts) ks \<and> distinct (map dedupe_key ks)"

lemma x402_loop_settled:
  assumes "x402_loop env opts input hs left settled res m w = (out, m', w', settled')" "settled_ok opts settled"
  shows "settled_ok opts settled' \<and> length settled' \<le> length settled + left"
  using assms
proof (induction left arbitrary: settled res m w)
  case 0
  then show ?case by simp
next
  case (Suc left)
  show ?case
  proof (cases "rs_status res = 402")
    case False
    then show ?thesis using Suc.prems by simp
  next
    case True
    show ?thesis
    proof (cases "check_requirements opts settled (rs_body res)")
      case (Inl e)
      then show ?thesis using Suc.prems True by (simp add: raise_error_def)
    next
      case (Inr rm)
      obtain r micro where rm: "rm = (r, micro)" by (cases rm)
      have ok: "settled_ok opts ((r, micro) # settled)"
        using check_requirements_Inr [OF Inr [unfolded rm]] Suc.prems(2) by (simp add: settled_ok_def)
      show ?thesis
        using Suc.prems True Inr rm Suc.IH [OF _ ok] ok
        by (simp add: raise_error_def Let_def split: if_splits option.splits sum.splits prod.splits) force+
    qed
  qed
qed

lemma wrap_fetch_settled:
  assumes "wrap_fetch env opts input hs m w = (out, m', w', settled)"
  shows "settled_ok opts settled \<and> length settled \<le> default_to 1 (wo_max_retries opts)"
proof (cases "wo_max_amount_micro opts \<le> 0")
  case True
  then show ?thesis using assms by (simp add: wrap_fetch_def settled_ok_def)
next
  case False
  obtain first m1 where f: "timed_fetch env input hs None
      (default_to default_timeout_ms (wo_default_timeout_ms opts)) m = (first, m1)" by fastforce
  show ?thesis
  proof (cases first)
    case (Inl e)
    then show ?thesis using assms False f by (simp add: wrap_fetch_def settled_ok_def)
  next
    case (Inr res)
    then have "x402_loop env opts input hs (default_to 1 (wo_max_retries opts)) [] res m1 w = (out, m', w', settled)"
      using assms False f by (simp add: wrap_fetch_def)
    from x402_loop_settled [OF this] show ?thesis by (simp add: settled_ok_def)
  qed
qed

section \<open>The wallet behind the wrapper\<close>

text \<open>
  What the wrapper needs of a wallet: a payment that succeeds lowers the balance by its amount once
  the updated note is stored, and one that fails leaves it alone.
\<close>

locale payer =
  fixes pay :: "pubkey \<Rightarrow> int \<Rightarrow> 'w \<Rightarrow> (sdk_error + shielded_note \<times> string) \<times> 'w"
    and store :: "shielded_note \<Rightarrow> 'w \<Rightarrow> 'w"
    and bal :: "'w \<Rightarrow> int"
    and inv :: "'w \<Rightarrow> bool"
  assumes pay_ok: "inv w \<Longrightarrow> pay to micro w = (Inr (n, sig), w') \<Longrightarrow> inv (store n w') \<and> bal (store n w') = bal w - micro"
    and pay_fail: "inv w \<Longrightarrow> pay to micro w = (Inl e, w') \<Longrightarrow> inv w' \<and> bal w' = bal w"
begin

lemma loop_balance:
  assumes "xe_pay env = pay" "xe_set_note env = store" "inv w"
    and "x402_loop env opts input hs left settled res m w = (out, m', w', settled')"
  shows "inv w' \<and> bal w' + settled_total settled' = bal w + settled_total settled"
  using assms(3,4)
proof (induction left arbitrary: settled res m w)
  case 0
  then show ?case by simp
next
  case (Suc left)
  show ?case
  proof (cases "rs_status res = 402")
    case False
    then show ?thesis using Suc.prems by simp
  next
    case True
    show ?thesis
    proof (cases "check_requirements opts settled (rs_body res)")
      case (Inl e)
      then show ?thesis using Suc.prems True by (simp add: raise_error_def)
    next
      case (Inr rm)
      obtain r micro where rm: "rm = (r, micro)" by (cases rm)
      show ?thesis
      proof (cases "xe_parse_key env (rq_pay_to r)")
        case None
        then show ?thesis using Suc.prems True Inr rm by (simp add: raise_error_def split: if_splits option.splits)
      next
        case (Some to)
        obtain pr w1 where pr: "pay to micro w = (pr, w1)" by (cases "pay to micro w")
        show ?thesis
        proof (cases pr)
          case (Inl e)
          then show ?thesis
            using Suc.prems True Inr \<open>check_requirements _ _ _ = Inr rm\<close> rm Some pr pay_fail [OF Suc.prems(1), of to micro e w1]
            by (simp add: raise_error_def assms(1) split: if_splits option.splits)
        next
          case (Inr nsig)
          obtain n sig where ns: "nsig = (n, sig)" by (cases nsig)
          have p: "inv (store n w1)" "bal (store n w1) = bal w - micro"
            using pay_ok [OF Suc.prems(1), of to micro n sig w1] pr Inr ns by auto
          show ?thesis
            using Suc.prems True \<open>check_requirements _ _ _ = Inr rm\<close> rm Some pr Inr ns p
              Suc.IH [OF p(1)]
            by (auto simp: raise_error_def assms(1,2) Let_def settled_total_def split: if_splits option.splits sum.splits prod.splits)
        qed
      qed
    qed
  qed
qed

lemma wrap_balance:
  assumes "xe_pay env = pay" "xe_set_note env = store" "inv w"
    and "wrap_fetch env opts input hs m w = (out, m', w', settled')"
  shows "inv w' \<and> bal w' = bal w - settled_total settled'"
  using assms(3,4) loop_balance [OF assms(1,2,3)]
  by (fastforce simp: wrap_fetch_def settled_total_def split: if_splits sum.splits prod.splits)

end

section \<open>The SDK's wallet is a payer\<close>

text \<open>
  The wallet \<open>QietrSDK.wrapFetch\<close> hands to the wrapper: an SDK instance and the number of payments
  attempted, the \<open>k\<close>-th of which sees the outside \<open>envs k\<close> (services and random draws).
\<close>

type_synonym wallet = "nat \<times> sdk"

definition wallet_pay ::
    "(nat \<Rightarrow> sdk_env) \<Rightarrow> signer \<Rightarrow> pubkey \<Rightarrow> int \<Rightarrow> wallet \<Rightarrow> (sdk_error + shielded_note \<times> string) \<times> wallet" where
  "wallet_pay envs sg to micro w =
     (case w of (k, s) \<Rightarrow> (case pay_micro_exact (envs k) to micro (Some sg) s of
        Inl e \<Rightarrow> (Inl e, (Suc k, s))
      | Inr (r, s') \<Rightarrow> (Inr r, (Suc k, s'))))"

definition wallet_store :: "shielded_note \<Rightarrow> wallet \<Rightarrow> wallet" where
  "wallet_store n w = (case w of (k, s) \<Rightarrow> (k, s\<lparr>sk_last_updated := Some n, sk_note := Some n\<rparr>))"

text \<open>\<open>QietrSDK.wrapFetch\<close>: the options and callbacks the SDK passes to the wrapper. \<open>b58\<close> is \<open>toBase58\<close>.\<close>

definition sdk_wrap_options ::
    "(pubkey \<Rightarrow> string) \<Rightarrow> sdk \<Rightarrow> string option \<Rightarrow> nat option \<Rightarrow> int \<Rightarrow> string list option \<Rightarrow> nat option \<Rightarrow> wrap_options" where
  "sdk_wrap_options b58 s network_id max_retries max_micro allowlist timeout =
     \<lparr>wo_max_retries = max_retries, wo_max_amount_micro = max_micro, wo_allowlist = allowlist,
      wo_usdc_mint = b58 (sk_usdc_mint s),
      wo_network_id = Some (default_to (cluster_network_id (sc_cluster (sk_config s))) network_id),
      wo_default_timeout_ms = timeout\<rparr>"

definition sdk_wrap_env ::
    "(fetch_request \<Rightarrow> 'm \<Rightarrow> (fetch_failure + response402) \<times> 'm) \<Rightarrow> (x402_error \<Rightarrow> 'm \<Rightarrow> 'm)
      \<Rightarrow> (string \<Rightarrow> pubkey option) \<Rightarrow> (nat \<Rightarrow> sdk_env) \<Rightarrow> signer \<Rightarrow> ('m, wallet) x402_env" where
  "sdk_wrap_env fetch on_error parse_key envs sg =
     \<lparr>xe_fetch = fetch, xe_on_error = on_error, xe_parse_key = parse_key,
      xe_get_note = (\<lambda>w. sk_note (snd w)), xe_set_note = wallet_store, xe_pay = wallet_pay envs sg\<rparr>"

definition wallet_balance :: "wallet \<Rightarrow> int" where
  "wallet_balance w = get_note_balance (sk_note (snd w))"

text \<open>A note is loaded, and no draw to come repeats a key of the note or another draw.\<close>

definition wallet_ok :: "(nat \<Rightarrow> sdk_env) \<Rightarrow> wallet \<Rightarrow> bool" where
  "wallet_ok envs w \<longleftrightarrow> (case w of (k, s) \<Rightarrow>
     (\<forall>j. se_rnd1 (envs j) \<noteq> [] \<and> se_rnd2 (envs j) \<noteq> []) \<and> inj_on (\<lambda>j. draw_key (envs j)) {k..}
     \<and> (\<exists>n. sk_note s = Some n \<and> note_ok n \<and> (\<forall>j \<ge> k. draw_key (envs j) \<notin> note_key ` set (nt_commitments n))))"

interpretation wallet: payer "wallet_pay envs sg" wallet_store wallet_balance "wallet_ok envs"
  for envs :: "nat \<Rightarrow> sdk_env" and sg :: signer
proof unfold_locales
  fix w w' :: wallet and to micro n sig
  assume ok: "wallet_ok envs w" and pay: "wallet_pay envs sg to micro w = (Inr (n, sig), w')"
  obtain k s where w: "w = (k, s)" by (cases w)
  obtain s' where p: "pay_micro_exact (envs k) to micro (Some sg) s = Inr ((n, sig), s')" and w': "w' = (Suc k, s')"
    using pay by (auto simp: wallet_pay_def w split: sum.splits)
  obtain n0 where n0: "sk_note s = Some n0" "note_ok n0"
    "\<forall>j \<ge> k. draw_key (envs j) \<notin> note_key ` set (nt_commitments n0)"
    and inj: "inj_on (\<lambda>j. draw_key (envs j)) {k..}" and rnd: "\<forall>j. se_rnd1 (envs j) \<noteq> [] \<and> se_rnd2 (envs j) \<noteq> []"
    using ok by (auto simp: wallet_ok_def w)
  have "draw_key (envs k) \<notin> note_key ` set (nt_commitments n0)" using n0(3) by blast
  from pay_keeps_note_ok [OF p n0(1,2) _ _ this] rnd
  have keep: "note_ok n" "note_key ` set (nt_commitments n) \<subseteq> insert (draw_key (envs k)) (note_key ` set (nt_commitments n0))"
    by auto
  have "draw_key (envs j) \<notin> note_key ` set (nt_commitments n)" if "Suc k \<le> j" for j
  proof -
    have "draw_key (envs j) \<noteq> draw_key (envs k)" using inj_onD [OF inj, of j k] that by auto
    moreover have "draw_key (envs j) \<notin> note_key ` set (nt_commitments n0)" using n0(3) that by simp
    ultimately show ?thesis using keep(2) by blast
  qed
  moreover have "inj_on (\<lambda>j. draw_key (envs j)) {Suc k..}" by (rule inj_on_subset [OF inj]) auto
  ultimately have "wallet_ok envs (wallet_store n w')"
    using keep(1) rnd by (auto simp: wallet_ok_def wallet_store_def w')
  moreover have "wallet_balance (wallet_store n w') = wallet_balance w - micro"
    using pay_conserves [OF p n0(1,2)] by (simp add: wallet_balance_def wallet_store_def w w' n0(1))
  ultimately show "wallet_ok envs (wallet_store n w') \<and> wallet_balance (wallet_store n w') = wallet_balance w - micro"
    by blast
next
  fix w w' :: wallet and to micro e
  assume ok: "wallet_ok envs w" and pay: "wallet_pay envs sg to micro w = (Inl e, w')"
  obtain k s where w: "w = (k, s)" by (cases w)
  have w': "w' = (Suc k, s)" using pay by (auto simp: wallet_pay_def w split: sum.splits)
  have "inj_on (\<lambda>j. draw_key (envs j)) {k..} \<Longrightarrow> inj_on (\<lambda>j. draw_key (envs j)) {Suc k..}"
    by (erule inj_on_subset) auto
  then show "wallet_ok envs w' \<and> wallet_balance w' = wallet_balance w"
    using ok by (auto simp: wallet_ok_def wallet_balance_def w w')
qed

section \<open>Properties\<close>

lemma sdk_wrap_env_wallet:
  "xe_pay (sdk_wrap_env fetch on_error parse_key envs sg) = wallet_pay envs sg"
  "xe_set_note (sdk_wrap_env fetch on_error parse_key envs sg) = wallet_store"
  by (simp_all add: sdk_wrap_env_def)

lemma settled_total_le:
  "list_all (settlement_ok opts) ks \<Longrightarrow> settled_total ks \<le> int (length ks) * wo_max_amount_micro opts"
  by (induction ks) (auto simp: settled_total_def settlement_ok_def algebra_simps)

text \<open>
  C13. What a 402 can cost: whatever the merchant answers, one call of a wrapped fetch settles at most
  \<open>maxRetries\<close> requirements (one by default), no two with the same recipient, amount and resource. Each
  one has a supported scheme, names the caller's network, names the wallet's USDC mint where it names an
  asset at all, asks for exactly the amount paid, which is positive and within the ceiling, and has an
  allowed recipient; and the SDK's wallet is lighter by exactly the sum, however the call ends.
\<close>

theorem wrapped_fetch_spending_bounded:
  assumes "wallet_ok envs w"
    and "wrap_fetch (sdk_wrap_env fetch on_error parse_key envs sg) opts input hs m w = (out, m', w', settled)"
  shows "wallet_balance w' = wallet_balance w - settled_total settled
     \<and> list_all (settlement_ok opts) settled \<and> distinct (map dedupe_key settled)
     \<and> length settled \<le> default_to 1 (wo_max_retries opts)
     \<and> settled_total settled \<le> int (default_to 1 (wo_max_retries opts)) * max 0 (wo_max_amount_micro opts)"
proof -
  have ok: "settled_ok opts settled \<and> length settled \<le> default_to 1 (wo_max_retries opts)"
    using assms(2) by (rule wrap_fetch_settled)
  then have l: "list_all (settlement_ok opts) settled" by (simp add: settled_ok_def)
  have "int (length settled) * wo_max_amount_micro opts \<le> int (length settled) * max 0 (wo_max_amount_micro opts)"
    by (intro mult_left_mono) auto
  also have "\<dots> \<le> int (default_to 1 (wo_max_retries opts)) * max 0 (wo_max_amount_micro opts)"
    using ok by (intro mult_right_mono) auto
  finally have "settled_total settled \<le> int (default_to 1 (wo_max_retries opts)) * max 0 (wo_max_amount_micro opts)"
    using settled_total_le [OF l] by linarith
  with ok wallet.wrap_balance [OF sdk_wrap_env_wallet assms] show ?thesis by (simp add: settled_ok_def)
qed

text \<open>A merchant that asks once and then serves, and one that asks every time, for another resource.\<close>

definition shop_asks :: "string \<Rightarrow> requirement" where
  "shop_asks resource = \<lparr>rq_scheme = ''exact'', rq_network = ''mainnet-beta'', rq_asset = None, rq_pay_to = ''shop'',
     rq_max_amount_required = Some ''400000'', rq_amount = None, rq_resource = Some resource, rq_max_timeout_seconds = None\<rparr>"

definition asking :: "string \<Rightarrow> response402" where
  "asking resource = \<lparr>rs_status = 402, rs_body = Some \<lparr>bd_accepts = Some [shop_asks resource], bd_invoice_id = None\<rparr>\<rparr>"

definition shop_options :: "nat \<Rightarrow> wrap_options" where
  "shop_options retries = \<lparr>wo_max_retries = Some retries, wo_max_amount_micro = 400000, wo_allowlist = Some [''shop''],
     wo_usdc_mint = ''usdc'', wo_network_id = None, wo_default_timeout_ms = None\<rparr>"

definition shop_envs :: "nat \<Rightarrow> sdk_env" where
  "shop_envs k = toy_sdk_env\<lparr>se_rnd1 := 1 # zeros (Suc k)\<rparr>"

definition shop_env :: "(fetch_request \<Rightarrow> nat \<Rightarrow> (fetch_failure + response402) \<times> nat) \<Rightarrow> (nat, wallet) x402_env" where
  "shop_env fetch = sdk_wrap_env fetch (\<lambda>_ m. m) (\<lambda>_. Some (zeros 32)) shop_envs toy_signer"

lemma shop_draw: "draw_key (shop_envs k) = (nat_str 10 (256 ^ Suc k), nat_str 10 2)"
proof -
  have "be_val (1 # zeros (Suc k)) = 256 ^ Suc k"
    using be_val_zeros_append [of "Suc k" "[]"] by (simp add: be_val_Cons zeros_def)
  then show ?thesis by (simp add: draw_key_def shop_envs_def toy_sdk_env_def be_val_Cons)
qed

lemma shop_wallet_ok: "wallet_ok shop_envs (0, toy_sdk (Some toy_note))"
proof -
  have inj: "inj (\<lambda>j. draw_key (shop_envs j))" by (rule injI) (simp add: shop_draw nat_str_inject)
  have rnd: "se_rnd1 (shop_envs j) \<noteq> [] \<and> se_rnd2 (shop_envs j) \<noteq> []" for j
    by (simp add: shop_envs_def toy_sdk_env_def)
  have "nat_str 10 2 \<noteq> ''4''" by code_simp
  moreover have "nat_str 10 (256 ^ Suc j) \<noteq> ''1''" for j
  proof -
    have "''1'' = nat_str 10 1" by code_simp
    moreover have "(256 :: nat) ^ Suc j \<noteq> 1" by simp
    ultimately show ?thesis by (simp add: nat_str_inject del: One_nat_def)
  qed
  ultimately have "draw_key (shop_envs j) \<notin> note_key ` set (nt_commitments toy_note)" for j
    by (auto simp: shop_draw toy_note_def note_key_def)
  with inj rnd show ?thesis
    by (auto simp: wallet_ok_def toy_env_simps toy_note_ok intro: inj_on_subset)
qed

lemma shop_check:
  assumes "dedupe_key (shop_asks resource, 400000) \<notin> dedupe_key ` set settled"
  shows "check_requirements (shop_options k) settled (rs_body (asking resource)) = Inr (shop_asks resource, 400000)"
proof -
  have c: "char_of (52 :: nat) = CHR ''4''" "char_of (48 :: nat) = CHR ''0''" by code_simp+
  have "nat_str 10 400000 = ''400000''"
    by (simp add: nat_str.simps [of 10 400000] nat_str.simps [of 10 40000] nat_str.simps [of 10 4000]
        nat_str.simps [of 10 400] nat_str.simps [of 10 40] nat_str.simps [of 10 4] digit_char_def c)
  from parse_bigint_nat_str [of 400000, unfolded this] have p: "parse_bigint ''400000'' = Some 400000" by simp
  have "js_trim ''mainnet-beta'' = ''mainnet-beta''" "to_lower ''mainnet-beta'' = ''mainnet-beta''"
    "js_trim ''solana'' = ''solana''" "to_lower ''solana'' = ''solana''"
    by (simp_all add: js_trim_def js_trim_start_def js_space_def to_lower_def char_code_def)
  then have net: "normalize_network ''mainnet-beta'' = normalize_network default_network_id"
    by (simp add: normalize_network_def default_network_id_def)
  show ?thesis
    using assms p net
    by (simp add: check_requirements_def asking_def shop_asks_def shop_options_def supported_schemes_def truthy_def
        parse_amount_def default_to_def)
qed

text \<open>Paying 400000 from a wallet whose note has a commitment for it.\<close>

lemma shop_pays:
  assumes "sk_note s = Some n" "select_commitment 400000 (nt_commitments n) = Some c"
    and "parse_bigint (cm_secret c) = Some sec" "parse_bigint (cm_nullifier c) = Some nul"
  shows "\<exists>updated s' w. xe_pay (shop_env fetch) (zeros 32) 400000 (k, s) = (Inr (updated, ''sig''), (Suc k, s'))
     \<and> pay_settle c w 400000 n = Inr updated
     \<and> wi_new_secret w = nat_str 10 (be_val (1 # zeros (Suc k))) \<and> wi_new_nullifier w = nat_str 10 2"
  using toy_pay_general [OF shop_envs_def _ assms(1) _ assms(2-4), of k]
  by (fastforce simp: shop_env_def sdk_wrap_env_def wallet_pay_def)

definition ask_twice :: "fetch_request \<Rightarrow> nat \<Rightarrow> (fetch_failure + response402) \<times> nat" where
  "ask_twice req k = (Inr (if k = 0 then asking ''a'' else if k = 1 then asking ''b''
     else \<lparr>rs_status = 200, rs_body = None\<rparr>), Suc k)"

lemma timed_fetch_ask:
  "timed_fetch (shop_env ask_twice) input hs header timeout k =
     (Inr (if k = 0 then asking ''a'' else if k = 1 then asking ''b'' else \<lparr>rs_status = 200, rs_body = None\<rparr>), Suc k)"
  by (simp add: timed_fetch_def shop_env_def sdk_wrap_env_def ask_twice_def)

text \<open>One round of the loop in the shop: a 402 that passes the checks is paid and the request repeated.\<close>

lemma shop_round:
  assumes "sk_note s = Some n" "nt_commitments n \<noteq> []"
    and "xe_pay (shop_env ask_twice) (zeros 32) 400000 (k, s) = (Inr (updated, ''sig''), (Suc k, s'))"
    and "dedupe_key (shop_asks resource, 400000) \<notin> dedupe_key ` set settled"
  shows "x402_loop (shop_env ask_twice) (shop_options 2) input hs (Suc left) settled (asking resource) m (k, s) =
     x402_loop (shop_env ask_twice) (shop_options 2) input hs left ((shop_asks resource, 400000) # settled)
       (if m = 0 then asking ''a'' else if m = 1 then asking ''b'' else \<lparr>rs_status = 200, rs_body = None\<rparr>) (Suc m)
       (wallet_store updated (Suc k, s'))"
proof -
  note r = shop_check [OF assms(4), of 2]
  have q: "rq_pay_to (shop_asks resource) = ''shop''" "rq_max_timeout_seconds (shop_asks resource) = None"
    by (simp_all add: shop_asks_def)
  have a: "rs_status (asking resource) = 402" by (simp add: asking_def)
  have e: "xe_get_note (shop_env ask_twice) (k, s) = Some n" "xe_parse_key (shop_env ask_twice) p = Some (zeros 32)"
    "xe_set_note (shop_env ask_twice) = wallet_store" for p
    using assms(1) by (simp_all add: shop_env_def sdk_wrap_env_def)
  show ?thesis
    by (simp add: a r q e assms(2,3) timed_fetch_ask Let_def default_to_def)
qed

text \<open>
  The ceiling is per retry, not per request: with \<open>maxRetries\<close> 2 and a ceiling of 400000, a
  merchant that answers the paid retry with a second 402 for another resource is paid twice, and the
  call ends having spent twice the ceiling.
\<close>

theorem x402_ceiling_holds_per_retry_only:
  "\<exists>m' w' settled. wrap_fetch (shop_env ask_twice) (shop_options 2) ''u'' False 0 (0, toy_sdk (Some toy_note))
       = (Inr \<lparr>rs_status = 200, rs_body = None\<rparr>, m', w', settled)
     \<and> settled_total settled = 2 * wo_max_amount_micro (shop_options 2)
     \<and> wallet_balance w' = wallet_balance (0, toy_sdk (Some toy_note)) - 800000"
proof -
  let ?env = "shop_env ask_twice" and ?s = "toy_sdk (Some toy_note)"
  let ?c = "\<lparr>cm_secret = ''1'', cm_nullifier = ''2'', cm_amount = 1000000, cm_denom_id = 1\<rparr>"
  let ?d = "\<lparr>cm_secret = ''3'', cm_nullifier = ''4'', cm_amount = 100000, cm_denom_id = 0\<rparr>"
  have n0: "sk_note ?s = Some toy_note" "nt_commitments toy_note = [?c, ?d]"
    by (simp_all add: toy_env_simps toy_note_def)
  have sel0: "select_commitment 400000 (nt_commitments toy_note) = Some ?c"
    by (simp add: select_commitment_def n0(2))
  have "parse_bigint (cm_secret ?c) = Some 1" "parse_bigint (cm_nullifier ?c) = Some 2" by (simp_all add: toy_dec)
  from shop_pays [OF n0(1) sel0 this] obtain n1 s1 w1 where p1:
    "xe_pay ?env (zeros 32) 400000 (0, ?s) = (Inr (n1, ''sig''), (Suc 0, s1))"
    "pay_settle ?c w1 400000 toy_note = Inr n1"
    "wi_new_secret w1 = nat_str 10 (be_val (1 # zeros (Suc 0)))" "wi_new_nullifier w1 = nat_str 10 2" by blast
  let ?e = "\<lparr>cm_secret = wi_new_secret w1, cm_nullifier = nat_str 10 2, cm_amount = 600000, cm_denom_id = 1\<rparr>"
  have n1: "nt_commitments n1 = [?d, ?e]"
    using p1(2-4) by (auto simp: pay_settle_def n0(2) Let_def int_str_def dbl_safe safe_int_def)
  let ?s1 = "s1\<lparr>sk_last_updated := Some n1, sk_note := Some n1\<rparr>"
  have sel1: "select_commitment 400000 (nt_commitments n1) = Some ?e"
    by (simp add: select_commitment_def n1)
  have note1: "sk_note ?s1 = Some n1" by simp
  have "parse_bigint (cm_secret ?e) = Some (int (be_val (1 # zeros (Suc 0))))" "parse_bigint (cm_nullifier ?e) = Some 2"
    by (simp_all add: p1(3))
  from shop_pays [OF note1 sel1 this] obtain n2 s2 where p2:
    "xe_pay ?env (zeros 32) 400000 (Suc 0, ?s1) = (Inr (n2, ''sig''), (Suc (Suc 0), s2))" by blast
  let ?w2 = "wallet_store n2 (Suc (Suc 0), s2)" and ?ks = "[(shop_asks ''b'', 400000), (shop_asks ''a'', 400000)]"
  have opt: "wo_max_amount_micro (shop_options 2) = 400000" "default_to 1 (wo_max_retries (shop_options 2)) = Suc (Suc 0)"
    by (simp_all add: shop_options_def default_to_def)
  have "wrap_fetch ?env (shop_options 2) ''u'' False 0 (0, ?s) =
      x402_loop ?env (shop_options 2) ''u'' False (Suc (Suc 0)) [] (asking ''a'') 1 (0, ?s)"
    by (simp add: wrap_fetch_def timed_fetch_ask opt opt(2) [unfolded One_nat_def] del: x402_loop.simps)
  also have "\<dots> = x402_loop ?env (shop_options 2) ''u'' False (Suc 0) [(shop_asks ''a'', 400000)] (asking ''b'') 2
      (Suc 0, ?s1)"
    using shop_round [OF n0(1) _ p1(1), of "''a''" "[]" "''u''" False "Suc 0" 1] n0(2)
    by (simp add: wallet_store_def numeral_2_eq_2)
  also have "\<dots> = x402_loop ?env (shop_options 2) ''u'' False 0 ?ks \<lparr>rs_status = 200, rs_body = None\<rparr> 3 ?w2"
    using shop_round [OF note1 _ p2, of "''b''" "[(shop_asks ''a'', 400000)]" "''u''" False 0 2] n1
    by (simp add: dedupe_key_def shop_asks_def default_to_def)
  finally have run: "wrap_fetch ?env (shop_options 2) ''u'' False 0 (0, ?s)
      = (Inr \<lparr>rs_status = 200, rs_body = None\<rparr>, 3, ?w2, ?ks)" by simp
  have env: "xe_pay ?env = wallet_pay shop_envs toy_signer" "xe_set_note ?env = wallet_store"
    by (simp_all add: shop_env_def sdk_wrap_env_def)
  have tot: "settled_total ?ks = 800000" by (simp add: settled_total_def)
  have "wallet_balance ?w2 = wallet_balance (0, ?s) - 800000"
    using wallet.wrap_balance [OF env shop_wallet_ok run] by (simp add: tot)
  with run tot show ?thesis by (auto simp: shop_options_def)
qed

theorem wrapped_fetch_spending_bounded_witness:
  "\<exists>out m' w' settled. wrap_fetch (shop_env ask_twice) (shop_options 2) ''u'' False 0 (0, toy_sdk (Some toy_note))
       = (out, m', w', settled)
     \<and> wallet_balance w' = wallet_balance (0, toy_sdk (Some toy_note)) - settled_total settled
     \<and> settled_total settled \<le> 800000"
proof -
  obtain out m' w' settled where run: "wrap_fetch (shop_env ask_twice) (shop_options 2) ''u'' False 0
      (0, toy_sdk (Some toy_note)) = (out, m', w', settled)" by (metis prod_cases4)
  have "int (default_to 1 (wo_max_retries (shop_options 2))) * max 0 (wo_max_amount_micro (shop_options 2)) = 800000"
    by (simp add: shop_options_def default_to_def)
  with wrapped_fetch_spending_bounded [OF shop_wallet_ok run [unfolded shop_env_def]] run show ?thesis by auto
qed

end
