(* ===== verification/IndexerDb.thy ===== *)
theory IndexerDb
  imports JsString
begin

text \<open>
  The indexer's database: the tables of \<open>qietr-indexer/db/schema.sql\<close> and the queries of
  \<open>poller/src/db.ts\<close>. A table is the list of its rows in insertion order; \<open>INSERT ... ON CONFLICT\<close>
  on a primary key is \<open>upsert\<close>. Queries are state-passing functions that can fail: the network
  decides for each query, by its number, whether it is served, refused, or carried out with its
  answer lost.
\<close>

section \<open>Upserts\<close>

fun upsert :: "('r \<Rightarrow> 'k) \<Rightarrow> ('r \<Rightarrow> 'r \<Rightarrow> 'r) \<Rightarrow> 'r \<Rightarrow> 'r list \<Rightarrow> 'r list" where
  "upsert key merge new [] = [new]"
| "upsert key merge new (r # rs) =
     (if key r = key new then merge r new # rs else r # upsert key merge new rs)"

text \<open>
  What a table with a primary key relies on: merging keeps the key and, for the idempotent ones,
  merging the same row twice is merging it once.
\<close>

locale keyed_table =
  fixes key :: "'r \<Rightarrow> 'k" and merge :: "'r \<Rightarrow> 'r \<Rightarrow> 'r"
  assumes key_merge: "key r = key new \<Longrightarrow> key (merge r new) = key r"
begin

lemma keys_upsert:
  "map key (upsert key merge new rs) = (if key new \<in> key ` set rs then map key rs else map key rs @ [key new])"
  by (induction rs) (auto simp: key_merge)

lemma distinct_upsert: "distinct (map key rs) \<Longrightarrow> distinct (map key (upsert key merge new rs))"
  by (simp add: keys_upsert)

lemma upsert_fresh: "key new \<notin> key ` set rs \<Longrightarrow> upsert key merge new rs = rs @ [new]"
  by (induction rs) auto

lemma find_upsert_other:
  "k \<noteq> key new \<Longrightarrow> List.find (\<lambda>r. key r = k) (upsert key merge new rs) = List.find (\<lambda>r. key r = k) rs"
  by (induction rs) (auto simp: key_merge)

lemma find_upsert_same:
  "List.find (\<lambda>r. key r = key new) (upsert key merge new rs) =
     Some (case List.find (\<lambda>r. key r = key new) rs of None \<Rightarrow> new | Some r \<Rightarrow> merge r new)"
  by (induction rs) (auto simp: key_merge)

end

locale idempotent_table = keyed_table +
  assumes merge_idem: "key r = key new \<Longrightarrow> merge (merge r new) new = merge r new"
    and merge_self: "merge new new = new"
begin

lemma upsert_twice: "upsert key merge new (upsert key merge new rs) = upsert key merge new rs"
  by (induction rs) (auto simp: key_merge merge_idem merge_self)

end

section \<open>Tables\<close>

record denomination_row =
  dr_denom_id :: int
  dr_amount_micro_usdc :: int
  dr_deposit_count :: int
  dr_vault_address :: string
  dr_last_seen_slot :: int
  dr_updated_at :: int

record commitment_row =
  cr_denom_id :: int
  cr_leaf_index :: int
  cr_commitment_be :: bytes
  cr_inserted_slot :: int

record root_row =
  rr_denom_id :: int
  rr_leaf_count :: int
  rr_root_be :: bytes
  rr_inserted_slot :: int

record nullifier_row =
  nlr_denom_id :: int
  nlr_hash_be :: bytes
  nlr_spent_at_slot :: int
  nlr_spent_at :: int

record progress_row =
  pr_component :: string
  pr_last_slot :: int
  pr_last_signature :: "string option"

record db =
  db_denominations :: "denomination_row list"
  db_commitments :: "commitment_row list"
  db_roots :: "root_row list"
  db_nullifiers :: "nullifier_row list"
  db_progress :: "progress_row list"
  db_queries :: nat

definition empty_db :: db where
  "empty_db = \<lparr>db_denominations = [], db_commitments = [], db_roots = [], db_nullifiers = [], db_progress = [],
     db_queries = 0\<rparr>"

text \<open>The \<open>DO UPDATE SET\<close> clauses: \<open>old\<close> is the stored row, \<open>new\<close> is \<open>EXCLUDED\<close>.\<close>

definition merge_denomination :: "denomination_row \<Rightarrow> denomination_row \<Rightarrow> denomination_row" where
  "merge_denomination old new = new\<lparr>dr_last_seen_slot := max (dr_last_seen_slot old) (dr_last_seen_slot new)\<rparr>"

definition merge_root :: "root_row \<Rightarrow> root_row \<Rightarrow> root_row" where
  "merge_root old new = new\<lparr>rr_inserted_slot := min (rr_inserted_slot old) (rr_inserted_slot new)\<rparr>"

definition merge_progress :: "progress_row \<Rightarrow> progress_row \<Rightarrow> progress_row" where
  "merge_progress old new = new\<lparr>pr_last_slot := max (pr_last_slot old) (pr_last_slot new)\<rparr>"

definition do_nothing :: "'r \<Rightarrow> 'r \<Rightarrow> 'r" where
  "do_nothing old new = old"

definition commitment_key :: "commitment_row \<Rightarrow> int \<times> int" where
  "commitment_key r = (cr_denom_id r, cr_leaf_index r)"

definition root_key :: "root_row \<Rightarrow> int \<times> int" where
  "root_key r = (rr_denom_id r, rr_leaf_count r)"

definition nullifier_key :: "nullifier_row \<Rightarrow> int \<times> bytes" where
  "nullifier_key r = (nlr_denom_id r, nlr_hash_be r)"

interpretation denominations: idempotent_table dr_denom_id merge_denomination
  by unfold_locales (auto simp: merge_denomination_def)

interpretation roots: idempotent_table root_key merge_root
  by unfold_locales (auto simp: merge_root_def root_key_def)

interpretation progress: idempotent_table pr_component merge_progress
  by unfold_locales (auto simp: merge_progress_def)

interpretation commitments: idempotent_table commitment_key do_nothing
  by unfold_locales (auto simp: do_nothing_def)

interpretation nullifiers: idempotent_table nullifier_key do_nothing
  by unfold_locales (auto simp: do_nothing_def)

section \<open>Queries\<close>

datatype poll_error = DbDown | RpcDown | ForeignKey | BigintRange | NeverReturns

datatype query_fate = Served | Refused | AnswerLost

type_synonym 'a query = "db \<Rightarrow> (poll_error + 'a) \<times> db"

definition returnQ :: "'a \<Rightarrow> 'a query" where
  "returnQ a s = (Inr a, s)"

definition failQ :: "poll_error + 'a \<Rightarrow> 'a query" where
  "failQ r s = (r, s)"

definition bindQ :: "'a query \<Rightarrow> ('a \<Rightarrow> 'b query) \<Rightarrow> 'b query" where
  "bindQ m f s = (case m s of (Inl e, s') \<Rightarrow> (Inl e, s') | (Inr a, s') \<Rightarrow> f a s')"

definition query :: "(nat \<Rightarrow> query_fate) \<Rightarrow> 'a query \<Rightarrow> 'a query" where
  "query fate q s =
     (let s' = s\<lparr>db_queries := Suc (db_queries s)\<rparr> in
      case fate (db_queries s) of
        Served \<Rightarrow> q s'
      | Refused \<Rightarrow> (Inl DbDown, s')
      | AnswerLost \<Rightarrow> (Inl DbDown, snd (q s')))"

text \<open>A foreign key to \<open>denominations\<close> and the range of a \<open>BIGINT\<close> column.\<close>

definition has_denom :: "int \<Rightarrow> db \<Rightarrow> bool" where
  "has_denom d s \<longleftrightarrow> d \<in> dr_denom_id ` set (db_denominations s)"

definition bigint_ok :: "int \<Rightarrow> bool" where
  "bigint_ok n \<longleftrightarrow> - (2 ^ 63) \<le> n \<and> n < 2 ^ 63"

definition write_rows :: "poll_error + unit \<Rightarrow> (db \<Rightarrow> db) \<Rightarrow> unit query" where
  "write_rows ok f s = (case ok of Inl e \<Rightarrow> (Inl e, s) | Inr u \<Rightarrow> (Inr u, f s))"

definition upsert_denomination :: "(nat \<Rightarrow> query_fate) \<Rightarrow> denomination_row \<Rightarrow> unit query" where
  "upsert_denomination fate r = query fate
     (write_rows (guardE (bigint_ok (dr_amount_micro_usdc r) \<and> bigint_ok (dr_deposit_count r)) BigintRange)
       (\<lambda>s. s\<lparr>db_denominations := upsert dr_denom_id merge_denomination r (db_denominations s)\<rparr>))"

definition upsert_root :: "(nat \<Rightarrow> query_fate) \<Rightarrow> root_row \<Rightarrow> unit query" where
  "upsert_root fate r = query fate (\<lambda>s.
     write_rows (bindE (guardE (bigint_ok (rr_leaf_count r)) BigintRange) (\<lambda>_.
            guardE (has_denom (rr_denom_id r) s) ForeignKey))
       (\<lambda>s. s\<lparr>db_roots := upsert root_key merge_root r (db_roots s)\<rparr>) s)"

definition insert_commitment :: "(nat \<Rightarrow> query_fate) \<Rightarrow> commitment_row \<Rightarrow> unit query" where
  "insert_commitment fate r = query fate (\<lambda>s.
     write_rows (guardE (has_denom (cr_denom_id r) s) ForeignKey)
       (\<lambda>s. s\<lparr>db_commitments := upsert commitment_key do_nothing r (db_commitments s)\<rparr>) s)"

definition insert_nullifier :: "(nat \<Rightarrow> query_fate) \<Rightarrow> nullifier_row \<Rightarrow> unit query" where
  "insert_nullifier fate r = query fate (\<lambda>s.
     write_rows (bindE (guardE (bigint_ok (nlr_spent_at_slot r)) BigintRange) (\<lambda>_.
            guardE (has_denom (nlr_denom_id r) s) ForeignKey))
       (\<lambda>s. s\<lparr>db_nullifiers := upsert nullifier_key do_nothing r (db_nullifiers s)\<rparr>) s)"

definition db_checkpoint :: "(nat \<Rightarrow> query_fate) \<Rightarrow> progress_row \<Rightarrow> unit query" where
  "db_checkpoint fate r = query fate
     (write_rows (Inr ()) (\<lambda>s. s\<lparr>db_progress := upsert pr_component merge_progress r (db_progress s)\<rparr>))"

definition get_checkpoint :: "(nat \<Rightarrow> query_fate) \<Rightarrow> string \<Rightarrow> progress_row option query" where
  "get_checkpoint fate component = query fate (\<lambda>s.
     (Inr (List.find (\<lambda>r. pr_component r = component) (db_progress s)), s))"

definition leaf_rows :: "int \<Rightarrow> db \<Rightarrow> commitment_row list" where
  "leaf_rows d s = filter (\<lambda>r. cr_denom_id r = d) (db_commitments s)"

definition max_leaf_index :: "(nat \<Rightarrow> query_fate) \<Rightarrow> int \<Rightarrow> int query" where
  "max_leaf_index fate d = query fate (\<lambda>s.
     (Inr (case map cr_leaf_index (leaf_rows d s) of [] \<Rightarrow> -1 | i # rest \<Rightarrow> fold max rest i), s))"

definition commitment_exists :: "(nat \<Rightarrow> query_fate) \<Rightarrow> int \<Rightarrow> bytes \<Rightarrow> bool query" where
  "commitment_exists fate d c = query fate (\<lambda>s.
     (Inr (list_ex (\<lambda>r. cr_commitment_be r = c) (leaf_rows d s)), s))"

section \<open>The table of leaves\<close>

text \<open>
  \<open>leaves_of d L\<close> are the commitments of denomination \<open>d\<close> in a list of appends, and \<open>leaf_table L\<close>
  says that the table holds exactly them, numbered from 0 in this order.
\<close>

type_synonym appends = "(int \<times> bytes) list"

definition leaves_of :: "int \<Rightarrow> appends \<Rightarrow> bytes list" where
  "leaves_of d L = map snd (filter (\<lambda>x. fst x = d) L)"

definition leaf_table :: "appends \<Rightarrow> db \<Rightarrow> bool" where
  "leaf_table L s \<longleftrightarrow> (\<forall>d. map (\<lambda>r. (cr_leaf_index r, cr_commitment_be r)) (leaf_rows d s)
     = zip (map int [0..<length (leaves_of d L)]) (leaves_of d L))"

lemma leaves_of_simps [simp]:
  "leaves_of d [] = []" "leaves_of d (L @ M) = leaves_of d L @ leaves_of d M"
  "leaves_of d [(e, c)] = (if e = d then [c] else [])"
  by (simp_all add: leaves_of_def)

lemma set_leaves_of: "c \<in> set (leaves_of d L) \<longleftrightarrow> (d, c) \<in> set L"
  by (force simp: leaves_of_def)

lemma leaf_table_empty: "db_commitments s = [] \<Longrightarrow> leaf_table [] s"
  by (simp add: leaf_table_def leaf_rows_def)

lemma leaf_table_cong: "db_commitments s' = db_commitments s \<Longrightarrow> leaf_table L s' = leaf_table L s"
  by (simp add: leaf_table_def leaf_rows_def)

lemma leaf_table_columns:
  assumes "leaf_table L s"
  shows "map cr_leaf_index (leaf_rows d s) = map int [0..<length (leaves_of d L)]"
    and "map cr_commitment_be (leaf_rows d s) = leaves_of d L"
proof -
  let ?rows = "map (\<lambda>r. (cr_leaf_index r, cr_commitment_be r)) (leaf_rows d s)"
  have "?rows = zip (map int [0..<length (leaves_of d L)]) (leaves_of d L)"
    using assms by (simp add: leaf_table_def)
  then have "map fst ?rows = map int [0..<length (leaves_of d L)]" "map snd ?rows = leaves_of d L" by simp_all
  then show "map cr_leaf_index (leaf_rows d s) = map int [0..<length (leaves_of d L)]"
    "map cr_commitment_be (leaf_rows d s) = leaves_of d L" by (simp_all add: comp_def)
qed

lemma leaf_table_exists:
  assumes "leaf_table L s"
  shows "list_ex (\<lambda>r. cr_commitment_be r = c) (leaf_rows d s) \<longleftrightarrow> (d, c) \<in> set L"
proof -
  have "(d, c) \<in> set L \<longleftrightarrow> c \<in> set (map cr_commitment_be (leaf_rows d s))"
    by (simp only: leaf_table_columns(2) [OF assms] set_leaves_of)
  then show ?thesis by (auto simp: list_ex_iff)
qed

lemma fold_max_upt: "fold max (map int [Suc k..<Suc n]) (int k) = int (max k n)"
proof (induction n)
  case 0
  then show ?case by simp
next
  case (Suc n)
  then show ?case by (cases "k \<le> n") (simp_all add: max_def)
qed

lemma leaf_table_max:
  assumes "leaf_table L s"
  shows "(case map cr_leaf_index (leaf_rows d s) of [] \<Rightarrow> -1 | i # rest \<Rightarrow> fold max rest i) = int (length (leaves_of d L)) - 1"
proof (cases "length (leaves_of d L)")
  case 0
  then show ?thesis using leaf_table_columns(1) [OF assms, of d] by simp
next
  case (Suc n)
  have "map int [0..<Suc n] = int 0 # map int [Suc 0..<Suc n]" by (simp add: upt_conv_Cons del: upt_Suc)
  with Suc leaf_table_columns(1) [OF assms, of d] fold_max_upt [of 0 n] show ?thesis by (simp del: upt_Suc)
qed

lemma leaf_table_insert:
  assumes t: "leaf_table L s" and new: "cr_denom_id r = d" "cr_leaf_index r = int (length (leaves_of d L))"
    and s': "db_commitments s' = upsert commitment_key do_nothing r (db_commitments s)"
  shows "leaf_table (L @ [(d, cr_commitment_be r)]) s'"
proof -
  have "commitment_key r \<notin> commitment_key ` set (db_commitments s)"
  proof
    assume "commitment_key r \<in> commitment_key ` set (db_commitments s)"
    then have "cr_leaf_index r \<in> set (map cr_leaf_index (leaf_rows d s))"
      using new(1) by (force simp: commitment_key_def leaf_rows_def)
    then show False using new(2) leaf_table_columns(1) [OF t, of d] by auto
  qed
  then have "leaf_rows e s' = leaf_rows e s @ (if e = d then [r] else [])" for e
    using new(1) by (simp add: leaf_rows_def s' commitments.upsert_fresh)
  then show ?thesis using t new(2) by (simp add: leaf_table_def)
qed

end
