(* ===== verification/IndexerPoller.thy ===== *)
theory IndexerPoller
  imports IndexerDb PoolDecode
begin

text \<open>
  The poller, \<open>qietr-indexer/poller/src\<close>: the paging and filtering of \<open>rpc.ts\<close>, the two passes and
  the loop of \<open>index.ts\<close>. RPC answers are parameters and may be errors, queries may fail at any
  point; a tick that fails is caught by the loop, which goes on with the database it left behind.
\<close>

section \<open>rpc.ts\<close>

record sig_info =
  si_signature :: string
  si_slot :: int

text \<open>A confirmed transaction: program and base58 data (if any) of each top-level instruction.\<close>

record pool_tx =
  tx_err :: bool
  tx_slot :: int
  tx_ixs :: "(pubkey \<times> string option) list"

record poll_config =
  po_program_id :: pubkey
  po_component :: string
  po_sha :: hash_fun
  po_b58 :: "pubkey \<Rightarrow> string"
  po_unb58 :: "string \<Rightarrow> bytes option"

record poll_net =
  pn_fate :: "nat \<Rightarrow> query_fate"
  pn_now :: int
  pn_slot :: "poll_error + int"
  pn_accounts :: "poll_error + bytes list"
  pn_page :: "string option \<Rightarrow> string option \<Rightarrow> poll_error + sig_info list"
  pn_tx :: "string \<Rightarrow> poll_error + pool_tx option"

definition get_all_program_accounts :: "poll_net \<Rightarrow> poll_error + (bytes \<times> int) list" where
  "get_all_program_accounts net =
     bindE (pn_slot net) (\<lambda>slot.
     bindE (pn_accounts net) (\<lambda>accounts.
     Inr (map (\<lambda>data. (data, slot)) accounts)))"

text \<open>
  The paging loop. \<open>pn_page before until\<close> is a page of at most 1000 signatures. Nothing in the loop
  forces an end, so its result is \<open>None\<close> where it never returns.
\<close>

definition page_limit :: nat where
  "page_limit = 1000"

partial_function (option) page_loop ::
    "poll_net \<Rightarrow> string option \<Rightarrow> string option \<Rightarrow> sig_info list \<Rightarrow> (poll_error + sig_info list) option" where
  "page_loop net until before collected =
     (case pn_page net before until of
        Inl e \<Rightarrow> Some (Inl e)
      | Inr page \<Rightarrow>
          if page = [] then Some (Inr collected)
          else if length page < page_limit then Some (Inr (collected @ page))
          else page_loop net until (Some (si_signature (last page))) (collected @ page))"

definition get_new_signatures :: "poll_net \<Rightarrow> string option \<Rightarrow> poll_error + sig_info list" where
  "get_new_signatures net until =
     (case page_loop net until None [] of
        None \<Rightarrow> Inl NeverReturns
      | Some (Inl e) \<Rightarrow> Inl e
      | Some (Inr collected) \<Rightarrow> Inr (rev collected))"

definition pool_ixs :: "poll_config \<Rightarrow> pool_tx option \<Rightarrow> (int \<times> bytes) list" where
  "pool_ixs cfg tx =
     (case tx of
        None \<Rightarrow> []
      | Some t \<Rightarrow>
          if tx_err t then []
          else List.map_filter (\<lambda>(program, data).
            if program \<noteq> po_program_id cfg then None
            else case data of None \<Rightarrow> None
                 | Some s \<Rightarrow> map_option (\<lambda>raw. (tx_slot t, raw)) (po_unb58 cfg s)) (tx_ixs t))"

definition get_pool_ixs :: "poll_config \<Rightarrow> poll_net \<Rightarrow> sig_info \<Rightarrow> poll_error + (int \<times> bytes) list" where
  "get_pool_ixs cfg net sig = bindE (pn_tx net (si_signature sig)) (\<lambda>tx. Inr (pool_ixs cfg tx))"

section \<open>index.ts: account state\<close>

fun for_each :: "('a \<Rightarrow> unit query) \<Rightarrow> 'a list \<Rightarrow> unit query" where
  "for_each f [] = returnQ ()"
| "for_each f (x # xs) = bindQ (f x) (\<lambda>_. for_each f xs)"

definition of_kind :: "poll_config \<Rightarrow> account_kind \<Rightarrow> (bytes \<times> int) list \<Rightarrow> (bytes \<times> int) list" where
  "of_kind cfg k accounts = filter (\<lambda>(data, slot). account_kind (po_sha cfg) data = Some k) accounts"

definition sync_denomination :: "poll_config \<Rightarrow> poll_net \<Rightarrow> bytes \<times> int \<Rightarrow> unit query" where
  "sync_denomination cfg net = (\<lambda>(data, slot).
     case decode_denomination data of
       None \<Rightarrow> returnQ ()
     | Some d \<Rightarrow> upsert_denomination (pn_fate net)
         \<lparr>dr_denom_id = uint (dv_denom_id d), dr_amount_micro_usdc = int (dv_amount d),
          dr_deposit_count = int (dv_deposit_count d), dr_vault_address = po_b58 cfg (dv_vault d),
          dr_last_seen_slot = slot, dr_updated_at = pn_now net\<rparr>)"

definition sync_root :: "poll_net \<Rightarrow> bytes \<times> int \<Rightarrow> unit query" where
  "sync_root net = (\<lambda>(data, slot).
     case decode_merkle_tree data of
       None \<Rightarrow> returnQ ()
     | Some t \<Rightarrow>
         (case mv_latest_root t of
            None \<Rightarrow> returnQ ()
          | Some root \<Rightarrow> upsert_root (pn_fate net)
              \<lparr>rr_denom_id = uint (mv_denom_id t), rr_leaf_count = int (mv_next_leaf_index t),
               rr_root_be = root, rr_inserted_slot = slot\<rparr>))"

definition sync_nullifier :: "poll_net \<Rightarrow> bytes \<times> int \<Rightarrow> unit query" where
  "sync_nullifier net = (\<lambda>(data, slot).
     case decode_nullifier_record data of
       None \<Rightarrow> returnQ ()
     | Some n \<Rightarrow> insert_nullifier (pn_fate net)
         \<lparr>nlr_denom_id = uint (nv_denom_id n), nlr_hash_be = nv_nullifier_hash n,
          nlr_spent_at_slot = dbl (int (nv_spent_at_slot n)), nlr_spent_at = pn_now net\<rparr>)"

definition sync_account_state :: "poll_config \<Rightarrow> poll_net \<Rightarrow> unit query" where
  "sync_account_state cfg net =
     bindQ (failQ (get_all_program_accounts net)) (\<lambda>accounts.
     bindQ (for_each (sync_denomination cfg net) (of_kind cfg KDenomination accounts)) (\<lambda>_.
     bindQ (for_each (sync_root net) (of_kind cfg KMerkleTree accounts)) (\<lambda>_.
     for_each (sync_nullifier net) (of_kind cfg KNullifierRecord accounts))))"

section \<open>index.ts: commitments\<close>

type_synonym next_leaf = "int \<rightharpoonup> int"

definition leaf_for :: "poll_net \<Rightarrow> int \<Rightarrow> next_leaf \<Rightarrow> (int \<times> next_leaf) query" where
  "leaf_for net d next_leaf =
     bindQ (case next_leaf d of
              Some i \<Rightarrow> returnQ i
            | None \<Rightarrow> bindQ (max_leaf_index (pn_fate net) d) (\<lambda>m. returnQ (m + 1))) (\<lambda>i.
     returnQ (i, next_leaf(d \<mapsto> i + 1)))"

definition append_leaf :: "poll_net \<Rightarrow> int \<Rightarrow> bytes \<Rightarrow> int \<Rightarrow> next_leaf \<Rightarrow> (bool \<times> next_leaf) query" where
  "append_leaf net d c slot next_leaf =
     bindQ (commitment_exists (pn_fate net) d c) (\<lambda>seen.
     if seen then returnQ (False, next_leaf)
     else bindQ (leaf_for net d next_leaf) (\<lambda>(i, next_leaf).
          bindQ (insert_commitment (pn_fate net)
            \<lparr>cr_denom_id = d, cr_leaf_index = i, cr_commitment_be = c, cr_inserted_slot = slot\<rparr>) (\<lambda>_.
          returnQ (True, next_leaf))))"

fun ix_loop :: "poll_config \<Rightarrow> poll_net \<Rightarrow> (int \<times> bytes) list \<Rightarrow> next_leaf \<Rightarrow> nat \<Rightarrow> (next_leaf \<times> nat) query" where
  "ix_loop cfg net [] next_leaf n = returnQ (next_leaf, n)"
| "ix_loop cfg net ((slot, data) # ixs) next_leaf n =
     (case (case parse_deposit_ix (po_sha cfg) data of
              Some dep \<Rightarrow> Some dep | None \<Rightarrow> parse_withdraw_ix (po_sha cfg) data) of
        None \<Rightarrow> ix_loop cfg net ixs next_leaf n
      | Some ci \<Rightarrow>
          bindQ (append_leaf net (uint (ci_denom_id ci)) (ci_commitment ci) slot next_leaf) (\<lambda>(new, next_leaf).
          ix_loop cfg net ixs next_leaf (if new then Suc n else n)))"

fun sig_loop :: "poll_config \<Rightarrow> poll_net \<Rightarrow> sig_info list \<Rightarrow> next_leaf \<Rightarrow> nat \<Rightarrow> nat query" where
  "sig_loop cfg net [] next_leaf n = returnQ n"
| "sig_loop cfg net (sig # sigs) next_leaf n =
     bindQ (failQ (get_pool_ixs cfg net sig)) (\<lambda>ixs.
     bindQ (ix_loop cfg net ixs next_leaf n) (\<lambda>(next_leaf, n).
     bindQ (db_checkpoint (pn_fate net)
       \<lparr>pr_component = po_component cfg, pr_last_slot = si_slot sig, pr_last_signature = Some (si_signature sig)\<rparr>) (\<lambda>_.
     sig_loop cfg net sigs next_leaf n)))"

definition sync_commitments :: "poll_config \<Rightarrow> poll_net \<Rightarrow> nat query" where
  "sync_commitments cfg net =
     bindQ (get_checkpoint (pn_fate net) (po_component cfg)) (\<lambda>checkpoint.
     let since = (case checkpoint of None \<Rightarrow> None | Some r \<Rightarrow> pr_last_signature r) in
     bindQ (failQ (get_new_signatures net since)) (\<lambda>sigs.
     if sigs = [] then returnQ 0 else sig_loop cfg net sigs Map.empty 0))"

definition tick :: "poll_config \<Rightarrow> poll_net \<Rightarrow> nat query" where
  "tick cfg net = bindQ (sync_account_state cfg net) (\<lambda>_. sync_commitments cfg net)"

text \<open>One round of the loop of \<open>main\<close>: an exception is logged and dropped.\<close>

definition poll_round :: "poll_config \<Rightarrow> poll_net \<Rightarrow> db \<Rightarrow> db" where
  "poll_round cfg net s = snd (tick cfg net s)"

end
