(* ===== verification/IndexerSync.thy ===== *)
theory IndexerSync
  imports IndexerPoller "HOL-Library.Sublist"
begin

text \<open>
  What the poller's rows are worth: over any history of transactions, any RPC failures and any lost
  or refused queries, the table of commitments holds leaves the chain appended, in their order and
  numbered without gaps; without a \<open>null\<close> answer for a listed transaction it holds the first ones, up
  to some point of the history, and a round that ends without an error has reached its end.
\<close>

section \<open>Triples\<close>

text \<open>\<open>Q\<close> holds of result and database on success, \<open>E\<close> of the database left behind by a failure.\<close>

definition triple :: "(db \<Rightarrow> bool) \<Rightarrow> 'a query \<Rightarrow> ('a \<Rightarrow> db \<Rightarrow> bool) \<Rightarrow> (db \<Rightarrow> bool) \<Rightarrow> bool" where
  "triple P m Q E \<longleftrightarrow> (\<forall>s. P s \<longrightarrow> (case m s of (Inl e, s') \<Rightarrow> E s' | (Inr a, s') \<Rightarrow> Q a s'))"

lemma triple_bind:
  assumes "triple P m R E" "\<And>a. triple (R a) (f a) Q E"
  shows "triple P (bindQ m f) Q E"
  unfolding triple_def
proof (intro allI impI)
  fix s assume "P s"
  obtain r s' where m: "m s = (r, s')" by fastforce
  show "case bindQ m f s of (Inl e, s') \<Rightarrow> E s' | (Inr a, s') \<Rightarrow> Q a s'"
  proof (cases r)
    case (Inl e)
    then show ?thesis using m \<open>P s\<close> assms(1) unfolding triple_def by (force simp: bindQ_def)
  next
    case (Inr a)
    then have "R a s'" using m \<open>P s\<close> assms(1) unfolding triple_def by force
    then show ?thesis using m Inr assms(2) [of a] by (simp add: bindQ_def triple_def)
  qed
qed

lemma triple_return: "(\<And>s. P s \<Longrightarrow> Q a s) \<Longrightarrow> triple P (returnQ a) Q E"
  by (simp add: triple_def returnQ_def)

lemma triple_fail:
  "(\<And>s e. P s \<Longrightarrow> r = Inl e \<Longrightarrow> E s) \<Longrightarrow> (\<And>s a. P s \<Longrightarrow> r = Inr a \<Longrightarrow> Q a s) \<Longrightarrow> triple P (failQ r) Q E"
  by (auto simp: triple_def failQ_def split: sum.splits)

lemma triple_known: "(x = v \<Longrightarrow> triple P m Q E) \<Longrightarrow> triple (\<lambda>s. P s \<and> x = v) m Q E"
  by (cases "x = v") (auto simp: triple_def)

lemma triple_when: "(b \<Longrightarrow> triple P m Q E) \<Longrightarrow> triple (\<lambda>s. P s \<and> b) m Q E"
  by (cases b) (auto simp: triple_def)

lemma triple_cong:
  assumes "triple P m Q E" "\<And>s. P' s \<Longrightarrow> P s" "\<And>a s. Q a s \<Longrightarrow> Q' a s" "\<And>s. E s \<Longrightarrow> E' s"
  shows "triple P' m Q' E'"
  unfolding triple_def
proof (intro allI impI)
  fix s assume "P' s"
  then have "P s" by (rule assms(2))
  then have "case m s of (Inl e, s') \<Rightarrow> E s' | (Inr a, s') \<Rightarrow> Q a s'" using assms(1) by (simp add: triple_def)
  then show "case m s of (Inl e, s') \<Rightarrow> E' s' | (Inr a, s') \<Rightarrow> Q' a s'"
    using assms(3,4) by (auto split: prod.splits sum.splits)
qed

lemma triple_run:
  "triple P m Q E \<Longrightarrow> P s \<Longrightarrow> case m s of (Inl e, s') \<Rightarrow> E s' | (Inr a, s') \<Rightarrow> Q a s'"
  by (simp add: triple_def)

lemma triple_pre: "(\<And>s. P s \<Longrightarrow> triple (\<lambda>t. t = s) m Q E) \<Longrightarrow> triple P m Q E"
  by (simp add: triple_def)

text \<open>A query that may go wrong, unless \<open>up\<close> says that all are served.\<close>

lemma triple_query:
  assumes q: "triple P q Q E" and clock: "\<And>s n. P s \<Longrightarrow> P (s\<lparr>db_queries := n\<rparr>)"
    and served: "up \<Longrightarrow> fate = (\<lambda>_. Served)"
    and weaker: "\<And>s. \<not> up \<Longrightarrow> P s \<Longrightarrow> E s" "\<And>a s. \<not> up \<Longrightarrow> Q a s \<Longrightarrow> E s"
  shows "triple P (query fate q) Q E"
  unfolding triple_def
proof (intro allI impI)
  fix s assume "P s"
  let ?s = "s\<lparr>db_queries := Suc (db_queries s)\<rparr>"
  have P: "P ?s" by (rule clock [OF \<open>P s\<close>])
  then have r: "case q ?s of (Inl e, s') \<Rightarrow> E s' | (Inr a, s') \<Rightarrow> Q a s'" using q by (simp add: triple_def)
  show "case query fate q s of (Inl e, s') \<Rightarrow> E s' | (Inr a, s') \<Rightarrow> Q a s'"
  proof (cases up)
    case True
    then show ?thesis using r served by (simp add: query_def Let_def)
  next
    case False
    then have "E (snd (q ?s))" using r weaker(2) by (auto split: prod.splits sum.splits)
    then show ?thesis using r P False weaker(1) by (auto simp: query_def Let_def split: query_fate.splits)
  qed
qed

lemma triple_for_each:
  "(\<And>x. x \<in> set xs \<Longrightarrow> triple P (f x) (\<lambda>_. P) E) \<Longrightarrow> triple P (for_each f xs) (\<lambda>_. P) E"
proof (induction xs)
  case Nil
  then show ?case by (simp add: triple_return)
next
  case (Cons x xs)
  then show ?case by (auto intro!: triple_bind [where R = "\<lambda>_. P"])
qed

section \<open>Histories\<close>

type_synonym history = "(sig_info \<times> pool_tx) list"

definition ix_appends :: "poll_config \<Rightarrow> bytes \<Rightarrow> appends" where
  "ix_appends cfg data =
     (case (case parse_deposit_ix (po_sha cfg) data of
              Some dep \<Rightarrow> Some dep | None \<Rightarrow> parse_withdraw_ix (po_sha cfg) data) of
        None \<Rightarrow> [] | Some ci \<Rightarrow> [(uint (ci_denom_id ci), ci_commitment ci)])"

definition tx_appends :: "poll_config \<Rightarrow> pool_tx \<Rightarrow> appends" where
  "tx_appends cfg t = concat (map (\<lambda>(slot, data). ix_appends cfg data) (pool_ixs cfg (Some t)))"

definition history_appends :: "poll_config \<Rightarrow> history \<Rightarrow> appends" where
  "history_appends cfg H = concat (map (\<lambda>(sig, t). tx_appends cfg t) H)"

lemma history_appends_simps [simp]:
  "history_appends cfg [] = []" "history_appends cfg (G @ H) = history_appends cfg G @ history_appends cfg H"
  "history_appends cfg [(sig, t)] = tx_appends cfg t"
  by (simp_all add: history_appends_def)

text \<open>The first occurrences of a list, which is what inserting unless present builds.\<close>

definition firsts :: "'a list \<Rightarrow> 'a list" where
  "firsts xs = rev (remdups (rev xs))"

lemma set_firsts [simp]: "set (firsts xs) = set xs"
  by (simp add: firsts_def)

lemma firsts_snoc: "firsts (xs @ [x]) = (if x \<in> set xs then firsts xs else firsts xs @ [x])"
  by (simp add: firsts_def)

lemma firsts_distinct: "distinct xs \<Longrightarrow> firsts xs = xs"
  by (simp add: firsts_def distinct_remdups_id)

lemma firsts_Nil [simp]: "firsts [] = []"
  by (simp add: firsts_def)

section \<open>Paging\<close>

text \<open>
  Documented behaviour of \<open>getSignaturesForAddress\<close>: signatures newest first, strictly after
  \<open>before\<close>, up to and without \<open>until\<close>, at most 1000. A call may instead fail.
\<close>

definition after_sig :: "string option \<Rightarrow> sig_info list \<Rightarrow> sig_info list" where
  "after_sig before xs = (case before of None \<Rightarrow> xs | Some b \<Rightarrow> tl (dropWhile (\<lambda>x. si_signature x \<noteq> b) xs))"

definition newer :: "string option \<Rightarrow> sig_info list \<Rightarrow> sig_info list" where
  "newer until xs = takeWhile (\<lambda>x. Some (si_signature x) \<noteq> until) xs"

definition serves_pages :: "poll_net \<Rightarrow> sig_info list \<Rightarrow> bool" where
  "serves_pages net xs \<longleftrightarrow> (\<forall>before until.
     pn_page net before until \<in> {Inr (take page_limit (newer until (after_sig before xs))), Inl RpcDown})"

lemma newer_drop: "k \<le> length (newer u xs) \<Longrightarrow> newer u (drop k xs) = drop k (newer u xs)"
proof (induction k arbitrary: xs)
  case (Suc k)
  then show ?case by (cases xs) (auto simp: newer_def split: if_splits)
qed simp

lemma after_last:
  assumes "distinct (map si_signature xs)" "0 < k" "k \<le> length xs"
  shows "after_sig (Some (si_signature (xs ! (k - 1)))) xs = drop k xs"
proof -
  have k: "k - 1 < length xs" using assms by simp
  have "\<forall>x \<in> set (take (k - 1) xs). si_signature x \<noteq> si_signature (xs ! (k - 1))"
  proof
    fix x assume "x \<in> set (take (k - 1) xs)"
    then obtain j where "j < k - 1" "x = xs ! j" by (auto simp: in_set_conv_nth)
    then show "si_signature x \<noteq> si_signature (xs ! (k - 1))"
      using assms(1) k by (simp add: distinct_conv_nth)
  qed
  then have "dropWhile (\<lambda>x. si_signature x \<noteq> si_signature (xs ! (k - 1))) (take (k - 1) xs @ drop (k - 1) xs)
      = dropWhile (\<lambda>x. si_signature x \<noteq> si_signature (xs ! (k - 1))) (drop (k - 1) xs)"
    by (intro dropWhile_append2) blast
  also have "\<dots> = drop (k - 1) xs" using k by (simp add: Cons_nth_drop_Suc [symmetric])
  finally have "after_sig (Some (si_signature (xs ! (k - 1)))) xs = tl (drop (k - 1) xs)" by (simp add: after_sig_def)
  also have "\<dots> = drop k xs" using assms(2) by (cases k) (simp_all add: tl_drop drop_Suc)
  finally show ?thesis .
qed

lemma newer_prefix: "take (length (newer u xs)) xs = newer u xs"
  by (simp add: newer_def takeWhile_eq_take [symmetric])

lemma last_take: "0 < n \<Longrightarrow> n \<le> length xs \<Longrightarrow> last (take n xs) = xs ! (n - 1)"
  by (subst last_conv_nth) (auto simp: min_def)

lemma page_loop_from:
  assumes "serves_pages net xs" "distinct (map si_signature xs)"
    and "k \<le> length (newer u xs)" "before = (if k = 0 then None else Some (si_signature (xs ! (k - 1))))"
  shows "page_loop net u before (take k xs) \<in> {Some (Inr (newer u xs)), Some (Inl RpcDown)}"
  using assms(3,4)
proof (induction "length (newer u xs) - k" arbitrary: k before rule: less_induct)
  case less
  let ?U = "newer u xs"
  have kx: "k \<le> length xs" using less.prems(1) newer_prefix [of u xs] by (metis length_take min.cobounded1 le_trans)
  have "after_sig before xs = drop k xs"
    using less.prems(2) after_last [OF assms(2) _ kx] by (cases "k = 0") (simp_all add: after_sig_def)
  then have page: "pn_page net before u \<in> {Inr (take page_limit (drop k ?U)), Inl RpcDown}"
    using assms(1) unfolding serves_pages_def by (metis newer_drop [OF less.prems(1)])
  have tk: "take k xs = take k ?U" using newer_prefix [of u xs] less.prems(1) by (metis min.absorb1 take_take)
  let ?p = "take page_limit (drop k ?U)"
  show ?case
  proof (cases "pn_page net before u")
    case (Inl e)
    then show ?thesis using page by (simp add: page_loop.simps)
  next
    case (Inr p)
    then have p: "p = ?p" using page by simp
    show ?thesis
    proof (cases "length p < page_limit")
      case True
      then have "p = drop k ?U" using p by simp
      then have "take k xs @ p = ?U" using tk by simp
      then show ?thesis using Inr True by (auto simp: page_loop.simps)
    next
      case False
      have pos: "0 < page_limit" by (simp add: page_limit_def)
      then have full: "k + page_limit \<le> length ?U" "length p = page_limit" "p \<noteq> []"
        using False p less.prems(1) by (auto simp: not_less min_def split: if_splits)
      have p2: "take k xs @ p = take (k + page_limit) xs"
        using p tk full(1) newer_prefix [of u xs] by (metis take_add min.absorb1 take_take)
      have lst: "last p = xs ! (k + page_limit - 1)"
      proof -
        have "last p = last (take (k + page_limit) xs)" using p2 full(3) by (metis last_appendR)
        moreover have "k + page_limit \<le> length xs"
          using full(1) newer_prefix [of u xs] by (metis length_take min.cobounded1 le_trans)
        ultimately show ?thesis using pos by (simp add: last_take)
      qed
      have "page_loop net u before (take k xs) = page_loop net u (Some (si_signature (last p))) (take (k + page_limit) xs)"
        using Inr full(3) False p2 by (simp add: page_loop.simps [of net u before])
      also have "\<dots> \<in> {Some (Inr ?U), Some (Inl RpcDown)}"
        using less.hyps [of "k + page_limit" "Some (si_signature (last p))"] full(1) pos lst by simp
      finally show ?thesis .
    qed
  qed
qed


lemma newer_rev_known:
  assumes "distinct (map (si_signature \<circ> fst) H)" "0 < k" "k \<le> length H"
  shows "newer (Some (si_signature (fst (H ! (k - 1))))) (rev (map fst H)) = rev (map fst (drop k H))"
proof -
  let ?b = "si_signature (fst (H ! (k - 1)))"
  have k: "k - 1 < length H" using assms by simp
  have split: "H = take (k - 1) H @ H ! (k - 1) # drop k H"
    using id_take_nth_drop [OF k] assms(2) by simp
  have "si_signature (fst x) \<noteq> ?b" if x: "x \<in> set (drop k H)" for x
  proof -
    obtain j where "j < length (drop k H)" "x = drop k H ! j" using x unfolding in_set_conv_nth by blast
    then have "k + j < length H" "x = H ! (k + j)" using assms(3) by simp_all
    then show ?thesis using assms(1) k assms(2) by (simp add: distinct_conv_nth)
  qed
  then have "takeWhile (\<lambda>x. si_signature x \<noteq> ?b) (rev (map fst (drop k H)) @ fst (H ! (k - 1)) # rev (map fst (take (k - 1) H)))
      = rev (map fst (drop k H))"
    by (subst takeWhile_append2) (auto simp: rev_map)
  moreover have "rev (map fst H) = rev (map fst (drop k H)) @ fst (H ! (k - 1)) # rev (map fst (take (k - 1) H))"
    by (subst split) simp
  ultimately show ?thesis by (simp add: newer_def)
qed

lemma newer_none: "newer None xs = xs"
  by (simp add: newer_def takeWhile_eq_all_conv)


section \<open>The invariant of the rows\<close>

text \<open>
  With \<open>A\<close> the appends of the history \<open>H\<close>: the rows are some \<open>zs\<close>, without repetition and in their
  order a part of the first \<open>p\<close> appends; the checkpoint is a signature of the history, and of the
  appends after it, up to \<open>p\<close>, none is missing; the counters kept during a batch are the lengths.
  With \<open>full\<close>, no transaction was ever answered by \<open>null\<close>, and the rows are all of the first \<open>p\<close>
  appends, each at its first occurrence.
\<close>

definition covers :: "appends \<Rightarrow> nat \<Rightarrow> nat \<Rightarrow> appends \<Rightarrow> bool" where
  "covers A q p zs \<longleftrightarrow> set (drop q (take p A)) \<subseteq> set zs"

definition checkpoint_ok :: "poll_config \<Rightarrow> history \<Rightarrow> nat \<Rightarrow> appends \<Rightarrow> db \<Rightarrow> bool" where
  "checkpoint_ok cfg H p zs s \<longleftrightarrow>
     (case List.find (\<lambda>r. pr_component r = po_component cfg) (db_progress s) of
        None \<Rightarrow> covers (history_appends cfg H) 0 p zs
      | Some r \<Rightarrow> \<exists>k. 0 < k \<and> k \<le> length H \<and> pr_last_signature r = Some (si_signature (fst (H ! (k - 1))))
          \<and> length (history_appends cfg (take k H)) \<le> p
          \<and> covers (history_appends cfg H) (length (history_appends cfg (take k H))) p zs)"

definition next_ok :: "next_leaf \<Rightarrow> appends \<Rightarrow> bool" where
  "next_ok next_leaf L \<longleftrightarrow> (\<forall>d i. next_leaf d = Some i \<longrightarrow> i = int (length (leaves_of d L)))"

definition rows_ok :: "bool \<Rightarrow> appends \<Rightarrow> nat \<Rightarrow> appends \<Rightarrow> bool" where
  "rows_ok full A p zs \<longleftrightarrow> p \<le> length A \<and> distinct zs \<and> subseq zs (take p A) \<and> (full \<longrightarrow> zs = firsts (take p A))"

definition synced_to :: "bool \<Rightarrow> poll_config \<Rightarrow> history \<Rightarrow> nat \<Rightarrow> appends \<Rightarrow> next_leaf \<Rightarrow> db \<Rightarrow> bool" where
  "synced_to full cfg H p zs next_leaf s \<longleftrightarrow> rows_ok full (history_appends cfg H) p zs
     \<and> leaf_table zs s \<and> checkpoint_ok cfg H p zs s \<and> next_ok next_leaf zs"

text \<open>Between rounds, and in the middle of one, with the first \<open>q\<close> appends dealt with.\<close>

definition settled :: "bool \<Rightarrow> poll_config \<Rightarrow> history \<Rightarrow> db \<Rightarrow> bool" where
  "settled full cfg H s \<longleftrightarrow> (\<exists>p zs. synced_to full cfg H p zs Map.empty s)"

definition synced :: "bool \<Rightarrow> poll_config \<Rightarrow> history \<Rightarrow> nat \<Rightarrow> next_leaf \<Rightarrow> db \<Rightarrow> bool" where
  "synced full cfg H q next_leaf s \<longleftrightarrow>
     (\<exists>p zs. q \<le> p \<and> covers (history_appends cfg H) q p zs \<and> synced_to full cfg H p zs next_leaf s)"

definition denoms_present :: "poll_config \<Rightarrow> history \<Rightarrow> db \<Rightarrow> bool" where
  "denoms_present cfg H s \<longleftrightarrow> (\<forall>x \<in> set (history_appends cfg H). has_denom (fst x) s)"

text \<open>The two conditions a loop keeps; with \<open>up\<close> nothing may fail any more.\<close>

definition loop_inv :: "bool \<Rightarrow> bool \<Rightarrow> poll_config \<Rightarrow> history \<Rightarrow> nat \<Rightarrow> next_leaf \<Rightarrow> db \<Rightarrow> bool" where
  "loop_inv full up cfg H q next_leaf s \<longleftrightarrow> synced full cfg H q next_leaf s \<and> (up \<longrightarrow> denoms_present cfg H s)"

definition idle_inv :: "bool \<Rightarrow> bool \<Rightarrow> poll_config \<Rightarrow> history \<Rightarrow> db \<Rightarrow> bool" where
  "idle_inv full up cfg H s \<longleftrightarrow> settled full cfg H s \<and> (up \<longrightarrow> denoms_present cfg H s)"

definition left_behind :: "bool \<Rightarrow> bool \<Rightarrow> poll_config \<Rightarrow> history \<Rightarrow> db \<Rightarrow> bool" where
  "left_behind full up cfg H s \<longleftrightarrow> \<not> up \<and> settled full cfg H s"

lemma db_queries_irrelevant [simp]:
  "synced_to full cfg H p zs nl (s\<lparr>db_queries := n\<rparr>) = synced_to full cfg H p zs nl s"
  "denoms_present cfg H (s\<lparr>db_queries := n\<rparr>) = denoms_present cfg H s"
  by (simp_all add: synced_to_def leaf_table_def leaf_rows_def checkpoint_ok_def denoms_present_def has_denom_def)

lemma synced_weaken: "synced full cfg H q nl s \<Longrightarrow> settled full cfg H s"
  by (auto simp: synced_def settled_def synced_to_def next_ok_def)

lemma loop_inv_fails: "\<not> up \<Longrightarrow> loop_inv full up cfg H q nl s \<Longrightarrow> left_behind full up cfg H s"
  using synced_weaken by (auto simp: loop_inv_def left_behind_def)

lemma idle_inv_fails: "\<not> up \<Longrightarrow> idle_inv full up cfg H s \<Longrightarrow> left_behind full up cfg H s"
  by (simp add: idle_inv_def left_behind_def)

lemma loop_inv_clock: "loop_inv full up cfg H q nl s \<Longrightarrow> loop_inv full up cfg H q nl (s\<lparr>db_queries := n\<rparr>)"
  by (simp add: loop_inv_def synced_def)

lemma idle_inv_clock: "idle_inv full up cfg H s \<Longrightarrow> idle_inv full up cfg H (s\<lparr>db_queries := n\<rparr>)"
  by (simp add: idle_inv_def settled_def)

lemma next_ok_bump:
  "next_ok nl L \<Longrightarrow> next_ok (nl(d \<mapsto> int (length (leaves_of d L)) + 1)) (L @ [(d, c)])"
  by (auto simp: next_ok_def)

lemma synced_to_fails: "\<not> up \<Longrightarrow> synced_to full cfg H p zs nl s \<Longrightarrow> left_behind full up cfg H s"
  by (fastforce simp: left_behind_def settled_def synced_to_def next_ok_def)

lemma synced_to_table: "synced_to full cfg H p zs nl s \<Longrightarrow> leaf_table zs s"
  by (simp add: synced_to_def)

text \<open>The rows against one more append.\<close>

lemma take_one_more: "q < length A \<Longrightarrow> take (Suc q) A = take q A @ [A ! q]"
  by (rule take_Suc_conv_app_nth)

lemma covers_one_more:
  assumes "covers A k q zs" "q < length A" "A ! q \<in> set zs'" "set zs \<subseteq> set zs'"
  shows "covers A k (Suc q) zs'"
proof -
  have "set (drop k (take (Suc q) A)) \<subseteq> insert (A ! q) (set (drop k (take q A)))"
    unfolding take_one_more [OF assms(2)] by (auto dest: in_set_dropD)
  then show ?thesis using assms(1,3,4) unfolding covers_def by blast
qed

lemma covers_later: "covers A q p zs \<Longrightarrow> q \<le> q' \<Longrightarrow> covers A q' p zs"
  using set_drop_subset_set_drop [of q q' "take p A"] by (auto simp: covers_def)

lemma covers_all: "p \<le> q \<Longrightarrow> covers A q p zs"
  by (simp add: covers_def)

lemma rows_ok_seen:
  assumes "rows_ok full A q zs" "q < length A" "A ! q \<in> set zs"
  shows "rows_ok full A (Suc q) zs"
proof -
  have "subseq zs (take q A @ [A ! q])" using assms(1) by (simp add: rows_ok_def list_emb_prefix)
  moreover have "full \<longrightarrow> zs = firsts (take q A @ [A ! q])"
    using assms(1,3) by (auto simp: rows_ok_def firsts_snoc)
  ultimately show ?thesis using assms(1,2) by (simp add: rows_ok_def take_one_more)
qed

lemma rows_ok_new:
  assumes "rows_ok full A q zs" "q < length A" "A ! q \<notin> set zs"
  shows "rows_ok full A (Suc q) (zs @ [A ! q])"
proof -
  have "subseq (zs @ [A ! q]) (take q A @ [A ! q])" using assms(1) by (simp add: rows_ok_def)
  moreover have "full \<longrightarrow> zs @ [A ! q] = firsts (take q A @ [A ! q])"
    using assms(1,3) by (auto simp: rows_ok_def firsts_snoc)
  ultimately show ?thesis using assms by (simp add: rows_ok_def take_one_more)
qed

lemma rows_ok_skip:
  assumes "rows_ok False A p zs" "p \<le> p'" "p' \<le> length A"
  shows "rows_ok False A p' zs"
proof -
  have "take p' A = take p A @ drop p (take p' A)" using assms(2) by (metis append_take_drop_id min.absorb1 take_take)
  then have "subseq zs (take p' A)" using assms(1) list_emb_prefix unfolding rows_ok_def by metis
  then show ?thesis using assms by (simp add: rows_ok_def)
qed

text \<open>A leaf at or after \<open>q\<close> that is not among the rows is the next one.\<close>

lemma not_seen_is_next:
  assumes "q < length A" "A ! q \<notin> set zs" "covers A q p zs" "q \<le> p" "p \<le> length A"
  shows "p = q"
proof (rule ccontr)
  assume "p \<noteq> q"
  then have "drop q (take p A) ! 0 = A ! q" "drop q (take p A) \<noteq> []" using assms(1,4,5) by auto
  then have "A ! q \<in> set (drop q (take p A))" by (metis length_greater_0_conv nth_mem)
  with assms(2,3) show False by (auto simp: covers_def)
qed

lemma synced_to_seen:
  assumes "synced_to full cfg H q zs nl s" "q < length (history_appends cfg H)" "history_appends cfg H ! q \<in> set zs"
  shows "synced_to full cfg H (Suc q) zs nl s"
proof -
  have "checkpoint_ok cfg H (Suc q) zs s"
    using assms covers_one_more [OF _ assms(2,3) order_refl]
    by (fastforce simp: synced_to_def checkpoint_ok_def split: option.splits)
  then show ?thesis using assms rows_ok_seen by (simp add: synced_to_def)
qed

section \<open>One append\<close>

abbreviation at_leaf where
  "at_leaf full up cfg H p zs nl s \<equiv> synced_to full cfg H p zs nl s \<and> (up \<longrightarrow> denoms_present cfg H s)"

abbreviation leaf_done where
  "leaf_done full up cfg H q \<equiv> (\<lambda>(new :: bool, nl') s. loop_inv full up cfg H (Suc q) nl' s)"

lemma triple_exists:
  assumes fate: "up \<Longrightarrow> fate = (\<lambda>_. Served)"
  shows "triple (at_leaf full up cfg H p zs nl) (commitment_exists fate d c)
     (\<lambda>seen s. at_leaf full up cfg H p zs nl s \<and> seen = ((d, c) \<in> set zs)) (left_behind full up cfg H)"
  unfolding commitment_exists_def
proof (rule triple_query [OF _ _ fate])
  show "triple (at_leaf full up cfg H p zs nl) (\<lambda>s. (Inr (list_ex (\<lambda>r. cr_commitment_be r = c) (leaf_rows d s)), s))
     (\<lambda>seen s. at_leaf full up cfg H p zs nl s \<and> seen = ((d, c) \<in> set zs)) (left_behind full up cfg H)"
    by (simp add: triple_def) (metis synced_to_table leaf_table_exists)
qed (auto intro: synced_to_fails)

lemma triple_leaf_for:
  assumes fate: "up \<Longrightarrow> pn_fate net = (\<lambda>_. Served)"
  shows "triple (at_leaf full up cfg H p zs nl) (leaf_for net d nl)
     (\<lambda>(i, nl') s. at_leaf full up cfg H p zs nl s \<and> i = int (length (leaves_of d zs)) \<and> nl' = nl(d \<mapsto> i + 1))
     (left_behind full up cfg H)" (is "triple ?P _ ?Q ?E")
proof -
  let ?n = "int (length (leaves_of d zs))"
  have max: "triple ?P (max_leaf_index (pn_fate net) d) (\<lambda>m s. ?P s \<and> m = ?n - 1) ?E"
    unfolding max_leaf_index_def
  proof (rule triple_query [OF _ _ fate])
    show "triple ?P (\<lambda>s. (Inr (case map cr_leaf_index (leaf_rows d s) of [] \<Rightarrow> -1 | i # rest \<Rightarrow> fold max rest i), s))
        (\<lambda>m s. ?P s \<and> m = ?n - 1) ?E"
      by (simp add: triple_def) (metis synced_to_table leaf_table_max)
  qed (auto intro: synced_to_fails)
  have "triple ?P (case nl d of Some i \<Rightarrow> returnQ i
      | None \<Rightarrow> bindQ (max_leaf_index (pn_fate net) d) (\<lambda>m. returnQ (m + 1))) (\<lambda>i s. ?P s \<and> i = ?n) ?E"
  proof (cases "nl d")
    case None
    then show ?thesis by (auto intro!: triple_bind [OF max] triple_return)
  next
    case (Some i)
    then show ?thesis by (auto intro!: triple_return simp: synced_to_def next_ok_def)
  qed
  then show ?thesis unfolding leaf_for_def by (rule triple_bind) (auto intro!: triple_return)
qed

lemma synced_to_insert:
  assumes s: "synced_to full cfg H q zs nl s" and q: "q < length (history_appends cfg H)" "history_appends cfg H ! q = (d, c)"
    and new: "(d, c) \<notin> set zs" and i: "i = int (length (leaves_of d zs))"
  shows "synced_to full cfg H (Suc q) (zs @ [(d, c)]) (nl(d \<mapsto> i + 1)) (s\<lparr>db_commitments := upsert commitment_key do_nothing
     \<lparr>cr_denom_id = d, cr_leaf_index = i, cr_commitment_be = c, cr_inserted_slot = slot\<rparr> (db_commitments s)\<rparr>)" (is "synced_to _ _ _ _ _ _ ?s'")
proof -
  let ?A = "history_appends cfg H"
  have "rows_ok full ?A (Suc q) (zs @ [(d, c)])" using rows_ok_new [OF _ q(1)] s q(2) new by (simp add: synced_to_def)
  moreover have "leaf_table (zs @ [(d, c)]) ?s'"
    using leaf_table_insert [OF synced_to_table [OF s], of "\<lparr>cr_denom_id = d, cr_leaf_index = i, cr_commitment_be = c,
        cr_inserted_slot = slot\<rparr>" d ?s'] i by simp
  moreover have "checkpoint_ok cfg H (Suc q) (zs @ [(d, c)]) ?s'"
  proof -
    have "covers ?A k (Suc q) (zs @ [(d, c)])" if "covers ?A k q zs" for k
      using covers_one_more [OF that q(1), of "zs @ [(d, c)]"] q(2) by auto
    then show ?thesis using s by (fastforce simp: synced_to_def checkpoint_ok_def split: option.splits)
  qed
  moreover have "next_ok (nl(d \<mapsto> i + 1)) (zs @ [(d, c)])"
    using s i by (simp add: synced_to_def next_ok_bump)
  ultimately show ?thesis by (simp add: synced_to_def)
qed

lemma triple_insert:
  assumes fate: "up \<Longrightarrow> pn_fate net = (\<lambda>_. Served)"
    and q: "q < length (history_appends cfg H)" "history_appends cfg H ! q = (d, c)"
    and new: "(d, c) \<notin> set zs" and i: "i = int (length (leaves_of d zs))"
  shows "triple (at_leaf full up cfg H q zs nl)
     (insert_commitment (pn_fate net) \<lparr>cr_denom_id = d, cr_leaf_index = i, cr_commitment_be = c, cr_inserted_slot = slot\<rparr>)
     (\<lambda>_. at_leaf full up cfg H (Suc q) (zs @ [(d, c)]) (nl(d \<mapsto> i + 1))) (left_behind full up cfg H)"
    (is "triple ?P _ ?Q ?E")
  unfolding insert_commitment_def
proof (rule triple_query [OF _ _ fate])
  let ?r = "\<lparr>cr_denom_id = d, cr_leaf_index = i, cr_commitment_be = c, cr_inserted_slot = slot\<rparr>"
  have mem: "(d, c) \<in> set (history_appends cfg H)" using q by (metis nth_mem)
  have "case write_rows (guardE (has_denom (cr_denom_id ?r) s) ForeignKey)
      (\<lambda>s. s\<lparr>db_commitments := upsert commitment_key do_nothing ?r (db_commitments s)\<rparr>) s of
      (Inl e, s') \<Rightarrow> ?E s' | (Inr a, s') \<Rightarrow> ?Q a s'" if P: "?P s" for s
  proof (cases "has_denom d s")
    case True
    then show ?thesis
      using synced_to_insert [OF conjunct1 [OF P] q new i] P by (simp add: write_rows_def denoms_present_def has_denom_def)
  next
    case False
    then have "\<not> up" using P mem by (force simp: denoms_present_def)
    then show ?thesis using False P synced_to_fails by (fastforce simp: write_rows_def)
  qed
  then show "triple ?P (\<lambda>s. write_rows (guardE (has_denom (cr_denom_id ?r) s) ForeignKey)
      (\<lambda>s. s\<lparr>db_commitments := upsert commitment_key do_nothing ?r (db_commitments s)\<rparr>) s) ?Q ?E"
    unfolding triple_def by blast
qed (auto intro: synced_to_fails)

text \<open>The two ways through \<open>append_leaf\<close>: the leaf is stored already, or it is stored now at the next index.\<close>

lemma triple_append_seen:
  assumes q: "q < length (history_appends cfg H)" "history_appends cfg H ! q = (d, c)" and "q \<le> p"
    and cov: "covers (history_appends cfg H) q p zs"
  shows "triple (\<lambda>s. at_leaf full up cfg H p zs nl s \<and> True = ((d, c) \<in> set zs)) (returnQ (False, nl))
      (leaf_done full up cfg H q) (left_behind full up cfg H)"
proof (rule triple_return)
  fix s assume s: "at_leaf full up cfg H p zs nl s \<and> True = ((d, c) \<in> set zs)"
  have "synced full cfg H (Suc q) nl s"
  proof (cases "q = p")
    case True
    then have "synced_to full cfg H (Suc q) zs nl s" using s q synced_to_seen [of full cfg H q zs nl s] by simp
    then show ?thesis using covers_all [of "Suc q" "Suc q"] by (auto simp: synced_def)
  next
    case False
    then show ?thesis using s assms(3) covers_later [OF cov, of "Suc q"] by (auto simp: synced_def intro!: exI [of _ p])
  qed
  then show "leaf_done full up cfg H q (False, nl) s" using s by (simp add: loop_inv_def)
qed

lemma triple_append_insert:
  assumes fate: "up \<Longrightarrow> pn_fate net = (\<lambda>_. Served)"
    and q: "q < length (history_appends cfg H)" "history_appends cfg H ! q = (d, c)"
    and new: "(d, c) \<notin> set zs"
  shows "triple (\<lambda>s. at_leaf full up cfg H q zs nl s \<and> i = int (length (leaves_of d zs)) \<and> nl' = nl(d \<mapsto> i + 1))
    (bindQ (insert_commitment (pn_fate net)
      \<lparr>cr_denom_id = d, cr_leaf_index = i, cr_commitment_be = c, cr_inserted_slot = slot\<rparr>) (\<lambda>_. returnQ (True, nl')))
    (leaf_done full up cfg H q) (left_behind full up cfg H)"
proof (cases "i = int (length (leaves_of d zs)) \<and> nl' = nl(d \<mapsto> i + 1)")
  case True
  then have i: "i = int (length (leaves_of d zs))" and nl': "nl' = nl(d \<mapsto> i + 1)" by simp_all
  have ret: "triple (at_leaf full up cfg H (Suc q) (zs @ [(d, c)]) nl') (returnQ (True, nl')) (leaf_done full up cfg H q) (left_behind full up cfg H)"
    using covers_all [of "Suc q" "Suc q"] by (intro triple_return) (auto simp: loop_inv_def synced_def)
  have "triple (at_leaf full up cfg H q zs nl) (bindQ (insert_commitment (pn_fate net)
     \<lparr>cr_denom_id = d, cr_leaf_index = i, cr_commitment_be = c, cr_inserted_slot = slot\<rparr>) (\<lambda>_. returnQ (True, nl')))
    (leaf_done full up cfg H q) (left_behind full up cfg H)"
    unfolding nl' by (rule triple_bind [OF triple_insert [OF fate q new i]]) (assumption, rule ret [unfolded nl'])
  then show ?thesis by (rule triple_cong) auto
next
  case False
  then show ?thesis by (auto simp: triple_def)
qed

lemma triple_append_fresh:
  assumes fate: "up \<Longrightarrow> pn_fate net = (\<lambda>_. Served)"
    and q: "q < length (history_appends cfg H)" "history_appends cfg H ! q = (d, c)"
    and new: "(d, c) \<notin> set zs"
  shows "triple (at_leaf full up cfg H q zs nl)
    (bindQ (leaf_for net d nl) (\<lambda>(i, nl'). bindQ (insert_commitment (pn_fate net)
      \<lparr>cr_denom_id = d, cr_leaf_index = i, cr_commitment_be = c, cr_inserted_slot = slot\<rparr>) (\<lambda>_. returnQ (True, nl'))))
    (leaf_done full up cfg H q) (left_behind full up cfg H)"
proof (rule triple_bind [OF triple_leaf_for [OF fate]], assumption)
  fix a :: "int \<times> next_leaf"
  show "triple ((\<lambda>(i, nl') s. at_leaf full up cfg H q zs nl s \<and> i = int (length (leaves_of d zs)) \<and> nl' = nl(d \<mapsto> i + 1)) a)
    ((\<lambda>(i, nl'). bindQ (insert_commitment (pn_fate net) \<lparr>cr_denom_id = d, cr_leaf_index = i,
       cr_commitment_be = c, cr_inserted_slot = slot\<rparr>) (\<lambda>_. returnQ (True, nl'))) a)
    (leaf_done full up cfg H q) (left_behind full up cfg H)"
    using triple_append_insert [OF fate q new, where i = "fst a" and nl' = "snd a"] by (cases a) (simp add: conj_assoc)
qed

lemma triple_append_leaf:
  assumes fate: "up \<Longrightarrow> pn_fate net = (\<lambda>_. Served)"
    and q: "q < length (history_appends cfg H)" "history_appends cfg H ! q = (d, c)"
  shows "triple (loop_inv full up cfg H q nl) (append_leaf net d c slot nl)
     (\<lambda>(new, nl') s. loop_inv full up cfg H (Suc q) nl' s) (left_behind full up cfg H)"
proof (rule triple_pre)
  let ?A = "history_appends cfg H"
  fix s assume "loop_inv full up cfg H q nl s"
  then obtain p zs where p: "q \<le> p" "covers ?A q p zs" "synced_to full cfg H p zs nl s" "up \<longrightarrow> denoms_present cfg H s"
    by (auto simp: loop_inv_def synced_def)
  have pA: "p \<le> length ?A" using p(3) by (simp add: synced_to_def rows_ok_def)
  have fresh: "triple (\<lambda>s. at_leaf full up cfg H p zs nl s \<and> False = ((d, c) \<in> set zs))
      (bindQ (leaf_for net d nl) (\<lambda>(i, nl'). bindQ (insert_commitment (pn_fate net)
         \<lparr>cr_denom_id = d, cr_leaf_index = i, cr_commitment_be = c, cr_inserted_slot = slot\<rparr>) (\<lambda>_. returnQ (True, nl'))))
      (leaf_done full up cfg H q) (left_behind full up cfg H)"
  proof (cases "(d, c) \<in> set zs")
    case True
    then show ?thesis by (simp add: triple_def)
  next
    case False
    then have pq: "p = q" using not_seen_is_next [OF q(1) _ p(2,1) pA] q(2) by simp
    show ?thesis using False unfolding pq by (intro triple_cong [OF triple_append_fresh [OF fate q False]]) simp_all
  qed
  have ex: "triple (\<lambda>t. t = s) (commitment_exists (pn_fate net) d c)
      (\<lambda>seen s. at_leaf full up cfg H p zs nl s \<and> seen = ((d, c) \<in> set zs)) (left_behind full up cfg H)"
    using p(3,4) by (intro triple_cong [OF triple_exists [OF fate]]) auto
  show "triple (\<lambda>t. t = s) (append_leaf net d c slot nl) (\<lambda>(new, nl') s. loop_inv full up cfg H (Suc q) nl' s) (left_behind full up cfg H)"
    unfolding append_leaf_def
    by (rule triple_bind [OF ex]) (use triple_append_seen [OF q p(1,2)] fresh in \<open>auto split: if_splits\<close>)
qed

section \<open>The loops over instructions and signatures\<close>

lemma triple_ix_loop:
  assumes fate: "up \<Longrightarrow> pn_fate net = (\<lambda>_. Served)"
    and A: "history_appends cfg H = X @ concat (map (\<lambda>(slot, data). ix_appends cfg data) ixs) @ Y" "length X = q"
  shows "triple (loop_inv full up cfg H q nl) (ix_loop cfg net ixs nl n)
     (\<lambda>(nl', m). loop_inv full up cfg H (q + length (concat (map (\<lambda>(slot, data). ix_appends cfg data) ixs))) nl')
     (left_behind full up cfg H)"
  using A
proof (induction ixs arbitrary: X q nl n)
  case Nil
  then show ?case by (simp add: triple_return)
next
  case (Cons ix ixs)
  obtain slot data where ix: "ix = (slot, data)" by fastforce
  let ?parsed = "case parse_deposit_ix (po_sha cfg) data of Some dep \<Rightarrow> Some dep | None \<Rightarrow> parse_withdraw_ix (po_sha cfg) data"
  show ?case
  proof (cases ?parsed)
    case None
    then have "ix_appends cfg data = []" by (simp add: ix_appends_def)
    then show ?thesis using Cons.IH [of X q nl n] Cons.prems None ix by simp
  next
    case (Some ci)
    let ?d = "uint (ci_denom_id ci)" and ?c = "ci_commitment ci"
    have ap: "ix_appends cfg data = [(?d, ?c)]" using Some by (simp add: ix_appends_def)
    have A: "history_appends cfg H = (X @ [(?d, ?c)]) @ concat (map (\<lambda>(slot, data). ix_appends cfg data) ixs) @ Y"
      using Cons.prems(1) ap ix by simp
    have q: "q < length (history_appends cfg H)" "history_appends cfg H ! q = (?d, ?c)"
      using A Cons.prems(2) by (simp_all add: nth_append)
    have rest: "triple (loop_inv full up cfg H (Suc q) nl') (ix_loop cfg net ixs nl' m)
        (\<lambda>(nl', m). loop_inv full up cfg H (Suc q + length (concat (map (\<lambda>(slot, data). ix_appends cfg data) ixs))) nl')
        (left_behind full up cfg H)" for nl' m
      using Cons.IH [OF A, of "Suc q" nl' m] Cons.prems(2) by simp
    have "triple (loop_inv full up cfg H q nl)
        (bindQ (append_leaf net ?d ?c slot nl) (\<lambda>(new, nl'). ix_loop cfg net ixs nl' (if new then Suc n else n)))
        (\<lambda>(nl', m). loop_inv full up cfg H (Suc q + length (concat (map (\<lambda>(slot, data). ix_appends cfg data) ixs))) nl')
        (left_behind full up cfg H)"
    proof (rule triple_bind [OF triple_append_leaf [OF fate q]])
      fix a :: "bool \<times> next_leaf"
      show "triple ((\<lambda>(new, nl') s. loop_inv full up cfg H (Suc q) nl' s) a)
          ((\<lambda>(new, nl'). ix_loop cfg net ixs nl' (if new then Suc n else n)) a)
          (\<lambda>(nl', m). loop_inv full up cfg H (Suc q + length (concat (map (\<lambda>(slot, data). ix_appends cfg data) ixs))) nl')
          (left_behind full up cfg H)"
        using rest by (cases a) simp
    qed
    then show ?thesis using ap ix Some by simp
  qed
qed

text \<open>
  What the node answers for a history: pages and transactions; failures are \<open>RpcDown\<close>. The documented
  \<open>null\<close> for a listed signature (\<open>Inr None\<close>) is excluded only with \<open>full\<close>.
\<close>

definition serves_txs :: "bool \<Rightarrow> poll_net \<Rightarrow> history \<Rightarrow> bool" where
  "serves_txs full net H \<longleftrightarrow> (\<forall>(sig, t) \<in> set H. pn_tx net (si_signature sig) \<in> {Inr (Some t), Inl RpcDown}
     \<or> \<not> full \<and> pn_tx net (si_signature sig) = Inr None)"

definition responsive :: "poll_net \<Rightarrow> bool" where
  "responsive net \<longleftrightarrow> pn_fate net = (\<lambda>_. Served) \<and> (\<forall>b u. pn_page net b u \<noteq> Inl RpcDown)
     \<and> (\<forall>sig. pn_tx net sig \<noteq> Inl RpcDown)"

text \<open>
  The checkpoint after a transaction: its appends have been dealt with, or \<open>null\<close> was answered for it
  and they are given up.
\<close>

lemma synced_checkpoint:
  assumes s: "synced full cfg H q nl s" and H: "H = G @ (sig, t) # F"
    and q: "q = length (history_appends cfg (G @ [(sig, t)])) \<or> \<not> full \<and> q \<le> length (history_appends cfg (G @ [(sig, t)]))"
  shows "synced full cfg H (length (history_appends cfg (G @ [(sig, t)]))) nl (s\<lparr>db_progress := upsert pr_component merge_progress
     \<lparr>pr_component = po_component cfg, pr_last_slot = si_slot sig, pr_last_signature = Some (si_signature sig)\<rparr> (db_progress s)\<rparr>)"
    (is "synced _ _ _ ?q' _ ?s'")
proof -
  let ?A = "history_appends cfg H" and ?r = "\<lparr>pr_component = po_component cfg, pr_last_slot = si_slot sig, pr_last_signature = Some (si_signature sig)\<rparr>"
  obtain p zs where p: "q \<le> p" "covers ?A q p zs" "synced_to full cfg H p zs nl s" using s by (auto simp: synced_def)
  have len: "?q' \<le> length ?A" using H by (simp add: history_appends_def)
  define p' where "p' = max p ?q'"
  have rows: "rows_ok full ?A p' zs"
  proof (cases "?q' \<le> p")
    case True
    then show ?thesis using p(3) by (simp add: p'_def synced_to_def)
  next
    case False
    then have "\<not> full" using q p(1) by auto
    then show ?thesis using rows_ok_skip [of ?A p zs p'] p(3) False len by (simp add: p'_def synced_to_def)
  qed
  have cov: "covers ?A ?q' p' zs"
  proof (cases "?q' \<le> p")
    case True
    then show ?thesis using covers_later [OF p(2), of ?q'] q by (auto simp: p'_def)
  next
    case False
    then show ?thesis by (simp add: p'_def covers_all)
  qed
  obtain r where r: "List.find (\<lambda>r. pr_component r = po_component cfg) (db_progress ?s') = Some r"
    "pr_last_signature r = Some (si_signature sig)"
    using progress.find_upsert_same [of ?r "db_progress s"] by (auto simp: merge_progress_def split: option.splits)
  have "checkpoint_ok cfg H p' zs ?s'"
    unfolding checkpoint_ok_def r(1) option.case
    by (intro exI [of _ "Suc (length G)"]) (use H r(2) cov in \<open>simp add: p'_def\<close>)
  moreover have "leaf_table L ?s' = leaf_table L s" for L by (rule leaf_table_cong) simp
  ultimately have "synced_to full cfg H p' zs nl ?s'" using p(3) rows by (simp add: synced_to_def)
  then show ?thesis unfolding synced_def using cov by (intro exI [of _ p'] exI [of _ zs]) (simp add: p'_def)
qed

lemma triple_checkpoint:
  assumes fate: "up \<Longrightarrow> pn_fate net = (\<lambda>_. Served)" and H: "H = G @ (sig, t) # F"
    and q: "q = length (history_appends cfg (G @ [(sig, t)])) \<or> \<not> full \<and> q \<le> length (history_appends cfg (G @ [(sig, t)]))"
  shows "triple (loop_inv full up cfg H q nl)
     (db_checkpoint (pn_fate net) \<lparr>pr_component = po_component cfg, pr_last_slot = si_slot sig,
        pr_last_signature = Some (si_signature sig)\<rparr>)
     (\<lambda>_. loop_inv full up cfg H (length (history_appends cfg (G @ [(sig, t)]))) nl) (left_behind full up cfg H)" (is "triple ?P _ ?Q _")
  unfolding db_checkpoint_def
proof (rule triple_query [OF _ _ fate])
  let ?r = "\<lparr>pr_component = po_component cfg, pr_last_slot = si_slot sig, pr_last_signature = Some (si_signature sig)\<rparr>"
  show "triple ?P (write_rows (Inr ()) (\<lambda>s. s\<lparr>db_progress := upsert pr_component merge_progress ?r (db_progress s)\<rparr>)) ?Q (left_behind full up cfg H)"
    using synced_checkpoint [OF _ H q]
    by (auto simp: triple_def write_rows_def loop_inv_def denoms_present_def has_denom_def)
qed (auto intro: loop_inv_fails loop_inv_clock)

text \<open>One transaction answered in full or by \<open>null\<close>, then its checkpoint.\<close>

lemma triple_tx:
  assumes fate: "up \<Longrightarrow> pn_fate net = (\<lambda>_. Served)" and H: "H = G @ (sig, t) # F"
    and ixs: "ixs = pool_ixs cfg (Some t) \<or> \<not> full \<and> ixs = []"
    and rest: "\<And>nl n. triple (loop_inv full up cfg H (length (history_appends cfg (G @ [(sig, t)]))) nl) (k nl n) Q (left_behind full up cfg H)"
  shows "triple (loop_inv full up cfg H (length (history_appends cfg G)) nl) (bindQ (ix_loop cfg net ixs nl n) (\<lambda>(next_leaf, n).
      bindQ (db_checkpoint (pn_fate net) \<lparr>pr_component = po_component cfg, pr_last_slot = si_slot sig,
        pr_last_signature = Some (si_signature sig)\<rparr>) (\<lambda>_. k next_leaf n))) Q (left_behind full up cfg H)"
proof -
  let ?q = "length (history_appends cfg G)" and ?q' = "length (history_appends cfg (G @ [(sig, t)]))"
  obtain q where loop: "triple (loop_inv full up cfg H ?q nl) (ix_loop cfg net ixs nl n)
      (\<lambda>(nl', m). loop_inv full up cfg H q nl') (left_behind full up cfg H)" and q: "q = ?q' \<or> \<not> full \<and> q \<le> ?q'"
  proof (cases "ixs = pool_ixs cfg (Some t)")
    case True
    have A: "history_appends cfg H = history_appends cfg G @ concat (map (\<lambda>(slot, data). ix_appends cfg data) ixs) @ history_appends cfg F"
      using H True by (simp add: history_appends_def tx_appends_def)
    show ?thesis
      by (rule that [OF triple_ix_loop [OF fate A refl]]) (simp_all add: True tx_appends_def)
  next
    case False
    then show ?thesis using ixs by (intro that [of ?q]) (auto intro!: triple_return)
  qed
  have step: "triple (loop_inv full up cfg H q nl') (bindQ (db_checkpoint (pn_fate net) \<lparr>pr_component = po_component cfg,
      pr_last_slot = si_slot sig, pr_last_signature = Some (si_signature sig)\<rparr>) (\<lambda>_. k nl' m)) Q (left_behind full up cfg H)" for nl' m
    by (rule triple_bind [OF triple_checkpoint [OF fate H q] rest]) assumption
  show ?thesis by (rule triple_bind [OF loop]) (use step in \<open>auto split: prod.splits\<close>)
qed

lemma triple_sig_loop:
  assumes fate: "up \<Longrightarrow> responsive net" and rpc: "serves_txs full net H" and H: "H = G @ F"
  shows "triple (loop_inv full up cfg H (length (history_appends cfg G)) nl) (sig_loop cfg net (map fst F) nl n)
     (\<lambda>_ s. loop_inv full up cfg H (length (history_appends cfg H)) Map.empty s) (left_behind full up cfg H)"
  using H
proof (induction F arbitrary: G nl n)
  case Nil
  then show ?case
    by (auto intro!: triple_return simp: loop_inv_def synced_def synced_to_def next_ok_def)
next
  case (Cons f F)
  obtain sig t where f: "f = (sig, t)" by fastforce
  have H: "H = G @ (sig, t) # F" using Cons.prems f by simp
  have up: "up \<Longrightarrow> pn_fate net = (\<lambda>_. Served)" using fate by (simp add: responsive_def)
  have get: "pn_tx net (si_signature sig) \<in> {Inr (Some t), Inl RpcDown} \<or> \<not> full \<and> pn_tx net (si_signature sig) = Inr None"
    using rpc H by (auto simp: serves_txs_def)
  have fetch: "triple (loop_inv full up cfg H (length (history_appends cfg G)) nl) (failQ (get_pool_ixs cfg net sig))
      (\<lambda>ixs s. loop_inv full up cfg H (length (history_appends cfg G)) nl s \<and> (ixs = pool_ixs cfg (Some t) \<or> \<not> full \<and> ixs = []))
      (left_behind full up cfg H)"
  proof (rule triple_fail)
    fix s e assume s: "loop_inv full up cfg H (length (history_appends cfg G)) nl s" and "get_pool_ixs cfg net sig = Inl e"
    then have "pn_tx net (si_signature sig) = Inl RpcDown" using get by (auto simp: get_pool_ixs_def)
    then have "\<not> up" using fate by (auto simp: responsive_def)
    then show "left_behind full up cfg H s" using s by (rule loop_inv_fails)
  next
    fix s ixs assume "loop_inv full up cfg H (length (history_appends cfg G)) nl s" and "get_pool_ixs cfg net sig = Inr ixs"
    then show "loop_inv full up cfg H (length (history_appends cfg G)) nl s \<and> (ixs = pool_ixs cfg (Some t) \<or> \<not> full \<and> ixs = [])"
      using get by (auto simp: get_pool_ixs_def pool_ixs_def)
  qed
  have tail: "triple (loop_inv full up cfg H (length (history_appends cfg (G @ [(sig, t)]))) nl) (sig_loop cfg net (map fst F) nl n)
     (\<lambda>_ s. loop_inv full up cfg H (length (history_appends cfg H)) Map.empty s) (left_behind full up cfg H)" for nl n
    by (rule Cons.IH) (use H in simp)
  show ?case
    unfolding f list.map fst_conv sig_loop.simps
    by (rule triple_bind [OF fetch], rule triple_when, rule triple_tx [OF up H _ tail])
qed

section \<open>A whole round\<close>

lemma rpc_down_not_up: "responsive net \<Longrightarrow> pn_page net b u \<noteq> Inl RpcDown"
  by (simp add: responsive_def)

lemma get_new_signatures_from:
  assumes "serves_pages net (rev (map fst H))" "distinct (map (si_signature \<circ> fst) H)"
    and "k \<le> length H" "since = (if k = 0 then None else Some (si_signature (fst (H ! (k - 1)))))"
  shows "get_new_signatures net since \<in> {Inr (map fst (drop k H)), Inl RpcDown}"
proof -
  have d: "distinct (map si_signature (rev (map fst H)))" using assms(2) by (simp add: rev_map [symmetric])
  have "page_loop net since None (take 0 (rev (map fst H))) \<in> {Some (Inr (newer since (rev (map fst H)))), Some (Inl RpcDown)}"
    by (rule page_loop_from [OF assms(1) d]) simp_all
  moreover have "newer since (rev (map fst H)) = rev (map fst (drop k H))"
    using assms(3,4) newer_rev_known [OF assms(2), of k] by (cases "k = 0") (simp_all add: newer_none)
  ultimately show ?thesis by (auto simp: get_new_signatures_def)
qed

lemma page_loop_answered:
  assumes r: "page_loop net u b xs = Some r" and ok: "\<And>b u. pn_page net b u \<noteq> Inl e"
  shows "r \<noteq> Inl e"
proof -
  have "net' = net \<longrightarrow> r \<noteq> Inl e" if r: "page_loop net' u b xs = Some r" for net'
  proof (rule page_loop.raw_induct [where P = "\<lambda>net' u b xs r. net' = net \<longrightarrow> r \<noteq> Inl e", OF _ r])
    fix f net' u b xs r
    assume IH: "\<And>net' u b xs r. f net' u b xs = Some r \<Longrightarrow> net' = net \<longrightarrow> r \<noteq> Inl e"
      and step: "(case pn_page net' b u of Inl e \<Rightarrow> Some (Inl e)
        | Inr page \<Rightarrow> if page = [] then Some (Inr xs) else if length page < page_limit then Some (Inr (xs @ page))
            else f net' u (Some (si_signature (last page))) (xs @ page)) = Some r"
    show "net' = net \<longrightarrow> r \<noteq> Inl e"
      using step ok [of b u] IH by (cases "pn_page net' b u") (auto split: if_splits)
  qed
  then show ?thesis using r by blast
qed

text \<open>The checkpoint names the last signature of a prefix of the history that has been stored.\<close>

definition since_of :: "progress_row option \<Rightarrow> string option" where
  "since_of c = (case c of None \<Rightarrow> None | Some r \<Rightarrow> pr_last_signature r)"

definition resumes_at :: "bool \<Rightarrow> bool \<Rightarrow> poll_config \<Rightarrow> history \<Rightarrow> progress_row option \<Rightarrow> nat \<Rightarrow> db \<Rightarrow> bool" where
  "resumes_at full up cfg H c k s \<longleftrightarrow> k \<le> length H
     \<and> loop_inv full up cfg H (length (history_appends cfg (take k H))) Map.empty s
     \<and> since_of c = (if k = 0 then None else Some (si_signature (fst (H ! (k - 1)))))"

lemma checkpoint_resumes:
  assumes s: "idle_inv full up cfg H s"
  shows "\<exists>k. resumes_at full up cfg H (List.find (\<lambda>r. pr_component r = po_component cfg) (db_progress s)) k s"
proof -
  obtain p zs where p: "synced_to full cfg H p zs Map.empty s" "up \<longrightarrow> denoms_present cfg H s"
    using s by (auto simp: idle_inv_def settled_def)
  show ?thesis
  proof (cases "List.find (\<lambda>r. pr_component r = po_component cfg) (db_progress s)")
    case None
    then have "covers (history_appends cfg H) 0 p zs" using p(1) by (simp add: synced_to_def checkpoint_ok_def)
    then have "synced full cfg H 0 Map.empty s" using p(1) by (auto simp: synced_def)
    then show ?thesis using None p(2) by (intro exI [of _ 0]) (simp add: resumes_at_def since_of_def loop_inv_def)
  next
    case (Some r)
    then obtain k where "0 < k" "k \<le> length H" "pr_last_signature r = Some (si_signature (fst (H ! (k - 1))))"
      "length (history_appends cfg (take k H)) \<le> p" "covers (history_appends cfg H) (length (history_appends cfg (take k H))) p zs"
      using p(1) by (auto simp: synced_to_def checkpoint_ok_def)
    then show ?thesis using p Some by (intro exI [of _ k]) (auto simp: resumes_at_def since_of_def loop_inv_def synced_def)
  qed
qed

lemma triple_read_checkpoint:
  assumes up: "up \<Longrightarrow> pn_fate net = (\<lambda>_. Served)"
  shows "triple (idle_inv full up cfg H) (get_checkpoint (pn_fate net) (po_component cfg))
     (\<lambda>c s. \<exists>k. resumes_at full up cfg H c k s) (left_behind full up cfg H)"
  unfolding get_checkpoint_def
proof (rule triple_query [OF _ _ up])
  show "triple (idle_inv full up cfg H)
      (\<lambda>s. (Inr (List.find (\<lambda>r. pr_component r = po_component cfg) (db_progress s)), s))
      (\<lambda>c s. \<exists>k. resumes_at full up cfg H c k s) (left_behind full up cfg H)"
    using checkpoint_resumes by (fastforce simp: triple_def)
qed (auto simp: resumes_at_def intro: loop_inv_fails idle_inv_fails idle_inv_clock)

lemma signatures_answered: "responsive net \<Longrightarrow> get_new_signatures net since \<noteq> Inl RpcDown"
proof
  assume up: "responsive net" and "get_new_signatures net since = Inl RpcDown"
  then have "page_loop net since None [] = Some (Inl RpcDown)"
    by (auto simp: get_new_signatures_def split: option.splits sum.splits)
  then show False using page_loop_answered [of net _ _ _ "Inl RpcDown" RpcDown] rpc_down_not_up [OF up] by blast
qed

lemma triple_fetch_signatures:
  assumes fate: "up \<Longrightarrow> responsive net" and rpc: "serves_pages net (rev (map fst H))"
    and dist: "distinct (map (si_signature \<circ> fst) H)" and s: "resumes_at full up cfg H c k s"
  shows "triple (\<lambda>t. t = s) (failQ (get_new_signatures net (since_of c)))
     (\<lambda>sigs t. resumes_at full up cfg H c k t \<and> sigs = map fst (drop k H)) (left_behind full up cfg H)"
proof (rule triple_fail)
  have new: "get_new_signatures net (since_of c) \<in> {Inr (map fst (drop k H)), Inl RpcDown}"
    using s by (intro get_new_signatures_from [OF rpc dist]) (simp_all add: resumes_at_def)
  show "left_behind full up cfg H t" if "t = s" "get_new_signatures net (since_of c) = Inl e" for t e
    using that new s signatures_answered [OF fate] loop_inv_fails by (cases up) (auto simp: resumes_at_def)
  show "resumes_at full up cfg H c k t \<and> sigs = map fst (drop k H)"
    if "t = s" "get_new_signatures net (since_of c) = Inr sigs" for t sigs
    using that new s by auto
qed

lemma triple_replay:
  assumes fate: "up \<Longrightarrow> responsive net" and rpc: "serves_txs full net H"
  shows "triple (resumes_at full up cfg H c k)
     (if map fst (drop k H) = [] then returnQ 0 else sig_loop cfg net (map fst (drop k H)) Map.empty 0)
     (\<lambda>_ s. loop_inv full up cfg H (length (history_appends cfg H)) Map.empty s) (left_behind full up cfg H)"
proof (cases "drop k H = []")
  case True
  then show ?thesis by (auto intro!: triple_return simp: resumes_at_def)
next
  case False
  have "triple (loop_inv full up cfg H (length (history_appends cfg (take k H))) Map.empty)
     (sig_loop cfg net (map fst (drop k H)) Map.empty 0)
     (\<lambda>_ s. loop_inv full up cfg H (length (history_appends cfg H)) Map.empty s) (left_behind full up cfg H)"
    by (rule triple_sig_loop [OF fate rpc]) simp_all
  then have "triple (resumes_at full up cfg H c k) (sig_loop cfg net (map fst (drop k H)) Map.empty 0)
     (\<lambda>_ s. loop_inv full up cfg H (length (history_appends cfg H)) Map.empty s) (left_behind full up cfg H)"
    by (rule triple_cong) (simp_all add: resumes_at_def)
  with False show ?thesis by simp
qed

lemma triple_sync_commitments:
  assumes fate: "up \<Longrightarrow> responsive net" and rpc: "serves_txs full net H" "serves_pages net (rev (map fst H))"
    and dist: "distinct (map (si_signature \<circ> fst) H)"
  shows "triple (idle_inv full up cfg H) (sync_commitments cfg net)
     (\<lambda>_ s. loop_inv full up cfg H (length (history_appends cfg H)) Map.empty s) (left_behind full up cfg H)"
proof -
  have up: "up \<Longrightarrow> pn_fate net = (\<lambda>_. Served)" using fate by (simp add: responsive_def)
  have rest: "triple (\<lambda>s. \<exists>k. resumes_at full up cfg H c k s) (bindQ (failQ (get_new_signatures net (since_of c))) (\<lambda>sigs.
      if sigs = [] then returnQ 0 else sig_loop cfg net sigs Map.empty 0))
      (\<lambda>_ s. loop_inv full up cfg H (length (history_appends cfg H)) Map.empty s) (left_behind full up cfg H)" for c
  proof (rule triple_pre)
    fix s assume "\<exists>k. resumes_at full up cfg H c k s"
    then obtain k where k: "resumes_at full up cfg H c k s" ..
    show "triple (\<lambda>t. t = s) (bindQ (failQ (get_new_signatures net (since_of c))) (\<lambda>sigs.
      if sigs = [] then returnQ 0 else sig_loop cfg net sigs Map.empty 0))
      (\<lambda>_ s. loop_inv full up cfg H (length (history_appends cfg H)) Map.empty s) (left_behind full up cfg H)"
      by (rule triple_bind [OF triple_fetch_signatures [OF fate rpc(2) dist k]], assumption)
        (rule triple_known, hypsubst, rule triple_replay [OF fate rpc(1)], assumption)
  qed
  show ?thesis
    unfolding sync_commitments_def Let_def since_of_def [symmetric]
    by (rule triple_bind [OF triple_read_checkpoint [OF up] rest])
qed

text \<open>
  What the accounts must look like for the first pass to succeed: numbers fit their columns, every
  tree, nullifier and append belongs to a listed denomination.
\<close>

definition listed :: "poll_config \<Rightarrow> (bytes \<times> int) list \<Rightarrow> int \<Rightarrow> bool" where
  "listed cfg accounts d \<longleftrightarrow> (\<exists>x \<in> set (of_kind cfg KDenomination accounts). \<exists>v.
     decode_denomination (fst x) = Some v \<and> uint (dv_denom_id v) = d)"

definition accounts_fit :: "poll_config \<Rightarrow> poll_net \<Rightarrow> history \<Rightarrow> bool" where
  "accounts_fit cfg net H \<longleftrightarrow> (\<exists>accounts. get_all_program_accounts net = Inr accounts
     \<and> (\<forall>x \<in> set (of_kind cfg KDenomination accounts). \<forall>v. decode_denomination (fst x) = Some v \<longrightarrow>
          int (dv_amount v) < 2 ^ 63 \<and> int (dv_deposit_count v) < 2 ^ 63)
     \<and> (\<forall>x \<in> set (of_kind cfg KMerkleTree accounts). \<forall>v. decode_merkle_tree (fst x) = Some v \<longrightarrow>
          int (mv_next_leaf_index v) < 2 ^ 63 \<and> listed cfg accounts (uint (mv_denom_id v)))
     \<and> (\<forall>x \<in> set (of_kind cfg KNullifierRecord accounts). \<forall>v. decode_nullifier_record (fst x) = Some v \<longrightarrow>
          bigint_ok (dbl (int (nv_spent_at_slot v))) \<and> listed cfg accounts (uint (nv_denom_id v)))
     \<and> (\<forall>x \<in> set (history_appends cfg H). listed cfg accounts (fst x)))"

definition rows_present :: "(bytes \<times> int) list \<Rightarrow> db \<Rightarrow> bool" where
  "rows_present xs s \<longleftrightarrow> (\<forall>x \<in> set xs. \<forall>v. decode_denomination (fst x) = Some v \<longrightarrow> has_denom (uint (dv_denom_id v)) s)"

text \<open>Writing other tables leaves the leaves and the checkpoint alone.\<close>

lemma settled_other_tables:
  "settled full cfg H (s\<lparr>db_denominations := x\<rparr>) = settled full cfg H s"
  "settled full cfg H (s\<lparr>db_roots := y\<rparr>) = settled full cfg H s"
  "settled full cfg H (s\<lparr>db_nullifiers := z\<rparr>) = settled full cfg H s"
  "settled full cfg H (s\<lparr>db_queries := n\<rparr>) = settled full cfg H s"
  "rows_present xs (s\<lparr>db_roots := y\<rparr>) = rows_present xs s"
  "rows_present xs (s\<lparr>db_nullifiers := z\<rparr>) = rows_present xs s"
  "rows_present xs (s\<lparr>db_queries := n\<rparr>) = rows_present xs s"
  "has_denom d (s\<lparr>db_queries := n\<rparr>) = has_denom d s"
  by (simp_all add: settled_def synced_to_def leaf_table_def leaf_rows_def checkpoint_ok_def rows_present_def has_denom_def)

definition pass_inv :: "bool \<Rightarrow> bool \<Rightarrow> poll_config \<Rightarrow> history \<Rightarrow> (bytes \<times> int) list \<Rightarrow> db \<Rightarrow> bool" where
  "pass_inv full up cfg H xs s \<longleftrightarrow> settled full cfg H s \<and> (up \<longrightarrow> rows_present xs s)"

lemma pass_inv_fails: "\<not> up \<Longrightarrow> pass_inv full up cfg H xs s \<Longrightarrow> left_behind full up cfg H s"
  by (simp add: pass_inv_def left_behind_def)

lemma pass_inv_clock: "pass_inv full up cfg H xs s \<Longrightarrow> pass_inv full up cfg H xs (s\<lparr>db_queries := n\<rparr>)"
  by (simp add: pass_inv_def settled_other_tables)

lemma triple_write:
  assumes fate: "up \<Longrightarrow> fate = (\<lambda>_. Served)"
    and kept: "\<And>s. pass_inv full up cfg H xs s \<Longrightarrow> pass_inv full up cfg H ys (f s)"
    and ok: "\<And>s e. pass_inv full up cfg H xs s \<Longrightarrow> g s = Inl e \<Longrightarrow> \<not> up"
  shows "triple (pass_inv full up cfg H xs) (query fate (\<lambda>s. write_rows (g s) f s)) (\<lambda>_. pass_inv full up cfg H ys) (left_behind full up cfg H)"
proof (rule triple_query [OF _ _ fate])
  show "triple (pass_inv full up cfg H xs) (\<lambda>s. write_rows (g s) f s) (\<lambda>_. pass_inv full up cfg H ys) (left_behind full up cfg H)"
    using kept ok pass_inv_fails by (fastforce simp: triple_def write_rows_def split: sum.splits)
qed (auto intro: pass_inv_fails pass_inv_clock)

lemma has_denom_upsert:
  "has_denom d (s\<lparr>db_denominations := upsert dr_denom_id merge_denomination r (db_denominations s)\<rparr>)
     \<longleftrightarrow> has_denom d s \<or> d = dr_denom_id r"
proof -
  have "has_denom d (s\<lparr>db_denominations := upsert dr_denom_id merge_denomination r (db_denominations s)\<rparr>)
      \<longleftrightarrow> d \<in> set (map dr_denom_id (upsert dr_denom_id merge_denomination r (db_denominations s)))"
    by (simp add: has_denom_def)
  then show ?thesis by (auto simp: denominations.keys_upsert has_denom_def)
qed

lemma triple_denominations:
  assumes fate: "up \<Longrightarrow> pn_fate net = (\<lambda>_. Served)"
    and fit: "up \<Longrightarrow> \<forall>x \<in> set todo. \<forall>v. decode_denomination (fst x) = Some v \<longrightarrow>
          int (dv_amount v) < 2 ^ 63 \<and> int (dv_deposit_count v) < 2 ^ 63"
  shows "triple (pass_inv full up cfg H ready) (for_each (sync_denomination cfg net) todo)
     (\<lambda>_. pass_inv full up cfg H (ready @ todo)) (left_behind full up cfg H)"
  using fit
proof (induction todo arbitrary: ready)
  case Nil
  then show ?case by (simp add: triple_return)
next
  case (Cons x todo)
  obtain data slot where x: "x = (data, slot)" by fastforce
  have one: "triple (pass_inv full up cfg H ready) (sync_denomination cfg net x) (\<lambda>_. pass_inv full up cfg H (ready @ [x])) (left_behind full up cfg H)"
  proof (cases "decode_denomination data")
    case None
    then show ?thesis unfolding x sync_denomination_def
      by (auto intro!: triple_return simp: pass_inv_def rows_present_def)
  next
    case (Some v)
    show ?thesis
      unfolding x sync_denomination_def upsert_denomination_def prod.case Some option.case
    proof (rule triple_write [OF fate])
      fix s assume "pass_inv full up cfg H ready s"
      then show "pass_inv full up cfg H (ready @ [(data, slot)])
        (s\<lparr>db_denominations := upsert dr_denom_id merge_denomination
          \<lparr>dr_denom_id = uint (dv_denom_id v), dr_amount_micro_usdc = int (dv_amount v),
           dr_deposit_count = int (dv_deposit_count v), dr_vault_address = po_b58 cfg (dv_vault v),
           dr_last_seen_slot = slot, dr_updated_at = pn_now net\<rparr> (db_denominations s)\<rparr>)"
        using Some by (auto simp: pass_inv_def rows_present_def settled_other_tables has_denom_upsert)
    next
      fix s :: db and e
      assume "guardE (bigint_ok (dr_amount_micro_usdc \<lparr>dr_denom_id = uint (dv_denom_id v), dr_amount_micro_usdc = int (dv_amount v),
           dr_deposit_count = int (dv_deposit_count v), dr_vault_address = po_b58 cfg (dv_vault v),
           dr_last_seen_slot = slot, dr_updated_at = pn_now net\<rparr>)
        \<and> bigint_ok (dr_deposit_count \<lparr>dr_denom_id = uint (dv_denom_id v), dr_amount_micro_usdc = int (dv_amount v),
           dr_deposit_count = int (dv_deposit_count v), dr_vault_address = po_b58 cfg (dv_vault v),
           dr_last_seen_slot = slot, dr_updated_at = pn_now net\<rparr>)) BigintRange = Inl e"
      then have "\<not> (int (dv_amount v) < 2 ^ 63 \<and> int (dv_deposit_count v) < 2 ^ 63)"
        by (auto simp: res_simps bigint_ok_def)
      then show "\<not> up" using Cons.prems x Some by auto
    qed
  qed
  have "triple (pass_inv full up cfg H (ready @ [x])) (for_each (sync_denomination cfg net) todo)
      (\<lambda>_. pass_inv full up cfg H (ready @ x # todo)) (left_behind full up cfg H)"
    using Cons.IH [of "ready @ [x]"] Cons.prems by simp
  then show ?case by (auto intro: triple_bind [OF one])
qed


lemma rows_present_listed: "rows_present (of_kind cfg KDenomination accounts) s \<Longrightarrow> listed cfg accounts d \<Longrightarrow> has_denom d s"
  by (force simp: rows_present_def listed_def)

lemma triple_sync_root:
  assumes fate: "up \<Longrightarrow> pn_fate net = (\<lambda>_. Served)"
    and fit: "\<And>v. up \<Longrightarrow> decode_merkle_tree (fst x) = Some v \<Longrightarrow>
          int (mv_next_leaf_index v) < 2 ^ 63 \<and> listed cfg accounts (uint (mv_denom_id v))"
  shows "triple (pass_inv full up cfg H (of_kind cfg KDenomination accounts)) (sync_root net x)
     (\<lambda>_. pass_inv full up cfg H (of_kind cfg KDenomination accounts)) (left_behind full up cfg H)" (is "triple ?P _ _ _")
proof -
  obtain data slot where x: "x = (data, slot)" by fastforce
  have skip: "triple ?P (returnQ ()) (\<lambda>_. ?P) (left_behind full up cfg H)" by (rule triple_return)
  show ?thesis
  proof (cases "decode_merkle_tree data")
    case (Some v)
    show ?thesis
    proof (cases "mv_latest_root v")
      case root: (Some r)
      show ?thesis
        unfolding x sync_root_def upsert_root_def prod.case Some option.case root
      proof (rule triple_write [OF fate])
        fix s assume "?P s"
        then show "?P (s\<lparr>db_roots := upsert root_key merge_root \<lparr>rr_denom_id = uint (mv_denom_id v),
          rr_leaf_count = int (mv_next_leaf_index v), rr_root_be = r, rr_inserted_slot = slot\<rparr> (db_roots s)\<rparr>)"
          by (simp add: pass_inv_def settled_other_tables)
      next
        fix s e assume P: "?P s" and "bindE (guardE (bigint_ok (rr_leaf_count \<lparr>rr_denom_id = uint (mv_denom_id v),
          rr_leaf_count = int (mv_next_leaf_index v), rr_root_be = r, rr_inserted_slot = slot\<rparr>)) BigintRange)
          (\<lambda>_. guardE (has_denom (rr_denom_id \<lparr>rr_denom_id = uint (mv_denom_id v),
          rr_leaf_count = int (mv_next_leaf_index v), rr_root_be = r, rr_inserted_slot = slot\<rparr>) s) ForeignKey) = Inl e"
        then have "\<not> (int (mv_next_leaf_index v) < 2 ^ 63 \<and> has_denom (uint (mv_denom_id v)) s)"
          by (auto simp: res_simps bigint_ok_def)
        then show "\<not> up" using fit [of v] P Some x rows_present_listed by (auto simp: pass_inv_def)
      qed
    qed (use skip Some x in \<open>simp add: sync_root_def\<close>)
  qed (use skip x in \<open>simp add: sync_root_def\<close>)
qed

lemma triple_sync_nullifier:
  assumes fate: "up \<Longrightarrow> pn_fate net = (\<lambda>_. Served)"
    and fit: "\<And>v. up \<Longrightarrow> decode_nullifier_record (fst x) = Some v \<Longrightarrow>
          bigint_ok (dbl (int (nv_spent_at_slot v))) \<and> listed cfg accounts (uint (nv_denom_id v))"
  shows "triple (pass_inv full up cfg H (of_kind cfg KDenomination accounts)) (sync_nullifier net x)
     (\<lambda>_. pass_inv full up cfg H (of_kind cfg KDenomination accounts)) (left_behind full up cfg H)" (is "triple ?P _ _ _")
proof -
  obtain data slot where x: "x = (data, slot)" by fastforce
  show ?thesis
  proof (cases "decode_nullifier_record data")
    case None
    then show ?thesis using x by (simp add: sync_nullifier_def triple_return)
  next
    case (Some v)
    let ?r = "\<lparr>nlr_denom_id = uint (nv_denom_id v), nlr_hash_be = nv_nullifier_hash v,
      nlr_spent_at_slot = dbl (int (nv_spent_at_slot v)), nlr_spent_at = pn_now net\<rparr>"
    show ?thesis
      unfolding x sync_nullifier_def insert_nullifier_def prod.case Some option.case
    proof (rule triple_write [OF fate])
      fix s assume "?P s"
      then show "?P (s\<lparr>db_nullifiers := upsert nullifier_key do_nothing ?r (db_nullifiers s)\<rparr>)"
        by (simp add: pass_inv_def settled_other_tables)
    next
      fix s e assume P: "?P s" and "bindE (guardE (bigint_ok (nlr_spent_at_slot ?r)) BigintRange)
        (\<lambda>_. guardE (has_denom (nlr_denom_id ?r) s) ForeignKey) = Inl e"
      then have "\<not> (bigint_ok (dbl (int (nv_spent_at_slot v))) \<and> has_denom (uint (nv_denom_id v)) s)"
        by (auto simp: res_simps)
      then show "\<not> up" using fit [of v] P Some x rows_present_listed by (auto simp: pass_inv_def)
    qed
  qed
qed

lemma triple_sync_account_state:
  assumes fate: "up \<Longrightarrow> responsive net \<and> accounts_fit cfg net H"
  shows "triple (idle_inv full False cfg H) (sync_account_state cfg net)
     (\<lambda>_. idle_inv full up cfg H) (left_behind full up cfg H)"
proof (rule triple_pre)
  fix s assume s: "idle_inv full False cfg H s"
  have up: "up \<Longrightarrow> pn_fate net = (\<lambda>_. Served)" using fate by (simp add: responsive_def)
  show "triple (\<lambda>t. t = s) (sync_account_state cfg net) (\<lambda>_. idle_inv full up cfg H) (left_behind full up cfg H)"
  proof (cases "get_all_program_accounts net")
    case (Inl e)
    then have "\<not> up" using fate by (auto simp: accounts_fit_def)
    then show ?thesis using s Inl by (simp add: triple_def sync_account_state_def bindQ_def failQ_def left_behind_def idle_inv_def)
  next
    case (Inr accounts)
    let ?ds = "of_kind cfg KDenomination accounts"
    have fit: "(\<forall>x \<in> set ?ds. \<forall>v. decode_denomination (fst x) = Some v \<longrightarrow>
          int (dv_amount v) < 2 ^ 63 \<and> int (dv_deposit_count v) < 2 ^ 63)
       \<and> (\<forall>x \<in> set (of_kind cfg KMerkleTree accounts). \<forall>v. decode_merkle_tree (fst x) = Some v \<longrightarrow>
          int (mv_next_leaf_index v) < 2 ^ 63 \<and> listed cfg accounts (uint (mv_denom_id v)))
       \<and> (\<forall>x \<in> set (of_kind cfg KNullifierRecord accounts). \<forall>v. decode_nullifier_record (fst x) = Some v \<longrightarrow>
          bigint_ok (dbl (int (nv_spent_at_slot v))) \<and> listed cfg accounts (uint (nv_denom_id v)))
       \<and> (\<forall>x \<in> set (history_appends cfg H). listed cfg accounts (fst x))" if "up"
      using fate [OF \<open>up\<close>] Inr unfolding accounts_fit_def by force
    let ?P = "pass_inv full up cfg H ?ds"
    have "triple (pass_inv full up cfg H []) (for_each (sync_denomination cfg net) ?ds) (\<lambda>_. pass_inv full up cfg H ([] @ ?ds)) (left_behind full up cfg H)"
      by (rule triple_denominations [OF up]) (use fit in blast)+
    then have 1: "triple (\<lambda>t. t = s) (for_each (sync_denomination cfg net) ?ds) (\<lambda>_. ?P) (left_behind full up cfg H)"
      using s by (auto elim: triple_cong simp: pass_inv_def rows_present_def idle_inv_def)
    have 2: "triple ?P (for_each (sync_root net) (of_kind cfg KMerkleTree accounts)) (\<lambda>_. ?P) (left_behind full up cfg H)"
      by (rule triple_for_each, rule triple_sync_root [OF up]) (use fit in blast)+
    have 3: "triple ?P (for_each (sync_nullifier net) (of_kind cfg KNullifierRecord accounts)) (\<lambda>_. ?P) (left_behind full up cfg H)"
      by (rule triple_for_each, rule triple_sync_nullifier [OF up]) (use fit in blast)+
    have all: "triple (\<lambda>t. t = s) (bindQ (for_each (sync_denomination cfg net) ?ds) (\<lambda>_.
        bindQ (for_each (sync_root net) (of_kind cfg KMerkleTree accounts)) (\<lambda>_.
        for_each (sync_nullifier net) (of_kind cfg KNullifierRecord accounts)))) (\<lambda>_. ?P) (left_behind full up cfg H)"
      by (intro triple_bind [OF 1] triple_bind [OF 2] 3)
    have finished: "idle_inv full up cfg H t" if "?P t" for t
      using that conjunct2 [OF conjunct2 [OF conjunct2 [OF fit]]] rows_present_listed [of cfg accounts t]
      unfolding pass_inv_def idle_inv_def denoms_present_def by blast
    have "sync_account_state cfg net = bindQ (for_each (sync_denomination cfg net) ?ds) (\<lambda>_.
        bindQ (for_each (sync_root net) (of_kind cfg KMerkleTree accounts)) (\<lambda>_.
        for_each (sync_nullifier net) (of_kind cfg KNullifierRecord accounts)))"
      by (rule ext) (simp add: sync_account_state_def Inr failQ_def bindQ_def [of "failQ (Inr accounts)"])
    then show ?thesis using all by (simp only:) (rule triple_cong, assumption, assumption, erule finished, assumption)
  qed
qed

lemma triple_tick:
  assumes fate: "up \<Longrightarrow> responsive net \<and> accounts_fit cfg net H"
    and rpc: "serves_txs full net H" "serves_pages net (rev (map fst H))" and dist: "distinct (map (si_signature \<circ> fst) H)"
  shows "triple (settled full cfg H) (tick cfg net)
     (\<lambda>_. synced full cfg H (length (history_appends cfg H)) Map.empty) (left_behind full up cfg H)"
proof -
  have "triple (idle_inv full False cfg H) (tick cfg net)
      (\<lambda>_ s. loop_inv full up cfg H (length (history_appends cfg H)) Map.empty s) (left_behind full up cfg H)"
    unfolding tick_def using fate
    by (intro triple_bind [OF triple_sync_account_state] triple_sync_commitments rpc dist) auto
  then show ?thesis by (rule triple_cong) (simp_all add: loop_inv_def idle_inv_def)
qed


section \<open>Runs of the poller\<close>

text \<open>
  The chain grows by transactions with fresh signatures; in between the poller runs rounds, each
  under whatever network it meets: any call may fail, and what the node does answer is true, except
  that without \<open>full\<close> it may answer \<open>null\<close> for transactions it has listed.
\<close>

definition truthful :: "bool \<Rightarrow> poll_net \<Rightarrow> history \<Rightarrow> bool" where
  "truthful full net H \<longleftrightarrow> serves_txs full net H \<and> serves_pages net (rev (map fst H))"

inductive poll_run :: "bool \<Rightarrow> poll_config \<Rightarrow> history \<Rightarrow> db \<Rightarrow> bool" for full cfg where
  start: "poll_run full cfg [] empty_db"
| grow: "poll_run full cfg H s \<Longrightarrow> si_signature sig \<notin> (si_signature \<circ> fst) ` set H \<Longrightarrow> poll_run full cfg (H @ [(sig, t)]) s"
| round: "poll_run full cfg H s \<Longrightarrow> truthful full net H \<Longrightarrow> poll_run full cfg H (poll_round cfg net s)"

lemma settled_grow: "settled full cfg H s \<Longrightarrow> settled full cfg (H @ G) s"
proof -
  assume "settled full cfg H s"
  then obtain p zs where s: "synced_to full cfg H p zs Map.empty s" by (auto simp: settled_def)
  have p: "p \<le> length (history_appends cfg H)" using s by (simp add: synced_to_def rows_ok_def)
  have cov: "covers (history_appends cfg (H @ G)) q p zs = covers (history_appends cfg H) q p zs" for q
    using p by (simp add: covers_def)
  have rows: "rows_ok full (history_appends cfg (H @ G)) p zs" using s p by (simp add: synced_to_def rows_ok_def)
  have "checkpoint_ok cfg (H @ G) p zs s"
  proof (cases "List.find (\<lambda>r. pr_component r = po_component cfg) (db_progress s)")
    case None
    then show ?thesis using s by (simp add: checkpoint_ok_def synced_to_def cov del: history_appends_simps)
  next
    case (Some r)
    then obtain k where "0 < k" "k \<le> length H" "pr_last_signature r = Some (si_signature (fst (H ! (k - 1))))"
      "length (history_appends cfg (take k H)) \<le> p" "covers (history_appends cfg H) (length (history_appends cfg (take k H))) p zs"
      using s by (auto simp: synced_to_def checkpoint_ok_def)
    then show ?thesis unfolding checkpoint_ok_def Some option.case
      by (intro exI [of _ k]) (auto simp: nth_append cov simp del: history_appends_simps)
  qed
  then have "synced_to full cfg (H @ G) p zs Map.empty s" using s rows by (simp add: synced_to_def)
  then show ?thesis by (auto simp: settled_def)
qed

lemma poll_run_inv: "poll_run full cfg H s \<Longrightarrow> distinct (map (si_signature \<circ> fst) H) \<and> settled full cfg H s"
proof (induction rule: poll_run.induct)
  case start
  show ?case
    by (auto simp: settled_def synced_to_def rows_ok_def leaf_table_empty checkpoint_ok_def covers_def next_ok_def empty_db_def
        intro!: exI [of _ 0] exI [of _ "[]"])
next
  case (grow H s sig t)
  then show ?case by (simp add: settled_grow)
next
  case (round H s net)
  then have dist: "distinct (map (si_signature \<circ> fst) H)" and s: "settled full cfg H s" by blast+
  have "triple (settled full cfg H) (tick cfg net)
     (\<lambda>_. synced full cfg H (length (history_appends cfg H)) Map.empty) (left_behind full False cfg H)"
    using round.hyps(2) by (intro triple_tick dist) (simp_all add: truthful_def)
  then have "case tick cfg net s of (Inl e, s') \<Rightarrow> left_behind full False cfg H s'
      | (Inr n, s') \<Rightarrow> synced full cfg H (length (history_appends cfg H)) Map.empty s'"
    by (rule triple_run) (rule s)
  then have "settled full cfg H (poll_round cfg net s)"
    using synced_weaken by (auto simp: poll_round_def left_behind_def split: prod.splits sum.splits)
  then show ?case using dist by blast
qed

text \<open>The leaves of a denomination as the table has them, in the order of their index.\<close>

definition stored_leaves :: "int \<Rightarrow> db \<Rightarrow> (int \<times> bytes) list" where
  "stored_leaves d s = map (\<lambda>r. (cr_leaf_index r, cr_commitment_be r)) (leaf_rows d s)"

definition numbered :: "bytes list \<Rightarrow> (int \<times> bytes) list" where
  "numbered cs = zip (map int [0..<length cs]) cs"

definition chain_leaves :: "poll_config \<Rightarrow> int \<Rightarrow> history \<Rightarrow> bytes list" where
  "chain_leaves cfg d H = leaves_of d (history_appends cfg H)"

lemma leaves_of_take: "\<exists>n. leaves_of d (take p A) = take n (leaves_of d A)"
proof -
  have "leaves_of d A = leaves_of d (take p A) @ leaves_of d (drop p A)"
    by (metis append_take_drop_id leaves_of_simps(2))
  then show ?thesis by (intro exI [of _ "length (leaves_of d (take p A))"]) simp
qed

lemma leaves_of_firsts: "leaves_of d (firsts xs) = firsts (leaves_of d xs)"
proof (induction xs rule: rev_induct)
  case (snoc x xs)
  then show ?case by (cases x) (auto simp: firsts_snoc set_leaves_of)
qed simp

lemma leaves_of_distinct: "distinct zs \<Longrightarrow> distinct (leaves_of d zs)"
  unfolding leaves_of_def by (auto simp: distinct_map inj_on_def)

lemma leaves_of_subseq: "subseq xs ys \<Longrightarrow> subseq (leaves_of d xs) (leaves_of d ys)"
  unfolding leaves_of_def by (intro subseq_map subseq_filter)

lemma stored_leaves_settled:
  assumes "settled full cfg H s"
  obtains cs where "stored_leaves d s = numbered cs" "distinct cs" "subseq cs (chain_leaves cfg d H)"
    "full \<Longrightarrow> \<exists>n. cs = firsts (take n (chain_leaves cfg d H))"
proof -
  let ?A = "history_appends cfg H"
  obtain p zs where s: "synced_to full cfg H p zs Map.empty s" using assms by (auto simp: settled_def)
  then have rows: "distinct zs" "subseq zs (take p ?A)" "full \<longrightarrow> zs = firsts (take p ?A)" and t: "leaf_table zs s"
    by (auto simp: synced_to_def rows_ok_def)
  have "subseq (take p ?A) ?A" by (metis append_take_drop_id list_emb_prefix subseq_order.order_refl)
  then have "subseq (leaves_of d zs) (chain_leaves cfg d H)"
    using rows(2) leaves_of_subseq subseq_order.order_trans unfolding chain_leaves_def by blast
  moreover have "\<exists>n. leaves_of d zs = firsts (take n (chain_leaves cfg d H))" if "full"
    using rows(3) that leaves_of_take [of d p ?A] by (auto simp: leaves_of_firsts chain_leaves_def)
  ultimately show ?thesis
    using that [of "leaves_of d zs"] t leaves_of_distinct [OF rows(1)]
    by (simp add: leaf_table_def stored_leaves_def numbered_def)
qed

lemma stored_leaves_complete:
  assumes "synced True cfg H (length (history_appends cfg H)) nl s"
  shows "stored_leaves d s = numbered (firsts (chain_leaves cfg d H))"
proof -
  obtain p zs where "length (history_appends cfg H) \<le> p" "synced_to True cfg H p zs nl s"
    using assms by (auto simp: synced_def)
  then have "zs = firsts (history_appends cfg H)" "leaf_table zs s" by (auto simp: synced_to_def rows_ok_def)
  then show ?thesis by (simp add: leaf_table_def stored_leaves_def numbered_def chain_leaves_def leaves_of_firsts)
qed

lemma undisturbed_tick:
  assumes run: "poll_run True cfg H s"
    and net: "truthful True net H" "responsive net" "accounts_fit cfg net H"
  obtains n s' where "tick cfg net s = (Inr n, s')" "synced True cfg H (length (history_appends cfg H)) Map.empty s'"
proof -
  have inv: "settled True cfg H s" "distinct (map (si_signature \<circ> fst) H)" using poll_run_inv [OF run] by blast+
  have "triple (settled True cfg H) (tick cfg net)
     (\<lambda>_. synced True cfg H (length (history_appends cfg H)) Map.empty) (left_behind True True cfg H)"
    using net by (intro triple_tick inv(2)) (simp_all add: truthful_def)
  then have "case tick cfg net s of (Inl e, s') \<Rightarrow> left_behind True True cfg H s'
      | (Inr n, s') \<Rightarrow> synced True cfg H (length (history_appends cfg H)) Map.empty s'"
    by (rule triple_run) (rule inv(1))
  then show ?thesis using that by (auto simp: left_behind_def split: prod.splits sum.splits)
qed

text \<open>
  C10. The indexer's leaves are the chain's. In every run of the poller, where any query, page or
  transaction request may fail at any moment and any commitment may be appended twice, the
  commitments stored for a denomination are numbered 0, 1, 2, ... without gaps, none is stored twice,
  and they are leaves of the chain in the chain's order: none is made up and none is out of order. The
  assumption is that what the node answers is true: pages list the signatures of the history, and a
  transaction is answered as it is or by \<open>null\<close>. As long as \<open>null\<close> was never answered for a listed
  transaction (\<open>full\<close>) none is missing in between either: the stored leaves are the first leaves the
  chain appended, up to some point of the history, each repetition left out, and with no repetition on
  the chain exactly its first leaves.
\<close>

theorem indexer_rows_are_chain_prefix:
  assumes "poll_run full cfg H s"
  shows "\<exists>cs. stored_leaves d s = numbered cs \<and> distinct cs \<and> subseq cs (chain_leaves cfg d H)
     \<and> (full \<longrightarrow> (\<exists>n. cs = firsts (take n (chain_leaves cfg d H))
          \<and> (distinct (chain_leaves cfg d H) \<longrightarrow> cs = take n (chain_leaves cfg d H))))"
proof -
  obtain cs where cs: "stored_leaves d s = numbered cs" "distinct cs" "subseq cs (chain_leaves cfg d H)"
    "full \<Longrightarrow> \<exists>n. cs = firsts (take n (chain_leaves cfg d H))"
    using stored_leaves_settled poll_run_inv [OF assms] by blast
  have "\<exists>n. cs = firsts (take n (chain_leaves cfg d H))
      \<and> (distinct (chain_leaves cfg d H) \<longrightarrow> cs = take n (chain_leaves cfg d H))" if "full"
    using cs(4) [OF that] by (auto simp: firsts_distinct)
  then show ?thesis using cs(1-3) by blast
qed

text \<open>
  C27. One undisturbed round catches up. Take a run in which \<open>null\<close> was never answered for a listed
  transaction, and a round in which every query is served, every request is answered and the listed
  accounts fit the schema: numbers below 2^63, and trees, nullifiers and appends only of denominations
  that have an account. The round ends without an error, and afterwards the stored leaves of every
  denomination are all leaves of the chain, each at its first occurrence: when no commitment was
  appended twice, all of them.
\<close>

theorem undisturbed_round_catches_up:
  assumes run: "poll_run True cfg H s"
    and net: "truthful True net H" "responsive net" "accounts_fit cfg net H"
  shows "(\<exists>n. fst (tick cfg net s) = Inr n) \<and> stored_leaves d (poll_round cfg net s) = numbered (firsts (chain_leaves cfg d H))
     \<and> (distinct (chain_leaves cfg d H) \<longrightarrow> stored_leaves d (poll_round cfg net s) = numbered (chain_leaves cfg d H))"
proof -
  obtain n s' where t: "tick cfg net s = (Inr n, s')" "synced True cfg H (length (history_appends cfg H)) Map.empty s'"
    using undisturbed_tick [OF run net] .
  then show ?thesis using stored_leaves_complete [OF t(2), of d] by (simp add: poll_round_def firsts_distinct)
qed

text \<open>
  C38. The paging loop ends: against a node that serves any finite history page by page, asking for
  what is newer than a known signature returns after finitely many pages, with exactly the newer
  signatures, oldest first, unless one of the calls fails.
\<close>

theorem paging_terminates:
  assumes "serves_pages net (rev (map fst H))" "distinct (map (si_signature \<circ> fst) H)"
    and "k \<le> length H" "since = (if k = 0 then None else Some (si_signature (fst (H ! (k - 1)))))"
  shows "page_loop net since None [] \<noteq> None
     \<and> get_new_signatures net since \<in> {Inr (map fst (drop k H)), Inl RpcDown}"
  using get_new_signatures_from [OF assms] by (auto simp: get_new_signatures_def split: option.splits)


section \<open>What the rounds do not survive\<close>

text \<open>
  A commitment deposited twice is two leaves of the chain and one row of the indexer: even after an
  undisturbed round leaves are missing.
\<close>

lemma firsts_shorter: "\<not> distinct xs \<Longrightarrow> length (firsts xs) < length xs"
  by (metis card_distinct card_length distinct_card distinct_remdups distinct_rev firsts_def le_neq_implies_less length_rev set_firsts)

lemma duplicate_leaf_diverges:
  assumes "poll_run True cfg H s" "truthful True net H" "responsive net" "accounts_fit cfg net H"
    and dup: "\<not> distinct (chain_leaves cfg d H)"
  shows "length (stored_leaves d (poll_round cfg net s)) < length (chain_leaves cfg d H)"
proof -
  obtain n s' where t: "tick cfg net s = (Inr n, s')" "synced True cfg H (length (history_appends cfg H)) Map.empty s'"
    using undisturbed_tick [OF assms(1-4)] .
  then show ?thesis using stored_leaves_complete [OF t(2), of d] firsts_shorter [OF dup] by (simp add: poll_round_def numbered_def)
qed

text \<open>A node that answers every page in full keeps the paging loop running for ever.\<close>

lemma endless_paging:
  assumes "\<And>b u. \<exists>page. pn_page net b u = Inr page \<and> length page = page_limit"
  shows "get_new_signatures net since = Inl NeverReturns"
proof -
  have "net' \<noteq> net" if r: "page_loop net' u b xs = Some r" for net' u b xs r
  proof (rule page_loop.raw_induct [where P = "\<lambda>net' u b xs r. net' \<noteq> net", OF _ r])
    fix f net' u b xs r
    assume IH: "\<And>net' u b xs r. f net' u b xs = Some r \<Longrightarrow> net' \<noteq> net"
      and step: "(case pn_page net' b u of Inl e \<Rightarrow> Some (Inl e)
        | Inr page \<Rightarrow> if page = [] then Some (Inr xs) else if length page < page_limit then Some (Inr (xs @ page))
            else f net' u (Some (si_signature (last page))) (xs @ page)) = Some r"
    show "net' \<noteq> net"
    proof
      assume eq: "net' = net"
      obtain page where "pn_page net b u = Inr page" "length page = page_limit" using assms by blast
      moreover from this have "page \<noteq> []" by (auto simp: page_limit_def)
      ultimately have "f net' u (Some (si_signature (last page))) (xs @ page) = Some r" using step eq by simp
      then show False using IH eq by blast
    qed
  qed
  then have "page_loop net since None [] = None" by (cases "page_loop net since None []") (simp, blast)
  then show ?thesis by (simp add: get_new_signatures_def)
qed

section \<open>A concrete run\<close>

definition demo_poll_sha :: hash_fun where
  "demo_poll_sha m = take 32 (rev m @ zeros 32)"

definition demo_leaf :: "nat \<Rightarrow> bytes" where
  "demo_leaf n = be_bytes 32 n"

definition demo_deposit_data :: "nat \<Rightarrow> bytes" where
  "demo_deposit_data n = anchor_ix_discriminator demo_poll_sha ''deposit'' @ [1] @ demo_leaf n"

definition demo_poll_config :: poll_config where
  "demo_poll_config = \<lparr>po_program_id = [7], po_component = ''poller-devnet'', po_sha = demo_poll_sha, po_b58 = ascii_of,
     po_unb58 = (\<lambda>s. if s = ''a'' then Some (demo_deposit_data 5) else if s = ''b'' then Some (demo_deposit_data 6) else None)\<rparr>"

definition demo_history :: history where
  "demo_history = [(\<lparr>si_signature = ''s1'', si_slot = 10\<rparr>, \<lparr>tx_err = False, tx_slot = 10, tx_ixs = [([7], Some ''a'')]\<rparr>),
     (\<lparr>si_signature = ''s2'', si_slot = 11\<rparr>, \<lparr>tx_err = False, tx_slot = 11, tx_ixs = [([7], Some ''b'')]\<rparr>)]"

definition demo_denomination :: denomination_account where
  "demo_denomination = \<lparr>dn_denom_id = 1, dn_amount = 1000000, dn_deposit_count = 2, dn_vault = zeros 32, dn_mint = zeros 32,
     dn_vault_bump = 255, dn_bump = 254\<rparr>"

definition demo_net :: "history \<Rightarrow> (string \<Rightarrow> poll_error + pool_tx option) \<Rightarrow> poll_net" where
  "demo_net H txs = \<lparr>pn_fate = (\<lambda>_. Served), pn_now = 0, pn_slot = Inr 12, pn_accounts = Inr [denomination_layout demo_poll_sha demo_denomination],
     pn_page = (\<lambda>before until. Inr (take page_limit (newer until (after_sig before (rev (map fst H)))))), pn_tx = txs\<rparr>"

definition demo_txs :: "string \<Rightarrow> poll_error + pool_tx option" where
  "demo_txs sig = Inr (map_option snd (List.find (\<lambda>x. si_signature (fst x) = sig) demo_history))"

lemma demo_appends: "history_appends demo_poll_config demo_history = [(1, demo_leaf 5), (1, demo_leaf 6)]"
  by code_simp

lemma demo_distinct: "distinct (history_appends demo_poll_config demo_history)"
  unfolding demo_appends by code_simp

lemma demo_net_ok:
  "truthful full (demo_net demo_history demo_txs) demo_history" "responsive (demo_net demo_history demo_txs)"
  by (auto simp: truthful_def serves_txs_def serves_pages_def responsive_def demo_net_def demo_txs_def demo_history_def)

lemma demo_denomination_decodes:
  "decode_as demo_poll_sha KDenomination decode_denomination (denomination_layout demo_poll_sha demo_denomination)
     = Some \<lparr>dv_denom_id = 1, dv_amount = 1000000, dv_deposit_count = 2, dv_vault = zeros 32\<rparr>"
proof -
  have "length (demo_poll_sha m) = 32" for m unfolding demo_poll_sha_def by simp
  then have "sha_ok demo_poll_sha" by (simp add: sha_ok_def)
  moreover have "kinds_distinct demo_poll_sha" by code_simp
  ultimately show ?thesis
    using denomination_wire.roundtrip [of demo_poll_sha demo_denomination]
    by (simp add: demo_denomination_def denomination_view_def)
qed

lemma demo_accounts_fit: "accounts_fit demo_poll_config (demo_net demo_history demo_txs) demo_history"
proof -
  let ?acc = "denomination_layout demo_poll_sha demo_denomination"
  have a: "get_all_program_accounts (demo_net demo_history demo_txs) = Inr [(?acc, 12)]"
    by (simp add: get_all_program_accounts_def demo_net_def)
  have d: "account_kind demo_poll_sha ?acc = Some KDenomination" "decode_denomination ?acc
      = Some \<lparr>dv_denom_id = 1, dv_amount = 1000000, dv_deposit_count = 2, dv_vault = zeros 32\<rparr>"
    using demo_denomination_decodes by (simp_all add: decode_as_def split: if_splits)
  have k: "of_kind demo_poll_config KDenomination [(?acc, 12)] = [(?acc, 12)]"
    "of_kind demo_poll_config KMerkleTree [(?acc, 12)] = []"
    "of_kind demo_poll_config KNullifierRecord [(?acc, 12)] = []"
    by (simp_all add: of_kind_def d(1) demo_poll_config_def)
  show ?thesis unfolding accounts_fit_def a demo_appends listed_def by (auto simp: k d)
qed

lemma demo_poll_run: "poll_run full demo_poll_config demo_history empty_db"
proof -
  have "poll_run full demo_poll_config (([] @ [(\<lparr>si_signature = ''s1'', si_slot = 10\<rparr>,
        \<lparr>tx_err = False, tx_slot = 10, tx_ixs = [([7], Some ''a'')]\<rparr>)])
      @ [(\<lparr>si_signature = ''s2'', si_slot = 11\<rparr>, \<lparr>tx_err = False, tx_slot = 11, tx_ixs = [([7], Some ''b'')]\<rparr>)]) empty_db"
    by (intro poll_run.grow poll_run.start) simp_all
  then show ?thesis by (simp add: demo_history_def)
qed

theorem indexer_rows_are_chain_prefix_witness:
  "\<exists>n. stored_leaves 1 (poll_round demo_poll_config (demo_net demo_history demo_txs) empty_db)
     = numbered (firsts (take n (chain_leaves demo_poll_config 1 demo_history)))"
  using indexer_rows_are_chain_prefix [OF poll_run.round [OF demo_poll_run demo_net_ok(1) [of True]], of 1] by auto

theorem undisturbed_round_catches_up_witness:
  "stored_leaves 1 (poll_round demo_poll_config (demo_net demo_history demo_txs) empty_db)
     = [(0, demo_leaf 5), (1, demo_leaf 6)]"
proof -
  have "chain_leaves demo_poll_config 1 demo_history = [demo_leaf 5, demo_leaf 6]"
    by (simp add: chain_leaves_def demo_appends leaves_of_def)
  moreover have "firsts [demo_leaf 5, demo_leaf 6] = [demo_leaf 5, demo_leaf 6]" by code_simp
  ultimately show ?thesis
    using undisturbed_round_catches_up [OF demo_poll_run demo_net_ok demo_accounts_fit, of 1] by (simp add: numbered_def)
qed

theorem paging_terminates_witness:
  "get_new_signatures (demo_net demo_history demo_txs) (Some ''s1'') \<in> {Inr [\<lparr>si_signature = ''s2'', si_slot = 11\<rparr>], Inl RpcDown}"
  using paging_terminates [of "demo_net demo_history demo_txs" demo_history 1 "Some ''s1''"] demo_net_ok(1) [of True]
  by (simp add: truthful_def demo_history_def)


text \<open>
  \<open>getParsedTransaction\<close> may answer \<open>null\<close> for a listed signature. The code takes it for a failed
  transaction and moves the checkpoint past it: no later round reads the transaction again, so its
  leaf stays missing and the leaves after it are stored one place too early.
\<close>

definition forgetful_txs :: "string \<Rightarrow> poll_error + pool_tx option" where
  "forgetful_txs sig = (if sig = ''s1'' then Inr None else demo_txs sig)"

lemma forgetful_truthful: "truthful False (demo_net demo_history forgetful_txs) demo_history"
  by (auto simp: truthful_def serves_txs_def serves_pages_def demo_net_def forgetful_txs_def demo_txs_def demo_history_def)

definition demo_db :: db where
  "demo_db = empty_db\<lparr>db_denominations := [\<lparr>dr_denom_id = 1, dr_amount_micro_usdc = 1000000, dr_deposit_count = 2,
     dr_vault_address = ''v'', dr_last_seen_slot = 9, dr_updated_at = 0\<rparr>]\<rparr>"

definition demo_round :: "(string \<Rightarrow> poll_error + pool_tx option) \<Rightarrow> db \<Rightarrow> (poll_error + nat) \<times> db" where
  "demo_round txs s = tick demo_poll_config ((demo_net demo_history txs)\<lparr>pn_accounts := Inr []\<rparr>) s"

lemma demo_pages:
  "get_new_signatures ((demo_net demo_history txs)\<lparr>pn_accounts := Inr []\<rparr>) None
     = Inr [\<lparr>si_signature = ''s1'', si_slot = 10\<rparr>, \<lparr>si_signature = ''s2'', si_slot = 11\<rparr>]"
  "get_new_signatures ((demo_net demo_history txs)\<lparr>pn_accounts := Inr []\<rparr>) (Some ''s2'') = Inr []"
proof -
  show "get_new_signatures ((demo_net demo_history txs)\<lparr>pn_accounts := Inr []\<rparr>) None
     = Inr [\<lparr>si_signature = ''s1'', si_slot = 10\<rparr>, \<lparr>si_signature = ''s2'', si_slot = 11\<rparr>]"
    by (simp add: get_new_signatures_def page_loop.simps demo_net_def demo_history_def newer_def after_sig_def page_limit_def)
  show "get_new_signatures ((demo_net demo_history txs)\<lparr>pn_accounts := Inr []\<rparr>) (Some ''s2'') = Inr []"
    by (simp add: get_new_signatures_def page_loop.simps demo_net_def demo_history_def newer_def after_sig_def page_limit_def)
qed

lemma demo_parse:
  "parse_deposit_ix demo_poll_sha (demo_deposit_data n) = Some \<lparr>ci_denom_id = 1, ci_commitment = demo_leaf n\<rparr>"
proof -
  let ?d = "anchor_ix_discriminator demo_poll_sha ''deposit''"
  have "length (demo_poll_sha m) = 32" for m unfolding demo_poll_sha_def by simp
  then have d: "length ?d = 8" by (simp add: sha_ok_def)
  then show ?thesis by (simp add: parse_deposit_ix_def demo_deposit_data_def demo_leaf_def slice_def nth_append)
qed

lemmas demo_eval = demo_round_def tick_def sync_account_state_def sync_commitments_def get_all_program_accounts_def of_kind_def
  bindQ_def failQ_def returnQ_def query_def write_rows_def get_checkpoint_def db_checkpoint_def commitment_exists_def
  max_leaf_index_def insert_commitment_def append_leaf_def leaf_for_def get_pool_ixs_def pool_ixs_def has_denom_def
  leaf_rows_def map_filter_simps stored_leaves_def

lemma null_answer_loses_leaf:
  "map_prod id (stored_leaves 1) (demo_round forgetful_txs demo_db) = (Inr 1, [(0, demo_leaf 6)])"
  "map_prod id (stored_leaves 1) (demo_round demo_txs (snd (demo_round forgetful_txs demo_db))) = (Inr 0, [(0, demo_leaf 6)])"
  "chain_leaves demo_poll_config 1 demo_history = [demo_leaf 5, demo_leaf 6]"
proof -
  have txs: "forgetful_txs ''s1'' = Inr None"
    "forgetful_txs ''s2'' = Inr (Some \<lparr>tx_err = False, tx_slot = 11, tx_ixs = [([7], Some ''b'')]\<rparr>)"
    by (simp_all add: forgetful_txs_def demo_txs_def demo_history_def)
  let ?s = "demo_db\<lparr>db_queries := 6, db_commitments := [\<lparr>cr_denom_id = 1, cr_leaf_index = 0, cr_commitment_be = demo_leaf 6,
      cr_inserted_slot = 11\<rparr>], db_progress := [\<lparr>pr_component = ''poller-devnet'', pr_last_slot = 11,
      pr_last_signature = Some ''s2''\<rparr>]\<rparr>"
  have round: "demo_round forgetful_txs demo_db = (Inr 1, ?s)"
    using demo_pages(1) [of forgetful_txs]
    by (simp add: demo_eval demo_net_def demo_poll_config_def demo_db_def empty_db_def txs demo_parse merge_progress_def do_nothing_def)
  show "map_prod id (stored_leaves 1) (demo_round forgetful_txs demo_db) = (Inr 1, [(0, demo_leaf 6)])"
    unfolding round by (simp add: stored_leaves_def leaf_rows_def)
  show "map_prod id (stored_leaves 1) (demo_round demo_txs (snd (demo_round forgetful_txs demo_db))) = (Inr 0, [(0, demo_leaf 6)])"
    unfolding round snd_conv using demo_pages(2) [of demo_txs]
    by (simp add: demo_eval demo_net_def demo_poll_config_def demo_db_def empty_db_def)
  show "chain_leaves demo_poll_config 1 demo_history = [demo_leaf 5, demo_leaf 6]"
    by (simp add: chain_leaves_def demo_appends leaves_of_def)
qed

end
