(* ===== verification/IndexerApi.thy ===== *)
theory IndexerApi
  imports IndexerSync SdkEndToEnd Json
begin

text \<open>
  The indexer's HTTP API, \<open>qietr-indexer/api/src\<close>, and the SDK's client of it,
  \<open>indexer-client.ts\<close>. The poller writes while a request is served, so the queries of one request
  read a sequence of database states.
\<close>

section \<open>Parameters\<close>

text \<open>\<open>Number.parseInt(s, 10)\<close>: white space and a sign are skipped, the longest run of digits is read.\<close>

definition parse_int10 :: "string \<Rightarrow> int option" where
  "parse_int10 s =
     (let u = js_trim_start s;
          neg = (u \<noteq> [] \<and> hd u = CHR ''-'');
          v = (if u \<noteq> [] \<and> hd u \<in> {CHR ''-'', CHR ''+''} then tl u else u);
          ds = takeWhile (is_digit 10) v
      in if ds = [] then None
         else Some (if neg then - int (digits_val 10 ds) else int (digits_val 10 ds)))"

record api_reply =
  ar_status :: nat
  ar_cache :: "string option"
  ar_body :: json

definition api_error :: "nat \<Rightarrow> string \<Rightarrow> (string \<times> json) list \<Rightarrow> api_reply" where
  "api_error status e extra = \<lparr>ar_status = status, ar_cache = None, ar_body = JObj ((''error'', JStr e) # extra)\<rparr>"

text \<open>What a throw inside a route becomes: the error handler of \<open>index.ts\<close>.\<close>

definition internal_error :: api_reply where
  "internal_error = api_error 500 ''internal_error'' []"

text \<open>
  The first steps of both lookup routes: two required parameters, a tier number and a field element.
  \<open>texts\<close> renders the message of a parse error.
\<close>

definition denom_param :: "string \<Rightarrow> api_reply + int" where
  "denom_param s =
     (case parse_int10 s of
        None \<Rightarrow> Inl (api_error 400 ''invalid_denom_id'' [])
      | Some n \<Rightarrow> if n < 0 \<or> n > 255 then Inl (api_error 400 ''invalid_denom_id'' []) else Inr n)"

definition hash_param :: "(codec_error \<Rightarrow> string) \<Rightarrow> string \<Rightarrow> string \<Rightarrow> api_reply + bytes" where
  "hash_param texts e s =
     (case parse_commitment_param s of
        Inl err \<Rightarrow> Inl (api_error 400 e [(''message'', JStr (texts err))])
      | Inr buf \<Rightarrow> Inr buf)"

definition required :: "string list \<Rightarrow> json" where
  "required names = JArr (map JStr names)"

section \<open>merkle-proof.ts\<close>

definition proof_cache_ttl_ms :: int where
  "proof_cache_ttl_ms = 10000"

record cached_proof =
  cp_leaf_count :: int
  cp_expires :: int
  cp_body :: json

type_synonym proof_cache = "string \<rightharpoonup> cached_proof"

text \<open>The \<open>k\<close>-th query of a request reads \<open>snap k\<close>; \<open>None\<close> is a query that fails.\<close>

record api_env =
  ae_hash :: "int \<Rightarrow> int \<Rightarrow> int"
  ae_texts :: "codec_error \<Rightarrow> string"
  ae_snap :: "nat \<Rightarrow> db option"
  ae_read :: int
  ae_write :: int

definition cache_key :: "int \<Rightarrow> bytes \<Rightarrow> string" where
  "cache_key d buf = int_str 10 d @ '':'' @ buffer_to_hex buf"

definition js_num :: "int \<Rightarrow> json" where
  "js_num n = JNum (int_str 10 n)"

definition proof_json :: "int \<Rightarrow> int \<Rightarrow> int \<Rightarrow> string \<Rightarrow> string list \<Rightarrow> int list \<Rightarrow> json" where
  "proof_json d i n root els idxs = JObj [(''denomId'', js_num d), (''leafIndex'', js_num i), (''leafCount'', js_num n),
     (''root'', JStr root), (''pathElements'', JArr (map JStr els)), (''pathIndices'', JArr (map js_num idxs))]"

definition stored_root :: "int \<Rightarrow> int \<Rightarrow> db \<Rightarrow> bytes option" where
  "stored_root d n s = map_option rr_root_be (List.find (\<lambda>r. root_key r = (d, n)) (db_roots s))"

text \<open>The rows of a denomination ordered by leaf index, and the check that none is missing.\<close>

definition ordered_leaves :: "int \<Rightarrow> db \<Rightarrow> commitment_row list" where
  "ordered_leaves d s = sort_key cr_leaf_index (leaf_rows d s)"

definition first_gap :: "commitment_row list \<Rightarrow> nat option" where
  "first_gap rows = List.find (\<lambda>i. cr_leaf_index (rows ! i) \<noteq> int i) [0..<length rows]"

definition gap_text :: "nat \<Rightarrow> string" where
  "gap_text i = ''expected contiguous leaf_index, found gap at '' @ nat_str 10 i"

definition hex_or_throw :: "int \<Rightarrow> api_reply + string" where
  "hex_or_throw n = (case bigint_to_hex_be32 n of Inl _ \<Rightarrow> Inl internal_error | Inr s \<Rightarrow> Inr s)"

definition map_res :: "('a \<Rightarrow> 'e + 'b) \<Rightarrow> 'a list \<Rightarrow> 'e + 'b list" where
  "map_res f xs = foldE (\<lambda>x acc. bindE (f x) (\<lambda>y. Inr (acc @ [y]))) xs []"

text \<open>The part after the lookup: rebuild the tree, compare with the stored root, render.\<close>

definition build_proof :: "api_env \<Rightarrow> int \<Rightarrow> int \<Rightarrow> api_reply + int \<times> json" where
  "build_proof env d i =
     bindE (optE internal_error (ae_snap env 2)) (\<lambda>s2.
     let rows = ordered_leaves d s2 in
     bindE (case first_gap rows of None \<Rightarrow> Inr ()
            | Some g \<Rightarrow> Inl (api_error 500 ''ingest_gap'' [(''message'', JStr (gap_text g))])) (\<lambda>_.
     let leaves = map (\<lambda>r. int (be_to_bigint (cr_commitment_be r))) rows in
     bindE (case build_inclusion_path (ae_hash env) leaves i of Inl _ \<Rightarrow> Inl internal_error | Inr p \<Rightarrow> Inr p) (\<lambda>path.
     bindE (optE internal_error (ae_snap env 3)) (\<lambda>s3.
     bindE (case stored_root d (int (length leaves)) s3 of
              None \<Rightarrow> Inr ()
            | Some root \<Rightarrow>
                if int (be_to_bigint root) \<noteq> ip_root path
                then bindE (hex_or_throw (int (be_to_bigint root))) (\<lambda>expected.
                     bindE (hex_or_throw (ip_root path)) (\<lambda>computed.
                     Inl (api_error 500 ''root_mismatch'' [(''expectedRoot'', JStr expected), (''computedRoot'', JStr computed)])))
                else Inr ()) (\<lambda>_.
     bindE (hex_or_throw (ip_root path)) (\<lambda>root.
     bindE (map_res hex_or_throw (ip_elements path)) (\<lambda>els.
     let n = int (length leaves) in
     Inr (n, proof_json d i n root els (ip_indices path)))))))))"

definition find_leaf :: "int \<Rightarrow> bytes \<Rightarrow> db \<Rightarrow> int option" where
  "find_leaf d buf s = map_option cr_leaf_index (List.find (\<lambda>r. cr_commitment_be r = buf) (leaf_rows d s))"

definition proof_request :: "api_env \<Rightarrow> string option \<Rightarrow> string option \<Rightarrow> api_reply + int \<times> bytes" where
  "proof_request env denom_id commitment =
     (case (truthy denom_id, truthy commitment) of
        (Some ds, Some cs) \<Rightarrow>
          bindE (denom_param ds) (\<lambda>d.
          bindE (hash_param (ae_texts env) ''invalid_commitment'' cs) (\<lambda>buf. Inr (d, buf)))
      | _ \<Rightarrow> Inl (api_error 400 ''missing_param'' [(''required'', required [''denomId'', ''commitment''])]))"

text \<open>A lookup that misses the cache replies and may leave an entry to be stored.\<close>

definition proof_miss :: "api_env \<Rightarrow> int \<Rightarrow> bytes \<Rightarrow> api_reply \<times> (string \<times> cached_proof) option" where
  "proof_miss env d buf =
     (case ae_snap env 1 of
        None \<Rightarrow> (internal_error, None)
      | Some s1 \<Rightarrow>
          (case find_leaf d buf s1 of
             None \<Rightarrow> (api_error 404 ''commitment_not_found'' [], None)
           | Some i \<Rightarrow>
               (case build_proof env d i of
                  Inl r \<Rightarrow> (r, None)
                | Inr (n, body) \<Rightarrow>
                    (\<lparr>ar_status = 200, ar_cache = Some ''MISS'', ar_body = body\<rparr>,
                     Some (cache_key d buf, \<lparr>cp_leaf_count = n, cp_expires = ae_write env + proof_cache_ttl_ms, cp_body = body\<rparr>)))))"

definition merkle_proof_route ::
    "api_env \<Rightarrow> string option \<Rightarrow> string option \<Rightarrow> proof_cache \<Rightarrow> api_reply \<times> (string \<times> cached_proof) option" where
  "merkle_proof_route env denom_id commitment cache =
     (case proof_request env denom_id commitment of
        Inl r \<Rightarrow> (r, None)
      | Inr (d, buf) \<Rightarrow>
          (case ae_snap env 0 of
             None \<Rightarrow> (internal_error, None)
           | Some s0 \<Rightarrow>
               (case cache (cache_key d buf) of
                  Some e \<Rightarrow>
                    if cp_leaf_count e = int (length (leaf_rows d s0)) \<and> cp_expires e > ae_read env
                    then (\<lparr>ar_status = 200, ar_cache = Some ''HIT'', ar_body = cp_body e\<rparr>, None)
                    else proof_miss env d buf
                | None \<Rightarrow> proof_miss env d buf)))"

text \<open>
  The caches that requests can leave behind. Requests overlap: one may look into an older cache than
  the one it stores its entry in.
\<close>

inductive proof_caches :: "(api_env \<Rightarrow> bool) \<Rightarrow> proof_cache \<Rightarrow> bool" for served where
  fresh: "proof_caches served Map.empty"
| stored: "proof_caches served earlier \<Longrightarrow> proof_caches served now \<Longrightarrow> served env
    \<Longrightarrow> merkle_proof_route env denom_id commitment earlier = (r, Some (k, e)) \<Longrightarrow> proof_caches served (now(k \<mapsto> e))"

section \<open>nullifier-status.ts and denominations.ts\<close>

text \<open>\<open>show_time\<close> renders a time as \<open>toISOString\<close> does.\<close>

definition nullifier_status_route ::
    "(codec_error \<Rightarrow> string) \<Rightarrow> (int \<Rightarrow> string) \<Rightarrow> db option \<Rightarrow> string option \<Rightarrow> string option \<Rightarrow> api_reply" where
  "nullifier_status_route texts show_time snap denom_id nullifier =
     (case (truthy denom_id, truthy nullifier) of
        (Some ds, Some ns) \<Rightarrow>
          (case bindE (denom_param ds) (\<lambda>d. bindE (hash_param texts ''invalid_nullifier_hash'' ns) (\<lambda>buf. Inr (d, buf))) of
             Inl r \<Rightarrow> r
           | Inr (d, buf) \<Rightarrow>
               (case snap of
                  None \<Rightarrow> internal_error
                | Some s \<Rightarrow>
                    (case List.find (\<lambda>r. nullifier_key r = (d, buf)) (db_nullifiers s) of
                       None \<Rightarrow> \<lparr>ar_status = 200, ar_cache = None, ar_body = JObj [(''spent'', JBool False)]\<rparr>
                     | Some r \<Rightarrow> \<lparr>ar_status = 200, ar_cache = None, ar_body = JObj [(''spent'', JBool True),
                         (''spentAtSlot'', JStr (int_str 10 (nlr_spent_at_slot r))), (''spentAt'', JStr (show_time (nlr_spent_at r)))]\<rparr>)))
      | _ \<Rightarrow> api_error 400 ''missing_param'' [(''required'', required [''denomId'', ''nullifierHash''])])"

text \<open>\<open>DISTINCT ON (denom_id) ... ORDER BY denom_id ASC, leaf_count DESC\<close>: the root of the longest tree.\<close>

definition latest_root :: "int \<Rightarrow> db \<Rightarrow> root_row option" where
  "latest_root d s = (case sort_key (\<lambda>r. - rr_leaf_count r) (filter (\<lambda>r. rr_denom_id r = d) (db_roots s)) of
     [] \<Rightarrow> None | r # _ \<Rightarrow> Some r)"

definition denomination_json :: "(int \<Rightarrow> string) \<Rightarrow> db \<Rightarrow> denomination_row \<Rightarrow> json" where
  "denomination_json show_time s r =
     (let latest = latest_root (dr_denom_id r) s in
      JObj [(''denomId'', js_num (dr_denom_id r)), (''amountMicroUsdc'', JStr (int_str 10 (dr_amount_micro_usdc r))),
        (''depositCount'', JStr (int_str 10 (dr_deposit_count r))), (''vaultAddress'', JStr (dr_vault_address r)),
        (''lastSeenSlot'', JStr (int_str 10 (dr_last_seen_slot r))),
        (''currentRoot'', case latest of None \<Rightarrow> JNull | Some l \<Rightarrow> JStr (''0x'' @ buffer_to_hex (rr_root_be l))),
        (''leafCount'', JStr (case latest of None \<Rightarrow> ''0'' | Some l \<Rightarrow> int_str 10 (rr_leaf_count l))),
        (''updatedAt'', JStr (show_time (dr_updated_at r)))])"

text \<open>The two queries read \<open>snap 0\<close> and \<open>snap 1\<close>.\<close>

definition denominations_route :: "(int \<Rightarrow> string) \<Rightarrow> (nat \<Rightarrow> db option) \<Rightarrow> api_reply" where
  "denominations_route show_time snap =
     (let ok = (\<lambda>items. \<lparr>ar_status = 200, ar_cache = None, ar_body = JObj [(''denominations'', JArr items)]\<rparr>) in
      case snap 0 of
        None \<Rightarrow> internal_error
      | Some s0 \<Rightarrow>
          let rows = sort_key dr_denom_id (db_denominations s0) in
          if rows = [] then ok []
          else (case snap 1 of
                  None \<Rightarrow> internal_error
                | Some s1 \<Rightarrow> ok (map (denomination_json show_time s1) rows)))"

section \<open>indexer-client.ts\<close>

text \<open>\<open>URLSearchParams.toString\<close>: the characters a form value keeps, the space, and the rest as \<open>%XX\<close>.\<close>

definition to_upper :: "char \<Rightarrow> char" where
  "to_upper c = (if 97 \<le> char_code c \<and> char_code c \<le> 122 then char_of (char_code c - 32) else c)"

definition form_char :: "char \<Rightarrow> string" where
  "form_char c =
     (if is_digit 36 c \<or> c \<in> set ''*-._'' then [c]
      else if c = CHR '' '' then ''+''
      else ''%'' @ map to_upper (hexpad 2 (char_code c)))"

definition form_encode :: "(string \<times> string) list \<Rightarrow> string" where
  "form_encode ps = join ''&'' (map (\<lambda>(k, v). concat (map form_char k) @ ''='' @ concat (map form_char v)) ps)"

record http_reply =
  hr_status :: nat
  hr_status_text :: string
  hr_text :: "string option"

datatype client_error = NetworkFailed string | IndexerStatus nat string | NotJson | UnexpectedShape

text \<open>\<open>fetch\<close> is \<open>None\<close> where it rejects; a body that cannot be read is \<open>hr_text = None\<close>.\<close>

definition get_json :: "string \<Rightarrow> (string \<Rightarrow> http_reply option) \<Rightarrow> string \<Rightarrow> client_error + json" where
  "get_json base fetch path =
     (case fetch (base @ path) of
        None \<Rightarrow> Inl (NetworkFailed path)
      | Some res \<Rightarrow>
          if \<not> (200 \<le> hr_status res \<and> hr_status res < 300)
          then Inl (IndexerStatus (hr_status res) (default_to (hr_status_text res) (truthy (hr_text res))))
          else optE NotJson (Option.bind (hr_text res) json_parse))"

definition client_denominations :: "string \<Rightarrow> (string \<Rightarrow> http_reply option) \<Rightarrow> client_error + json" where
  "client_denominations base fetch =
     bindE (get_json base fetch ''/denominations'') (\<lambda>j. optE UnexpectedShape (json_get ''denominations'' j))"

definition client_merkle_proof ::
    "string \<Rightarrow> (string \<Rightarrow> http_reply option) \<Rightarrow> int \<Rightarrow> string \<Rightarrow> client_error + json" where
  "client_merkle_proof base fetch d commitment_hex =
     get_json base fetch (''/merkle-proof?'' @ form_encode [(''denomId'', int_str 10 d), (''commitment'', commitment_hex)])"

definition client_nullifier_status ::
    "string \<Rightarrow> (string \<Rightarrow> http_reply option) \<Rightarrow> int \<Rightarrow> string \<Rightarrow> client_error + json" where
  "client_nullifier_status base fetch d nullifier_hex =
     get_json base fetch (''/nullifier-status?'' @ form_encode [(''denomId'', int_str 10 d), (''nullifierHash'', nullifier_hex)])"

text \<open>The fields the wallet reads of a proof reply.\<close>

definition json_text :: "json option \<Rightarrow> string option" where
  "json_text j = (case j of Some (JStr s) \<Rightarrow> Some s | _ \<Rightarrow> None)"

definition json_integer :: "json \<Rightarrow> int option" where
  "json_integer j = (case j of JNum s \<Rightarrow> parse_bigint s | _ \<Rightarrow> None)"

definition read_proof :: "json \<Rightarrow> merkle_proof_response option" where
  "read_proof j =
     (case (json_text (json_get ''root'' j), json_get ''pathElements'' j, json_get ''pathIndices'' j) of
        (Some root, Some (JArr els), Some (JArr idxs)) \<Rightarrow>
          (case (all_some (map (\<lambda>x. json_text (Some x)) els), all_some (map json_integer idxs)) of
             (Some es, Some ns) \<Rightarrow> Some \<lparr>mr_root = root, mr_path_elements = es, mr_path_indices = ns\<rparr>
           | _ \<Rightarrow> None)
      | _ \<Rightarrow> None)"

section \<open>The proof route serves the SDK's inclusion proofs\<close>

definition tree_of :: "(int \<Rightarrow> int \<Rightarrow> int) \<Rightarrow> int list \<Rightarrow> poseidon_merkle_tree" where
  "tree_of H xs = (merkle_new H 20)\<lparr>mt_leaves := xs\<rparr>"

lemma tree_of_simps [simp]:
  "mt_leaves (tree_of H xs) = xs" "mt_depth (tree_of H xs) = 20" "merkle_wf H (tree_of H xs)"
  by (simp_all add: tree_of_def merkle_new_def merkle_wf_def)

text \<open>
  A snapshot that has indexed the first \<open>n\<close> of the leaves \<open>xs\<close>, and stored roots of that tree only.
\<close>

definition indexed :: "(int \<Rightarrow> int \<Rightarrow> int) \<Rightarrow> int \<Rightarrow> int list \<Rightarrow> nat \<Rightarrow> db \<Rightarrow> bool" where
  "indexed H d xs n s \<longleftrightarrow> n \<le> length xs \<and> stored_leaves d s = numbered (map fe_bytes (take n xs))
     \<and> (\<forall>r \<in> set (db_roots s). rr_denom_id r = d \<longrightarrow> (\<exists>k \<le> length xs. rr_leaf_count r = int k
          \<and> rr_root_be r = fe_bytes (merkle_root H (tree_of H (take k xs)))))"

lemma be_to_bigint_val: "be_to_bigint b = be_val b"
  by (simp add: be_to_bigint_def be_val_def be_step_eq)

lemma map_cong_numbered:
  assumes "map (\<lambda>r. (f r, g r)) rows = numbered cs"
  shows "map f rows = map int [0..<length cs]" "map g rows = cs" "length rows = length cs"
proof -
  show l: "length rows = length cs" using arg_cong [OF assms, of length] by (simp add: numbered_def)
  have "map f rows = map fst (numbered cs)" "map g rows = map snd (numbered cs)" using assms [symmetric] by simp_all
  then show "map f rows = map int [0..<length cs]" "map g rows = cs" by (simp_all add: numbered_def)
qed

lemma indexed_rows:
  assumes "indexed H d xs n s"
  shows "length (leaf_rows d s) = n"
    and "map cr_leaf_index (leaf_rows d s) = map int [0..<n]"
    and "map cr_commitment_be (leaf_rows d s) = map fe_bytes (take n xs)"
  using map_cong_numbered [OF assms [unfolded indexed_def stored_leaves_def, THEN conjunct2, THEN conjunct1]] assms
  by (simp_all add: indexed_def)

lemma ordered_leaves_indexed:
  assumes "indexed H d xs n s"
  shows "ordered_leaves d s = leaf_rows d s"
proof -
  have "sorted (map cr_leaf_index (leaf_rows d s))"
    unfolding indexed_rows(2) [OF assms] by (auto simp: sorted_iff_nth_mono)
  then show ?thesis unfolding ordered_leaves_def by (rule sort_key_id_if_sorted)
qed

lemma first_gap_indexed:
  assumes "indexed H d xs n s"
  shows "first_gap (ordered_leaves d s) = None"
proof -
  have "cr_leaf_index (leaf_rows d s ! i) = int i" if "i < n" for i
    using arg_cong [OF indexed_rows(2) [OF assms], of "\<lambda>l. l ! i"] indexed_rows(1) [OF assms] that by simp
  then show ?thesis
    by (simp add: first_gap_def ordered_leaves_indexed [OF assms] indexed_rows(1) [OF assms] find_None_iff)
qed

lemma field_list_val:
  assumes "\<forall>x \<in> set xs. is_field x"
  shows "map (\<lambda>b. int (be_to_bigint b)) (map fe_bytes xs) = xs"
  using assms by (induction xs) (simp_all add: be_to_bigint_val be_val_fe_bytes)

lemma leaves_indexed:
  assumes "indexed H d xs n s" "\<forall>x \<in> set xs. is_field x"
  shows "map (\<lambda>r. int (be_to_bigint (cr_commitment_be r))) (ordered_leaves d s) = take n xs"
proof -
  have "map (\<lambda>r. int (be_to_bigint (cr_commitment_be r))) (leaf_rows d s)
      = map (\<lambda>b. int (be_to_bigint b)) (map cr_commitment_be (leaf_rows d s))" by simp
  also have "\<dots> = take n xs"
    unfolding indexed_rows(3) [OF assms(1)] by (rule field_list_val) (use assms(2) in \<open>auto dest: in_set_takeD\<close>)
  finally show ?thesis by (simp add: ordered_leaves_indexed [OF assms(1)])
qed

lemma find_leaf_indexed:
  assumes "indexed H d xs n s" "\<forall>x \<in> set xs. is_field x" "is_field x"
  shows "find_leaf d (fe_bytes x) s = None \<longleftrightarrow> x \<notin> set (take n xs)"
    and "find_leaf d (fe_bytes x) s = Some i \<Longrightarrow> \<exists>k < n. i = int k \<and> xs ! k = x"
proof -
  have b: "cr_commitment_be (leaf_rows d s ! k) = fe_bytes (xs ! k)" "cr_leaf_index (leaf_rows d s ! k) = int k"
    if "k < n" for k
    using arg_cong [OF indexed_rows(3) [OF assms(1)], of "\<lambda>l. l ! k"]
      arg_cong [OF indexed_rows(2) [OF assms(1)], of "\<lambda>l. l ! k"]
      indexed_rows(1) [OF assms(1)] assms(1) that by (simp_all add: indexed_def)
  have n: "length (leaf_rows d s) = n" "n \<le> length xs" using indexed_rows(1) [OF assms(1)] assms(1) by (auto simp: indexed_def)
  have inj: "fe_bytes (xs ! k) = fe_bytes x \<longleftrightarrow> xs ! k = x" if "k < n" for k
    using that n assms(2,3) fe_bytes_inject [of "xs ! k" x] by auto
  show "find_leaf d (fe_bytes x) s = None \<longleftrightarrow> x \<notin> set (take n xs)"
    using b inj n by (fastforce simp: find_leaf_def find_None_iff in_set_conv_nth)
  show "\<exists>k < n. i = int k \<and> xs ! k = x" if "find_leaf d (fe_bytes x) s = Some i"
    using that b inj n by (fastforce simp: find_leaf_def find_Some_iff)
qed

text \<open>The proof of one leaf and the reply that carries it.\<close>

definition reply_for :: "(int \<Rightarrow> int \<Rightarrow> int) \<Rightarrow> int \<Rightarrow> int list \<Rightarrow> nat \<Rightarrow> merkle_inclusion_proof \<Rightarrow> json" where
  "reply_for H d xs i ip = proof_json d (int i) (int (length xs)) (hex_be32 (ip_root ip)) (map hex_be32 (ip_elements ip)) (ip_indices ip)"

lemma hex_or_throw_field: "0 \<le> x \<Longrightarrow> x < fr \<Longrightarrow> hex_or_throw x = Inr (hex_be32 x)"
proof -
  assume x: "0 \<le> x" "x < fr"
  have "nat x < 256 ^ 32" using x bn254_fr_256 by (simp add: fr_def nat_less_iff)
  from bigint_to_hex_be32_inr(1) [OF this] x(1) show ?thesis by (simp add: hex_or_throw_def hex_be32_def)
qed

lemma map_res_hex:
  "\<forall>x \<in> set xs. 0 \<le> x \<and> x < fr \<Longrightarrow> map_res hex_or_throw xs = Inr (map hex_be32 xs)"
  unfolding map_res_def
  by (induction xs rule: rev_induct) (simp_all add: foldE_append hex_or_throw_field)

text \<open>\<open>H\<close> is a hash on field elements and \<open>xs\<close> are leaves a tree of depth 20 can hold.\<close>

definition field_tree :: "(int \<Rightarrow> int \<Rightarrow> int) \<Rightarrow> int list \<Rightarrow> bool" where
  "field_tree H xs \<longleftrightarrow> (\<forall>l r. is_field (H l r)) \<and> (\<forall>x \<in> set xs. is_field x) \<and> length xs \<le> 2 ^ 20"

lemma is_field_fr: "is_field x \<longleftrightarrow> 0 \<le> x \<and> x < fr"
  by (simp add: is_field_def fr_def)

lemma tree_proof:
  assumes "field_tree H xs" "n \<le> length xs" "i < n"
  obtains ip where "merkle_proof H (tree_of H (take n xs)) (int i) = Inr ip"
    "build_inclusion_path H (take n xs) (int i) = Inr ip" "ip_root ip = merkle_root H (tree_of H (take n xs))"
    "\<forall>x \<in> set (ip_elements ip). 0 \<le> x \<and> x < fr" "0 \<le> ip_root ip" "ip_root ip < fr"
proof -
  let ?t = "tree_of H (take n xs)"
  have n20: "length (take n xs) \<le> 2 ^ 20" using assms by (simp add: field_tree_def)
  then have n31: "length (mt_leaves ?t) \<le> 2 ^ 31" by simp
  have i: "i < length (mt_leaves ?t)" using assms by simp
  obtain ip where ip: "merkle_proof H ?t (int i) = Inr ip"
    using merkle_proof_inr [OF tree_of_simps(3) i n31] by simp
  moreover have "build_inclusion_path H (take n xs) (int i) = Inr ip"
    using ip build_inclusion_path_inr [of i "take n xs" H] merkle_proof_inr [OF tree_of_simps(3) i n31] i n31
    by (simp add: merkle_root_node api_depth_def)
  moreover have "(\<forall>x \<in> set (ip_elements ip). 0 \<le> x \<and> x < fr) \<and> 0 \<le> ip_root ip \<and> ip_root ip < fr
      \<and> ip_root ip = merkle_root H ?t"
    by (rule proof_fields [OF _ _ tree_of_simps(3) i n31 ip])
      (use assms(1) in \<open>auto simp: field_tree_def is_field_fr dest: in_set_takeD\<close>)
  ultimately show thesis using that by blast
qed

lemma build_proof_ok:
  assumes "field_tree H xs" "ae_hash env = H" "i < n2" "n2 \<le> n3"
    and s2: "ae_snap env 2 = Some s2" "indexed H d xs n2 s2"
    and s3: "ae_snap env 3 = Some s3" "indexed H d xs n3 s3"
    and ip: "merkle_proof H (tree_of H (take n2 xs)) (int i) = Inr ip"
  shows "build_proof env d (int i) = Inr (int n2, reply_for H d (take n2 xs) i ip)"
proof -
  have n2: "n2 \<le> length xs" using s2(2) by (simp add: indexed_def)
  have f: "\<forall>x \<in> set xs. is_field x" using assms(1) by (simp add: field_tree_def)
  obtain ip' where "merkle_proof H (tree_of H (take n2 xs)) (int i) = Inr ip'"
    and p': "build_inclusion_path H (take n2 xs) (int i) = Inr ip'" "ip_root ip' = merkle_root H (tree_of H (take n2 xs))"
    "\<forall>x \<in> set (ip_elements ip'). 0 \<le> x \<and> x < fr" "0 \<le> ip_root ip'" "ip_root ip' < fr"
    by (rule tree_proof [OF assms(1) n2 assms(3)])
  with ip have p: "build_inclusion_path H (take n2 xs) (int i) = Inr ip" "ip_root ip = merkle_root H (tree_of H (take n2 xs))"
    "\<forall>x \<in> set (ip_elements ip). 0 \<le> x \<and> x < fr" "0 \<le> ip_root ip" "ip_root ip < fr" by auto
  have root: "int (be_to_bigint b) = ip_root ip" if st: "stored_root d (int n2) s3 = Some b" for b
  proof -
    obtain r where r: "List.find (\<lambda>r. root_key r = (d, int n2)) (db_roots s3) = Some r" "b = rr_root_be r"
      using st by (auto simp: stored_root_def)
    have "r \<in> set (db_roots s3)" "rr_denom_id r = d" "rr_leaf_count r = int n2"
      using r(1) by (auto simp: find_Some_iff root_key_def)
    then have "b = fe_bytes (ip_root ip)" using s3(2) r(2) by (fastforce simp: indexed_def p(2))
    then show ?thesis using p(4,5) by (simp add: be_to_bigint_val be_val_fe_bytes is_field_fr)
  qed
  have len: "length (ordered_leaves d s2) = n2"
    by (simp add: ordered_leaves_indexed [OF s2(2)] indexed_rows(1) [OF s2(2)])
  note render = hex_or_throw_field [OF p(4,5)] map_res_hex [OF p(3)]
  show ?thesis
    by (cases "stored_root d (int n2) s3")
      (simp_all add: build_proof_def Let_def leaves_indexed [OF s2(2) f] first_gap_indexed [OF s2(2)] s2(1) s3(1)
        assms(2) p(1) len render root reply_for_def min_absorb2 [OF n2])
qed

lemma build_proof_cases:
  assumes "field_tree H xs" "ae_hash env = H" "i < n2" "n2 \<le> n3"
    and s2: "\<And>s. ae_snap env 2 = Some s \<Longrightarrow> indexed H d xs n2 s"
    and s3: "\<And>s. ae_snap env 3 = Some s \<Longrightarrow> indexed H d xs n3 s"
  shows "(\<exists>ip. n2 \<le> length xs \<and> merkle_proof H (tree_of H (take n2 xs)) (int i) = Inr ip
      \<and> build_proof env d (int i) = Inr (int n2, reply_for H d (take n2 xs) i ip))
    \<or> build_proof env d (int i) = Inl internal_error \<and> (ae_snap env 2 = None \<or> ae_snap env 3 = None)"
proof (cases "ae_snap env 2")
  case None
  then show ?thesis by (simp add: build_proof_def)
next
  case (Some t2)
  note t2 = Some s2 [OF Some]
  have n2: "n2 \<le> length xs" using t2(2) by (simp add: indexed_def)
  have f: "\<forall>x \<in> set xs. is_field x" using assms(1) by (simp add: field_tree_def)
  obtain ip where ip: "merkle_proof H (tree_of H (take n2 xs)) (int i) = Inr ip"
    "build_inclusion_path H (take n2 xs) (int i) = Inr ip"
    by (rule tree_proof [OF assms(1) n2 assms(3)])
  show ?thesis
  proof (cases "ae_snap env 3")
    case None
    then show ?thesis
      using t2 ip assms(2)
      by (simp add: build_proof_def Let_def leaves_indexed [OF t2(2) f] first_gap_indexed [OF t2(2)])
  next
    case (Some t3)
    show ?thesis
      using build_proof_ok [OF assms(1-4) t2 Some s3 [OF Some] ip(1)] ip(1) n2 by blast
  qed
qed

section \<open>The cache\<close>

lemma digit_not_colon: "\<not> is_digit 10 CHR '':''"
  by (simp add: is_digit_def digit_of_def char_code_def)

lemma cache_key_inject:
  assumes "0 \<le> d" "0 \<le> d'"
  shows "cache_key d b = cache_key d' b' \<longleftrightarrow> d = d' \<and> b = b'"
proof
  have tw: "takeWhile (\<lambda>c. c \<noteq> CHR '':'') (cache_key z v) = int_str 10 z"
    "drop (Suc (length (int_str 10 z))) (cache_key z v) = buffer_to_hex v" if "0 \<le> z" for z v
  proof -
    have "\<forall>c \<in> set (int_str 10 z). c \<noteq> CHR '':''"
      using nat_str_digits [of 10 "nat z"] digit_not_colon \<open>0 \<le> z\<close> by (auto simp: int_str_def list_all_iff)
    then show "takeWhile (\<lambda>c. c \<noteq> CHR '':'') (cache_key z v) = int_str 10 z"
      by (simp add: cache_key_def takeWhile_append2)
  qed (simp add: cache_key_def)
  assume e: "cache_key d b = cache_key d' b'"
  have s: "int_str 10 d = int_str 10 d'" using tw(1) [OF assms(1), of b] tw(1) [OF assms(2), of b'] e by simp
  then have "buffer_to_hex b = buffer_to_hex b'" using tw(2) [OF assms(1), of b] tw(2) [OF assms(2), of b'] e by simp
  then have "b = b'" by (metis buffer_hex_roundtrip)
  moreover have "d = d'" using s by (metis parse_bigint_int_str option.inject)
  ultimately show "d = d' \<and> b = b'" by simp
qed simp

text \<open>
  The reply body serves leaf \<open>x\<close> of denomination \<open>d\<close> from the tree of its first \<open>n\<close> leaves; an entry of the
  cache holds such a body under the leaf's key; and every query of a request reads a state the poller
  passes through, one not before the other, unless it fails.
\<close>

definition serves_leaf :: "(int \<Rightarrow> int \<Rightarrow> int) \<Rightarrow> (int \<Rightarrow> int list) \<Rightarrow> int \<Rightarrow> int \<Rightarrow> nat \<Rightarrow> json \<Rightarrow> bool" where
  "serves_leaf H L d x n body \<longleftrightarrow> (\<exists>i ip. i < n \<and> n \<le> length (L d) \<and> L d ! i = x
     \<and> merkle_proof H (tree_of H (take n (L d))) (int i) = Inr ip \<and> body = reply_for H d (take n (L d)) i ip)"

definition cache_ok :: "(int \<Rightarrow> int \<Rightarrow> int) \<Rightarrow> (int \<Rightarrow> int list) \<Rightarrow> proof_cache \<Rightarrow> bool" where
  "cache_ok H L cache \<longleftrightarrow> (\<forall>d x e. 0 \<le> d \<longrightarrow> is_field x \<longrightarrow> cache (cache_key d (fe_bytes x)) = Some e \<longrightarrow>
     (\<exists>n. cp_leaf_count e = int n \<and> serves_leaf H L d x n (cp_body e)))"

definition reads_growing :: "(int \<Rightarrow> int \<Rightarrow> int) \<Rightarrow> (int \<Rightarrow> int list) \<Rightarrow> (nat \<Rightarrow> int \<Rightarrow> nat) \<Rightarrow> api_env \<Rightarrow> bool" where
  "reads_growing H L c env \<longleftrightarrow> ae_hash env = H
     \<and> (\<forall>d. c 0 d \<le> c 1 d \<and> c 1 d \<le> c 2 d \<and> c 2 d \<le> c 3 d \<and> c 3 d \<le> length (L d))
     \<and> (\<forall>k s d. ae_snap env k = Some s \<longrightarrow> indexed H d (L d) (c k d) s)"

lemma reads_growingD:
  assumes "reads_growing H L c env"
  shows "ae_hash env = H" "c 0 d \<le> c 1 d" "c 1 d \<le> c 2 d" "c 2 d \<le> c 3 d" "c 3 d \<le> length (L d)"
    and "ae_snap env k = Some s \<Longrightarrow> indexed H d (L d) (c k d) s"
  using assms by (auto simp: reads_growing_def)

definition query_failed :: "api_env \<Rightarrow> bool" where
  "query_failed env \<longleftrightarrow> (\<exists>k < 4. ae_snap env k = None)"

lemma query_failedI: "ae_snap env k = None \<Longrightarrow> k < 4 \<Longrightarrow> query_failed env"
  by (auto simp: query_failed_def)

lemma proof_miss_cases:
  assumes "\<And>d. field_tree H (L d)" "reads_growing H L c env" "is_field x" "proof_miss env d (fe_bytes x) = (r, w)"
  obtains (failed) "r = internal_error" "w = None" "query_failed env"
    | (unknown) "r = api_error 404 ''commitment_not_found'' []" "w = None" "x \<notin> set (take (c 1 d) (L d))"
    | (served) body where "r = \<lparr>ar_status = 200, ar_cache = Some ''MISS'', ar_body = body\<rparr>"
        "serves_leaf H L d x (c 2 d) body"
        "w = Some (cache_key d (fe_bytes x), \<lparr>cp_leaf_count = int (c 2 d),
           cp_expires = ae_write env + proof_cache_ttl_ms, cp_body = body\<rparr>)"
proof (cases "ae_snap env 1")
  case None
  have "query_failed env" using None by (rule query_failedI) simp
  then show ?thesis using failed None assms(4) by (simp add: proof_miss_def)
next
  case (Some s1)
  note g = reads_growingD [OF assms(2)]
  have f: "\<forall>x \<in> set (L d). is_field x" using assms(1) [of d] by (simp add: field_tree_def)
  note find = find_leaf_indexed [OF g(6) [OF Some] f assms(3)]
  show ?thesis
  proof (cases "find_leaf d (fe_bytes x) s1")
    case None
    then show ?thesis using unknown find(1) Some assms(4) by (simp add: proof_miss_def)
  next
    case found: (Some j)
    obtain i where i: "i < c 1 d" "j = int i" "L d ! i = x" using find(2) [OF found] by blast
    have i2: "i < c 2 d" using i(1) g(3) by (rule less_le_trans)
    have "(\<exists>ip. c 2 d \<le> length (L d) \<and> merkle_proof H (tree_of H (take (c 2 d) (L d))) (int i) = Inr ip
        \<and> build_proof env d (int i) = Inr (int (c 2 d), reply_for H d (take (c 2 d) (L d)) i ip))
      \<or> build_proof env d (int i) = Inl internal_error \<and> (ae_snap env 2 = None \<or> ae_snap env 3 = None)"
      by (rule build_proof_cases [OF assms(1) g(1) i2 g(4) g(6) g(6)])
    then show ?thesis
    proof (elim disjE exE conjE)
      fix ip
      assume ip: "c 2 d \<le> length (L d)" "merkle_proof H (tree_of H (take (c 2 d) (L d))) (int i) = Inr ip"
        "build_proof env d (int i) = Inr (int (c 2 d), reply_for H d (take (c 2 d) (L d)) i ip)"
      have sl: "serves_leaf H L d x (c 2 d) (reply_for H d (take (c 2 d) (L d)) i ip)"
        unfolding serves_leaf_def using ip(1,2) i2 i(3) by blast
      show ?thesis by (rule served [OF _ sl]) (use Some found i(2) ip(3) assms(4) in \<open>auto simp: proof_miss_def\<close>)
    next
      assume b: "build_proof env d (int i) = Inl internal_error" "ae_snap env 2 = None"
      have "query_failed env" using b(2) by (rule query_failedI) simp
      then show ?thesis using failed Some found i(2) b(1) assms(4) by (simp add: proof_miss_def)
    next
      assume b: "build_proof env d (int i) = Inl internal_error" "ae_snap env 3 = None"
      have "query_failed env" using b(2) by (rule query_failedI) simp
      then show ?thesis using failed Some found i(2) b(1) assms(4) by (simp add: proof_miss_def)
    qed
  qed
qed

lemma proof_request_Inr:
  assumes "proof_request env denom_id commitment = Inr (d, buf)"
  obtains x where "is_field x" "buf = fe_bytes x" "0 \<le> d"
proof -
  obtain cs where cs: "parse_commitment_param cs = Inr buf" and d: "0 \<le> d"
    using assms by (auto simp: proof_request_def denom_param_def hash_param_def bindE_Inr_iff split: option.splits if_splits sum.splits)
  note b = parse_commitment_param_sound [OF cs]
  have "is_field (int (be_val buf))" "buf = fe_bytes (int (be_val buf))"
    using b be_bytes_be_val [of buf] by (simp_all add: is_field_def fe_bytes_def)
  then show thesis using that d by blast
qed

lemma route_cases:
  assumes "\<And>d. field_tree H (L d)" "reads_growing H L c env" "cache_ok H L cache"
    and "proof_request env denom_id commitment = Inr (d, fe_bytes x)" "is_field x" "0 \<le> d"
    and "merkle_proof_route env denom_id commitment cache = (r, w)"
  obtains (failed) "r = internal_error" "w = None" "query_failed env"
    | (unknown) "r = api_error 404 ''commitment_not_found'' []" "w = None" "x \<notin> set (take (c 1 d) (L d))"
    | (served) body n where "ar_status r = 200" "ar_body r = body" "serves_leaf H L d x n body" "n \<in> {c 0 d, c 2 d}"
        "w = None \<or> (\<exists>e. w = Some (cache_key d (fe_bytes x), e) \<and> cp_leaf_count e = int n \<and> cp_body e = body)"
proof (cases "ae_snap env 0")
  case None
  have "query_failed env" using None by (rule query_failedI) simp
  then show ?thesis using failed None assms(4,7) by (simp add: merkle_proof_route_def)
next
  case (Some s0)
  note g = reads_growingD [OF assms(2)]
  have miss: thesis if "proof_miss env d (fe_bytes x) = (r, w)"
    by (rule proof_miss_cases [OF assms(1,2,5) that]) (auto intro: failed unknown served)
  have n: "length (leaf_rows d s0) = c 0 d" by (rule indexed_rows(1) [OF g(6) [OF Some]])
  show ?thesis
  proof (cases "\<exists>e. cache (cache_key d (fe_bytes x)) = Some e \<and> cp_leaf_count e = int (c 0 d) \<and> cp_expires e > ae_read env")
    case True
    then obtain e where e: "cache (cache_key d (fe_bytes x)) = Some e" "cp_leaf_count e = int (c 0 d)" "cp_expires e > ae_read env"
      by blast
    obtain m where "cp_leaf_count e = int m" "serves_leaf H L d x m (cp_body e)"
      using assms(3,5,6) e(1) unfolding cache_ok_def by blast
    then have sl: "serves_leaf H L d x (c 0 d) (cp_body e)" using e(2) by simp
    show ?thesis
      by (rule served [OF _ _ sl]) (use e Some n assms(4,7) in \<open>auto simp: merkle_proof_route_def\<close>)
  next
    case False
    then have "proof_miss env d (fe_bytes x) = (r, w)"
      using Some n assms(4,7) by (auto simp: merkle_proof_route_def split: option.splits if_splits)
    then show ?thesis by (rule miss)
  qed
qed

lemma cache_ok_store:
  assumes "cache_ok H L cache" "0 \<le> d" "is_field x" "cp_leaf_count e = int n" "serves_leaf H L d x n (cp_body e)"
  shows "cache_ok H L (cache(cache_key d (fe_bytes x) \<mapsto> e))"
  unfolding cache_ok_def
proof (intro allI impI)
  fix d' y e'
  assume y: "0 \<le> d'" "is_field y" "(cache(cache_key d (fe_bytes x) \<mapsto> e)) (cache_key d' (fe_bytes y)) = Some e'"
  show "\<exists>n. cp_leaf_count e' = int n \<and> serves_leaf H L d' y n (cp_body e')"
  proof (cases "d' = d \<and> y = x")
    case True
    then show ?thesis using y(3) assms(4,5) by auto
  next
    case False
    then have "cache (cache_key d' (fe_bytes y)) = Some e'"
      using y(3) fe_bytes_inject [OF y(2) assms(3)] by (auto simp: cache_key_inject [OF y(1) assms(2)] split: if_splits)
    then show ?thesis using assms(1) y(1,2) by (simp add: cache_ok_def)
  qed
qed

lemma proof_caches_ok:
  assumes "\<And>d. field_tree H (L d)" "proof_caches (\<lambda>env. \<exists>c. reads_growing H L c env) cache"
  shows "cache_ok H L cache"
  using assms(2)
proof (induction rule: proof_caches.induct)
  case fresh
  then show ?case by (simp add: cache_ok_def)
next
  case (stored earlier now env denom_id commitment r k e)
  obtain c where c: "reads_growing H L c env" using stored.hyps(3) by blast
  obtain d buf where q: "proof_request env denom_id commitment = Inr (d, buf)"
    using stored.hyps(4) by (auto simp: merkle_proof_route_def split: sum.splits)
  obtain x where x: "is_field x" "buf = fe_bytes x" "0 \<le> d" by (rule proof_request_Inr [OF q])
  show ?case
    by (rule route_cases [OF assms(1) c stored.IH(1) q [unfolded x(2)] x(1,3) stored.hyps(4)])
      (auto intro: cache_ok_store [OF stored.IH(2) x(3,1)] simp del: fun_upd_apply)
qed

section \<open>What the client makes of the replies\<close>

text \<open>The reply on the wire: Fastify prints the body as JSON.\<close>

definition http_of :: "api_reply \<Rightarrow> http_reply" where
  "http_of r = \<lparr>hr_status = ar_status r, hr_status_text = [], hr_text = Some (json_print (ar_body r))\<rparr>"

lemma all_some_map: "(\<And>x. x \<in> set xs \<Longrightarrow> f x = Some (g x)) \<Longrightarrow> all_some (map f xs) = Some (map g xs)"
  by (induction xs) simp_all

lemma get_json_ok:
  assumes "fetch (base @ path) = Some (http_of r)" "ar_status r = 200" "json_ok (ar_body r)"
  shows "get_json base fetch path = Inr (ar_body r)"
  using assms by (simp add: get_json_def http_of_def json_roundtrip)

lemma reply_for_json: "json_ok (reply_for H d xs i ip)"
  by (simp add: reply_for_def proof_json_def js_num_def json_number_int_str list_all_iff)

lemma read_proof_reply: "read_proof (reply_for H d xs i ip) = Some (path_response ip)"
proof -
  have "all_some (map (\<lambda>x. json_text (Some x)) (map JStr ss)) = Some ss" for ss
    using all_some_map [of ss "\<lambda>s. json_text (Some (JStr s))" "\<lambda>s. s"] by (simp add: json_text_def comp_def)
  moreover have "all_some (map json_integer (map js_num ns)) = Some ns" for ns
    using all_some_map [of ns "\<lambda>n. json_integer (js_num n)" "\<lambda>n. n"] by (simp add: json_integer_def js_num_def comp_def)
  ultimately show ?thesis
    by (simp add: read_proof_def reply_for_def proof_json_def json_get_def json_text_def path_response_def del: map_map)
qed

lemma parse_int10_nat: "0 \<le> d \<Longrightarrow> parse_int10 (int_str 10 d) = Some d"
proof -
  assume d: "0 \<le> d"
  let ?s = "nat_str 10 (nat d)"
  have dg: "list_all (is_digit 10) ?s" by (simp add: nat_str_digits)
  then obtain c cs where s: "?s = c # cs" "is_digit 10 c" by (cases ?s) (simp_all add: nat_str_nonempty)
  have "js_trim_start ?s = ?s" "hd ?s \<noteq> CHR ''-''" "hd ?s \<noteq> CHR ''+''"
    using s is_digit_not_space [OF s(2)] is_digit_not_sign [OF s(2)] by (auto simp: js_trim_start_def)
  moreover have tw: "takeWhile (is_digit 10) ?s = ?s" using dg by (simp add: takeWhile_eq_all_conv list_all_iff)
  ultimately show ?thesis using d by (simp add: parse_int10_def int_str_def Let_def digits_val_nat_str tw)
qed

lemma int_str_nonempty: "int_str 10 d \<noteq> []"
  by (simp add: int_str_def)

lemma proof_request_ok:
  assumes "0 \<le> d" "d \<le> 255" "is_field x"
  shows "proof_request env (Some (int_str 10 d)) (Some (hex_be32 x)) = Inr (d, fe_bytes x)"
proof -
  have "nat x < bn254_fr" using assms(3) by (simp add: is_field_def nat_less_iff)
  from parse_commitment_param_hex [OF this] have "parse_commitment_param (hex_be32 x) = Inr (fe_bytes x)"
    using buffer_to_hex_be_bytes [of 32 "nat x"] by (simp add: hex_be32_def fe_bytes_def)
  then show ?thesis
    using assms(1,2) by (simp add: proof_request_def truthy_def denom_param_def hash_param_def parse_int10_nat hex_be32_def int_str_nonempty)
qed

text \<open>
  C11. The path the wallet gets is the path of its leaf: the client asks for the proof of the leaf \<open>x\<close>
  of a denomination while the poller goes on appending rows, and the API answers from any cache that
  earlier, overlapping requests may have left. If \<open>x\<close> was stored when the request began and no query
  fails, the wallet reads the SDK's own inclusion proof of \<open>x\<close> in a tree of the chain's first leaves,
  at least as long as the stored one was then. A leaf the chain does not have is a 404.
\<close>

theorem wallet_reads_inclusion_proof:
  assumes "\<And>d. field_tree H (L d)" "proof_caches (\<lambda>env. \<exists>c. reads_growing H L c env) cache"
    and "reads_growing H L c env" "\<not> query_failed env" "0 \<le> d" "d \<le> 255" "is_field x"
    and http: "fetch (base @ ''/merkle-proof?'' @ form_encode [(''denomId'', int_str 10 d), (''commitment'', hex_be32 x)])
       = Some (http_of (fst (merkle_proof_route env (Some (int_str 10 d)) (Some (hex_be32 x)) cache)))"
  shows "(x \<in> set (take (c 0 d) (L d)) \<longrightarrow> (\<exists>n i ip j. c 0 d \<le> n \<and> n \<le> length (L d) \<and> i < n \<and> L d ! i = x
       \<and> merkle_proof H (tree_of H (take n (L d))) (int i) = Inr ip
       \<and> client_merkle_proof base fetch d (hex_be32 x) = Inr j \<and> read_proof j = Some (path_response ip)))
     \<and> (x \<notin> set (L d) \<longrightarrow> (\<exists>text. client_merkle_proof base fetch d (hex_be32 x) = Inl (IndexerStatus 404 text)))"
proof -
  obtain r w where r: "merkle_proof_route env (Some (int_str 10 d)) (Some (hex_be32 x)) cache = (r, w)" by fastforce
  note g = reads_growingD [OF assms(3)]
  have ok: "cache_ok H L cache" by (rule proof_caches_ok [OF assms(1,2)])
  show ?thesis
  proof (rule route_cases [OF assms(1,3) ok proof_request_ok [OF assms(5-7)] assms(7,5) r])
    assume "query_failed env"
    then show ?thesis using assms(4) by blast
  next
    assume u: "r = api_error 404 ''commitment_not_found'' []" "x \<notin> set (take (c 1 d) (L d))"
    then have "x \<notin> set (take (c 0 d) (L d))" using set_take_subset_set_take [OF g(2)] by fast
    then show ?thesis
      using http u(1) r by (simp add: client_merkle_proof_def get_json_def http_of_def api_error_def)
  next
    fix body n
    assume s: "ar_status r = 200" "ar_body r = body" "serves_leaf H L d x n body" "n \<in> {c 0 d, c 2 d}"
    then obtain i ip where p: "i < n" "n \<le> length (L d)" "L d ! i = x"
      "merkle_proof H (tree_of H (take n (L d))) (int i) = Inr ip" "body = reply_for H d (take n (L d)) i ip"
      by (auto simp: serves_leaf_def)
    have "c 0 d \<le> n" using s(4) g(2) [of d] g(3) [of d] by auto
    moreover have "client_merkle_proof base fetch d (hex_be32 x) = Inr body"
      unfolding client_merkle_proof_def s(2) [symmetric]
      by (rule get_json_ok) (use http r s(1,2) p(5) in \<open>simp_all add: reply_for_json\<close>)
    moreover have "x \<in> set (L d)" using p(1-3) by (metis nth_mem less_le_trans)
    ultimately show ?thesis using p read_proof_reply by blast
  qed
qed

text \<open>A denomination with the one leaf 7, hashed by the constant 7, and a cache nobody has used.\<close>

definition demo_api_db :: db where
  "demo_api_db = empty_db\<lparr>db_commitments := [\<lparr>cr_denom_id = 1, cr_leaf_index = 0, cr_commitment_be = fe_bytes 7, cr_inserted_slot = 3\<rparr>]\<rparr>"

definition demo_api_leaves :: "int \<Rightarrow> int list" where
  "demo_api_leaves d = (if d = 1 then [7] else [])"

definition demo_api_env :: api_env where
  "demo_api_env = \<lparr>ae_hash = (\<lambda>_ _. 7), ae_texts = (\<lambda>_. []), ae_snap = (\<lambda>_. Some demo_api_db), ae_read = 5, ae_write = 6\<rparr>"

lemma demo_api_tree: "field_tree (\<lambda>_ _. 7) (demo_api_leaves d)"
  by (simp add: field_tree_def demo_api_leaves_def is_field_def bn254_fr_def)

lemma demo_api_reads: "reads_growing (\<lambda>_ _. 7) demo_api_leaves (\<lambda>_ d. if d = 1 then 1 else 0) demo_api_env"
  by (auto simp: reads_growing_def demo_api_env_def demo_api_leaves_def indexed_def demo_api_db_def empty_db_def
      stored_leaves_def leaf_rows_def numbered_def)

theorem wallet_reads_inclusion_proof_witness:
  "\<exists>n i ip j. 1 \<le> n \<and> merkle_proof (\<lambda>_ _. 7) (tree_of (\<lambda>_ _. 7) (take n [7])) (int i) = Inr ip
     \<and> client_merkle_proof ''http://x'' (\<lambda>_. Some (http_of (fst (merkle_proof_route demo_api_env (Some (int_str 10 1))
           (Some (hex_be32 7)) Map.empty)))) 1 (hex_be32 7) = Inr j
     \<and> read_proof j = Some (path_response ip)"
proof -
  have "\<not> query_failed demo_api_env" by (simp add: query_failed_def demo_api_env_def)
  moreover have "is_field 7" by (simp add: is_field_def bn254_fr_def)
  ultimately show ?thesis
    using wallet_reads_inclusion_proof [OF demo_api_tree proof_caches.fresh demo_api_reads, of 1 7
        "\<lambda>_. Some (http_of (fst (merkle_proof_route demo_api_env (Some (int_str 10 1)) (Some (hex_be32 7)) Map.empty)))"
        "''http://x''"]
    by (auto simp: demo_api_leaves_def)
qed

end
