(* ===== verification/ServiceClients.thy ===== *)
theory ServiceClients
  imports IndexerApi
begin

text \<open>
  The SDK's clients of the relayer and of the attestor: \<open>relayer-client.ts\<close> and \<open>attestor-client.ts\<close>.
  \<open>fetch\<close> is \<open>None\<close> where it rejects.
\<close>

record http_request =
  hq_post :: bool
  hq_url :: string
  hq_body :: "json option"

datatype service_error = ServiceUnreachable string | ServiceRefused nat string | RelayerRefused nat string | ServiceNotJson

definition get_request :: "string \<Rightarrow> string \<Rightarrow> http_request" where
  "get_request base path = \<lparr>hq_post = False, hq_url = base @ path, hq_body = None\<rparr>"

definition post_request :: "string \<Rightarrow> string \<Rightarrow> json \<Rightarrow> http_request" where
  "post_request base path body = \<lparr>hq_post = True, hq_url = base @ path, hq_body = Some body\<rparr>"

definition service_reply ::
    "(nat \<Rightarrow> string \<Rightarrow> service_error) \<Rightarrow> string \<Rightarrow> http_reply option \<Rightarrow> service_error + json" where
  "service_reply refused path reply =
     (case reply of
        None \<Rightarrow> Inl (ServiceUnreachable path)
      | Some r \<Rightarrow>
          if \<not> (200 \<le> hr_status r \<and> hr_status r < 300) then Inl (refused (hr_status r) (default_to [] (hr_text r)))
          else optE ServiceNotJson (Option.bind (hr_text r) json_parse))"

section \<open>relayer-client.ts\<close>

definition relayer_get :: "string \<Rightarrow> (http_request \<Rightarrow> http_reply option) \<Rightarrow> string \<Rightarrow> service_error + json" where
  "relayer_get base fetch path = service_reply ServiceRefused path (fetch (get_request base path))"

definition relayer_post :: "string \<Rightarrow> (http_request \<Rightarrow> http_reply option) \<Rightarrow> string \<Rightarrow> json \<Rightarrow> service_error + json" where
  "relayer_post base fetch path body = service_reply RelayerRefused path (fetch (post_request base path body))"

definition relayer_health :: "string \<Rightarrow> (http_request \<Rightarrow> http_reply option) \<Rightarrow> service_error + json" where
  "relayer_health url fetch = relayer_get (strip_slashes url) fetch ''/health''"

definition relayer_client_quote :: "string \<Rightarrow> (http_request \<Rightarrow> http_reply option) \<Rightarrow> service_error + json" where
  "relayer_client_quote url fetch = relayer_get (strip_slashes url) fetch ''/deposit-quote''"

definition relayer_submit_deposit :: "string \<Rightarrow> (http_request \<Rightarrow> http_reply option) \<Rightarrow> string \<Rightarrow> service_error + json" where
  "relayer_submit_deposit url fetch tx_base64 =
     relayer_post (strip_slashes url) fetch ''/submit-deposit'' (JObj [(''tx_base64'', JStr tx_base64)])"

section \<open>attestor-client.ts\<close>

definition attestor_get :: "string \<Rightarrow> (http_request \<Rightarrow> http_reply option) \<Rightarrow> string \<Rightarrow> service_error + json" where
  "attestor_get base fetch path = service_reply ServiceRefused path (fetch (get_request base path))"

definition attestor_post :: "string \<Rightarrow> (http_request \<Rightarrow> http_reply option) \<Rightarrow> string \<Rightarrow> json \<Rightarrow> service_error + json" where
  "attestor_post base fetch path body = service_reply ServiceRefused path (fetch (post_request base path body))"

definition attestor_health :: "string \<Rightarrow> (http_request \<Rightarrow> http_reply option) \<Rightarrow> service_error + json" where
  "attestor_health url fetch = attestor_get (strip_slashes url) fetch ''/health''"

definition request_attestation ::
    "string \<Rightarrow> (http_request \<Rightarrow> http_reply option) \<Rightarrow> int \<Rightarrow> string \<Rightarrow> string \<Rightarrow> service_error + json" where
  "request_attestation url fetch denom_id hash origin =
     attestor_post (strip_slashes url) fetch ''/attest''
       (JObj [(''denom_id'', js_num denom_id), (''nullifier_hash'', JStr hash), (''origin_chain'', JStr origin)])"

end
