(* ===== verification/SdkNote.thy ===== *)
theory SdkNote
  imports SdkChain Base64 Json
begin

text \<open>
  \<open>qietr-sdk/src/note.ts\<close>: the JSON text of a note and its encryption under a passphrase. Argon2id
  and AES-GCM are third-party; \<open>note_crypto\<close> holds them, and \<open>None\<close> stands for an environment without
  Web Crypto. The random salt and nonce are arguments. A string stands for its UTF-8 bytes.
\<close>

section \<open>Text\<close>

definition encrypted_magic :: string where
  "encrypted_magic = ''qietr.enc.v1:''"

datatype note_error =
    UnexpectedVersion string
  | JsonSyntax
  | InvalidPayload
  | NoWebCrypto
  | MissingMagic
  | BlobTooShort
  | WrongPassphrase
  | NoteRange

text \<open>The members in the order in which \<open>deposit\<close> and \<open>payMicroExact\<close> write them.\<close>

definition commitment_json :: "commitment \<Rightarrow> json" where
  "commitment_json c =
     JObj [(''secret'', JStr (cm_secret c)), (''nullifier'', JStr (cm_nullifier c)),
           (''amount'', JNum (int_str 10 (cm_amount c))), (''denomId'', JNum (int_str 10 (cm_denom_id c)))]"

definition note_json :: "shielded_note \<Rightarrow> json" where
  "note_json n =
     JObj [(''version'', JStr (nt_version n)), (''commitments'', JArr (map commitment_json (nt_commitments n)))]"

definition serialize_note :: "shielded_note \<Rightarrow> note_error + string" where
  "serialize_note n =
     (if nt_version n \<noteq> note_version then Inl (UnexpectedVersion (nt_version n))
      else Inr (json_print (note_json n)))"

text \<open>The parser checks the version and that there is an array, and returns the object as it is.\<close>

definition parse_note :: "string \<Rightarrow> note_error + json" where
  "parse_note s =
     bindE (optE JsonSyntax (json_parse s)) (\<lambda>obj.
     if (case obj of JObj _ \<Rightarrow> False | JArr _ \<Rightarrow> False | _ \<Rightarrow> True)
        \<or> json_get ''version'' obj \<noteq> Some (JStr note_version)
        \<or> (case json_get ''commitments'' obj of Some (JArr _) \<Rightarrow> False | _ \<Rightarrow> True)
     then Inl InvalidPayload
     else Inr obj)"

text \<open>The same object read at the type the parser claims for it.\<close>

definition json_str :: "json option \<Rightarrow> string option" where
  "json_str j = (case j of Some (JStr s) \<Rightarrow> Some s | _ \<Rightarrow> None)"

definition json_int :: "json option \<Rightarrow> int option" where
  "json_int j = (case j of Some (JNum t) \<Rightarrow> parse_bigint t | _ \<Rightarrow> None)"

definition commitment_of_json :: "json \<Rightarrow> commitment option" where
  "commitment_of_json j =
     (case (json_str (json_get ''secret'' j), json_str (json_get ''nullifier'' j),
            json_int (json_get ''amount'' j), json_int (json_get ''denomId'' j)) of
        (Some s, Some n, Some a, Some d) \<Rightarrow>
          Some \<lparr>cm_secret = s, cm_nullifier = n, cm_amount = a, cm_denom_id = d\<rparr>
      | _ \<Rightarrow> None)"

definition note_of_json :: "json \<Rightarrow> shielded_note option" where
  "note_of_json j =
     (case (json_str (json_get ''version'' j), json_get ''commitments'' j) of
        (Some v, Some (JArr xs)) \<Rightarrow>
          (let cs = map commitment_of_json xs
           in if None \<in> set cs then None else Some \<lparr>nt_version = v, nt_commitments = map the cs\<rparr>)
      | _ \<Rightarrow> None)"

section \<open>Encryption\<close>

definition argon2_t :: nat where "argon2_t = 3"

definition argon2_m :: nat where "argon2_m = 64 * 1024"

definition argon2_p :: nat where "argon2_p = 1"

definition key_len :: nat where "key_len = 32"

definition salt_len :: nat where "salt_len = 16"

definition nonce_len :: nat where "nonce_len = 12"

text \<open>\<open>nc_argon t m p dkLen password salt\<close>, and AES-GCM as \<open>key iv data\<close>.\<close>

record note_crypto =
  nc_argon :: "nat \<Rightarrow> nat \<Rightarrow> nat \<Rightarrow> nat \<Rightarrow> bytes \<Rightarrow> bytes \<Rightarrow> bytes"
  nc_encrypt :: "bytes \<Rightarrow> bytes \<Rightarrow> bytes \<Rightarrow> bytes"
  nc_decrypt :: "bytes \<Rightarrow> bytes \<Rightarrow> bytes \<Rightarrow> bytes option"

definition derive_key :: "note_crypto \<Rightarrow> string \<Rightarrow> bytes \<Rightarrow> bytes" where
  "derive_key cr passphrase salt = nc_argon cr argon2_t argon2_m argon2_p key_len (utf8_ascii passphrase) salt"

definition is_encrypted_note :: "string \<Rightarrow> bool" where
  "is_encrypted_note s = starts_with encrypted_magic s"

text \<open>\<open>salt || nonce || ciphertext\<close> in one buffer.\<close>

definition seal_blob :: "bytes \<Rightarrow> bytes \<Rightarrow> bytes \<Rightarrow> bytes option" where
  "seal_blob salt nonce ct =
     put_all [(0, salt), (salt_len, nonce), (salt_len + nonce_len, ct)] (zeros (salt_len + nonce_len + length ct))"

definition encrypt_note ::
    "note_crypto option \<Rightarrow> bytes \<Rightarrow> bytes \<Rightarrow> shielded_note \<Rightarrow> string \<Rightarrow> note_error + string" where
  "encrypt_note crypto salt nonce n passphrase =
     bindE (optE NoWebCrypto crypto) (\<lambda>cr.
     let key = derive_key cr passphrase salt in
     bindE (serialize_note n) (\<lambda>plain.
     bindE (optE NoteRange (seal_blob salt nonce (nc_encrypt cr key nonce (utf8_ascii plain)))) (\<lambda>out.
     Inr (encrypted_magic @ b64_encode out))))"

definition decrypt_note :: "note_crypto option \<Rightarrow> string \<Rightarrow> string \<Rightarrow> note_error + json" where
  "decrypt_note crypto encrypted passphrase =
     bindE (guardE (starts_with encrypted_magic encrypted) MissingMagic) (\<lambda>_.
     let blob = b64_decode (drop (length encrypted_magic) encrypted) in
     bindE (guardE (\<not> length blob < salt_len + nonce_len + 16) BlobTooShort) (\<lambda>_.
     let salt = slice 0 salt_len blob; nonce = slice salt_len (salt_len + nonce_len) blob;
         ct = drop (salt_len + nonce_len) blob in
     bindE (optE NoWebCrypto crypto) (\<lambda>cr.
     let key = derive_key cr passphrase salt in
     bindE (optE WrongPassphrase (nc_decrypt cr key nonce ct)) (\<lambda>pt.
     parse_note (ascii_of pt)))))"

section \<open>Round trips\<close>

text \<open>AES-GCM: decryption undoes encryption under the same key and nonce, and the tag is 16 bytes.\<close>

definition crypto_ok :: "note_crypto \<Rightarrow> bool" where
  "crypto_ok cr \<longleftrightarrow> (\<forall>k iv p. nc_decrypt cr k iv (nc_encrypt cr k iv p) = Some p
     \<and> length (nc_encrypt cr k iv p) = length p + 16)"

lemma sealed_blob:
  assumes "length salt = 16" "length nonce = 12"
  shows "seal_blob salt nonce ct = Some (salt @ nonce @ ct)"
  using put_all_exact [of _ "[salt, nonce, ct]"] assms by (simp add: seal_blob_def salt_len_def nonce_len_def)

lemma opened_blob:
  assumes "length salt = 16" "length nonce = 12"
  shows "slice 0 16 (salt @ nonce @ ct) = salt" "slice 16 28 (salt @ nonce @ ct) = nonce"
    "drop 28 (salt @ nonce @ ct) = ct"
  using assms by (simp_all add: slice_def)

lemma note_json_ok: "json_ok (note_json n)"
  by (simp add: note_json_def commitment_json_def json_number_int_str list_all_iff)

lemma commitment_of_json_back: "commitment_of_json (commitment_json c) = Some c"
  by (simp add: commitment_of_json_def commitment_json_def json_get_def json_str_def json_int_def)

lemma note_of_json_back: "note_of_json (note_json n) = Some n"
  by (auto simp: note_of_json_def note_json_def json_get_def json_str_def commitment_of_json_back comp_def)

lemma parse_serialized:
  assumes "serialize_note n = Inr s"
  shows "parse_note s = Inr (note_json n)"
proof -
  have v: "nt_version n = note_version" "s = json_print (note_json n)"
    using assms by (simp_all add: serialize_note_def split: if_splits)
  have "parse_note s = (if (case note_json n of JObj _ \<Rightarrow> False | JArr _ \<Rightarrow> False | _ \<Rightarrow> True)
        \<or> json_get ''version'' (note_json n) \<noteq> Some (JStr note_version)
        \<or> (case json_get ''commitments'' (note_json n) of Some (JArr _) \<Rightarrow> False | _ \<Rightarrow> True)
     then Inl InvalidPayload else Inr (note_json n))"
    unfolding v(2) parse_note_def json_roundtrip [OF note_json_ok] by simp
  then show ?thesis by (simp add: note_json_def json_get_def v(1))
qed

lemma encrypted_note_opens:
  assumes "crypto_ok cr" "length salt = 16" "length nonce = 12" "nt_version n = note_version"
  shows "\<exists>blob. encrypt_note (Some cr) salt nonce n passphrase = Inr blob \<and> is_encrypted_note blob
     \<and> decrypt_note (Some cr) blob passphrase = Inr (note_json n) \<and> note_of_json (note_json n) = Some n"
proof -
  obtain plain where plain: "serialize_note n = Inr plain" using assms(4) by (simp add: serialize_note_def)
  let ?key = "derive_key cr passphrase salt"
  let ?ct = "nc_encrypt cr ?key nonce (utf8_ascii plain)"
  let ?blob = "encrypted_magic @ b64_encode (salt @ nonce @ ?ct)"
  have dec: "nc_decrypt cr ?key nonce ?ct = Some (utf8_ascii plain)" and len: "length ?ct \<ge> 16"
    using assms(1) by (simp_all add: crypto_ok_def)
  have enc: "encrypt_note (Some cr) salt nonce n passphrase = Inr ?blob"
    by (simp add: encrypt_note_def Let_def plain sealed_blob [OF assms(2,3)])
  have magic: "starts_with encrypted_magic ?blob" by (simp add: starts_with_def)
  have "decrypt_note (Some cr) ?blob passphrase = parse_note plain"
    using len by (simp add: decrypt_note_def magic Let_def b64_decode_encode salt_len_def nonce_len_def
        opened_blob [OF assms(2,3)] assms(2,3) dec)
  with enc magic parse_serialized [OF plain] note_of_json_back show ?thesis by (auto simp: is_encrypted_note_def)
qed

lemma decrypted_version:
  assumes "decrypt_note crypto blob passphrase = Inr obj" "note_of_json obj = Some n"
  shows "nt_version n = note_version"
proof -
  have "json_get ''version'' obj = Some (JStr note_version)"
    using assms(1) by (auto simp: decrypt_note_def parse_note_def Let_def bindE_Inr_iff split: if_splits)
  then show ?thesis
    using assms(2) by (auto simp: note_of_json_def json_str_def Let_def split: option.splits json.splits if_splits)
qed

text \<open>
  C29. A note survives its encryption: for every note of the current version and every salt and nonce
  of the right length, what \<open>encryptNote\<close> returns is recognised as an encrypted note, and
  \<open>decryptNote\<close> with the same passphrase returns exactly that note.
\<close>

theorem note_encryption_roundtrip:
  assumes "crypto_ok cr" "length salt = 16" "length nonce = 12" "nt_version n = note_version"
  shows "\<exists>blob. encrypt_note (Some cr) salt nonce n passphrase = Inr blob \<and> is_encrypted_note blob
     \<and> decrypt_note (Some cr) blob passphrase = Inr (note_json n) \<and> note_of_json (note_json n) = Some n"
  by (rule encrypted_note_opens [OF assms])

definition plain_crypto :: note_crypto where
  "plain_crypto = \<lparr>nc_argon = (\<lambda>t m p n pw salt. pw @ salt), nc_encrypt = (\<lambda>k iv p. p @ zeros 16),
     nc_decrypt = (\<lambda>k iv c. if drop (length c - 16) c = zeros 16 then Some (take (length c - 16) c) else None)\<rparr>"

lemma plain_crypto_ok: "crypto_ok plain_crypto"
  by (simp add: crypto_ok_def plain_crypto_def)

theorem note_encryption_roundtrip_witness:
  "\<exists>blob. encrypt_note (Some plain_crypto) (zeros 16) (zeros 12) empty_note ''pw'' = Inr blob
     \<and> decrypt_note (Some plain_crypto) blob ''pw'' = Inr (note_json empty_note)"
proof -
  have "nt_version empty_note = note_version" by (simp add: empty_note_def)
  from note_encryption_roundtrip [OF plain_crypto_ok _ _ this, of "zeros 16" "zeros 12" "''pw''"]
  show ?thesis by auto
qed

end
