(* ===== verification/SdkMsg.thy ===== *)
theory SdkMsg
  imports SdkNote
begin

text \<open>
  \<open>qietr-sdk/src/msg.ts\<close>: builders, body encryption and account parser of the messaging program, and
  the forms of \<open>qietr-web/app/app/messaging/MessagingManager.tsx\<close> that call them. Argon2id and AES-GCM
  are the ones of \<open>note.ts\<close>; \<open>sha\<close>, \<open>fpa\<close> and \<open>b58\<close> are as in the escrow builders.
\<close>

section \<open>Builders\<close>

definition qietr_msg_program_id :: pubkey where
  "qietr_msg_program_id = be_bytes 32
     37329810407496629848754402294997407637651735804194111324238276113106014703387"

definition max_message_bytes :: nat where
  "max_message_bytes = 1024"

definition find_msg_pda :: "pda_fun \<Rightarrow> pubkey \<Rightarrow> pubkey \<Rightarrow> bytes \<Rightarrow> pubkey \<Rightarrow> pubkey \<times> nat" where
  "find_msg_pda fpa from_key to_key nonce program_id = fpa [utf8_ascii ''msg'', from_key, to_key, nonce] program_id"

definition build_send_msg_ix ::
    "hash_fun \<Rightarrow> pda_fun \<Rightarrow> pubkey \<Rightarrow> bytes \<Rightarrow> bytes \<Rightarrow> pubkey \<Rightarrow> pubkey \<Rightarrow> sdk_wire_error + instruction" where
  "build_send_msg_ix sha fpa to_key nonce body sender program_id =
     bindE (guardE (length nonce = 8) (NonceLength (length nonce))) (\<lambda>_.
     bindE (guardE (\<not> length body > max_message_bytes) BodyTooLong) (\<lambda>_.
     bindE (optE RangeError
       (put_all [(0, anchor_ix_discriminator sha ''send''), (8, to_key), (40, nonce), (48, le_bytes 4 (length body)),
                 (52, body)] (zeros (8 + 32 + 8 + 4 + length body)))) (\<lambda>data.
     Inr \<lparr>ix_program = program_id,
          ix_keys = [meta (fst (find_msg_pda fpa sender to_key nonce program_id)) False True,
                     meta sender True True, meta system_program_id False False],
          ix_data = data\<rparr>)))"

definition build_delete_msg_ix :: "hash_fun \<Rightarrow> pubkey \<Rightarrow> pubkey \<Rightarrow> pubkey \<Rightarrow> instruction" where
  "build_delete_msg_ix sha msg recipient program_id =
     \<lparr>ix_program = program_id, ix_keys = [meta msg False True, meta recipient True False],
      ix_data = anchor_ix_discriminator sha ''delete''\<rparr>"

definition build_close_msg_ix :: "hash_fun \<Rightarrow> pubkey \<Rightarrow> pubkey \<Rightarrow> pubkey \<Rightarrow> instruction" where
  "build_close_msg_ix sha msg recipient program_id =
     \<lparr>ix_program = program_id, ix_keys = [meta msg False True, meta recipient True True],
      ix_data = anchor_ix_discriminator sha ''close''\<rparr>"

section \<open>Message bodies\<close>

datatype msg_error =
    MsgNoCrypto | BodyTooShort | DecryptFailed
  | MsgConnectWallet | MsgInvalidAddress | EmptyBody | BodyOverLimit | MissingPassphrase
  | MsgBuilder sdk_wire_error

definition encrypt_msg_body :: "note_crypto option \<Rightarrow> bytes \<Rightarrow> bytes \<Rightarrow> string \<Rightarrow> string \<Rightarrow> msg_error + string" where
  "encrypt_msg_body crypto salt nonce body passphrase =
     bindE (optE MsgNoCrypto crypto) (\<lambda>cr.
     let ct = nc_encrypt cr (derive_key cr passphrase salt) nonce (utf8_ascii body) in
     bindE (optE (MsgBuilder RangeError) (seal_blob salt nonce ct)) (\<lambda>out. Inr (b64_encode out)))"

definition decrypt_msg_body :: "note_crypto option \<Rightarrow> string \<Rightarrow> string \<Rightarrow> msg_error + string" where
  "decrypt_msg_body crypto encrypted passphrase =
     (let blob = b64_decode encrypted in
     bindE (guardE (\<not> length blob < 16 + 12 + 16) BodyTooShort) (\<lambda>_.
     bindE (optE MsgNoCrypto crypto) (\<lambda>cr.
     bindE (optE DecryptFailed (nc_decrypt cr (derive_key cr passphrase (slice 0 16 blob)) (slice 16 28 blob)
              (drop 28 blob))) (\<lambda>pt.
     Inr (ascii_of pt)))))"

section \<open>The message account\<close>

record encrypted_message =
  em_pda :: string
  em_from :: string
  em_to :: string
  em_timestamp :: int
  em_body_base64 :: string

definition message_account_size :: nat where
  "message_account_size = 1115"

definition parse_message_account ::
    "hash_fun \<Rightarrow> pda_fun \<Rightarrow> (pubkey \<Rightarrow> string) \<Rightarrow> bytes \<Rightarrow> encrypted_message option" where
  "parse_message_account sha fpa b58 data =
     (if length data < message_account_size then None
      else if \<not> list_all (\<lambda>i. data ! i = account_disc sha ''Message'' ! i) [0..<8] then None
      else let body_len = read_u16_le data 88 in
           Some \<lparr>em_pda = b58 (fst (find_msg_pda fpa (slice 8 40 data) (slice 40 72 data) (slice 72 80 data)
                   qietr_msg_program_id)),
                 em_from = b58 (slice 8 40 data), em_to = b58 (slice 40 72 data),
                 em_timestamp = dbl (read_i64_le data 80),
                 em_body_base64 = b64_encode (slice 91 (91 + body_len) data)\<rparr>)"

section \<open>The page\<close>

record msg_page =
  mp_sha :: hash_fun
  mp_fpa :: pda_fun
  mp_b58 :: "pubkey \<Rightarrow> string"
  mp_parse_key :: "string \<Rightarrow> pubkey option"
  mp_crypto :: "note_crypto option"

definition handle_send ::
    "msg_page \<Rightarrow> pubkey option \<Rightarrow> string \<Rightarrow> string \<Rightarrow> string \<Rightarrow> bytes \<Rightarrow> bytes \<Rightarrow> bytes \<Rightarrow> msg_error + instruction" where
  "handle_send pg wallet recipient body passphrase nonce salt iv =
     bindE (optE MsgConnectWallet wallet) (\<lambda>me.
     bindE (optE MsgInvalidAddress (mp_parse_key pg recipient)) (\<lambda>to_key.
     bindE (guardE (js_trim body \<noteq> []) EmptyBody) (\<lambda>_.
     bindE (guardE (\<not> length (utf8_ascii body) > 1024) BodyOverLimit) (\<lambda>_.
     bindE (guardE (passphrase \<noteq> []) MissingPassphrase) (\<lambda>_.
     bindE (encrypt_msg_body (mp_crypto pg) salt iv body passphrase) (\<lambda>encrypted.
     case build_send_msg_ix (mp_sha pg) (mp_fpa pg) to_key nonce (utf8_ascii encrypted) me qietr_msg_program_id of
       Inl e \<Rightarrow> Inl (MsgBuilder e) | Inr ix \<Rightarrow> Inr ix))))))"

fun inbox_loop :: "msg_page \<Rightarrow> bytes list \<Rightarrow> encrypted_message list \<Rightarrow> encrypted_message list" where
  "inbox_loop pg [] acc = acc"
| "inbox_loop pg (data # accs) acc =
     inbox_loop pg accs (case parse_message_account (mp_sha pg) (mp_fpa pg) (mp_b58 pg) data of
       None \<Rightarrow> acc | Some m \<Rightarrow> acc @ [m])"

definition fetch_inbox_page :: "msg_page \<Rightarrow> bytes list \<Rightarrow> encrypted_message list" where
  "fetch_inbox_page pg accs = sort_key (\<lambda>m. - em_timestamp m) (inbox_loop pg accs [])"

text \<open>\<open>atob\<close> of a body the parser has itself encoded.\<close>

definition handle_decrypt :: "msg_page \<Rightarrow> string \<Rightarrow> encrypted_message \<Rightarrow> msg_error + string" where
  "handle_decrypt pg passphrase m =
     bindE (guardE (passphrase \<noteq> []) MissingPassphrase) (\<lambda>_.
     case decrypt_msg_body (mp_crypto pg) (ascii_of (b64_decode (em_body_base64 m))) passphrase of
       Inl e \<Rightarrow> Inl DecryptFailed | Inr plain \<Rightarrow> Inr plain)"

definition handle_delete :: "msg_page \<Rightarrow> pubkey option \<Rightarrow> encrypted_message \<Rightarrow> msg_error + instruction option" where
  "handle_delete pg wallet m =
     (case wallet of
        None \<Rightarrow> Inr None
      | Some me \<Rightarrow> bindE (optE MsgInvalidAddress (mp_parse_key pg (em_pda m))) (\<lambda>pda.
          Inr (Some (build_delete_msg_ix (mp_sha pg) pda me qietr_msg_program_id))))"

end
