(* ===== verification/SdkSupport.thy ===== *)
theory SdkSupport
  imports ServiceClients SdkWallet SdkMsg
begin

text \<open>
  The small parts of the SDK around its core: the logger (\<open>logger.ts\<close>), the accessors and aliases of
  \<open>QietrSDK\<close>, \<open>fetchInbox\<close> of \<open>msg.ts\<close> and the resource of a request in \<open>x402.ts\<close>.
\<close>

section \<open>logger.ts\<close>

datatype log_level = Debug | Info | Warn | Error

fun level_order :: "log_level \<Rightarrow> nat" where
  "level_order Debug = 0"
| "level_order Info = 1"
| "level_order Warn = 2"
| "level_order Error = 3"

lemma level_order_inject: "level_order a = level_order b \<Longrightarrow> a = b"
  by (cases a; cases b) simp_all

instantiation log_level :: linorder
begin

definition less_eq_log_level :: "log_level \<Rightarrow> log_level \<Rightarrow> bool" where
  "less_eq_log_level a b \<longleftrightarrow> level_order a \<le> level_order b"

definition less_log_level :: "log_level \<Rightarrow> log_level \<Rightarrow> bool" where
  "less_log_level a b \<longleftrightarrow> level_order a < level_order b"

instance
  by standard (auto simp: less_eq_log_level_def less_log_level_def level_order_inject)

end

record logger =
  lo_context :: string
  lo_level :: log_level

datatype console = ConsoleError | ConsoleWarn | ConsoleLog

definition logger_child :: "logger \<Rightarrow> string \<Rightarrow> logger" where
  "logger_child l sub = l\<lparr>lo_context := lo_context l @ '':'' @ sub\<rparr>"

fun level_text :: "log_level \<Rightarrow> string" where
  "level_text Debug = ''DEBUG''"
| "level_text Info = ''INFO''"
| "level_text Warn = ''WARN''"
| "level_text Error = ''ERROR''"

text \<open>The line written, if any, and where to.\<close>

definition log_line :: "logger \<Rightarrow> string \<Rightarrow> log_level \<Rightarrow> string \<Rightarrow> json option \<Rightarrow> (console \<times> string) option" where
  "log_line l timestamp level message extra =
     (if level < lo_level l then None
      else Some ((case level of Error \<Rightarrow> ConsoleError | Warn \<Rightarrow> ConsoleWarn | _ \<Rightarrow> ConsoleLog),
        ''['' @ timestamp @ ''] ['' @ level_text level @ ''] ['' @ lo_context l @ ''] '' @ message
          @ (case extra of None \<Rightarrow> [] | Some j \<Rightarrow> '' '' @ json_print j)))"

lemma silenced_iff: "log_line l timestamp level message extra = None \<longleftrightarrow> level < lo_level l"
  by (simp add: log_line_def)

text \<open>A logger that writes a line also writes every more severe one, and so do its children.\<close>

lemma severe_lines_written:
  assumes "log_line l t level m e \<noteq> None" "level \<le> level'"
  shows "log_line (logger_child l sub) t' level' m' e' \<noteq> None"
  using assms by (simp add: silenced_iff logger_child_def not_less)

section \<open>QietrSDK: accessors and aliases\<close>

definition get_note :: "sdk \<Rightarrow> shielded_note option" where
  "get_note s = sk_note s"

definition get_updated_note :: "sdk \<Rightarrow> shielded_note option" where
  "get_updated_note s = sk_last_updated s"

definition deposit_fast ::
    "sdk_env \<Rightarrow> js_float \<Rightarrow> signer \<Rightarrow> string option \<Rightarrow> sdk \<Rightarrow> sdk_error + (shielded_note \<times> string) \<times> sdk" where
  "deposit_fast = sdk_deposit_gasless"

definition pay_micro ::
    "sdk_env \<Rightarrow> pubkey \<Rightarrow> int \<Rightarrow> signer option \<Rightarrow> sdk \<Rightarrow> sdk_error + (shielded_note \<times> string) \<times> sdk" where
  "pay_micro = pay_micro_exact"

lemma get_note_set: "get_note (set_note n s) = Some n" "get_updated_note (set_note n s) = get_updated_note s"
  by (simp_all add: get_note_def get_updated_note_def set_note_def)

text \<open>After a payment the two accessors agree on the note that remains.\<close>

lemma pay_updates_notes:
  assumes "pay_micro env to payment fee_payer s = Inr ((n, sig), s')"
  shows "get_note s' = Some n \<and> get_updated_note s' = Some n"
  using assms by (auto simp: pay_micro_def pay_micro_exact_def get_note_def get_updated_note_def res_simps)

section \<open>msg.ts: fetchInbox\<close>

datatype inbox_error = InboxNetwork | InboxStatus nat | InboxNotJson

definition fetch_inbox :: "(pubkey \<Rightarrow> string) \<Rightarrow> (http_request \<Rightarrow> http_reply option) \<Rightarrow> pubkey \<Rightarrow> string \<Rightarrow> inbox_error + json" where
  "fetch_inbox b58 fetch recipient indexer_base =
     (case fetch (get_request (strip_slashes indexer_base) (''/messages?to='' @ b58 recipient)) of
        None \<Rightarrow> Inl InboxNetwork
      | Some r \<Rightarrow>
          if \<not> (200 \<le> hr_status r \<and> hr_status r < 300) then Inl (InboxStatus (hr_status r))
          else optE InboxNotJson (Option.bind (hr_text r) json_parse))"

section \<open>x402.ts: canonicalResource\<close>

text \<open>A string, a \<open>URL\<close> by its text, and an object like \<open>Request\<close> by its \<open>url\<close> and its own text.\<close>

datatype request_input = TextInput string | UrlInput string | RequestInput "string option" "string option"

text \<open>A conversion that throws (\<open>None\<close>) gives the empty resource.\<close>

definition canonical_resource :: "request_input \<Rightarrow> string" where
  "canonical_resource input =
     (case input of
        TextInput s \<Rightarrow> s
      | UrlInput s \<Rightarrow> s
      | RequestInput (Some url) _ \<Rightarrow> url
      | RequestInput None (Some s) \<Rightarrow> s
      | RequestInput None None \<Rightarrow> [])"

end
