(* ===== verification/SdkSession.thy ===== *)
theory SdkSession
  imports SdkSupport SdkPay
begin

text \<open>
  Whole sessions of \<open>QietrSDK\<close>: deposits, gasless deposits and payments in any order, with any of them
  failing anywhere. A call that throws does so before it assigns a field, so it leaves the object as it
  was. Shown: the note stays well-typed, so that no later call fails on a text or a number of it, and the
  balance is the ledger of the calls that succeeded.
\<close>

section \<open>Calls and sessions\<close>

datatype sdk_call =
    CallDeposit js_float signer
  | CallDepositGasless js_float signer "string option"
  | CallPay pubkey js_float "signer option"
  | CallPayMicro pubkey int "signer option"

fun run_call :: "sdk_env \<Rightarrow> sdk_call \<Rightarrow> sdk \<Rightarrow> sdk_error + sdk" where
  "run_call env (CallDeposit amount payer) s = map_sum id snd (sdk_deposit env amount payer s)"
| "run_call env (CallDepositGasless amount depositor url) s = map_sum id snd (sdk_deposit_gasless env amount depositor url s)"
| "run_call env (CallPay to amount payer) s = map_sum id snd (sdk_pay env to amount payer s)"
| "run_call env (CallPayMicro to micro payer) s = map_sum id snd (pay_micro env to micro payer s)"

definition after_call :: "sdk_env \<times> sdk_call \<Rightarrow> sdk \<Rightarrow> sdk" where
  "after_call = (\<lambda>(env, c) s. case run_call env c s of Inl _ \<Rightarrow> s | Inr s' \<Rightarrow> s')"

definition sdk_session :: "(sdk_env \<times> sdk_call) list \<Rightarrow> sdk \<Rightarrow> sdk" where
  "sdk_session = fold after_call"

text \<open>What a call puts into the note, in micro-USDC, if it succeeds.\<close>

fun call_micro :: "sdk_call \<Rightarrow> int option" where
  "call_micro (CallDeposit amount _) = usdc_to_micro amount"
| "call_micro (CallDepositGasless amount _ _) = usdc_to_micro amount"
| "call_micro (CallPay _ amount _) = map_option uminus (usdc_to_micro amount)"
| "call_micro (CallPayMicro _ micro _) = Some (- micro)"

definition moved :: "sdk_env \<times> sdk_call \<Rightarrow> sdk \<Rightarrow> int" where
  "moved = (\<lambda>(env, c) s. case run_call env c s of Inl _ \<Rightarrow> 0 | Inr _ \<Rightarrow> default_to 0 (call_micro c))"

fun session_flow :: "(sdk_env \<times> sdk_call) list \<Rightarrow> sdk \<Rightarrow> int list" where
  "session_flow [] s = []"
| "session_flow (x # xs) s = moved x s # session_flow xs (after_call x s)"

lemma map_sum_Inr_iff: "map_sum f g x = Inr b \<longleftrightarrow> (\<exists>a. x = Inr a \<and> b = g a)"
  by (cases x) auto

section \<open>The effect of one call\<close>

text \<open>The draws of \<open>randomFieldString\<close> have 31 bytes; that they are not empty and not longer is all that is used.\<close>

definition draws_ok :: "sdk_env \<Rightarrow> bool" where
  "draws_ok env \<longleftrightarrow> list_all (\<lambda>r. r \<noteq> [] \<and> length r \<le> 31) [se_rnd1 env, se_rnd2 env]"

lemma draws_ok_nonempty: "draws_ok env \<Longrightarrow> se_rnd1 env \<noteq> [] \<and> se_rnd2 env \<noteq> []"
  by (auto simp: draws_ok_def)

definition drawn_commitment :: "sdk_env \<Rightarrow> int \<Rightarrow> int \<Rightarrow> commitment" where
  "drawn_commitment env amount denom =
     \<lparr>cm_secret = fst (draw_key env), cm_nullifier = snd (draw_key env), cm_amount = amount, cm_denom_id = denom\<rparr>"

lemma drawn_key: "note_key (drawn_commitment env a d) = draw_key env"
  by (simp add: note_key_def drawn_commitment_def)

lemma pick_tier_Inr:
  assumes "pick_tier amount tiers = Inr tier"
  shows "tier \<in> set tiers \<and> usdc_to_micro amount = Some (td_amount_micro tier)"
  using assms by (auto simp: pick_tier_def res_simps find_Some_iff)

text \<open>A deposit that succeeds adds one drawn commitment of a tier, whichever of the two ways it took.\<close>

definition deposited :: "sdk_env \<Rightarrow> js_float \<Rightarrow> sdk \<Rightarrow> sdk \<Rightarrow> bool" where
  "deposited env amount s s' \<longleftrightarrow> (\<exists>tier \<in> set (sk_tiers s). usdc_to_micro amount = Some (td_amount_micro tier)
     \<and> (let old = default_to empty_note (sk_note s) in
        sk_note s' = Some \<lparr>nt_version = nt_version old, nt_commitments = nt_commitments old
          @ [drawn_commitment env (dbl (td_amount_micro tier)) (td_denom_id tier)]\<rparr>)
     \<and> sk_tiers s' = sk_tiers s)"

lemma sdk_deposit_deposited:
  assumes "sdk_deposit env amount payer s = Inr (n, s')" "draws_ok env"
  shows "deposited env amount s s'"
  using assms draws_ok_nonempty [OF assms(2)]
  by (auto simp: sdk_deposit_def deposited_def res_simps codecE_def random_field_dec_inr drawn_commitment_def draw_key_def
      add_commitment_def Let_def dest!: pick_tier_Inr)

lemma sdk_deposit_gasless_deposited:
  assumes "sdk_deposit_gasless env amount payer url s = Inr ((n, sig), s')" "draws_ok env"
  shows "deposited env amount s s'"
  using assms draws_ok_nonempty [OF assms(2)]
  by (auto simp: sdk_deposit_gasless_def deposited_def res_simps codecE_def random_field_dec_inr drawn_commitment_def draw_key_def
      add_commitment_def Let_def dest!: pick_tier_Inr)

lemma sdk_call_Inr:
  assumes "run_call env c s = Inr s'" "draws_ok env"
  obtains (deposit) amount where "call_micro c = usdc_to_micro amount" "deposited env amount s s'"
  | (pay) to micro payer n sig where "call_micro c = Some (- micro)" "pay_micro_exact env to micro payer s = Inr ((n, sig), s')"
proof (cases c)
  case (CallDeposit a p)
  with assms show thesis by (intro deposit [of a]) (auto simp: map_sum_Inr_iff intro: sdk_deposit_deposited)
next
  case (CallDepositGasless a p u)
  with assms show thesis by (intro deposit [of a]) (auto simp: map_sum_Inr_iff intro: sdk_deposit_gasless_deposited)
next
  case (CallPay to a p)
  with assms show thesis by (auto simp: sdk_pay_def res_simps map_sum_Inr_iff intro: pay)
next
  case (CallPayMicro to m p)
  with assms show thesis by (auto simp: pay_micro_def map_sum_Inr_iff intro: pay)
qed

section \<open>Well-typed notes\<close>

text \<open>
  What the later calls read of a note: decimal texts below the field, whole amounts that a double holds, and
  a denomination of the configured tiers that covers the amount.
\<close>

definition field_text :: "string \<Rightarrow> bool" where
  "field_text t = (case parse_bigint t of None \<Rightarrow> False | Some k \<Rightarrow> 0 \<le> k \<and> k < 2 ^ 248 \<and> t = int_str 10 k)"

definition typed_commitment :: "tier_definition list \<Rightarrow> commitment \<Rightarrow> bool" where
  "typed_commitment tiers c \<longleftrightarrow> field_text (cm_secret c) \<and> field_text (cm_nullifier c) \<and> 0 < cm_amount c
     \<and> list_ex (\<lambda>t. td_denom_id t = cm_denom_id c \<and> cm_amount c \<le> td_amount_micro t) tiers"

definition typed_note :: "tier_definition list \<Rightarrow> shielded_note \<Rightarrow> bool" where
  "typed_note tiers n \<longleftrightarrow> nt_version n = note_version \<and> list_all (typed_commitment tiers) (nt_commitments n)"

definition tiers_ok :: "tier_definition list \<Rightarrow> bool" where
  "tiers_ok tiers = list_all (\<lambda>t. 0 < td_amount_micro t \<and> td_amount_micro t < 2 ^ 53) tiers"

lemma default_tiers_ok: "tiers_ok default_tiers"
  by (simp add: tiers_ok_def default_tiers_def)

lemma drawn_text:
  assumes "length rnd \<le> 31"
  shows "field_text (nat_str 10 (be_val rnd))"
proof -
  have "be_val rnd < 256 ^ length rnd" by (rule be_val_less)
  also have "\<dots> \<le> (256 :: nat) ^ 31" using assms by (intro power_increasing) simp_all
  finally have "int (be_val rnd) < 2 ^ 248" by simp
  then show ?thesis by (simp add: field_text_def int_str_def)
qed

lemma tier_amount_dbl: "tiers_ok tiers \<Longrightarrow> t \<in> set tiers \<Longrightarrow> 0 < td_amount_micro t \<and> dbl (td_amount_micro t) = td_amount_micro t"
  by (auto simp: tiers_ok_def list_all_iff safe_int_def intro!: dbl_safe)

lemma typed_amount: "tiers_ok tiers \<Longrightarrow> typed_commitment tiers c \<Longrightarrow> 0 < cm_amount c \<and> cm_amount c < 2 ^ 53"
  by (force simp: tiers_ok_def typed_commitment_def list_all_iff list_ex_iff)

lemma typed_drawn:
  assumes "draws_ok env" "0 < amount" "t \<in> set tiers" "td_denom_id t = denom" "amount \<le> td_amount_micro t"
  shows "typed_commitment tiers (drawn_commitment env amount denom)"
  using assms by (auto simp: typed_commitment_def drawn_commitment_def draw_key_def draws_ok_def drawn_text list_ex_iff)

definition typed_sdk :: "tier_definition list \<Rightarrow> sdk \<Rightarrow> bool" where
  "typed_sdk tiers s \<longleftrightarrow> sk_tiers s = tiers \<and> pred_option (typed_note tiers) (sk_note s)"

lemma deposited_typed:
  assumes "deposited env amount s s'" "tiers_ok tiers" "draws_ok env" "typed_sdk tiers s"
  shows "typed_sdk tiers s'"
proof -
  obtain tier where t: "tier \<in> set tiers" "sk_tiers s' = tiers"
    "sk_note s' = Some \<lparr>nt_version = nt_version (default_to empty_note (sk_note s)),
       nt_commitments = nt_commitments (default_to empty_note (sk_note s)) @ [drawn_commitment env (dbl (td_amount_micro tier)) (td_denom_id tier)]\<rparr>"
    using assms(1,4) by (auto simp: deposited_def typed_sdk_def Let_def)
  have "typed_note tiers (default_to empty_note (sk_note s))"
    using assms(4) by (cases "sk_note s") (auto simp: typed_sdk_def typed_note_def empty_note_def default_to_def)
  moreover have "typed_commitment tiers (drawn_commitment env (dbl (td_amount_micro tier)) (td_denom_id tier))"
    using tier_amount_dbl [OF assms(2) t(1)] by (intro typed_drawn [OF assms(3) _ t(1)]) simp_all
  ultimately show ?thesis using t by (simp add: typed_sdk_def typed_note_def)
qed

lemma paid_typed:
  assumes pay: "pay_micro_exact env to micro payer s = Inr ((updated, sig), s')"
    and ok: "tiers_ok tiers" "draws_ok env" "typed_sdk tiers s"
  shows "typed_sdk tiers s'"
proof -
  obtain n c w ix p where r: "pay_prepare env s to micro payer = Inr (c, w, ix, p)" "sk_note s = Some n"
    "pay_settle c w micro n = Inr updated" "s' = s\<lparr>sk_note := Some updated, sk_last_updated := Some updated\<rparr>"
    using pay by (elim pay_micro_exact_Inr)
  obtain mp recipient where q: "0 < micro" "select_commitment micro (nt_commitments n) = Some c"
    "build_witness (se_poseidon env) (se_rnd1 env) (se_rnd2 env) c mp recipient micro = Inr w"
    using r(1,2) by (rule_tac pay_prepare_Inr) auto
  have c: "c \<in> set (nt_commitments n)" "micro \<le> cm_amount c" using select_commitment_Some [OF q(2)] by auto
  have n: "typed_note tiers n" using ok(3) r(2) by (simp add: typed_sdk_def)
  then have tc: "typed_commitment tiers c" using c(1) by (simp add: typed_note_def list_all_iff)
  have draws: "wi_new_secret w = nat_str 10 (be_val (se_rnd1 env))" "wi_new_nullifier w = nat_str 10 (be_val (se_rnd2 env))"
    using build_witness_draws [OF q(3)] draws_ok_nonempty [OF ok(2)] by auto
  have "dbl (cm_amount c - micro) = cm_amount c - micro"
    using typed_amount [OF ok(1) tc] c(2) q(1) by (intro dbl_safe) (simp add: safe_int_def)
  then have new: "nt_version updated = nt_version n
      \<and> set (nt_commitments updated) \<subseteq> set (nt_commitments n)
          \<union> (if micro < cm_amount c then {drawn_commitment env (cm_amount c - micro) (cm_denom_id c)} else {})"
    using pay_settle_Inr [OF r(3)] draws c(2)
    by (auto simp: drawn_commitment_def draw_key_def int_str_def split: if_splits)
  have change: "micro < cm_amount c \<Longrightarrow> typed_commitment tiers (drawn_commitment env (cm_amount c - micro) (cm_denom_id c))"
  proof -
    assume less: "micro < cm_amount c"
    obtain t where "t \<in> set tiers" "td_denom_id t = cm_denom_id c" "cm_amount c \<le> td_amount_micro t"
      using tc by (auto simp: typed_commitment_def list_ex_iff)
    with less q(1) show ?thesis by (intro typed_drawn [OF ok(2)]) auto
  qed
  have "typed_note tiers updated"
    unfolding typed_note_def list_all_iff
  proof (intro conjI ballI)
    show "nt_version updated = note_version" using new n by (simp add: typed_note_def)
    show "typed_commitment tiers x" if "x \<in> set (nt_commitments updated)" for x
      using new n change that by (cases "x \<in> set (nt_commitments n)") (auto simp: typed_note_def list_all_iff split: if_splits)
  qed
  then show ?thesis using ok(3) r(4) by (simp add: typed_sdk_def)
qed

lemma typed_stored:
  assumes "typed_note tiers n"
  shows "\<exists>stored. serialize_note n = Inr stored \<and> parse_note stored = Inr (note_json n) \<and> note_of_json (note_json n) = Some n"
  using assms parse_serialized [of n] by (auto simp: typed_note_def serialize_note_def note_of_json_back)

lemma typed_leaf:
  assumes "typed_note tiers n" "c \<in> set (nt_commitments n)"
  shows "\<exists>leaf. leaf_bytes P c = Inr leaf"
proof -
  have "field_text (cm_secret c)" "field_text (cm_nullifier c)"
    using assms by (auto simp: typed_note_def typed_commitment_def list_all_iff)
  then obtain i j where "parse_bigint (cm_secret c) = Some i" "parse_bigint (cm_nullifier c) = Some j"
    by (auto simp: field_text_def split: option.splits)
  then show ?thesis by (simp add: leaf_bytes_def commitment_hash_def field_dec_to_be32_nat)
qed

section \<open>Invariants of a session\<close>

text \<open>What every successful call keeps, every session keeps: a failed call changes nothing.\<close>

locale session_invariant =
  fixes good :: "sdk_env \<Rightarrow> bool" and inv :: "sdk \<Rightarrow> bool"
  assumes call_keeps: "good env \<Longrightarrow> inv s \<Longrightarrow> run_call env c s = Inr s' \<Longrightarrow> inv s'"
begin

lemma step_keeps: "good (fst x) \<Longrightarrow> inv s \<Longrightarrow> inv (after_call x s)"
  by (cases x) (auto simp: after_call_def intro: call_keeps split: sum.split)

lemma session_keeps: "list_all (\<lambda>x. good (fst x)) ops \<Longrightarrow> inv s \<Longrightarrow> inv (sdk_session ops s)"
  unfolding sdk_session_def by (induction ops arbitrary: s) (simp_all add: step_keeps)

end

interpretation typed_session: session_invariant "\<lambda>env. draws_ok env \<and> tiers_ok tiers" "typed_sdk tiers"
  for tiers :: "tier_definition list"
proof unfold_locales
  fix env s c s'
  assume "draws_ok env \<and> tiers_ok tiers" "typed_sdk tiers s" and run: "run_call env c s = Inr s'"
  then have ok: "tiers_ok tiers" "draws_ok env" "typed_sdk tiers s" by simp_all
  from run ok(2) show "typed_sdk tiers s'"
    by (cases rule: sdk_call_Inr) (auto intro: deposited_typed paid_typed ok)
qed

section \<open>The ledger of a session\<close>

definition current_note :: "sdk \<Rightarrow> shielded_note" where
  "current_note s = default_to empty_note (sk_note s)"

lemma balance_current: "get_balance s = get_note_balance (Some (current_note s))"
  by (cases "sk_note s") (simp_all add: get_balance_def current_note_def default_to_def empty_note_def get_note_balance_def)

lemma note_ok_balance: "note_ok n \<Longrightarrow> get_note_balance (Some n) = sum_list (map cm_amount (nt_commitments n))"
  by (intro balance_exact) (simp_all add: note_ok_def)

text \<open>A note that is well-formed, with no key among those still to be drawn.\<close>

definition ledger_ok :: "(string \<times> string) set \<Rightarrow> sdk \<Rightarrow> bool" where
  "ledger_ok fresh s \<longleftrightarrow> tiers_ok (sk_tiers s) \<and> note_ok (current_note s)
     \<and> note_key ` set (nt_commitments (current_note s)) \<inter> fresh = {}"

lemma deposited_ledger:
  assumes "deposited env amount s s'" "ledger_ok (insert (draw_key env) fresh) s" "draw_key env \<notin> fresh"
    and "usdc_to_micro amount = Some micro" "get_balance s + micro < 2 ^ 53"
  shows "ledger_ok fresh s' \<and> get_balance s' = get_balance s + micro \<and> 0 < micro"
proof -
  let ?old = "current_note s"
  obtain tier where t: "tier \<in> set (sk_tiers s)" "td_amount_micro tier = micro" "sk_tiers s' = sk_tiers s"
    "current_note s' = \<lparr>nt_version = nt_version ?old,
       nt_commitments = nt_commitments ?old @ [drawn_commitment env (dbl micro) (td_denom_id tier)]\<rparr>"
    using assms(1,4) by (auto simp: deposited_def Let_def current_note_def default_to_def)
  have old: "tiers_ok (sk_tiers s)" "note_ok ?old" "draw_key env \<notin> note_key ` set (nt_commitments ?old)"
    "note_key ` set (nt_commitments ?old) \<inter> fresh = {}" using assms(2) by (auto simp: ledger_ok_def)
  have m: "0 < micro" "dbl micro = micro" using tier_amount_dbl [OF old(1) t(1)] t(2) by auto
  have "get_balance s = sum_list (map cm_amount (nt_commitments ?old))"
    using old(2) by (simp add: balance_current note_ok_balance)
  then have sum: "sum_list (map cm_amount (nt_commitments (current_note s'))) = get_balance s + micro"
    by (simp add: t(4) m drawn_commitment_def)
  have ok: "note_ok (current_note s')"
    unfolding note_ok_def sum
    using old(2,3) m assms(5)
    by (auto simp: t(4) note_ok_def note_key_def [abs_def] drawn_commitment_def)
  then show ?thesis
    using sum m old t(3) assms(3) by (auto simp: ledger_ok_def balance_current note_ok_balance t(4) drawn_key)
qed

lemma subset_insert_disjoint: "A \<subseteq> insert x B \<Longrightarrow> B \<inter> F = {} \<Longrightarrow> x \<notin> F \<Longrightarrow> A \<inter> F = {}"
  by blast

lemma paid_ledger:
  assumes pay: "pay_micro_exact env to micro payer s = Inr ((updated, sig), s')"
    and ok: "draws_ok env" "ledger_ok (insert (draw_key env) fresh) s" "draw_key env \<notin> fresh"
  shows "ledger_ok fresh s' \<and> get_balance s' = get_balance s - micro \<and> 0 < micro"
proof -
  obtain n c w ix p where r: "pay_prepare env s to micro payer = Inr (c, w, ix, p)" "sk_note s = Some n"
    "s' = s\<lparr>sk_note := Some updated, sk_last_updated := Some updated\<rparr>" using pay by (elim pay_micro_exact_Inr)
  have cur: "current_note s = n" "current_note s' = updated" using r by (simp_all add: current_note_def default_to_def)
  have n: "note_ok n" "draw_key env \<notin> note_key ` set (nt_commitments n)"
    using ok(2) by (auto simp: ledger_ok_def cur)
  have t: "sk_tiers s' = sk_tiers s" using r(3) by simp
  have "0 < micro" using r(1) by (elim pay_prepare_Inr)
  moreover have up: "note_ok updated"
    "note_key ` set (nt_commitments updated) \<subseteq> insert (draw_key env) (note_key ` set (nt_commitments n))"
    using pay_keeps_note_ok [OF pay r(2) n(1) _ _ n(2)] draws_ok_nonempty [OF ok(1)] by simp_all
  moreover have "note_key ` set (nt_commitments updated) \<inter> fresh = {}"
    by (rule subset_insert_disjoint [OF up(2) _ ok(3)]) (use ok(2) in \<open>auto simp: ledger_ok_def cur\<close>)
  moreover have "get_note_balance (Some updated) = get_note_balance (Some n) - micro"
    using pay_conserves [OF pay r(2) n(1)] by (rule conjunct1)
  ultimately show ?thesis
    using t ok(2) by (simp add: ledger_ok_def balance_current cur)
qed

lemma call_ledger:
  assumes "draws_ok env" "ledger_ok (insert (draw_key env) fresh) s" "draw_key env \<notin> fresh"
    and "get_balance s + max 0 (moved (env, c) s) < 2 ^ 53"
  shows "ledger_ok fresh (after_call (env, c) s) \<and> get_balance (after_call (env, c) s) = get_balance s + moved (env, c) s"
proof (cases "run_call env c s")
  case (Inl e)
  then show ?thesis using assms(2) by (auto simp: after_call_def moved_def ledger_ok_def)
next
  case (Inr s')
  then have eq: "after_call (env, c) s = s'" "moved (env, c) s = default_to 0 (call_micro c)"
    by (simp_all add: after_call_def moved_def)
  from Inr assms(1) show ?thesis
  proof (cases rule: sdk_call_Inr)
    case (deposit amount)
    then obtain micro where m: "usdc_to_micro amount = Some micro" by (auto simp: deposited_def)
    then have "moved (env, c) s = micro" using eq deposit by (simp add: default_to_def)
    with deposited_ledger [OF deposit(2) assms(2,3) m] assms(4) show ?thesis by (simp add: eq(1))
  next
    case (pay to micro payer n sig)
    with paid_ledger [OF pay(2) assms(1-3)] show ?thesis by (simp add: eq default_to_def)
  qed
qed

lemma session_ledger:
  assumes "list_all (\<lambda>x. draws_ok (fst x)) ops" "distinct (map (\<lambda>x. draw_key (fst x)) ops)"
    and "ledger_ok (draw_key ` fst ` set ops) s" "get_balance s + sum_list (filter (\<lambda>m. 0 < m) (session_flow ops s)) < 2 ^ 53"
  shows "ledger_ok {} (sdk_session ops s) \<and> get_balance (sdk_session ops s) = get_balance s + sum_list (session_flow ops s)"
  using assms
proof (induction ops arbitrary: s)
  case Nil
  then show ?case by (simp add: sdk_session_def)
next
  case (Cons x ops)
  obtain env c where x: "x = (env, c)" by (cases x)
  let ?rest = "sum_list (filter (\<lambda>m. 0 < m) (session_flow ops (after_call x s)))"
  have "0 \<le> ?rest" by (intro sum_list_nonneg) auto
  then have room: "get_balance s + max 0 (moved x s) < 2 ^ 53" using Cons.prems(4) by (auto split: if_splits)
  have step: "ledger_ok (draw_key ` fst ` set ops) (after_call x s) \<and> get_balance (after_call x s) = get_balance s + moved x s"
    unfolding x by (rule call_ledger) (use Cons.prems room in \<open>auto simp: x\<close>)
  then have "ledger_ok {} (sdk_session ops (after_call x s))
     \<and> get_balance (sdk_session ops (after_call x s)) = get_balance (after_call x s) + sum_list (session_flow ops (after_call x s))"
    using Cons.prems by (intro Cons.IH) (auto split: if_splits)
  with step show ?case by (simp add: sdk_session_def)
qed

text \<open>A session for the witnesses: a deposit of one dollar, a payment of forty cents, and a call that fails.\<close>

definition toy_session :: "(sdk_env \<times> sdk_call) list" where
  "toy_session = [(toy_sdk_env, CallDeposit (Dyadic 1 0) toy_signer),
     (toy_sdk_env\<lparr>se_rnd1 := [9]\<rparr>, CallPayMicro (zeros 32) 400000 (Some toy_signer)),
     (toy_sdk_env\<lparr>se_rnd1 := [8]\<rparr>, CallPay (zeros 32) NonFinite None)]"

lemma toy_session_draws: "list_all (\<lambda>x. draws_ok (fst x)) toy_session"
  by (simp add: toy_session_def draws_ok_def toy_sdk_env_def)

lemma toy_session_fresh: "distinct (map (\<lambda>x. draw_key (fst x)) toy_session)"
  by (simp add: toy_session_def draw_key_def toy_sdk_env_def be_val_Cons nat_str_inject)

lemma toy_typed: "typed_sdk default_tiers (toy_sdk None)"
  by (simp add: typed_sdk_def toy_sdk_def)

lemma toy_flow: "session_flow toy_session (toy_sdk None) = [1000000, - 400000, 0]"
proof -
  let ?e2 = "toy_sdk_env\<lparr>se_rnd1 := [9]\<rparr>"
  have micro: "usdc_to_micro (Dyadic 1 0) = Some 1000000" using pick_tier_Inr [OF toy_tier] by simp
  obtain n s1 where dep: "sdk_deposit toy_sdk_env (Dyadic 1 0) toy_signer (toy_sdk None) = Inr (n, s1)"
    using toy_deposit_run by blast
  have "draws_ok toy_sdk_env" using toy_session_draws by (simp add: toy_session_def)
  from sdk_deposit_deposited [OF dep this] obtain d where d: "sk_note s1 = Some \<lparr>nt_version = note_version,
      nt_commitments = [drawn_commitment toy_sdk_env 1000000 d]\<rparr>"
    by (auto simp: deposited_def micro toy_sdk_def default_to_def empty_note_def dbl_safe safe_int_def
        simp del: usdc_to_micro.simps)
  let ?c = "drawn_commitment toy_sdk_env 1000000 d"
  have sel: "select_commitment 400000 (nt_commitments \<lparr>nt_version = note_version, nt_commitments = [?c]\<rparr>) = Some ?c" by (simp add: select_commitment_def drawn_commitment_def)
  have keys: "parse_bigint (cm_secret ?c) = Some (int (be_val (se_rnd1 toy_sdk_env)))"
    "parse_bigint (cm_nullifier ?c) = Some (int (be_val (se_rnd2 toy_sdk_env)))"
    by (simp_all add: drawn_commitment_def draw_key_def)
  obtain n2 s2 where pay: "pay_micro_exact ?e2 (zeros 32) 400000 (Some toy_signer) s1 = Inr ((n2, ''sig''), s2)"
    using toy_pay_general [where ?r1.0 = "[9]", OF refl _ d _ sel keys] by auto
  show ?thesis
    by (simp add: toy_session_def moved_def after_call_def dep pay pay_micro_def micro default_to_def sdk_pay_def del: usdc_to_micro.simps(1))
qed

section \<open>Properties\<close>

text \<open>
  C7. The note stays well-typed: from a fresh object, or one whose note is well-typed, every session of
  deposits and payments, whatever fails in it, ends with a well-typed note. Its text can be stored and
  read back, and every commitment in it hashes to a leaf, so no later payment fails on the note itself.
\<close>

theorem session_note_well_typed:
  assumes "tiers_ok tiers" "list_all (\<lambda>x. draws_ok (fst x)) ops" "typed_sdk tiers s"
  shows "typed_sdk tiers (sdk_session ops s)
     \<and> (\<forall>n. sk_note (sdk_session ops s) = Some n \<longrightarrow>
          (\<exists>stored. serialize_note n = Inr stored \<and> parse_note stored = Inr (note_json n) \<and> note_of_json (note_json n) = Some n)
        \<and> (\<forall>c \<in> set (nt_commitments n). \<exists>leaf. leaf_bytes P c = Inr leaf))"
proof -
  have typed: "typed_sdk tiers (sdk_session ops s)"
    using assms by (intro typed_session.session_keeps) (auto simp: list_all_iff)
  moreover have "(\<exists>stored. serialize_note n = Inr stored \<and> parse_note stored = Inr (note_json n) \<and> note_of_json (note_json n) = Some n)
        \<and> (\<forall>c \<in> set (nt_commitments n). \<exists>leaf. leaf_bytes P c = Inr leaf)"
    if "sk_note (sdk_session ops s) = Some n" for n
    using typed that by (auto intro: typed_leaf typed_stored simp: typed_sdk_def)
  ultimately show ?thesis by blast
qed

theorem session_note_well_typed_witness:
  "typed_sdk default_tiers (sdk_session toy_session (toy_sdk None))"
  using session_note_well_typed [OF default_tiers_ok toy_session_draws toy_typed] by blast

text \<open>
  C6. The balance is the ledger: over every session with fresh draws, whatever fails in it, the balance
  has grown by exactly the deposits and shrunk by exactly the payments that succeeded, as long as the
  deposits stay below the \<open>2 ^ 53\<close> micro-USDC that a double counts exactly.
\<close>

theorem session_balance_is_ledger:
  assumes "list_all (\<lambda>x. draws_ok (fst x)) ops" "distinct (map (\<lambda>x. draw_key (fst x)) ops)"
    and "ledger_ok (draw_key ` fst ` set ops) s" "get_balance s + sum_list (filter (\<lambda>m. 0 < m) (session_flow ops s)) < 2 ^ 53"
  shows "get_balance (sdk_session ops s) = get_balance s + sum_list (session_flow ops s)"
  using session_ledger [OF assms] by (rule conjunct2)

theorem session_balance_is_ledger_witness:
  "get_balance (sdk_session toy_session (toy_sdk None)) = 600000"
proof -
  have "ledger_ok (draw_key ` fst ` set toy_session) (toy_sdk None)" "get_balance (toy_sdk None) = 0"
    by (simp_all add: ledger_ok_def toy_sdk_def current_note_def default_to_def empty_note_def note_ok_def default_tiers_ok
        get_balance_def)
  with session_balance_is_ledger [OF toy_session_draws toy_session_fresh, of "toy_sdk None"] toy_flow show ?thesis by simp
qed

end
