(* ===== verification/WebStorage.thy ===== *)
theory WebStorage
  imports SdkNote
begin

text \<open>
  The helpers under \<open>qietr-web/app/_lib\<close>: the browser storage of \<open>storage.ts\<close> (the encrypted note and
  the activity log), \<open>confirm-tx.ts\<close>, and the cluster switch of \<open>explorer.ts\<close> and \<open>use-sdk.ts\<close>. The
  pages run in a browser whose storage takes every write; rendering on the server, where
  \<open>isBrowser\<close> is false, is not modelled.
\<close>

section \<open>storage.ts\<close>

record browser =
  br_storage :: "string \<rightharpoonup> string"
  br_downloads :: "(string \<times> string) list"
  br_events :: nat

definition fresh_browser :: browser where
  "fresh_browser = \<lparr>br_storage = Map.empty, br_downloads = [], br_events = 0\<rparr>"

definition key_note_blob :: string where
  "key_note_blob = ''qietr.note.v1.encrypted''"

definition key_activity :: string where
  "key_activity = ''qietr.activity.v1''"

definition set_item :: "string \<Rightarrow> string \<Rightarrow> browser \<Rightarrow> browser" where
  "set_item k v b = b\<lparr>br_storage := (br_storage b)(k \<mapsto> v)\<rparr>"

definition remove_item :: "string \<Rightarrow> browser \<Rightarrow> browser" where
  "remove_item k b = b\<lparr>br_storage := (br_storage b)(k := None)\<rparr>"

definition emit_activity_changed :: "browser \<Rightarrow> browser" where
  "emit_activity_changed b = b\<lparr>br_events := Suc (br_events b)\<rparr>"

definition load_encrypted_note :: "browser \<Rightarrow> string option" where
  "load_encrypted_note b = br_storage b key_note_blob"

definition save_encrypted_note :: "string \<Rightarrow> browser \<Rightarrow> browser" where
  "save_encrypted_note blob b = set_item key_note_blob blob b"

definition clear_encrypted_note :: "browser \<Rightarrow> browser" where
  "clear_encrypted_note b = remove_item key_note_blob b"

datatype activity_type = Backup | Restore | Clear | Deposit | Payment

datatype activity_status = StatusOk | StatusError

record activity =
  ac_type :: activity_type
  ac_status :: activity_status
  ac_detail :: "string option"

fun activity_type_text :: "activity_type \<Rightarrow> string" where
  "activity_type_text Backup = ''backup''"
| "activity_type_text Restore = ''restore''"
| "activity_type_text Clear = ''clear''"
| "activity_type_text Deposit = ''deposit''"
| "activity_type_text Payment = ''payment''"

fun activity_status_text :: "activity_status \<Rightarrow> string" where
  "activity_status_text StatusOk = ''ok''"
| "activity_status_text StatusError = ''error''"

text \<open>A stored entry: the caller's fields, then a fresh identifier and the time.\<close>

definition activity_json :: "string \<Rightarrow> int \<Rightarrow> activity \<Rightarrow> json" where
  "activity_json uuid now a =
     JObj ([(''type'', JStr (activity_type_text (ac_type a))), (''status'', JStr (activity_status_text (ac_status a)))]
       @ (case ac_detail a of None \<Rightarrow> [] | Some d \<Rightarrow> [(''detail'', JStr d)])
       @ [(''id'', JStr uuid), (''timestamp'', JNum (int_str 10 now))])"

definition load_activity :: "browser \<Rightarrow> json list" where
  "load_activity b =
     (case br_storage b key_activity of
        None \<Rightarrow> []
      | Some raw \<Rightarrow> if raw = [] then []
                    else (case json_parse raw of Some (JArr xs) \<Rightarrow> xs | _ \<Rightarrow> []))"

definition activity_limit :: nat where
  "activity_limit = 200"

definition append_activity :: "string \<Rightarrow> int \<Rightarrow> activity \<Rightarrow> browser \<Rightarrow> browser" where
  "append_activity uuid now a b =
     (let all = activity_json uuid now a # load_activity b;
          bounded = take activity_limit all
      in emit_activity_changed (set_item key_activity (json_print (JArr bounded)) b))"

definition clear_activity :: "browser \<Rightarrow> browser" where
  "clear_activity b = emit_activity_changed (remove_item key_activity b)"

definition download_blob :: "string \<Rightarrow> string \<Rightarrow> browser \<Rightarrow> browser" where
  "download_blob filename contents b = b\<lparr>br_downloads := br_downloads b @ [(filename, contents)]\<rparr>"

record note_summary =
  sm_commitment_count :: nat
  sm_total_micro_usdc :: int
  sm_by_tier :: "int \<rightharpoonup> nat"

definition summarize_note :: "shielded_note \<Rightarrow> note_summary" where
  "summarize_note n =
     (let (tiers, total) = fold (\<lambda>c (m, t). (m(cm_denom_id c \<mapsto> default_to 0 (m (cm_denom_id c)) + 1), dbl (t + cm_amount c)))
            (nt_commitments n) (Map.empty, 0)
      in \<lparr>sm_commitment_count = length (nt_commitments n), sm_total_micro_usdc = total, sm_by_tier = tiers\<rparr>)"

text \<open>
  \<open>toFixed\<close> of the non-negative Number \<open>m / 2 ^ k\<close>: the digits of \<open>n\<close>, where \<open>n / 10 ^ f\<close> is as close as
  possible and the larger one of two.
\<close>

definition to_fixed :: "nat \<Rightarrow> nat \<times> nat \<Rightarrow> string" where
  "to_fixed f x = (case x of (m, k) \<Rightarrow>
     (let n = nat (math_round (int (m * 10 ^ f)) k);
          ds = pad_start (Suc f) (CHR ''0'') (nat_str 10 n)
      in take (length ds - f) ds @ (if f = 0 then [] else ''.'' @ drop (length ds - f) ds)))"

definition format_usdc :: "nat \<Rightarrow> string" where
  "format_usdc micro = (let x = dbl_quot micro 1000000 in
     to_fixed (if fst x < 2 ^ snd x then 6 else 2) x @ '' USDC'')"

section \<open>explorer.ts and use-sdk.ts\<close>

definition cluster_env :: "string option \<Rightarrow> string" where
  "cluster_env v = to_lower (default_to ''devnet'' v)"

definition cluster_suffix :: "string option \<Rightarrow> string" where
  "cluster_suffix v = (let raw = cluster_env v in
     if raw = ''mainnet'' \<or> raw = ''mainnet-beta'' then ''''
     else if raw = ''localnet'' \<or> raw = ''localhost'' then ''?cluster=custom&customUrl=http%3A%2F%2Flocalhost%3A8899''
     else ''?cluster=devnet'')"

definition explorer_tx_url :: "string option \<Rightarrow> string \<Rightarrow> string" where
  "explorer_tx_url v sig = ''https://explorer.solana.com/tx/'' @ sig @ cluster_suffix v"

definition explorer_address_url :: "string option \<Rightarrow> string \<Rightarrow> string" where
  "explorer_address_url v addr = ''https://explorer.solana.com/address/'' @ addr @ cluster_suffix v"

definition read_cluster :: "string option \<Rightarrow> cluster" where
  "read_cluster v = (let raw = cluster_env v in
     if raw = ''mainnet'' \<or> raw = ''mainnet-beta'' then MainnetBeta
     else if raw = ''localnet'' \<or> raw = ''localhost'' then Localnet
     else Devnet)"

section \<open>confirm-tx.ts\<close>

text \<open>
  An entry of \<open>getSignatureStatuses\<close>: missing, with the program's error, or with its confirmation
  status. \<open>None\<close> in the answers of the node is a request that throws.
\<close>

datatype tx_status = Missing | Errored string | Seen string

datatype tx_state = Confirmed | Failed | Pending

definition tx_state_of :: "tx_status \<Rightarrow> tx_state" where
  "tx_state_of st =
     (case st of
        Missing \<Rightarrow> Pending
      | Errored _ \<Rightarrow> Failed
      | Seen c \<Rightarrow> if c = ''confirmed'' \<or> c = ''finalized'' then Confirmed else Pending)"

datatype confirm_error = RpcFailed | TxExpired string | TxFailed string "string option"

text \<open>
  The node as the loop meets it: the status and the height it answers in each round, and the status
  when the loop looks once more, after a failure or after the expiry of the blockhash. The transaction
  is sent again between the rounds; what those calls answer is ignored.
\<close>

record confirm_net =
  cn_send :: "string option"
  cn_status :: "nat \<Rightarrow> tx_status option"
  cn_height :: "nat \<Rightarrow> nat option"
  cn_again :: "nat \<Rightarrow> tx_status option"

definition failed_error :: "string \<Rightarrow> tx_status option \<Rightarrow> confirm_error" where
  "failed_error sig st = (case st of None \<Rightarrow> RpcFailed
     | Some s \<Rightarrow> TxFailed sig (case s of Errored e \<Rightarrow> Some e | _ \<Rightarrow> None))"

partial_function (option) confirm_loop ::
    "confirm_net \<Rightarrow> string \<Rightarrow> nat \<Rightarrow> nat \<Rightarrow> (confirm_error + string) option" where
  "confirm_loop net sig lvh n =
     (case cn_status net n of
        None \<Rightarrow> Some (Inl RpcFailed)
      | Some st \<Rightarrow>
          (case tx_state_of st of
             Confirmed \<Rightarrow> Some (Inr sig)
           | Failed \<Rightarrow> Some (Inl (failed_error sig (cn_again net n)))
           | Pending \<Rightarrow>
               (case cn_height net n of
                  None \<Rightarrow> Some (Inl RpcFailed)
                | Some height \<Rightarrow>
                    if height > lvh
                    then (case cn_again net n of
                            None \<Rightarrow> Some (Inl RpcFailed)
                          | Some st' \<Rightarrow> if tx_state_of st' = Confirmed then Some (Inr sig) else Some (Inl (TxExpired sig)))
                    else confirm_loop net sig lvh (Suc n))))"

definition send_and_confirm :: "confirm_net \<Rightarrow> nat \<Rightarrow> (confirm_error + string) option" where
  "send_and_confirm net lvh =
     (case cn_send net of None \<Rightarrow> Some (Inl RpcFailed) | Some sig \<Rightarrow> confirm_loop net sig lvh 0)"

section \<open>The log keeps the newest entries\<close>

definition log_ok :: "browser \<Rightarrow> bool" where
  "log_ok b \<longleftrightarrow> (\<forall>j \<in> set (load_activity b). json_ok j)"

lemma activity_json_ok: "json_ok (activity_json uuid now a)"
  by (simp add: activity_json_def json_number_int_str split: option.split)

lemma load_stored_array:
  assumes "\<forall>j \<in> set xs. json_ok j"
  shows "load_activity (emit_activity_changed (set_item key_activity (json_print (JArr xs)) b)) = xs"
proof -
  have "json_parse (json_print (JArr xs)) = Some (JArr xs)" using assms by (intro json_roundtrip) (simp add: list_all_iff)
  then show ?thesis by (simp add: load_activity_def emit_activity_changed_def set_item_def)
qed

lemma load_appended:
  assumes "log_ok b"
  shows "load_activity (append_activity uuid now a b) = take activity_limit (activity_json uuid now a # load_activity b)"
  unfolding append_activity_def Let_def
  by (rule load_stored_array) (use assms activity_json_ok in \<open>auto simp: log_ok_def dest!: in_set_takeD\<close>)

lemma log_ok_append: "log_ok b \<Longrightarrow> log_ok (append_activity uuid now a b)"
  using activity_json_ok [of uuid now a] by (auto simp: log_ok_def load_appended dest!: in_set_takeD)

lemma append_keeps_note [simp]: "load_encrypted_note (append_activity uuid now a b) = load_encrypted_note b"
  by (simp add: load_encrypted_note_def append_activity_def emit_activity_changed_def set_item_def key_note_blob_def
      key_activity_def Let_def)

lemma save_keeps_log [simp]: "load_activity (save_encrypted_note blob b) = load_activity b"
  by (simp add: load_activity_def save_encrypted_note_def set_item_def key_note_blob_def key_activity_def)

lemma load_saved [simp]: "load_encrypted_note (save_encrypted_note blob b) = Some blob"
  by (simp add: load_encrypted_note_def save_encrypted_note_def set_item_def)

text \<open>
  The activity log holds the newest 200 entries: whatever is appended to an empty storage, loading
  the log gives the appended entries, newest first, cut off after 200.
\<close>

theorem activity_log_keeps_newest:
  "load_activity (fold (\<lambda>(uuid, now, a). append_activity uuid now a) es (b\<lparr>br_storage := (br_storage b)(key_activity := None)\<rparr>))
     = take activity_limit (rev (map (\<lambda>(uuid, now, a). activity_json uuid now a) es))"
proof -
  let ?b = "b\<lparr>br_storage := (br_storage b)(key_activity := None)\<rparr>"
  let ?run = "\<lambda>es. fold (\<lambda>(uuid, now, a). append_activity uuid now a) es ?b"
  have "log_ok (?run es) \<and> load_activity (?run es) = take activity_limit (rev (map (\<lambda>(uuid, now, a). activity_json uuid now a) es))"
  proof (induction es rule: rev_induct)
    case Nil
    then show ?case by (simp add: log_ok_def load_activity_def)
  next
    case (snoc e es)
    obtain uuid now a where e: "e = (uuid, now, a)" by (cases e)
    show ?case
      using snoc by (simp add: e log_ok_append load_appended take_Cons' take_take min_def)
  qed
  then show ?thesis by simp
qed

section \<open>Confirmation ends with the right verdict\<close>

lemma confirm_loop_ends:
  assumes "n \<le> k" "cn_height net k = Some h" "h > lvh"
  shows "confirm_loop net sig lvh n \<noteq> None"
  using assms(1)
proof (induction n rule: inc_induct)
  case base
  show ?case
    using assms(2,3) by (subst confirm_loop.simps) (auto split: option.splits tx_state.splits)
next
  case (step n)
  then show ?case by (subst confirm_loop.simps) (auto split: option.splits tx_state.splits)
qed

text \<open>What may be concluded from each result.\<close>

definition verdict_ok :: "confirm_net \<Rightarrow> string \<Rightarrow> nat \<Rightarrow> confirm_error + string \<Rightarrow> bool" where
  "verdict_ok net sig lvh r \<longleftrightarrow>
     (case r of
        Inr s \<Rightarrow> s = sig \<and> (\<exists>k st. (cn_status net k = Some st \<or> cn_again net k = Some st) \<and> tx_state_of st = Confirmed)
      | Inl RpcFailed \<Rightarrow> \<exists>k. cn_status net k = None \<or> cn_height net k = None \<or> cn_again net k = None
      | Inl (TxFailed s e) \<Rightarrow> s = sig \<and> (\<exists>k m. cn_status net k = Some (Errored m))
      | Inl (TxExpired s) \<Rightarrow> s = sig \<and> (\<exists>k h st. cn_height net k = Some h \<and> h > lvh
          \<and> cn_again net k = Some st \<and> tx_state_of st \<noteq> Confirmed))"

lemma tx_state_Failed: "tx_state_of st = Failed \<longleftrightarrow> (\<exists>m. st = Errored m)"
  by (auto simp: tx_state_of_def split: tx_status.splits)

lemma verdict_okI:
  "cn_status net k = None \<Longrightarrow> verdict_ok net sig lvh (Inl RpcFailed)"
  "cn_height net k = None \<Longrightarrow> verdict_ok net sig lvh (Inl RpcFailed)"
  "cn_again net k = None \<Longrightarrow> verdict_ok net sig lvh (Inl RpcFailed)"
  "cn_status net k = Some st \<Longrightarrow> tx_state_of st = Confirmed \<Longrightarrow> verdict_ok net sig lvh (Inr sig)"
  "cn_again net k = Some st \<Longrightarrow> tx_state_of st = Confirmed \<Longrightarrow> verdict_ok net sig lvh (Inr sig)"
  "cn_status net k = Some (Errored m) \<Longrightarrow> verdict_ok net sig lvh (Inl (TxFailed sig e))"
  "cn_height net k = Some h \<Longrightarrow> h > lvh \<Longrightarrow> cn_again net k = Some st \<Longrightarrow> tx_state_of st \<noteq> Confirmed
     \<Longrightarrow> verdict_ok net sig lvh (Inl (TxExpired sig))"
  unfolding verdict_ok_def by (simp; blast)+

lemma confirm_loop_verdict: "confirm_loop net sig lvh n = Some r \<Longrightarrow> verdict_ok net sig lvh r"
proof (rule confirm_loop.raw_induct [of "\<lambda>net sig lvh n r. verdict_ok net sig lvh r" net sig lvh n r])
  fix loop :: "confirm_net \<Rightarrow> string \<Rightarrow> nat \<Rightarrow> nat \<Rightarrow> (confirm_error + string) option"
    and net :: confirm_net and sig :: string and lvh n :: nat and r :: "confirm_error + string"
  assume IH: "\<And>net sig lvh n r. loop net sig lvh n = Some r \<Longrightarrow> verdict_ok net sig lvh r"
  assume step: "(case cn_status net n of
        None \<Rightarrow> Some (Inl RpcFailed)
      | Some st \<Rightarrow>
          (case tx_state_of st of
             Confirmed \<Rightarrow> Some (Inr sig)
           | Failed \<Rightarrow> Some (Inl (failed_error sig (cn_again net n)))
           | Pending \<Rightarrow>
               (case cn_height net n of
                  None \<Rightarrow> Some (Inl RpcFailed)
                | Some height \<Rightarrow>
                    if height > lvh
                    then (case cn_again net n of
                            None \<Rightarrow> Some (Inl RpcFailed)
                          | Some st' \<Rightarrow> if tx_state_of st' = Confirmed then Some (Inr sig) else Some (Inl (TxExpired sig)))
                    else loop net sig lvh (Suc n)))) = Some r"
  show "verdict_ok net sig lvh r"
    using step IH
    by (auto simp: failed_error_def tx_state_Failed intro: verdict_okI split: option.splits tx_state.splits if_splits)
qed

text \<open>
  C37. Waiting for a transaction ends, with a verdict the node's answers bear out: as soon as the
  confirmed height passes the last valid one, the loop has returned. It returns the signature only
  if a status said confirmed or finalized, reports a failure only if one carried an error, and expiry
  only after the height had passed and a further look did not find the transaction confirmed.
\<close>

theorem confirmation_ends:
  assumes "cn_send net = Some sig" "cn_height net k = Some h" "h > lvh"
  shows "\<exists>r. send_and_confirm net lvh = Some r \<and> verdict_ok net sig lvh r"
proof -
  obtain r where "confirm_loop net sig lvh 0 = Some r" using confirm_loop_ends [OF le0 assms(2,3)] by blast
  then show ?thesis using confirm_loop_verdict assms(1) by (auto simp: send_and_confirm_def)
qed

text \<open>A node whose third answer confirms, in time.\<close>

definition demo_confirm_net :: confirm_net where
  "demo_confirm_net = \<lparr>cn_send = Some ''sig'', cn_status = (\<lambda>n. Some (if n < 2 then Missing else Seen ''confirmed'')),
     cn_height = (\<lambda>n. Some (100 + n)), cn_again = (\<lambda>_. Some Missing)\<rparr>"

theorem confirmation_ends_witness:
  "\<exists>r. send_and_confirm demo_confirm_net 150 = Some r \<and> verdict_ok demo_confirm_net ''sig'' 150 r"
  using confirmation_ends [of demo_confirm_net "''sig''" 60 160 150] by (simp add: demo_confirm_net_def)

text \<open>
  A transaction that the program rejected between the two looks of the last round is reported as
  expired, although its error is on chain.
\<close>

lemma late_failure_reported_as_expired:
  assumes "cn_send net = Some sig" "cn_status net 0 = Some Missing" "cn_height net 0 = Some h" "h > lvh"
    and "cn_again net 0 = Some (Errored e)"
  shows "send_and_confirm net lvh = Some (Inl (TxExpired sig))"
  using assms by (simp add: send_and_confirm_def confirm_loop.simps tx_state_of_def)

end
