(* ===== verification/WebWallet.thy ===== *)
theory WebWallet
  imports WebStorage X402 JsNumber
begin

text \<open>
  The wallet pages of \<open>qietr-web/app\<close>: the two payment forms, the deposit page and the wallet balance, each handler with everything it does to the browser's storage and to the SDK
  instance of the page. Form texts are ASCII. A decrypted object that is not a note of the type the
  code declares for it is outside the model; the handlers are \<open>None\<close> there.
\<close>

section \<open>The pages\<close>

text \<open>
  What a handler meets outside: Web Crypto and the random bytes of an encryption, \<open>randomUUID\<close>, the
  clock, \<open>new PublicKey\<close>, and the texts of numbers and errors.
\<close>

record web_env =
  wb_crypto :: "note_crypto option"
  wb_salt :: bytes
  wb_nonce :: bytes
  wb_uuid :: string
  wb_now :: int
  wb_stamp :: string
  wb_parse_key :: "string \<Rightarrow> pubkey option"
  wb_number :: "js_float \<Rightarrow> string"
  wb_note_text :: "note_error \<Rightarrow> string"
  wb_sdk_text :: "sdk_error \<Rightarrow> string"
  wb_x402_text :: "x402_error \<Rightarrow> string"

datatype page_status = Idle | Unlocking | Submitting | Success string | Problem string

definition log_activity :: "web_env \<Rightarrow> activity_type \<Rightarrow> activity_status \<Rightarrow> string option \<Rightarrow> browser \<Rightarrow> browser" where
  "log_activity env ty st detail b = append_activity (wb_uuid env) (wb_now env) \<lparr>ac_type = ty, ac_status = st, ac_detail = detail\<rparr> b"

definition ellipsis :: string where
  "ellipsis = utf8_of 8230"

definition mid_dot :: string where
  "mid_dot = '' '' @ utf8_of 183 @ '' ''"

definition slice_end :: "nat \<Rightarrow> string \<Rightarrow> string" where
  "slice_end n s = drop (length s - n) s"

definition web_encrypt :: "web_env \<Rightarrow> shielded_note \<Rightarrow> string \<Rightarrow> note_error + string" where
  "web_encrypt env n passphrase = encrypt_note (wb_crypto env) (wb_salt env) (wb_nonce env) n passphrase"

definition no_note_text :: string where
  "no_note_text = ''No encrypted note found. Restore or create one in /app/note first.''"

text \<open>\<open>unlockAndSetNote\<close> up to \<open>setNote\<close>: the object in the stored blob, or the message shown.\<close>

definition unlock_stored :: "web_env \<Rightarrow> string \<Rightarrow> browser \<Rightarrow> string + json" where
  "unlock_stored env passphrase b =
     (case truthy (load_encrypted_note b) of
        None \<Rightarrow> Inl no_note_text
      | Some blob \<Rightarrow> (case decrypt_note (wb_crypto env) blob passphrase of
                        Inl e \<Rightarrow> Inl (wb_note_text env e)
                      | Inr obj \<Rightarrow> Inr obj))"

subsection \<open>Direct payment\<close>

definition pay_detail :: "web_env \<Rightarrow> js_float \<Rightarrow> string \<Rightarrow> string \<Rightarrow> string" where
  "pay_detail env amt recipient sig = wb_number env amt @ '' USDC to '' @ take 4 recipient @ ellipsis
     @ slice_end 4 recipient @ mid_dot @ take 8 sig @ ellipsis"

definition pay_failed :: "web_env \<Rightarrow> string \<Rightarrow> browser \<Rightarrow> page_status \<times> browser" where
  "pay_failed env message b = (Problem message, log_activity env Payment StatusError (Some (take 120 message)) b)"

definition pay_and_save ::
    "web_env \<Rightarrow> sdk_env \<Rightarrow> signer \<Rightarrow> string \<Rightarrow> pubkey \<Rightarrow> js_float \<Rightarrow> string \<Rightarrow> sdk \<Rightarrow> browser \<Rightarrow> (page_status \<times> browser) \<times> sdk" where
  "pay_and_save env senv sg recipient to amt passphrase s b =
     (case sdk_pay senv to amt (Some sg) s of
        Inl e \<Rightarrow> (pay_failed env (wb_sdk_text env e) b, s)
      | Inr ((updated, sig), s') \<Rightarrow>
          (case web_encrypt env updated passphrase of
             Inl e \<Rightarrow> (pay_failed env (wb_note_text env e) b, s')
           | Inr blob \<Rightarrow> ((Success sig, log_activity env Payment StatusOk (Some (pay_detail env amt recipient sig))
               (save_encrypted_note blob b)), s')))"

definition handle_pay ::
    "web_env \<Rightarrow> sdk_env \<Rightarrow> sdk option \<Rightarrow> signer option \<Rightarrow> string \<Rightarrow> string \<Rightarrow> string \<Rightarrow> browser
      \<Rightarrow> ((page_status \<times> browser) \<times> sdk option) option" where
  "handle_pay env senv sdk signer recipient amount passphrase b =
     (case (sdk, signer) of
        (Some s, Some sg) \<Rightarrow>
          (case wb_parse_key env recipient of
             None \<Rightarrow> Some ((Problem ''Invalid Solana address.'', b), sdk)
           | Some to \<Rightarrow>
               let amt = parse_float amount in
               if \<not> positive_number amt then Some ((Problem ''Enter a positive USDC amount.'', b), sdk)
               else (case unlock_stored env passphrase b of
                       Inl message \<Rightarrow> Some ((Problem message, b), sdk)
                     | Inr obj \<Rightarrow>
                         map_option (\<lambda>n. let (r, s') = pay_and_save env senv sg recipient to amt passphrase (set_note n s) b
                                          in (r, Some s')) (note_of_json obj)))
      | _ \<Rightarrow> Some ((Problem ''Connect a wallet first.'', b), sdk))"

subsection \<open>The x402 form\<close>

text \<open>
  \<open>body_text\<close> reads the body of the final response (\<open>Inl\<close> its message where that throws). The ceiling is computed
  outside the \<open>try\<close>: a product that is not finite leaves the form in its unlocking state.
\<close>

definition fetch_failed :: "web_env \<Rightarrow> string \<Rightarrow> browser \<Rightarrow> page_status \<times> browser" where
  "fetch_failed env message b =
     (Problem message, log_activity env Payment StatusError (Some (''x402'' @ mid_dot @ take 100 message)) b)"

definition is_ok :: "nat \<Rightarrow> bool" where
  "is_ok status \<longleftrightarrow> 200 \<le> status \<and> status < 300"

definition fetch_done ::
    "web_env \<Rightarrow> string \<Rightarrow> string \<Rightarrow> shielded_note option \<Rightarrow> nat \<Rightarrow> browser \<Rightarrow> page_status \<times> browser" where
  "fetch_done env url passphrase updated status b =
     (case (case updated of None \<Rightarrow> Inr b
            | Some n \<Rightarrow> (case web_encrypt env n passphrase of Inl e \<Rightarrow> Inl e | Inr blob \<Rightarrow> Inr (save_encrypted_note blob b))) of
        Inl e \<Rightarrow> fetch_failed env (wb_note_text env e) b
      | Inr b' \<Rightarrow> (Success [], log_activity env Payment (if is_ok status then StatusOk else StatusError)
          (Some (''x402 '' @ take 60 url @ mid_dot @ nat_str 10 status)) b'))"

definition fetch_and_save ::
    "web_env \<Rightarrow> ('m, wallet) x402_env \<Rightarrow> wrap_options \<Rightarrow> (response402 \<Rightarrow> string + string) \<Rightarrow> string \<Rightarrow> string
      \<Rightarrow> 'm \<Rightarrow> wallet \<Rightarrow> browser \<Rightarrow> (page_status \<times> browser) \<times> 'm \<times> wallet" where
  "fetch_and_save env xenv opts body_text url passphrase m w b =
     (case wrap_fetch xenv opts url False m w of
        (Inl e, m', w', _) \<Rightarrow> (fetch_failed env (wb_x402_text env e) b, m', w')
      | (Inr res, m', w', _) \<Rightarrow>
          (case body_text res of
             Inl message \<Rightarrow> (fetch_failed env message b, m', w')
           | Inr _ \<Rightarrow> (fetch_done env url passphrase (sk_last_updated (snd w')) (rs_status res) b, m', w')))"

definition handle_fetch ::
    "web_env \<Rightarrow> (pubkey \<Rightarrow> string) \<Rightarrow> ('m, wallet) x402_env \<Rightarrow> (response402 \<Rightarrow> string + string) \<Rightarrow> bool
      \<Rightarrow> string \<Rightarrow> string \<Rightarrow> string \<Rightarrow> 'm \<Rightarrow> wallet option \<Rightarrow> browser
      \<Rightarrow> ((page_status \<times> browser) \<times> 'm \<times> wallet option) option" where
  "handle_fetch env b58 xenv body_text has_signer url max_spend passphrase m w b =
     (if \<not> has_signer \<or> w = None then Some ((Problem ''Connect a wallet first.'', b), m, w)
      else (case unlock_stored env passphrase b of
              Inl message \<Rightarrow> Some ((Problem message, b), m, w)
            | Inr obj \<Rightarrow>
                (case note_of_json obj of
                   None \<Rightarrow> None
                 | Some n \<Rightarrow>
                     let w1 = apsnd (set_note n) (the w); top = js_number max_spend in
                     if \<not> positive_number top then Some ((Problem ''Set a positive max spend (USDC).'', b), m, Some w1)
                     else (case usdc_to_micro top of
                             None \<Rightarrow> Some ((Unlocking, b), m, Some w1)
                           | Some max_micro \<Rightarrow>
                               let (r, m', w') = fetch_and_save env xenv
                                     (sdk_wrap_options b58 (snd w1) None None max_micro None None)
                                     body_text url passphrase m w1 b
                               in Some (r, m', Some w')))))"

subsection \<open>The deposit page\<close>

record tier_option =
  to_label :: string
  to_amount :: js_float
  to_denom_id :: nat

definition tier_options :: "tier_option list" where
  "tier_options =
     [\<lparr>to_label = ''0.1 USDC'', to_amount = decimal_float (False, 1, -1), to_denom_id = 0\<rparr>,
      \<lparr>to_label = ''1 USDC'', to_amount = Dyadic 1 0, to_denom_id = 1\<rparr>,
      \<lparr>to_label = ''10 USDC'', to_amount = Dyadic 10 0, to_denom_id = 2\<rparr>,
      \<lparr>to_label = ''100 USDC'', to_amount = Dyadic 100 0, to_denom_id = 3\<rparr>]"

definition handle_deposit ::
    "web_env \<Rightarrow> sdk_env \<Rightarrow> sdk option \<Rightarrow> signer option \<Rightarrow> nat \<Rightarrow> browser \<Rightarrow> (page_status \<times> browser) \<times> sdk option" where
  "handle_deposit env senv sdk signer selected b =
     (let tier = tier_options ! selected in
      case (sdk, signer) of
        (Some s, Some sg) \<Rightarrow>
          (case sdk_deposit senv (to_amount tier) sg s of
             Inl e \<Rightarrow> let message = wb_sdk_text env e in
               ((Problem message, log_activity env Deposit StatusError (Some (to_label tier @ mid_dot @ take 80 message)) b), sdk)
           | Inr (_, s') \<Rightarrow> let sig = default_to ''unknown'' (sk_last_deposit_sig s') in
               ((Success sig, log_activity env Deposit StatusOk (Some (to_label tier @ mid_dot @ take 8 sig @ ellipsis)) b), Some s'))
      | _ \<Rightarrow> ((Problem ''Connect a wallet first.'', b), sdk))"

subsection \<open>The SDK instance of a page and the wallet balance\<close>

text \<open>The instance is made from the build's variables and the wallet adapter's endpoint, or not at all.\<close>

definition use_qietr_sdk :: "string option \<Rightarrow> string option \<Rightarrow> string option \<Rightarrow> string \<Rightarrow> sdk option" where
  "use_qietr_sdk cluster_var indexer_url prover_path endpoint =
     (if truthy indexer_url = None \<or> truthy prover_path = None then None
      else (case sdk_new \<lparr>sc_cluster = read_cluster cluster_var, sc_relayer_url = None, sc_prover_path = prover_path,
                sc_rpc_url = Some endpoint, sc_usdc_mint = None, sc_program_id = None, sc_indexer_url = indexer_url,
                sc_tiers = None\<rparr> of Inl _ \<Rightarrow> None | Inr s \<Rightarrow> Some s))"

definition usdc_mint_for_cluster :: "string option \<Rightarrow> pubkey" where
  "usdc_mint_for_cluster v = (let raw = cluster_env v in
     if raw = ''mainnet'' \<or> raw = ''mainnet-beta'' then usdc_mint_mainnet else usdc_mint_devnet)"

datatype balance_state = BalanceIdle | BalanceLoading | BalanceLoaded js_float js_float | BalanceProblem string

text \<open>
  \<open>lamports\<close> is the answer to \<open>getBalance\<close> or the message of its error; \<open>tokens\<close> the \<open>uiAmount\<close> of a token
  account, \<open>None\<close> where the request fails, as for an account that does not exist.
\<close>

definition refresh_balance ::
    "pda_fun \<Rightarrow> string option \<Rightarrow> signer option \<Rightarrow> (pubkey \<Rightarrow> string + nat) \<Rightarrow> (pubkey \<Rightarrow> js_float option option) \<Rightarrow> balance_state" where
  "refresh_balance fpa cluster_var signer lamports tokens =
     (case signer of
        None \<Rightarrow> BalanceProblem ''Connect a wallet first.''
      | Some sg \<Rightarrow>
          (case lamports (sg_key sg) of
             Inl message \<Rightarrow> BalanceProblem message
           | Inr n \<Rightarrow>
               let (m, k) = dbl_quot n 1000000000;
                   ata = find_associated_token_address fpa (sg_key sg) (usdc_mint_for_cluster cluster_var);
                   usdc = (case tokens ata of None \<Rightarrow> Dyadic 0 0 | Some amount \<Rightarrow> default_to (Dyadic 0 0) amount)
               in BalanceLoaded (Dyadic (int m) k) usdc))"

text \<open>What the balance card does when the wallet's connection or address changes.\<close>

definition balance_effect ::
    "pda_fun \<Rightarrow> string option \<Rightarrow> signer option \<Rightarrow> bool \<Rightarrow> (pubkey \<Rightarrow> string + nat) \<Rightarrow> (pubkey \<Rightarrow> js_float option option) \<Rightarrow> balance_state" where
  "balance_effect fpa cluster_var signer connected lamports tokens =
     (if \<not> connected then BalanceIdle else refresh_balance fpa cluster_var signer lamports tokens)"

section \<open>Stored notes\<close>

lemma log_keeps_note [simp]: "load_encrypted_note (log_activity env ty st d b) = load_encrypted_note b"
  by (simp add: log_activity_def)

lemma append_keeps_downloads [simp]: "br_downloads (append_activity uuid now a b) = br_downloads b"
  by (simp add: append_activity_def emit_activity_changed_def set_item_def Let_def)

lemma log_keeps_downloads [simp]: "br_downloads (log_activity env ty st d b) = br_downloads b"
  by (simp add: log_activity_def)

lemma storage_downloads [simp]:
  "br_downloads (save_encrypted_note blob b) = br_downloads b"
  "br_downloads (clear_encrypted_note b) = br_downloads b"
  "br_downloads (download_blob f c b) = br_downloads b @ [(f, c)]"
  by (simp_all add: save_encrypted_note_def clear_encrypted_note_def set_item_def remove_item_def download_blob_def)

lemma storage_note [simp]:
  "load_encrypted_note (clear_encrypted_note b) = None"
  "load_encrypted_note (download_blob f c b) = load_encrypted_note b"
  by (simp_all add: load_encrypted_note_def clear_encrypted_note_def remove_item_def download_blob_def)

text \<open>A blob opens to a note under some passphrase.\<close>

definition opens_to :: "note_crypto \<Rightarrow> string \<Rightarrow> string \<Rightarrow> shielded_note \<Rightarrow> bool" where
  "opens_to cr blob pp n \<longleftrightarrow> (\<exists>obj. decrypt_note (Some cr) blob pp = Inr obj \<and> note_of_json obj = Some n)"

lemma opens_toI: "decrypt_note (Some cr) blob pp = Inr obj \<Longrightarrow> note_of_json obj = Some n \<Longrightarrow> opens_to cr blob pp n"
  by (auto simp: opens_to_def)

lemma opens_to_ex:
  "decrypt_note (Some cr) blob pp = Inr obj \<Longrightarrow> note_of_json obj = Some n \<Longrightarrow> \<exists>pp. opens_to cr blob pp n"
  by (auto simp: opens_to_def)

definition web_ok :: "note_crypto \<Rightarrow> web_env \<Rightarrow> bool" where
  "web_ok cr env \<longleftrightarrow> crypto_ok cr \<and> wb_crypto env = Some cr \<and> length (wb_salt env) = 16 \<and> length (wb_nonce env) = 12"

lemma opens_version: "opens_to cr blob pp n \<Longrightarrow> nt_version n = note_version"
  by (auto simp: opens_to_def dest: decrypted_version)

lemma web_encrypt_ok:
  assumes "web_ok cr env" "nt_version n = note_version"
  obtains blob where "web_encrypt env n pp = Inr blob" "opens_to cr blob pp n"
  using encrypted_note_opens [of cr "wb_salt env" "wb_nonce env" n pp] assms
  by (auto simp: web_ok_def web_encrypt_def opens_to_def)

section \<open>What the payment and deposit forms keep\<close>

lemma unlock_stored_Inr:
  assumes "unlock_stored env pp b = Inr obj" "wb_crypto env = Some cr" "note_of_json obj = Some n"
  shows "\<exists>blob. load_encrypted_note b = Some blob \<and> opens_to cr blob pp n"
  using assms by (auto simp: unlock_stored_def truthy_def split: option.splits sum.splits if_splits intro: opens_toI)

lemma pay_and_save_cases:
  assumes w: "web_ok cr env" and n: "nt_version n = note_version" "note_ok n"
    and run: "pay_and_save env senv sg recipient to amt pp (set_note n s) b = ((st, b'), s')"
  shows "(\<exists>message. st = Problem message) \<and> load_encrypted_note b' = load_encrypted_note b
     \<or> (\<exists>sig blob n' micro. st = Success sig \<and> load_encrypted_note b' = Some blob \<and> opens_to cr blob pp n'
          \<and> sk_note s' = Some n' \<and> usdc_to_micro amt = Some micro
          \<and> get_note_balance (Some n') = get_note_balance (Some n) - micro)"
proof (cases "sdk_pay senv to amt (Some sg) (set_note n s)")
  case (Inl e)
  then show ?thesis using run by (auto simp: pay_and_save_def pay_failed_def)
next
  case (Inr r)
  obtain updated sig t where r: "r = ((updated, sig), t)" by (cases r) auto
  obtain micro where micro: "usdc_to_micro amt = Some micro"
    and pay: "pay_micro_exact senv to micro (Some sg) (set_note n s) = Inr ((updated, sig), t)"
    using Inr by (auto simp: sdk_pay_def r bindE_Inr_iff optE_Inr_iff)
  have loaded: "sk_note (set_note n s) = Some n" by (simp add: set_note_def)
  have c: "get_note_balance (Some updated) = get_note_balance (Some n) - micro" "sk_note t = Some updated"
    using pay_conserves [OF pay loaded n(2)] by blast+
  have "nt_version updated = note_version"
    using pay loaded n(1) by (auto elim!: pay_micro_exact_Inr dest!: pay_settle_Inr)
  then obtain blob where blob: "web_encrypt env updated pp = Inr blob" "opens_to cr blob pp updated"
    using web_encrypt_ok [OF w] by blast
  show ?thesis
    using run Inr blob c micro by (auto simp: pay_and_save_def r)
qed

text \<open>
  C15. A direct payment leaves the right note behind: if the stored blob opens under the passphrase to
  the note \<open>n\<close>, then either the form reports a problem and the stored blob is the same, or it reports
  success and the stored blob opens under the same passphrase to the SDK's updated note, whose balance
  is that of \<open>n\<close> less the amount in the form.
\<close>

theorem direct_payment_saves_note:
  assumes w: "web_ok cr env" and stored: "unlock_stored env pp b = Inr obj" "note_of_json obj = Some n" "note_ok n"
    and run: "handle_pay env senv (Some s) (Some sg) recipient amount pp b = Some ((st, b'), s')"
  shows "(\<exists>message. st = Problem message) \<and> load_encrypted_note b' = load_encrypted_note b
     \<or> (\<exists>sig blob n' s1 micro. st = Success sig \<and> s' = Some s1 \<and> sk_note s1 = Some n'
          \<and> load_encrypted_note b' = Some blob \<and> opens_to cr blob pp n'
          \<and> usdc_to_micro (parse_float amount) = Some micro
          \<and> get_note_balance (Some n') = get_note_balance (Some n) - micro)"
proof -
  have "wb_crypto env = Some cr" using w by (simp add: web_ok_def)
  then have v: "nt_version n = note_version" using unlock_stored_Inr [OF stored(1) _ stored(2)] opens_version by blast
  show ?thesis
  proof (cases "wb_parse_key env recipient = None \<or> \<not> positive_number (parse_float amount)")
    case True
    then show ?thesis using run by (auto simp: handle_pay_def Let_def split: option.splits if_splits)
  next
    case False
    then obtain to where to: "wb_parse_key env recipient = Some to" "positive_number (parse_float amount)" by auto
    obtain s1 where p: "pay_and_save env senv sg recipient to (parse_float amount) pp (set_note n s) b = ((st, b'), s1)" "s' = Some s1"
      using run to stored(1,2) by (auto simp: handle_pay_def Let_def split: prod.splits)
    show ?thesis using pay_and_save_cases [OF w v stored(3) p(1)] p(2) by blast
  qed
qed

text \<open>
  C16. A deposit made on the web page is not saved: when the deposit page reports success, the deposited
  leaf is the hash of a commitment that only the page's SDK instance holds. The stored blob is the one
  from before, and an instance that is made for any page starts without a note.
\<close>

theorem deposit_page_saves_nothing:
  assumes "sha_ok (se_sha senv)" "\<forall>t \<in> set (sk_tiers s). safe_int (td_amount_micro t)"
    and "handle_deposit env senv (Some s) (Some sg) selected b = ((Success sig, b'), Some s')"
  shows "load_encrypted_note b' = load_encrypted_note b
     \<and> (\<exists>c leaf ix n signed den. sk_note s' = Some n \<and> c \<in> set (nt_commitments n) \<and> leaf_bytes (se_poseidon senv) c = Inr leaf
          \<and> parse_deposit_ix (se_sha senv) (ix_data ix) = Some \<lparr>ci_denom_id = den, ci_commitment = leaf\<rparr>
          \<and> sg_sign sg \<lparr>tx_fee_payer = Some (sg_key sg), tx_instructions = [ix]\<rparr> = Some signed \<and> se_send senv signed = Some sig)
     \<and> (\<forall>cluster_var indexer prover endpoint s2. use_qietr_sdk cluster_var indexer prover endpoint = Some s2 \<longrightarrow> sk_note s2 = None)"
proof (intro conjI allI impI)
  obtain n where d: "sdk_deposit senv (to_amount (tier_options ! selected)) sg s = Inr (n, s')"
    and sig: "sig = default_to ''unknown'' (sk_last_deposit_sig s')" and b': "load_encrypted_note b' = load_encrypted_note b"
    using assms(3) by (auto simp: handle_deposit_def Let_def split: sum.splits)
  show "load_encrypted_note b' = load_encrypted_note b" by (rule b')
  show "\<exists>c leaf ix n signed den. sk_note s' = Some n \<and> c \<in> set (nt_commitments n) \<and> leaf_bytes (se_poseidon senv) c = Inr leaf
      \<and> parse_deposit_ix (se_sha senv) (ix_data ix) = Some \<lparr>ci_denom_id = den, ci_commitment = leaf\<rparr>
      \<and> sg_sign sg \<lparr>tx_fee_payer = Some (sg_key sg), tx_instructions = [ix]\<rparr> = Some signed \<and> se_send senv signed = Some sig"
    using deposit_records_its_leaf [OF assms(1,2) d] sig by (fastforce simp: default_to_def)
next
  fix cluster_var indexer prover endpoint s2
  assume "use_qietr_sdk cluster_var indexer prover endpoint = Some s2"
  then show "sk_note s2 = None"
    by (auto simp: use_qietr_sdk_def sdk_new_def Let_def bindE_Inr_iff split: if_splits sum.splits option.splits)
qed

text \<open>A fetch that ends in an error leaves the stored blob alone, whatever the wallet has settled by then.\<close>

lemma failed_fetch_keeps_stored_note:
  assumes "wrap_fetch xenv opts url False m w = (Inl e, m', w', settled)"
  shows "load_encrypted_note (snd (fst (fetch_and_save env xenv opts body_text url pp m w b))) = load_encrypted_note b"
  using assms by (simp add: fetch_and_save_def fetch_failed_def)

lemma no_sdk_on_localnet: "use_qietr_sdk (Some ''localnet'') indexer prover endpoint = None"
proof -
  have "read_cluster (Some ''localnet'') = Localnet" by code_simp
  then show ?thesis by (simp add: use_qietr_sdk_def sdk_new_def)
qed

section \<open>Sessions on the pages\<close>

definition demo_web_env :: web_env where
  "demo_web_env = \<lparr>wb_crypto = Some plain_crypto, wb_salt = zeros 16, wb_nonce = zeros 12, wb_uuid = ''id'', wb_now = 5,
     wb_stamp = ''now'', wb_parse_key = (\<lambda>_. Some (zeros 32)), wb_number = (\<lambda>_. ''0.4''), wb_note_text = (\<lambda>_. ''note''),
     wb_sdk_text = (\<lambda>_. ''sdk''), wb_x402_text = (\<lambda>_. ''x402'')\<rparr>"

lemma demo_web_ok: "web_ok plain_crypto demo_web_env"
  by (simp add: web_ok_def demo_web_env_def plain_crypto_ok)

lemma demo_parse_key: "wb_parse_key demo_web_env recipient = Some (zeros 32)"
  by (simp add: demo_web_env_def)

lemma demo_amount: "parse_float ''1'' = Dyadic 1 0"
proof -
  have "is_digit 10 CHR ''1''" "\<not> js_space CHR ''1''" by (simp_all add: is_digit_def digit_of_def js_space_def char_code_def)
  moreover have "bitlen (Suc 0) \<le> 1024" by (rule bitlen_le) simp
  ultimately show ?thesis
    by (simp add: parse_float_def js_trim_start_def scan_decimal_def scan_exponent_def decimal_float_def digits_val_def
        digit_val_def digit_of_def char_code_def dbl_safe safe_int_def)
qed

lemma demo_micro: "positive_number (Dyadic 1 0)" "usdc_to_micro (Dyadic 1 0) = Some 1000000"
proof -
  have "bitlen 1000000 \<le> 1024" by (rule bitlen_le) simp
  then show "usdc_to_micro (Dyadic 1 0) = Some 1000000"
    by (simp add: usdc_decimals_def math_round_def dbl_safe safe_int_def Let_def)
qed simp

lemma toy_pay_all: "\<exists>updated s'. pay_micro_exact toy_sdk_env (zeros 32) 1000000 (Some toy_signer)
    (toy_sdk (Some toy_note)) = Inr ((updated, ''sig''), s')"
proof -
  let ?c = "\<lparr>cm_secret = ''1'', cm_nullifier = ''2'', cm_amount = 1000000, cm_denom_id = 1\<rparr>"
  have "select_commitment 1000000 (nt_commitments toy_note) = Some ?c"
    by (simp add: select_commitment_def toy_note_def)
  from toy_pay_general [OF _ _ _ _ this, of toy_sdk_env "[1]" "toy_sdk (Some toy_note)" 1 2] show ?thesis
    by (auto simp: toy_sdk_env_def toy_sdk_def toy_dec)
qed

theorem direct_payment_saves_note_witness:
  "\<exists>blob b' s' blob' n'. handle_pay demo_web_env toy_sdk_env (Some (toy_sdk None)) (Some toy_signer) ''to'' ''1'' ''password''
       (save_encrypted_note blob fresh_browser) = Some ((Success ''sig'', b'), s')
     \<and> load_encrypted_note b' = Some blob' \<and> opens_to plain_crypto blob' ''password'' n' \<and> get_note_balance (Some n') = 100000"
proof -
  have v: "nt_version toy_note = note_version" by (simp add: toy_note_def)
  obtain blob where blob: "web_encrypt demo_web_env toy_note ''password'' = Inr blob"
    "decrypt_note (Some plain_crypto) blob ''password'' = Inr (note_json toy_note)" "note_of_json (note_json toy_note) = Some toy_note"
    "blob \<noteq> []"
    using encrypted_note_opens [OF plain_crypto_ok _ _ v, of "zeros 16" "zeros 12" "''password''"]
    by (auto simp: web_encrypt_def demo_web_env_def is_encrypted_note_def starts_with_def encrypted_magic_def)
      (metis list.distinct(1) take_Nil)
  let ?b = "save_encrypted_note blob fresh_browser"
  have stored: "unlock_stored demo_web_env ''password'' ?b = Inr (note_json toy_note)"
    using blob by (simp add: unlock_stored_def truthy_def demo_web_env_def)
  obtain updated t where pay: "pay_micro_exact toy_sdk_env (zeros 32) 1000000 (Some toy_signer) (toy_sdk (Some toy_note))
      = Inr ((updated, ''sig''), t)" using toy_pay_all by blast
  have set: "set_note toy_note (toy_sdk None) = toy_sdk (Some toy_note)" by (simp add: set_note_def toy_sdk_def)
  have "nt_version updated = note_version"
    using pay v by (auto simp: toy_sdk_def elim!: pay_micro_exact_Inr dest!: pay_settle_Inr)
  then obtain blob' where "web_encrypt demo_web_env updated ''password'' = Inr blob'" using web_encrypt_ok [OF demo_web_ok] by blast
  then obtain b' s' where run: "handle_pay demo_web_env toy_sdk_env (Some (toy_sdk None)) (Some toy_signer) ''to'' ''1'' ''password'' ?b
      = Some ((Success ''sig'', b'), s')"
    using pay stored blob(3)
    by (auto simp: handle_pay_def demo_amount demo_micro pay_and_save_def sdk_pay_def set Let_def demo_parse_key
        simp del: usdc_to_micro.simps)
  have "get_note_balance (Some toy_note) = 1100000" using balance_exact [of toy_note] by (simp add: toy_note_def)
  then show ?thesis
    using direct_payment_saves_note [OF demo_web_ok stored blob(3) toy_note_ok run] run by (auto simp: demo_amount demo_micro simp del: usdc_to_micro.simps)
qed

theorem deposit_page_saves_nothing_witness:
  "\<exists>b' s'. handle_deposit demo_web_env toy_sdk_env (Some (toy_sdk None)) (Some toy_signer) 1 fresh_browser = ((Success ''sig'', b'), Some s')
     \<and> sk_note s' \<noteq> None \<and> load_encrypted_note b' = None"
proof -
  have tiers: "\<forall>t \<in> set (sk_tiers (toy_sdk None)). safe_int (td_amount_micro t)" and sha: "sha_ok (se_sha toy_sdk_env)"
    by (simp_all add: toy_sdk_def default_tiers_def safe_int_def toy_sdk_env_def toy_sha_ok)
  obtain n s' where d: "sdk_deposit toy_sdk_env (Dyadic 1 0) toy_signer (toy_sdk None) = Inr (n, s')"
    using deposit_records_its_leaf_witness by blast
  then have "sk_last_deposit_sig s' = Some ''sig''"
    using deposit_records_its_leaf [OF sha tiers d] by (auto simp: toy_sdk_env_def)
  then obtain b' where run: "handle_deposit demo_web_env toy_sdk_env (Some (toy_sdk None)) (Some toy_signer) 1 fresh_browser
      = ((Success ''sig'', b'), Some s')"
    using d by (simp add: handle_deposit_def tier_options_def default_to_def)
  show ?thesis
    using deposit_page_saves_nothing [OF sha tiers run] run by (auto simp: fresh_browser_def load_encrypted_note_def)
qed

end
