(* ===== verification/SdkEscrow.thy ===== *)
theory SdkEscrow
  imports PoolInstructions
begin

text \<open>
  \<open>qietr-sdk/src/escrow.ts\<close>: instruction builders, address derivations and the account parser for
  the job escrow program. \<open>sha\<close> is SHA-256, \<open>fpa\<close> is \<open>findProgramAddressSync\<close> and \<open>b58\<close> is
  \<open>PublicKey.toBase58\<close>, all third-party.
\<close>

definition qietr_escrow_program_id :: pubkey where
  "qietr_escrow_program_id = be_bytes 32
     81844537497937646176584727588904522427061814279837251724086477997159476512971"

definition rent_sysvar_id :: pubkey where
  "rent_sysvar_id = be_bytes 32
     3010411246019284437244212147455409835011261068170932596721577831542904848384"

section \<open>Addresses\<close>

definition find_job_pda :: "pda_fun \<Rightarrow> pubkey \<Rightarrow> bytes \<Rightarrow> pubkey \<Rightarrow> pubkey \<times> nat" where
  "find_job_pda fpa client nonce program_id = fpa [utf8_ascii ''job'', client, nonce] program_id"

definition find_escrow_vault_pda :: "pda_fun \<Rightarrow> pubkey \<Rightarrow> bytes \<Rightarrow> pubkey \<Rightarrow> pubkey \<times> nat" where
  "find_escrow_vault_pda fpa client nonce program_id = fpa [utf8_ascii ''escrow'', client, nonce] program_id"

section \<open>Instruction builders\<close>

definition build_create_job_ix ::
    "hash_fun \<Rightarrow> pda_fun \<Rightarrow> pubkey \<Rightarrow> bytes \<Rightarrow> int \<Rightarrow> pubkey \<Rightarrow> pubkey \<Rightarrow> pubkey \<Rightarrow> pubkey
      \<Rightarrow> sdk_wire_error + instruction" where
  "build_create_job_ix sha fpa agent nonce price_micro client client_ata mint program_id =
     (if length nonce \<noteq> 8 then Inl (NonceLength (length nonce))
      else bindE (optE RangeError
             (put_all [(0, anchor_ix_discriminator sha ''create_job''), (8, agent), (40, nonce),
                       (48, u64_le price_micro)] (zeros (8 + 32 + 8 + 8)))) (\<lambda>data.
           Inr \<lparr>ix_program = program_id,
                ix_keys = [meta (fst (find_job_pda fpa client nonce program_id)) False True,
                           meta (fst (find_escrow_vault_pda fpa client nonce program_id)) False True,
                           meta client_ata False True,
                           meta client True True,
                           meta mint False False,
                           meta token_program_id False False,
                           meta system_program_id False False,
                           meta rent_sysvar_id False False],
                ix_data = data\<rparr>))"

definition build_accept_job_ix :: "hash_fun \<Rightarrow> pubkey \<Rightarrow> pubkey \<Rightarrow> pubkey \<Rightarrow> instruction" where
  "build_accept_job_ix sha job agent program_id =
     \<lparr>ix_program = program_id, ix_keys = [meta job False True, meta agent True False],
      ix_data = anchor_ix_discriminator sha ''accept_job''\<rparr>"

definition build_complete_job_ix :: "hash_fun \<Rightarrow> pubkey \<Rightarrow> pubkey \<Rightarrow> pubkey \<Rightarrow> instruction" where
  "build_complete_job_ix sha job agent program_id =
     \<lparr>ix_program = program_id, ix_keys = [meta job False True, meta agent True False],
      ix_data = anchor_ix_discriminator sha ''complete_job''\<rparr>"

definition build_release_payment_ix ::
    "hash_fun \<Rightarrow> pubkey \<Rightarrow> pubkey \<Rightarrow> pubkey \<Rightarrow> pubkey \<Rightarrow> pubkey \<Rightarrow> instruction" where
  "build_release_payment_ix sha job vault agent_ata client program_id =
     \<lparr>ix_program = program_id,
      ix_keys = [meta job False True, meta vault False True, meta agent_ata False True,
                 meta client True False, meta token_program_id False False],
      ix_data = anchor_ix_discriminator sha ''release_payment''\<rparr>"

definition build_dispute_job_ix :: "hash_fun \<Rightarrow> pubkey \<Rightarrow> pubkey \<Rightarrow> pubkey \<Rightarrow> instruction" where
  "build_dispute_job_ix sha job client program_id =
     \<lparr>ix_program = program_id, ix_keys = [meta job False True, meta client True False],
      ix_data = anchor_ix_discriminator sha ''dispute_job''\<rparr>"

definition build_cancel_job_ix ::
    "hash_fun \<Rightarrow> pubkey \<Rightarrow> pubkey \<Rightarrow> pubkey \<Rightarrow> pubkey \<Rightarrow> pubkey \<Rightarrow> instruction" where
  "build_cancel_job_ix sha job vault client_ata client program_id =
     \<lparr>ix_program = program_id,
      ix_keys = [meta job False True, meta vault False True, meta client_ata False True,
                 meta client True False, meta token_program_id False False],
      ix_data = anchor_ix_discriminator sha ''cancel_job''\<rparr>"

definition build_refund_job_ix ::
    "hash_fun \<Rightarrow> pubkey \<Rightarrow> pubkey \<Rightarrow> pubkey \<Rightarrow> pubkey \<Rightarrow> pubkey \<Rightarrow> instruction" where
  "build_refund_job_ix sha job vault client_ata client program_id =
     build_cancel_job_ix sha job vault client_ata client program_id"

definition build_resolve_dispute_ix ::
    "hash_fun \<Rightarrow> pubkey \<Rightarrow> pubkey \<Rightarrow> pubkey \<Rightarrow> pubkey \<Rightarrow> pubkey \<Rightarrow> instruction" where
  "build_resolve_dispute_ix sha job vault client_ata caller program_id =
     \<lparr>ix_program = program_id,
      ix_keys = [meta job False True, meta vault False True, meta client_ata False True,
                 meta caller True False, meta token_program_id False False],
      ix_data = anchor_ix_discriminator sha ''resolve_dispute''\<rparr>"

definition build_close_job_ix :: "hash_fun \<Rightarrow> pubkey \<Rightarrow> pubkey \<Rightarrow> pubkey \<Rightarrow> instruction" where
  "build_close_job_ix sha job claimant program_id =
     \<lparr>ix_program = program_id, ix_keys = [meta job False True, meta claimant True True],
      ix_data = anchor_ix_discriminator sha ''close_job''\<rparr>"

section \<open>The job account\<close>

definition job_account_size :: nat where
  "job_account_size = 8 + 32 + 32 + 8 + 8 + 8 + 8 + 8 + 8 + 1 + 1 + 1"

datatype job_state = Created | Accepted | Completed | Released | Disputed | Refunded

fun job_state_code :: "job_state \<Rightarrow> byte" where
  "job_state_code Created = 0"
| "job_state_code Accepted = 1"
| "job_state_code Completed = 2"
| "job_state_code Released = 3"
| "job_state_code Disputed = 4"
| "job_state_code Refunded = 5"

text \<open>The parser casts the state byte without checking it, so it stays a byte; times are Numbers.\<close>

record parsed_job =
  pj_client :: string
  pj_agent :: string
  pj_nonce :: string
  pj_price_micro :: nat
  pj_created_at :: int
  pj_accepted_at :: int
  pj_completed_at :: int
  pj_resolved_at :: int
  pj_state :: byte
  pj_bump :: byte
  pj_escrow_bump :: byte

definition parse_job_account :: "hash_fun \<Rightarrow> (pubkey \<Rightarrow> string) \<Rightarrow> bytes \<Rightarrow> parsed_job option" where
  "parse_job_account sha b58 data =
     (if length data < job_account_size then None
      else if \<not> list_all (\<lambda>i. data ! i = account_disc sha ''Job'' ! i) [0..<8] then None
      else Some \<lparr>pj_client = b58 (slice 8 40 data), pj_agent = b58 (slice 40 72 data),
                 pj_nonce = buffer_to_hex (slice 72 80 data), pj_price_micro = read_u64_le data 80,
                 pj_created_at = dbl (read_i64_le data 88), pj_accepted_at = dbl (read_i64_le data 96),
                 pj_completed_at = dbl (read_i64_le data 104), pj_resolved_at = dbl (read_i64_le data 112),
                 pj_state = data ! 120, pj_bump = data ! 121, pj_escrow_bump = data ! 122\<rparr>)"

section \<open>What the builders write\<close>

definition create_job_bytes :: "hash_fun \<Rightarrow> pubkey \<Rightarrow> bytes \<Rightarrow> int \<Rightarrow> bytes" where
  "create_job_bytes sha agent nonce price =
     anchor_ix_discriminator sha ''create_job'' @ agent @ nonce @ u64_le price"

lemma build_create_job_ix_inr:
  assumes "sha_ok sha" "length agent = 32" "length nonce = 8"
  shows "\<exists>rest. build_create_job_ix sha fpa agent nonce price client ata mint pid =
     Inr \<lparr>ix_program = pid,
          ix_keys = meta (fst (find_job_pda fpa client nonce pid)) False True
            # meta (fst (find_escrow_vault_pda fpa client nonce pid)) False True
            # meta ata False True # meta client True True # meta mint False False # rest,
          ix_data = create_job_bytes sha agent nonce price\<rparr>"
  using assms put_all_exact [of "[(0, anchor_ix_discriminator sha ''create_job''), (8, agent), (40, nonce), (48, u64_le price)]"
      "[anchor_ix_discriminator sha ''create_job'', agent, nonce, u64_le price]" 56]
  by (simp add: build_create_job_ix_def create_job_bytes_def)

end
