(* ===== verification/EscrowProgram.thy ===== *)
theory EscrowProgram
  imports SdkEscrow
begin

text \<open>
  The on-chain program \<open>qietr_escrow/src/lib.rs\<close>: every handler with the account constraints Anchor
  checks before it, the dispatch from an instruction to its handler, and runs in which anybody calls
  anything and tokens move outside the program. The token program, the clock and the address
  derivation are parameters. A job whose state is neither released nor refunded is called open.
\<close>

section \<open>State\<close>

type_synonym i64 = "64 word"

record job =
  jb_client :: pubkey
  jb_agent :: pubkey
  jb_nonce :: bytes
  jb_price_micro :: "64 word"
  jb_created_at :: i64
  jb_accepted_at :: i64
  jb_completed_at :: i64
  jb_resolved_at :: i64
  jb_state :: job_state
  jb_bump :: byte
  jb_escrow_bump :: byte

record token_account =
  to_owner :: pubkey
  to_mint :: pubkey

text \<open>
  The token program over a ledger \<open>'l\<close>: the account at an address, creation of an account (address,
  mint, owner), and a transfer (source, destination, authority, amount). \<open>None\<close> is a failed call.
\<close>

record 'l token_program =
  tk_account :: "'l \<Rightarrow> pubkey \<Rightarrow> token_account option"
  tk_init :: "pubkey \<Rightarrow> pubkey \<Rightarrow> pubkey \<Rightarrow> 'l \<Rightarrow> 'l option"
  tk_transfer :: "pubkey \<Rightarrow> pubkey \<Rightarrow> pubkey \<Rightarrow> 64 word \<Rightarrow> 'l \<Rightarrow> 'l option"

record 'l escrow_env =
  ee_token :: "'l token_program"
  ee_fpa :: pda_fun
  ee_now :: i64

record 'l escrow_state =
  es_jobs :: "pubkey \<rightharpoonup> job"
  es_ledger :: 'l

datatype escrow_error =
    InvalidState | NotAgent | NotClient | PriceMustBePositive | AgentAtaMismatch | ClientAtaMismatch
  | MintMismatch | AcceptTimeoutNotElapsed | DisputeTimeoutNotElapsed | TimeOverflow
  | AccountNotInitialized | AccountExists | SeedsMismatch | AddressMismatch | TransferFailed
  | UnknownInstruction

definition dispute_timeout_seconds :: int where
  "dispute_timeout_seconds = 7 * 24 * 3600"

definition accept_timeout_seconds :: int where
  "accept_timeout_seconds = 7 * 24 * 3600"

definition job_open :: "job \<Rightarrow> bool" where
  "job_open j \<longleftrightarrow> jb_state j \<notin> {Released, Refunded}"

definition job_address :: "pda_fun \<Rightarrow> job \<Rightarrow> pubkey" where
  "job_address fpa j = fst (find_job_pda fpa (jb_client j) (jb_nonce j) qietr_escrow_program_id)"

definition job_vault :: "pda_fun \<Rightarrow> job \<Rightarrow> pubkey" where
  "job_vault fpa j = fst (find_escrow_vault_pda fpa (jb_client j) (jb_nonce j) qietr_escrow_program_id)"

section \<open>Account constraints\<close>

text \<open>A stored job at its own derived address; the stored bump is the canonical one.\<close>

definition load_job :: "'l escrow_env \<Rightarrow> pubkey \<Rightarrow> 'l escrow_state \<Rightarrow> escrow_error + job" where
  "load_job env addr st =
     bindE (optE AccountNotInitialized (es_jobs st addr)) (\<lambda>j.
     bindE (guardE (addr = job_address (ee_fpa env) j) SeedsMismatch) (\<lambda>_. Inr j))"

definition load_vault :: "'l escrow_env \<Rightarrow> job \<Rightarrow> pubkey \<Rightarrow> 'l escrow_state \<Rightarrow> escrow_error + token_account" where
  "load_vault env j vault st =
     bindE (optE AccountNotInitialized (tk_account (ee_token env) (es_ledger st) vault)) (\<lambda>v.
     bindE (guardE (vault = job_vault (ee_fpa env) j) SeedsMismatch) (\<lambda>_. Inr v))"

definition load_payee ::
    "'l escrow_env \<Rightarrow> pubkey \<Rightarrow> pubkey \<Rightarrow> escrow_error \<Rightarrow> token_account \<Rightarrow> 'l escrow_state \<Rightarrow> escrow_error + unit" where
  "load_payee env ata owner e v st =
     bindE (optE AccountNotInitialized (tk_account (ee_token env) (es_ledger st) ata)) (\<lambda>a.
     bindE (guardE (to_owner a = owner) e) (\<lambda>_.
     guardE (to_mint a = to_mint v) MintMismatch))"

definition save_job :: "pubkey \<Rightarrow> job \<Rightarrow> 'l escrow_state \<Rightarrow> 'l escrow_state" where
  "save_job addr j st = st\<lparr>es_jobs := (es_jobs st)(addr \<mapsto> j)\<rparr>"

text \<open>The payout of the three settling handlers: the vault signs with its seeds for the price.\<close>

definition pay_price :: "'l escrow_env \<Rightarrow> job \<Rightarrow> pubkey \<Rightarrow> pubkey \<Rightarrow> 'l escrow_state \<Rightarrow> escrow_error + 'l" where
  "pay_price env j vault ata st =
     optE TransferFailed (tk_transfer (ee_token env) vault ata vault (jb_price_micro j) (es_ledger st))"

text \<open>\<open>now >= t.checked_add(timeout)?\<close> on signed 64-bit seconds.\<close>

definition timeout_elapsed :: "i64 \<Rightarrow> i64 \<Rightarrow> int \<Rightarrow> escrow_error \<Rightarrow> escrow_error + unit" where
  "timeout_elapsed now since timeout e =
     bindE (guardE (sint since + timeout < 2 ^ 63) TimeOverflow) (\<lambda>_.
     guardE (sint now \<ge> sint since + timeout) e)"

section \<open>Handlers\<close>

definition new_job :: "'l escrow_env \<Rightarrow> pubkey \<Rightarrow> pubkey \<Rightarrow> bytes \<Rightarrow> 64 word \<Rightarrow> job" where
  "new_job env client agent nonce price =
     \<lparr>jb_client = client, jb_agent = agent, jb_nonce = nonce, jb_price_micro = price,
      jb_created_at = ee_now env, jb_accepted_at = 0, jb_completed_at = 0, jb_resolved_at = 0,
      jb_state = Created,
      jb_bump = word_of_nat (snd (find_job_pda (ee_fpa env) client nonce qietr_escrow_program_id)),
      jb_escrow_bump = word_of_nat (snd (find_escrow_vault_pda (ee_fpa env) client nonce qietr_escrow_program_id))\<rparr>"

definition create_job ::
    "'l escrow_env \<Rightarrow> pubkey \<Rightarrow> pubkey \<Rightarrow> pubkey \<Rightarrow> pubkey \<Rightarrow> pubkey \<Rightarrow> pubkey \<Rightarrow> bytes \<Rightarrow> 64 word
      \<Rightarrow> 'l escrow_state \<Rightarrow> escrow_error + 'l escrow_state" where
  "create_job env addr vault client_ata client mint agent nonce price st =
     bindE (guardE (addr = fst (find_job_pda (ee_fpa env) client nonce qietr_escrow_program_id)) SeedsMismatch) (\<lambda>_.
     bindE (guardE (es_jobs st addr = None) AccountExists) (\<lambda>_.
     bindE (guardE (vault = fst (find_escrow_vault_pda (ee_fpa env) client nonce qietr_escrow_program_id))
              SeedsMismatch) (\<lambda>_.
     bindE (optE AccountExists (tk_init (ee_token env) vault mint vault (es_ledger st))) (\<lambda>l1.
     bindE (optE AccountNotInitialized (tk_account (ee_token env) (es_ledger st) client_ata)) (\<lambda>a.
     bindE (guardE (to_owner a = client) ClientAtaMismatch) (\<lambda>_.
     bindE (guardE (to_mint a = mint) MintMismatch) (\<lambda>_.
     bindE (guardE (0 < price) PriceMustBePositive) (\<lambda>_.
     bindE (optE TransferFailed (tk_transfer (ee_token env) client_ata vault client price l1)) (\<lambda>l2.
     Inr (save_job addr (new_job env client agent nonce price) (st\<lparr>es_ledger := l2\<rparr>)))))))))))"

definition accept_job ::
    "'l escrow_env \<Rightarrow> pubkey \<Rightarrow> pubkey \<Rightarrow> 'l escrow_state \<Rightarrow> escrow_error + 'l escrow_state" where
  "accept_job env addr agent st =
     bindE (load_job env addr st) (\<lambda>j.
     bindE (guardE (jb_state j = Created) InvalidState) (\<lambda>_.
     bindE (guardE (agent = jb_agent j) NotAgent) (\<lambda>_.
     Inr (save_job addr (j\<lparr>jb_accepted_at := ee_now env, jb_state := Accepted\<rparr>) st))))"

definition complete_job ::
    "'l escrow_env \<Rightarrow> pubkey \<Rightarrow> pubkey \<Rightarrow> 'l escrow_state \<Rightarrow> escrow_error + 'l escrow_state" where
  "complete_job env addr agent st =
     bindE (load_job env addr st) (\<lambda>j.
     bindE (guardE (agent = jb_agent j) AddressMismatch) (\<lambda>_.
     bindE (guardE (jb_state j = Accepted) InvalidState) (\<lambda>_.
     bindE (guardE (agent = jb_agent j) NotAgent) (\<lambda>_.
     Inr (save_job addr (j\<lparr>jb_completed_at := ee_now env, jb_state := Completed\<rparr>) st)))))"

definition release_payment ::
    "'l escrow_env \<Rightarrow> pubkey \<Rightarrow> pubkey \<Rightarrow> pubkey \<Rightarrow> pubkey \<Rightarrow> 'l escrow_state
      \<Rightarrow> escrow_error + 'l escrow_state" where
  "release_payment env addr vault agent_ata client st =
     bindE (load_job env addr st) (\<lambda>j.
     bindE (load_vault env j vault st) (\<lambda>v.
     bindE (load_payee env agent_ata (jb_agent j) AgentAtaMismatch v st) (\<lambda>_.
     bindE (guardE (jb_state j = Completed) InvalidState) (\<lambda>_.
     bindE (guardE (client = jb_client j) NotClient) (\<lambda>_.
     bindE (pay_price env j vault agent_ata st) (\<lambda>l.
     Inr (save_job addr (j\<lparr>jb_state := Released\<rparr>) (st\<lparr>es_ledger := l\<rparr>))))))))"

definition dispute_job ::
    "'l escrow_env \<Rightarrow> pubkey \<Rightarrow> pubkey \<Rightarrow> 'l escrow_state \<Rightarrow> escrow_error + 'l escrow_state" where
  "dispute_job env addr client st =
     bindE (load_job env addr st) (\<lambda>j.
     bindE (guardE (jb_state j = Completed) InvalidState) (\<lambda>_.
     bindE (guardE (client = jb_client j) NotClient) (\<lambda>_.
     Inr (save_job addr (j\<lparr>jb_state := Disputed\<rparr>) st))))"

definition cancel_allowed :: "'l escrow_env \<Rightarrow> job \<Rightarrow> escrow_error + unit" where
  "cancel_allowed env j =
     (case jb_state j of
        Created \<Rightarrow> Inr ()
      | Accepted \<Rightarrow> timeout_elapsed (ee_now env) (jb_accepted_at j) accept_timeout_seconds
          AcceptTimeoutNotElapsed
      | _ \<Rightarrow> Inl InvalidState)"

definition cancel_job ::
    "'l escrow_env \<Rightarrow> pubkey \<Rightarrow> pubkey \<Rightarrow> pubkey \<Rightarrow> pubkey \<Rightarrow> 'l escrow_state
      \<Rightarrow> escrow_error + 'l escrow_state" where
  "cancel_job env addr vault client_ata client st =
     bindE (load_job env addr st) (\<lambda>j.
     bindE (load_vault env j vault st) (\<lambda>v.
     bindE (load_payee env client_ata (jb_client j) ClientAtaMismatch v st) (\<lambda>_.
     bindE (guardE (client = jb_client j) NotClient) (\<lambda>_.
     bindE (cancel_allowed env j) (\<lambda>_.
     bindE (pay_price env j vault client_ata st) (\<lambda>l.
     Inr (save_job addr (j\<lparr>jb_state := Refunded\<rparr>) (st\<lparr>es_ledger := l\<rparr>))))))))"

definition resolve_dispute ::
    "'l escrow_env \<Rightarrow> pubkey \<Rightarrow> pubkey \<Rightarrow> pubkey \<Rightarrow> 'l escrow_state \<Rightarrow> escrow_error + 'l escrow_state" where
  "resolve_dispute env addr vault client_ata st =
     bindE (load_job env addr st) (\<lambda>j.
     bindE (load_vault env j vault st) (\<lambda>v.
     bindE (load_payee env client_ata (jb_client j) ClientAtaMismatch v st) (\<lambda>_.
     bindE (guardE (jb_state j = Disputed) InvalidState) (\<lambda>_.
     bindE (timeout_elapsed (ee_now env) (jb_completed_at j) dispute_timeout_seconds
              DisputeTimeoutNotElapsed) (\<lambda>_.
     bindE (pay_price env j vault client_ata st) (\<lambda>l.
     Inr (save_job addr (j\<lparr>jb_resolved_at := ee_now env, jb_state := Refunded\<rparr>) (st\<lparr>es_ledger := l\<rparr>))))))))"

text \<open>Closing removes the job account; whoever signs as the claimant gets its rent.\<close>

definition close_job :: "'l escrow_env \<Rightarrow> pubkey \<Rightarrow> 'l escrow_state \<Rightarrow> escrow_error + 'l escrow_state" where
  "close_job env addr st =
     bindE (load_job env addr st) (\<lambda>j.
     bindE (guardE (jb_state j = Released \<or> jb_state j = Refunded) InvalidState) (\<lambda>_.
     Inr (st\<lparr>es_jobs := (es_jobs st)(addr := None)\<rparr>)))"

section \<open>Calls and their dispatch\<close>

datatype escrow_call =
    CreateJob pubkey pubkey pubkey pubkey pubkey pubkey bytes "64 word"
  | AcceptJob pubkey pubkey
  | CompleteJob pubkey pubkey
  | ReleasePayment pubkey pubkey pubkey pubkey
  | DisputeJob pubkey pubkey
  | CancelJob pubkey pubkey pubkey pubkey
  | ResolveDispute pubkey pubkey pubkey pubkey
  | CloseJob pubkey pubkey

fun escrow_exec :: "'l escrow_env \<Rightarrow> escrow_call \<Rightarrow> 'l escrow_state \<Rightarrow> escrow_error + 'l escrow_state" where
  "escrow_exec env (CreateJob addr vault ata client mint agent nonce price) st =
     create_job env addr vault ata client mint agent nonce price st"
| "escrow_exec env (AcceptJob addr agent) st = accept_job env addr agent st"
| "escrow_exec env (CompleteJob addr agent) st = complete_job env addr agent st"
| "escrow_exec env (ReleasePayment addr vault ata client) st = release_payment env addr vault ata client st"
| "escrow_exec env (DisputeJob addr client) st = dispute_job env addr client st"
| "escrow_exec env (CancelJob addr vault ata client) st = cancel_job env addr vault ata client st"
| "escrow_exec env (ResolveDispute addr vault ata caller) st = resolve_dispute env addr vault ata st"
| "escrow_exec env (CloseJob addr claimant) st = close_job env addr st"

fun call_signer :: "escrow_call \<Rightarrow> pubkey" where
  "call_signer (CreateJob addr vault ata client mint agent nonce price) = client"
| "call_signer (AcceptJob addr agent) = agent"
| "call_signer (CompleteJob addr agent) = agent"
| "call_signer (ReleasePayment addr vault ata client) = client"
| "call_signer (DisputeJob addr client) = client"
| "call_signer (CancelJob addr vault ata client) = client"
| "call_signer (ResolveDispute addr vault ata caller) = caller"
| "call_signer (CloseJob addr claimant) = claimant"

text \<open>
  Anchor's dispatch: the first eight bytes choose the handler, the rest are its Borsh arguments, the
  accounts are taken in the order of the handler's context, and a \<open>Signer\<close> must have signed.
\<close>

definition signed_key :: "account_meta list \<Rightarrow> nat \<Rightarrow> escrow_error + pubkey" where
  "signed_key keys i =
     (if i < length keys \<and> am_signer (keys ! i) then Inr (am_pubkey (keys ! i)) else Inl UnknownInstruction)"

definition escrow_dispatch :: "hash_fun \<Rightarrow> instruction \<Rightarrow> escrow_error + escrow_call" where
  "escrow_dispatch sha ix =
     (let d = slice 0 8 (ix_data ix); data = ix_data ix; keys = ix_keys ix;
          key = (\<lambda>i. am_pubkey (keys ! i)); is = (\<lambda>name. d = anchor_ix_discriminator sha name);
          two = (\<lambda>f. bindE (signed_key keys 1) (\<lambda>s. Inr (f (key 0) s)));
          four = (\<lambda>f. bindE (signed_key keys 3) (\<lambda>s. Inr (f (key 0) (key 1) (key 2) s)))
      in if is ''create_job'' \<and> length data \<ge> 56 \<and> length keys \<ge> 8
         then bindE (signed_key keys 3) (\<lambda>client.
              Inr (CreateJob (key 0) (key 1) (key 2) client (key 4) (slice 8 40 data) (slice 40 48 data)
                     (word_of_nat (read_u64_le data 48))))
         else if is ''accept_job'' then two AcceptJob
         else if is ''complete_job'' then two CompleteJob
         else if is ''release_payment'' then four ReleasePayment
         else if is ''dispute_job'' then two DisputeJob
         else if is ''cancel_job'' then four CancelJob
         else if is ''resolve_dispute'' then four ResolveDispute
         else if is ''close_job'' then two CloseJob
         else Inl UnknownInstruction)"

definition escrow_process ::
    "hash_fun \<Rightarrow> 'l escrow_env \<Rightarrow> instruction \<Rightarrow> 'l escrow_state \<Rightarrow> escrow_error + 'l escrow_state" where
  "escrow_process sha env ix st = bindE (escrow_dispatch sha ix) (\<lambda>c. escrow_exec env c st)"

section \<open>What a successful call does\<close>

lemmas escrow_handlers = create_job_def accept_job_def complete_job_def release_payment_def dispute_job_def
  cancel_job_def resolve_dispute_def close_job_def

lemmas escrow_loads = load_job_def load_vault_def load_payee_def pay_price_def

fun call_pays :: "escrow_call \<Rightarrow> (pubkey \<times> pubkey \<times> pubkey) option" where
  "call_pays (ReleasePayment addr vault ata client) = Some (addr, vault, ata)"
| "call_pays (CancelJob addr vault ata client) = Some (addr, vault, ata)"
| "call_pays (ResolveDispute addr vault ata caller) = Some (addr, vault, ata)"
| "call_pays _ = None"

definition same_terms :: "job \<Rightarrow> job \<Rightarrow> bool" where
  "same_terms j j' \<longleftrightarrow> jb_client j' = jb_client j \<and> jb_agent j' = jb_agent j \<and> jb_nonce j' = jb_nonce j
     \<and> jb_price_micro j' = jb_price_micro j"

lemma same_terms_address:
  "same_terms j j' \<Longrightarrow> job_address fpa j' = job_address fpa j \<and> job_vault fpa j' = job_vault fpa j"
  by (simp add: same_terms_def job_address_def job_vault_def)

text \<open>Who may be paid by a settling call, and when.\<close>

fun payee_ok :: "i64 \<Rightarrow> escrow_call \<Rightarrow> job \<Rightarrow> pubkey \<Rightarrow> bool" where
  "payee_ok now (ReleasePayment addr vault ata client) j owner \<longleftrightarrow>
     jb_state j = Completed \<and> client = jb_client j \<and> owner = jb_agent j"
| "payee_ok now (CancelJob addr vault ata client) j owner \<longleftrightarrow>
     client = jb_client j \<and> owner = jb_client j
     \<and> (jb_state j = Created \<or> jb_state j = Accepted \<and> sint now \<ge> sint (jb_accepted_at j) + accept_timeout_seconds)"
| "payee_ok now (ResolveDispute addr vault ata caller) j owner \<longleftrightarrow>
     owner = jb_client j \<and> jb_state j = Disputed \<and> sint now \<ge> sint (jb_completed_at j) + dispute_timeout_seconds"
| "payee_ok now _ j owner \<longleftrightarrow> False"

lemma payee_ok_open: "payee_ok now c j owner \<Longrightarrow> job_open j"
  by (cases c) (auto simp: job_open_def)

text \<open>The job as a settling call leaves it.\<close>

fun settled_form :: "i64 \<Rightarrow> escrow_call \<Rightarrow> job \<Rightarrow> job" where
  "settled_form now (ReleasePayment addr vault ata client) j = j\<lparr>jb_state := Released\<rparr>"
| "settled_form now (ResolveDispute addr vault ata caller) j = j\<lparr>jb_resolved_at := now, jb_state := Refunded\<rparr>"
| "settled_form now _ j = j\<lparr>jb_state := Refunded\<rparr>"

lemma settled_form_props: "same_terms j (settled_form now c j)" "\<not> job_open (settled_form now c j)"
  by (cases c; simp add: same_terms_def job_open_def)+

lemma timeout_elapsed_Inr:
  "timeout_elapsed now since t e = Inr u \<longleftrightarrow> sint since + t < 2 ^ 63 \<and> sint now \<ge> sint since + t"
  by (simp add: timeout_elapsed_def res_simps)

lemma cancel_allowed_Inr:
  "cancel_allowed env j = Inr u \<longleftrightarrow> jb_state j = Created \<or>
     jb_state j = Accepted \<and> sint (jb_accepted_at j) + accept_timeout_seconds < 2 ^ 63
       \<and> sint (ee_now env) \<ge> sint (jb_accepted_at j) + accept_timeout_seconds"
  by (cases "jb_state j") (simp_all add: cancel_allowed_def timeout_elapsed_Inr)

lemma settle_Inr:
  assumes "escrow_exec env c st = Inr st'" "call_pays c = Some (addr, v, ata)"
  shows "\<exists>j a l. es_jobs st addr = Some j \<and> addr = job_address (ee_fpa env) j \<and> v = job_vault (ee_fpa env) j
     \<and> tk_account (ee_token env) (es_ledger st) ata = Some a \<and> payee_ok (ee_now env) c j (to_owner a)
     \<and> tk_transfer (ee_token env) v ata v (jb_price_micro j) (es_ledger st) = Some l
     \<and> st' = save_job addr (settled_form (ee_now env) c j) (st\<lparr>es_ledger := l\<rparr>)"
  using assms
  by (cases c) (auto simp: release_payment_def cancel_job_def resolve_dispute_def escrow_loads res_simps
      timeout_elapsed_Inr cancel_allowed_Inr)

definition created_by :: "'l escrow_env \<Rightarrow> escrow_call \<Rightarrow> 'l escrow_state \<Rightarrow> 'l escrow_state \<Rightarrow> bool" where
  "created_by env c st st' \<longleftrightarrow> (\<exists>addr v ata mint client agent nonce price l1 l2 a.
     let j = new_job env client agent nonce price in
     c = CreateJob addr v ata client mint agent nonce price
     \<and> addr = job_address (ee_fpa env) j \<and> v = job_vault (ee_fpa env) j
     \<and> es_jobs st addr = None \<and> tk_init (ee_token env) v mint v (es_ledger st) = Some l1
     \<and> tk_account (ee_token env) (es_ledger st) ata = Some a \<and> to_owner a = client
     \<and> tk_transfer (ee_token env) ata v client price l1 = Some l2
     \<and> st' = save_job addr j (st\<lparr>es_ledger := l2\<rparr>))"

lemma unpaid_Inr:
  assumes "escrow_exec env c st = Inr st'" "call_pays c = None"
  obtains (created) "created_by env c st st'"
  | (moved) addr j j' where "es_jobs st addr = Some j" "addr = job_address (ee_fpa env) j" "job_open j" "job_open j'"
      "same_terms j j'" "st' = save_job addr j' st"
  | (closed) addr j where "es_jobs st addr = Some j" "\<not> job_open j" "st' = st\<lparr>es_jobs := (es_jobs st)(addr := None)\<rparr>"
proof (cases c)
  case (CreateJob addr v ata client mint agent nonce price)
  then have "created_by env c st st'" using assms(1)
    by (auto simp: create_job_def created_by_def res_simps job_address_def job_vault_def new_job_def Let_def)
  then show ?thesis by (rule created)
next
  case (AcceptJob addr agent)
  then obtain j where "es_jobs st addr = Some j" "addr = job_address (ee_fpa env) j" "job_open j"
    "st' = save_job addr (j\<lparr>jb_accepted_at := ee_now env, jb_state := Accepted\<rparr>) st"
    using assms(1) by (auto simp: accept_job_def load_job_def res_simps job_open_def)
  then show ?thesis by (intro moved [of addr j "j\<lparr>jb_accepted_at := ee_now env, jb_state := Accepted\<rparr>"]) (simp_all add: job_open_def same_terms_def)
next
  case (CompleteJob addr agent)
  then obtain j where "es_jobs st addr = Some j" "addr = job_address (ee_fpa env) j" "job_open j"
    "st' = save_job addr (j\<lparr>jb_completed_at := ee_now env, jb_state := Completed\<rparr>) st"
    using assms(1) by (auto simp: complete_job_def load_job_def res_simps job_open_def)
  then show ?thesis by (intro moved [of addr j "j\<lparr>jb_completed_at := ee_now env, jb_state := Completed\<rparr>"]) (simp_all add: job_open_def same_terms_def)
next
  case (DisputeJob addr client)
  then obtain j where "es_jobs st addr = Some j" "addr = job_address (ee_fpa env) j" "job_open j"
    "st' = save_job addr (j\<lparr>jb_state := Disputed\<rparr>) st"
    using assms(1) by (auto simp: dispute_job_def load_job_def res_simps job_open_def)
  then show ?thesis by (intro moved [of addr j "j\<lparr>jb_state := Disputed\<rparr>"]) (simp_all add: job_open_def same_terms_def)
next
  case (CloseJob addr claimant)
  then show ?thesis using assms(1) closed
    by (auto simp: close_job_def load_job_def res_simps job_open_def)
qed (use assms in auto)

section \<open>Runs\<close>

text \<open>
  What is known of the token program: a transfer needs the owner of its source as authority, moves
  exactly the amount and changes no account's owner or mint; an account is created only where there
  is none, and is then empty.
\<close>

definition token_laws :: "('l \<Rightarrow> pubkey \<Rightarrow> nat) \<Rightarrow> 'l token_program \<Rightarrow> bool" where
  "token_laws bal tp \<longleftrightarrow>
     (\<forall>src dst auth a l l'. tk_transfer tp src dst auth a l = Some l' \<longrightarrow>
        (\<exists>x. tk_account tp l src = Some x \<and> to_owner x = auth) \<and> unat a \<le> bal l src
        \<and> tk_account tp l' = tk_account tp l
        \<and> bal l' = (if src = dst then bal l
                    else (bal l)(src := bal l src - unat a, dst := bal l dst + unat a)))
     \<and> (\<forall>addr mint owner l l'. tk_init tp addr mint owner l = Some l' \<longrightarrow>
        tk_account tp l addr = None
        \<and> tk_account tp l' = (tk_account tp l)(addr \<mapsto> \<lparr>to_owner = owner, to_mint = mint\<rparr>)
        \<and> bal l' = (bal l)(addr := 0))"

lemma token_laws_transfer:
  assumes "token_laws bal tp" "tk_transfer tp src dst auth a l = Some l'"
  shows "(\<exists>x. tk_account tp l src = Some x \<and> to_owner x = auth) \<and> unat a \<le> bal l src
     \<and> tk_account tp l' = tk_account tp l
     \<and> bal l' = (if src = dst then bal l else (bal l)(src := bal l src - unat a, dst := bal l dst + unat a))"
  using assms unfolding token_laws_def by blast

lemma token_laws_init:
  assumes "token_laws bal tp" "tk_init tp addr mint owner l = Some l'"
  shows "tk_account tp l addr = None
     \<and> tk_account tp l' = (tk_account tp l)(addr \<mapsto> \<lparr>to_owner = owner, to_mint = mint\<rparr>)
     \<and> bal l' = (bal l)(addr := 0)"
  using assms unfolding token_laws_def by blast

text \<open>A derived address has no private key, so it never signs.\<close>

definition derived :: "pda_fun \<Rightarrow> pubkey \<Rightarrow> bool" where
  "derived fpa a \<longleftrightarrow> (\<exists>seeds program_id. a = fst (fpa seeds program_id))"

text \<open>Between calls tokens move as their owners like: what a derived address owns only grows.\<close>

definition outside_move :: "('l \<Rightarrow> pubkey \<Rightarrow> nat) \<Rightarrow> 'l token_program \<Rightarrow> pda_fun \<Rightarrow> 'l \<Rightarrow> 'l \<Rightarrow> bool" where
  "outside_move bal tp fpa l l' \<longleftrightarrow> (\<forall>a x. tk_account tp l a = Some x \<longrightarrow> derived fpa (to_owner x) \<longrightarrow>
     tk_account tp l' a = Some x \<and> bal l a \<le> bal l' a)"

text \<open>A run, with its successful calls and the times they were executed at, last first.\<close>

inductive escrow_run ::
    "('l \<Rightarrow> pubkey \<Rightarrow> nat) \<Rightarrow> 'l token_program \<Rightarrow> pda_fun \<Rightarrow> 'l \<Rightarrow> (i64 \<times> escrow_call) list \<Rightarrow> 'l escrow_state \<Rightarrow> bool"
  for bal :: "'l \<Rightarrow> pubkey \<Rightarrow> nat" and tp :: "'l token_program" and fpa :: pda_fun and l0 :: 'l where
  start: "escrow_run bal tp fpa l0 [] \<lparr>es_jobs = Map.empty, es_ledger = l0\<rparr>"
| call: "escrow_run bal tp fpa l0 h st \<Longrightarrow> \<not> derived fpa (call_signer c) \<Longrightarrow>
     escrow_exec \<lparr>ee_token = tp, ee_fpa = fpa, ee_now = now\<rparr> c st = Inr st' \<Longrightarrow>
     escrow_run bal tp fpa l0 ((now, c) # h) st'"
| outside: "escrow_run bal tp fpa l0 h st \<Longrightarrow> outside_move bal tp fpa (es_ledger st) l' \<Longrightarrow>
     escrow_run bal tp fpa l0 h (st\<lparr>es_ledger := l'\<rparr>)"

definition vault_account :: "'l token_program \<Rightarrow> pda_fun \<Rightarrow> 'l \<Rightarrow> pubkey \<Rightarrow> bool" where
  "vault_account tp fpa l v \<longleftrightarrow> derived fpa v \<and> (\<exists>x. tk_account tp l v = Some x \<and> to_owner x = v)"

definition paid_from :: "pubkey \<Rightarrow> (i64 \<times> escrow_call) list \<Rightarrow> nat" where
  "paid_from v h = length (filter (\<lambda>(t, c). \<exists>addr ata. call_pays c = Some (addr, v, ata)) h)"

lemma paid_from_simps [simp]:
  "paid_from v [] = 0"
  "call_pays c = None \<Longrightarrow> paid_from v ((t, c) # h) = paid_from v h"
  "call_pays c = Some (addr, w, ata) \<Longrightarrow> paid_from v ((t, c) # h) = (if v = w then Suc (paid_from v h) else paid_from v h)"
  by (simp_all add: paid_from_def)

definition escrow_inv ::
    "('l \<Rightarrow> pubkey \<Rightarrow> nat) \<Rightarrow> 'l token_program \<Rightarrow> pda_fun \<Rightarrow> (i64 \<times> escrow_call) list \<Rightarrow> 'l escrow_state \<Rightarrow> bool" where
  "escrow_inv bal tp fpa h st \<longleftrightarrow>
     (\<forall>addr j. es_jobs st addr = Some j \<longrightarrow> addr = job_address fpa j \<and> vault_account tp fpa (es_ledger st) (job_vault fpa j)
        \<and> (job_open j \<longrightarrow> unat (jb_price_micro j) \<le> bal (es_ledger st) (job_vault fpa j)
                      \<and> paid_from (job_vault fpa j) h = 0))
     \<and> (\<forall>a b j k. es_jobs st a = Some j \<longrightarrow> es_jobs st b = Some k \<longrightarrow> job_vault fpa j = job_vault fpa k \<longrightarrow> a = b)
     \<and> (\<forall>v. paid_from v h \<le> 1 \<and> (0 < paid_from v h \<longrightarrow> vault_account tp fpa (es_ledger st) v))"

lemma derived_vault [simp]: "derived fpa (job_vault fpa j)"
  by (auto simp: derived_def job_vault_def find_escrow_vault_pda_def)

text \<open>Other jobs keep their invariant when the ledger changes harmlessly for their vaults.\<close>

lemma escrow_inv_save:
  assumes inv: "escrow_inv bal tp fpa h st"
    and j: "es_jobs st addr = Some j" "same_terms j j'" "job_open j' \<longrightarrow> job_open j"
    and acc: "\<And>v. vault_account tp fpa (es_ledger st) v \<Longrightarrow> vault_account tp fpa l' v"
    and bal: "\<And>a k. es_jobs st a = Some k \<Longrightarrow> job_open k \<Longrightarrow> a \<noteq> addr \<or> job_open j' \<Longrightarrow>
       bal (es_ledger st) (job_vault fpa k) \<le> bal l' (job_vault fpa k)"
    and paid: "\<And>v. paid_from v h' \<noteq> paid_from v h \<Longrightarrow> v = job_vault fpa j \<and> job_open j \<and> \<not> job_open j'
       \<and> paid_from v h' = Suc (paid_from v h)"
  shows "escrow_inv bal tp fpa h' (save_job addr j' (st\<lparr>es_ledger := l'\<rparr>))"
proof -
  have t: "job_address fpa j' = job_address fpa j" "job_vault fpa j' = job_vault fpa j" "jb_price_micro j' = jb_price_micro j"
    using j(2) by (simp_all add: same_terms_address) (simp add: same_terms_def)
  have one: "\<And>a k. es_jobs st a = Some k \<Longrightarrow> job_vault fpa k = job_vault fpa j \<Longrightarrow> a = addr"
    using inv j(1) by (auto simp: escrow_inv_def)
  have old: "\<And>a k. es_jobs st a = Some k \<Longrightarrow> a = job_address fpa k \<and> vault_account tp fpa (es_ledger st) (job_vault fpa k)
        \<and> (job_open k \<longrightarrow> unat (jb_price_micro k) \<le> bal (es_ledger st) (job_vault fpa k) \<and> paid_from (job_vault fpa k) h = 0)"
    using inv by (auto simp: escrow_inv_def)
  have p: "paid_from v h' \<le> 1 \<and> (0 < paid_from v h' \<longrightarrow> vault_account tp fpa l' v)" for v
  proof (cases "paid_from v h' = paid_from v h")
    case True
    then show ?thesis using inv acc by (auto simp: escrow_inv_def)
  next
    case False
    from paid [OF this] old [OF j(1)] acc show ?thesis by auto
  qed
  have keep: "paid_from (job_vault fpa k) h' = paid_from (job_vault fpa k) h" if "es_jobs st a = Some k" "a \<noteq> addr \<or> job_open j'" for a k
    using paid [of "job_vault fpa k"] one [OF that(1)] that(2) by auto
  show ?thesis
    unfolding escrow_inv_def
  proof (intro conjI allI impI)
    fix a k
    assume "es_jobs (save_job addr j' (st\<lparr>es_ledger := l'\<rparr>)) a = Some k"
    then have "a = addr \<and> k = j' \<or> a \<noteq> addr \<and> es_jobs st a = Some k" by (auto simp: save_job_def split: if_splits)
    then show "a = job_address fpa k" "vault_account tp fpa (es_ledger (save_job addr j' (st\<lparr>es_ledger := l'\<rparr>))) (job_vault fpa k)"
      "job_open k \<Longrightarrow> unat (jb_price_micro k) \<le> bal (es_ledger (save_job addr j' (st\<lparr>es_ledger := l'\<rparr>))) (job_vault fpa k)"
      "job_open k \<Longrightarrow> paid_from (job_vault fpa k) h' = 0"
      using old [of a k] old [OF j(1)] acc bal [of a k] bal [OF j(1)] keep [of a k] keep [OF j(1)] j(3) t
      by (auto simp: save_job_def intro: le_trans)
  next
    fix a b k k'
    assume "es_jobs (save_job addr j' (st\<lparr>es_ledger := l'\<rparr>)) a = Some k" "es_jobs (save_job addr j' (st\<lparr>es_ledger := l'\<rparr>)) b = Some k'"
      "job_vault fpa k = job_vault fpa k'"
    then show "a = b" using inv j(1) t(2) by (auto simp: save_job_def escrow_inv_def split: if_splits)
  next
    fix v
    show "paid_from v h' \<le> 1" "0 < paid_from v h' \<Longrightarrow> vault_account tp fpa (es_ledger (save_job addr j' (st\<lparr>es_ledger := l'\<rparr>))) v"
      using p by (auto simp: save_job_def)
  qed
qed

lemma escrow_inv_create:
  assumes inv: "escrow_inv bal tp fpa h st" and laws: "token_laws bal tp" and off: "\<not> derived fpa (call_signer c)"
    and cr: "created_by \<lparr>ee_token = tp, ee_fpa = fpa, ee_now = now\<rparr> c st st'"
  shows "escrow_inv bal tp fpa ((now, c) # h) st'"
proof -
  obtain addr v ata mint client agent nonce price l1 l2 a j where c:
    "j = new_job \<lparr>ee_token = tp, ee_fpa = fpa, ee_now = now\<rparr> client agent nonce price"
    "c = CreateJob addr v ata client mint agent nonce price" "addr = job_address fpa j" "v = job_vault fpa j"
    "es_jobs st addr = None" "tk_init tp v mint v (es_ledger st) = Some l1"
    "tk_account tp (es_ledger st) ata = Some a" "to_owner a = client"
    "tk_transfer tp ata v client price l1 = Some l2" "st' = save_job addr j (st\<lparr>es_ledger := l2\<rparr>)"
    using cr by (auto simp: created_by_def Let_def)
  note i = token_laws_init [OF laws c(6)] and t = token_laws_transfer [OF laws c(9)]
  have dv: "derived fpa v" by (simp add: c(4))
  have "ata \<noteq> v" using c(7) i by auto
  then have bv: "bal l2 v = unat price" using t i by simp
  have acc: "tk_account tp l2 = (tk_account tp (es_ledger st))(v \<mapsto> \<lparr>to_owner = v, to_mint = mint\<rparr>)" using t i by simp
  have ow: "to_owner a \<noteq> w" if "derived fpa w" for w using off c(2,8) that by auto
  have keep: "w \<noteq> v \<and> vault_account tp fpa l2 w \<and> bal l2 w = bal (es_ledger st) w"
    if va: "vault_account tp fpa (es_ledger st) w" for w
  proof -
    obtain x where x: "derived fpa w" "tk_account tp (es_ledger st) w = Some x" "to_owner x = w"
      using va unfolding vault_account_def by blast
    have "w \<noteq> v" using x(2) i by auto
    moreover have "w \<noteq> ata" using x c(7) ow [OF x(1)] by auto
    ultimately show ?thesis using t i x acc \<open>ata \<noteq> v\<close> by (auto simp: vault_account_def)
  qed
  have new: "vault_account tp fpa l2 v" using dv acc by (simp add: vault_account_def)
  have zero: "paid_from v h = 0" using inv keep [of v] by (force simp: escrow_inv_def)
  have price: "jb_price_micro j = price" by (simp add: c(1) new_job_def)
  have other: "a = job_address fpa k \<and> vault_account tp fpa (es_ledger st) (job_vault fpa k)"
    if "es_jobs st a = Some k" for a k
    using inv that unfolding escrow_inv_def by blast
  then have ne: "job_vault fpa k \<noteq> v" if "es_jobs st a = Some k" for a k using keep that by blast
  show ?thesis
    unfolding escrow_inv_def c(10)
  proof (intro conjI allI impI)
    fix b k
    assume "es_jobs (save_job addr j (st\<lparr>es_ledger := l2\<rparr>)) b = Some k"
    then have "b = addr \<and> k = j \<or> b \<noteq> addr \<and> es_jobs st b = Some k" by (auto simp: save_job_def split: if_splits)
    then show "b = job_address fpa k" "vault_account tp fpa (es_ledger (save_job addr j (st\<lparr>es_ledger := l2\<rparr>))) (job_vault fpa k)"
      "job_open k \<Longrightarrow> unat (jb_price_micro k) \<le> bal (es_ledger (save_job addr j (st\<lparr>es_ledger := l2\<rparr>))) (job_vault fpa k)"
      "job_open k \<Longrightarrow> paid_from (job_vault fpa k) ((now, c) # h) = 0"
      using inv new bv zero price c(2,3,4) other [of b k] keep [of "job_vault fpa k"]
      by (auto simp: save_job_def escrow_inv_def)
  next
    fix b b' k k'
    assume "es_jobs (save_job addr j (st\<lparr>es_ledger := l2\<rparr>)) b = Some k" "es_jobs (save_job addr j (st\<lparr>es_ledger := l2\<rparr>)) b' = Some k'"
      "job_vault fpa k = job_vault fpa k'"
    then show "b = b'" using inv ne c(4) by (auto simp: save_job_def escrow_inv_def split: if_splits)
  next
    fix w
    show "paid_from w ((now, c) # h) \<le> 1"
      "0 < paid_from w ((now, c) # h) \<Longrightarrow> vault_account tp fpa (es_ledger (save_job addr j (st\<lparr>es_ledger := l2\<rparr>))) w"
      using inv keep [of w] by (auto simp: save_job_def escrow_inv_def c(2))
  qed
qed

lemma settle_cases:
  assumes "escrow_exec \<lparr>ee_token = tp, ee_fpa = fpa, ee_now = now\<rparr> c st = Inr st'" "call_pays c = Some (addr, v, ata)"
  shows "\<exists>j a l. es_jobs st addr = Some j \<and> v = job_vault fpa j \<and> tk_account tp (es_ledger st) ata = Some a
     \<and> payee_ok now c j (to_owner a) \<and> tk_transfer tp v ata v (jb_price_micro j) (es_ledger st) = Some l
     \<and> st' = save_job addr (settled_form now c j) (st\<lparr>es_ledger := l\<rparr>)"
  using settle_Inr [OF assms] by (elim exE conjE) (intro exI conjI; simp)

lemma escrow_inv_settle:
  assumes inv: "escrow_inv bal tp fpa h st" and laws: "token_laws bal tp"
    and ex: "escrow_exec \<lparr>ee_token = tp, ee_fpa = fpa, ee_now = now\<rparr> c st = Inr st'" "call_pays c = Some (addr, v, ata)"
  shows "escrow_inv bal tp fpa ((now, c) # h) st'"
proof -
  obtain j l and a :: token_account where j: "es_jobs st addr = Some j" "v = job_vault fpa j" "payee_ok now c j (to_owner a)"
    "tk_transfer tp v ata v (jb_price_micro j) (es_ledger st) = Some l"
    "st' = save_job addr (settled_form now c j) (st\<lparr>es_ledger := l\<rparr>)"
    using settle_cases [OF ex] by blast
  note t = token_laws_transfer [OF laws j(4)]
  have one: "b = addr" if "es_jobs st b = Some k" "job_vault fpa k = v" for b k
    using inv that j(1,2) by (auto simp: escrow_inv_def)
  show ?thesis
    unfolding j(5)
  proof (rule escrow_inv_save [OF inv j(1) settled_form_props(1)])
    show "job_open (settled_form now c j) \<longrightarrow> job_open j" by (simp add: settled_form_props)
    show "vault_account tp fpa l w" if "vault_account tp fpa (es_ledger st) w" for w
      using that t by (simp add: vault_account_def)
    show "bal (es_ledger st) (job_vault fpa k) \<le> bal l (job_vault fpa k)"
      if "es_jobs st b = Some k" "b \<noteq> addr \<or> job_open (settled_form now c j)" for b k
      using that one [OF that(1)] t by (auto simp: settled_form_props)
    show "w = job_vault fpa j \<and> job_open j \<and> \<not> job_open (settled_form now c j)
       \<and> paid_from w ((now, c) # h) = Suc (paid_from w h)" if "paid_from w ((now, c) # h) \<noteq> paid_from w h" for w
      using that ex(2) j(2) payee_ok_open [OF j(3)] by (auto simp: settled_form_props split: if_splits)
  qed
qed

lemma escrow_inv_call:
  assumes inv: "escrow_inv bal tp fpa h st" and laws: "token_laws bal tp" and off: "\<not> derived fpa (call_signer c)"
    and ex: "escrow_exec \<lparr>ee_token = tp, ee_fpa = fpa, ee_now = now\<rparr> c st = Inr st'"
  shows "escrow_inv bal tp fpa ((now, c) # h) st'"
proof (cases "call_pays c")
  case (Some p)
  then show ?thesis using escrow_inv_settle [OF inv laws ex] by (cases p) auto
next
  case None
  from ex None show ?thesis
  proof (cases rule: unpaid_Inr)
    case created
    then show ?thesis by (rule escrow_inv_create [OF inv laws off])
  next
    case (moved addr j j')
    have "escrow_inv bal tp fpa ((now, c) # h) (save_job addr j' (st\<lparr>es_ledger := es_ledger st\<rparr>))"
      using None moved by (intro escrow_inv_save [OF inv moved(1,5)]) auto
    then show ?thesis using moved(6) by simp
  next
    case (closed addr j)
    then show ?thesis using inv None by (auto simp: escrow_inv_def split: if_splits)
  qed
qed

lemma escrow_run_inv:
  assumes "escrow_run bal tp fpa l0 h st" "token_laws bal tp"
  shows "escrow_inv bal tp fpa h st"
  using assms
proof (induction rule: escrow_run.induct)
  case start
  then show ?case by (simp add: escrow_inv_def)
next
  case (call h st c now st')
  then show ?case using escrow_inv_call by blast
next
  case (outside h st l')
  have acc: "vault_account tp fpa l' v \<and> bal (es_ledger st) v \<le> bal l' v" if "vault_account tp fpa (es_ledger st) v" for v
    using that outside.hyps(2) by (auto simp: vault_account_def outside_move_def)
  from outside.IH [OF outside.prems] acc show ?case by (fastforce simp: escrow_inv_def intro: le_trans)
qed

section \<open>Recovery\<close>

text \<open>A transfer between accounts of one mint by the owner of the source succeeds when the balances allow it.\<close>

definition token_live :: "('l \<Rightarrow> pubkey \<Rightarrow> nat) \<Rightarrow> 'l token_program \<Rightarrow> bool" where
  "token_live bal tp \<longleftrightarrow> (\<forall>src dst auth a l x y.
     tk_account tp l src = Some x \<longrightarrow> tk_account tp l dst = Some y \<longrightarrow> to_owner x = auth \<longrightarrow> to_mint x = to_mint y \<longrightarrow>
     unat a \<le> bal l src \<longrightarrow> bal l dst + unat a < 2 ^ 64 \<longrightarrow> tk_transfer tp src dst auth a l \<noteq> None)"

text \<open>What the client can do alone, and from when on.\<close>

definition recovery_calls :: "pda_fun \<Rightarrow> pubkey \<Rightarrow> job \<Rightarrow> escrow_call list" where
  "recovery_calls fpa ata j =
     (let addr = job_address fpa j; v = job_vault fpa j; client = jb_client j in
      case jb_state j of
        Created \<Rightarrow> [CancelJob addr v ata client]
      | Accepted \<Rightarrow> [CancelJob addr v ata client]
      | Completed \<Rightarrow> [DisputeJob addr client, ResolveDispute addr v ata client]
      | Disputed \<Rightarrow> [ResolveDispute addr v ata client]
      | _ \<Rightarrow> [])"

definition recovery_time :: "job \<Rightarrow> int" where
  "recovery_time j =
     (case jb_state j of
        Accepted \<Rightarrow> sint (jb_accepted_at j) + accept_timeout_seconds
      | Completed \<Rightarrow> sint (jb_completed_at j) + dispute_timeout_seconds
      | Disputed \<Rightarrow> sint (jb_completed_at j) + dispute_timeout_seconds
      | _ \<Rightarrow> - (2 ^ 63))"

lemma sint_i64_less: "sint (w :: i64) < 2 ^ 63"
  using sint_lt [of w] by simp

lemma settle_succeeds:
  assumes "call_pays c = Some (addr, job_vault fpa j, ata)" "es_jobs st addr = Some j" "addr = job_address fpa j"
    and "payee_ok now c j (to_owner a)" "tk_account tp (es_ledger st) ata = Some a"
    and "tk_account tp (es_ledger st) (job_vault fpa j) = Some x" "to_mint a = to_mint x"
    and "tk_transfer tp (job_vault fpa j) ata (job_vault fpa j) (jb_price_micro j) (es_ledger st) = Some l"
  shows "escrow_exec \<lparr>ee_token = tp, ee_fpa = fpa, ee_now = now\<rparr> c st
     = Inr (save_job addr (settled_form now c j) (st\<lparr>es_ledger := l\<rparr>))"
proof -
  have "sint t + d < 2 ^ 63" if "sint t + d \<le> sint now" for t :: i64 and d
    using that sint_i64_less [of now] by linarith
  then have "timeout_elapsed now t d e = Inr ()" if "sint t + d \<le> sint now" for t d e
    using that by (simp add: timeout_elapsed_def)
  then show ?thesis using assms
    by (cases c) (auto simp: release_payment_def cancel_job_def resolve_dispute_def escrow_loads cancel_allowed_def)
qed

section \<open>Properties\<close>

text \<open>
  C12. The escrow is solvent and settles each job once: whatever is called by whoever can sign, and
  however tokens move in between, the vault of every open job holds at least its price, and no vault
  ever pays twice, not even when a closed job's client and nonce are used again.
\<close>

theorem escrow_solvent_and_pays_once:
  assumes "escrow_run bal tp fpa l0 h st" "token_laws bal tp"
  shows "(es_jobs st addr = Some j \<and> job_open j \<longrightarrow>
            unat (jb_price_micro j) \<le> bal (es_ledger st) (job_vault fpa j) \<and> paid_from (job_vault fpa j) h = 0)
     \<and> paid_from v h \<le> 1"
  using escrow_run_inv [OF assms] by (auto simp: escrow_inv_def)

text \<open>
  C23. Who gets the money: if a call lowers the balance of a vault, it is a settling call of that
  vault's job, the vault pays exactly the price, and the payee is a token account of the agent, on a
  release the client signed after the agent completed the job, or one of the client, on a cancel or a
  resolve the rules allow; the job is then no longer open.
\<close>

theorem escrow_payout_only_to_party:
  assumes laws: "token_laws bal tp" and off: "\<not> derived fpa (call_signer c)"
    and ex: "escrow_exec \<lparr>ee_token = tp, ee_fpa = fpa, ee_now = now\<rparr> c st = Inr st'"
    and low: "bal (es_ledger st') v < bal (es_ledger st) v" "vault_account tp fpa (es_ledger st) v"
  shows "\<exists>addr ata j a. call_pays c = Some (addr, v, ata) \<and> es_jobs st addr = Some j \<and> v = job_vault fpa j
     \<and> tk_account tp (es_ledger st) ata = Some a \<and> payee_ok now c j (to_owner a) \<and> ata \<noteq> v
     \<and> bal (es_ledger st') v = bal (es_ledger st) v - unat (jb_price_micro j)
     \<and> bal (es_ledger st') ata = bal (es_ledger st) ata + unat (jb_price_micro j)
     \<and> es_jobs st' addr = Some (settled_form now c j) \<and> \<not> job_open (settled_form now c j)"
proof (cases "call_pays c")
  case (Some p)
  obtain addr w ata where p: "call_pays c = Some (addr, w, ata)" using Some by (cases p) auto
  obtain j a l where j: "es_jobs st addr = Some j" "w = job_vault fpa j" "tk_account tp (es_ledger st) ata = Some a"
    "payee_ok now c j (to_owner a)" "tk_transfer tp w ata w (jb_price_micro j) (es_ledger st) = Some l"
    "st' = save_job addr (settled_form now c j) (st\<lparr>es_ledger := l\<rparr>)"
    using settle_cases [OF ex p] by blast
  note t = token_laws_transfer [OF laws j(5)]
  have "w = v \<and> ata \<noteq> v" using low(1) t j(6) by (auto simp: save_job_def split: if_splits)
  then show ?thesis using p j t by (intro exI [of _ addr] exI [of _ ata] exI [of _ j] exI [of _ a])
      (auto simp: save_job_def settled_form_props)
next
  case None
  from ex None show ?thesis
  proof (cases rule: unpaid_Inr)
    case created
    then obtain ata w mint client price l1 l2 a where cr: "call_signer c = client"
      "tk_init tp w mint w (es_ledger st) = Some l1" "tk_account tp (es_ledger st) ata = Some a"
      "to_owner a = client" "tk_transfer tp ata w client price l1 = Some l2" "es_ledger st' = l2"
      by (auto simp: created_by_def Let_def save_job_def)
    have "v \<noteq> ata" using low(2) cr(1,3,4) off by (auto simp: vault_account_def)
    moreover have "v \<noteq> w" using low(2) token_laws_init [OF laws cr(2)] by (auto simp: vault_account_def)
    ultimately show ?thesis
      using low(1) cr(6) token_laws_init [OF laws cr(2)] token_laws_transfer [OF laws cr(5)]
      by (auto split: if_splits)
  qed (use low in \<open>auto simp: save_job_def\<close>)
qed

text \<open>
  C24. The client can always get the money back alone: for every open job of a reachable state, once
  the time the rules set has come (at once while nobody has accepted; otherwise seven days after
  acceptance or completion), the calls of \<open>recovery_calls\<close>, all signed by the client, succeed and
  return the full price to the client's token account. In particular this holds after the agent has
  completed the work: nothing the agent can do prevents it.
\<close>

theorem client_can_always_recover:
  assumes run: "escrow_run bal tp fpa l0 h st" and laws: "token_laws bal tp" "token_live bal tp"
    and j: "es_jobs st addr = Some j" "job_open j" and time: "recovery_time j \<le> sint now"
    and ata: "tk_account tp (es_ledger st) ata = Some a" "to_owner a = jb_client j" "ata \<noteq> job_vault fpa j"
    and mint: "map_option to_mint (tk_account tp (es_ledger st) (job_vault fpa j)) = Some (to_mint a)"
    and room: "bal (es_ledger st) ata + unat (jb_price_micro j) < 2 ^ 64"
  shows "\<exists>st' j'. foldE (escrow_exec \<lparr>ee_token = tp, ee_fpa = fpa, ee_now = now\<rparr>) (recovery_calls fpa ata j) st = Inr st'
     \<and> es_jobs st' addr = Some j' \<and> jb_state j' = Refunded
     \<and> bal (es_ledger st') ata = bal (es_ledger st) ata + unat (jb_price_micro j)
     \<and> list_all (\<lambda>c. call_signer c = jb_client j) (recovery_calls fpa ata j)"
proof -
  let ?v = "job_vault fpa j" and ?env = "\<lparr>ee_token = tp, ee_fpa = fpa, ee_now = now\<rparr>"
  have inv: "addr = job_address fpa j" "vault_account tp fpa (es_ledger st) ?v"
    "unat (jb_price_micro j) \<le> bal (es_ledger st) ?v"
    using escrow_run_inv [OF run laws(1)] j unfolding escrow_inv_def by blast+
  obtain x where x: "tk_account tp (es_ledger st) ?v = Some x" "to_owner x = ?v" "to_mint a = to_mint x"
    using inv(2) mint by (auto simp: vault_account_def)
  obtain l where l: "tk_transfer tp ?v ata ?v (jb_price_micro j) (es_ledger st) = Some l"
    using laws(2) x ata(1) inv(3) room unfolding token_live_def by (metis option.exhaust)
  have paid: "bal l ata = bal (es_ledger st) ata + unat (jb_price_micro j)"
    using token_laws_transfer [OF laws(1) l] ata(3) by simp
  have dispute: "escrow_exec ?env (DisputeJob addr (jb_client j)) st = Inr (save_job addr (j\<lparr>jb_state := Disputed\<rparr>) st)"
    if "jb_state j = Completed"
    using that j inv(1) by (simp add: dispute_job_def load_job_def)
  let ?d = "j\<lparr>jb_state := Disputed\<rparr>" and ?st = "save_job addr (j\<lparr>jb_state := Disputed\<rparr>) st"
  have same: "job_address fpa ?d = job_address fpa j" "job_vault fpa ?d = ?v"
    by (simp_all add: job_address_def job_vault_def)
  have after: "escrow_exec ?env (ResolveDispute addr ?v ata (jb_client j)) ?st
      = Inr (save_job addr (settled_form now (ResolveDispute addr ?v ata (jb_client j)) ?d) (?st\<lparr>es_ledger := l\<rparr>))"
    if "jb_state j = Completed"
    by (rule settle_succeeds [of _ _ _ ?d _ _ _ a _ x])
      (use that time ata x l inv(1) same in \<open>auto simp: save_job_def recovery_time_def\<close>)
  have settle: "escrow_exec ?env c st = Inr (save_job addr (settled_form now c j) (st\<lparr>es_ledger := l\<rparr>))"
    if "call_pays c = Some (addr, ?v, ata)" "payee_ok now c j (to_owner a)" for c
    by (rule settle_succeeds [OF that(1) j(1) inv(1) that(2) ata(1) x(1,3) l])
  show ?thesis
    using j(2) time ata(2) paid dispute after settle
    by (cases "jb_state j")
      (simp_all add: recovery_calls_def recovery_time_def inv(1) [symmetric] job_open_def save_job_def Let_def
        del: escrow_exec.simps)
qed

section \<open>A run\<close>

text \<open>A ledger of token accounts with their balances, and the token program on it.\<close>

type_synonym spl = "pubkey \<rightharpoonup> token_account \<times> nat"

definition spl_balance :: "spl \<Rightarrow> pubkey \<Rightarrow> nat" where
  "spl_balance l a = (case l a of None \<Rightarrow> 0 | Some (_, b) \<Rightarrow> b)"

definition spl_transfer :: "pubkey \<Rightarrow> pubkey \<Rightarrow> pubkey \<Rightarrow> 64 word \<Rightarrow> spl \<Rightarrow> spl option" where
  "spl_transfer src dst auth a l =
     (case (l src, l dst) of
        (Some (x, b), Some (y, d)) \<Rightarrow>
          if to_owner x = auth \<and> to_mint x = to_mint y \<and> unat a \<le> b
          then Some (if src = dst then l else l(src \<mapsto> (x, b - unat a), dst \<mapsto> (y, d + unat a)))
          else None
      | _ \<Rightarrow> None)"

definition spl_token :: "spl token_program" where
  "spl_token = \<lparr>tk_account = (\<lambda>l a. map_option fst (l a)),
     tk_init = (\<lambda>addr mint owner l. if l addr = None
        then Some (l(addr \<mapsto> (\<lparr>to_owner = owner, to_mint = mint\<rparr>, 0))) else None),
     tk_transfer = spl_transfer\<rparr>"

lemma spl_transfer_Some:
  assumes "spl_transfer src dst auth a l = Some l'"
  shows "\<exists>x b y d. l src = Some (x, b) \<and> l dst = Some (y, d) \<and> to_owner x = auth \<and> unat a \<le> b
     \<and> l' = (if src = dst then l else l(src \<mapsto> (x, b - unat a), dst \<mapsto> (y, d + unat a)))"
  using assms by (auto simp: spl_transfer_def split: option.splits if_splits)

lemma spl_laws: "token_laws spl_balance spl_token" "token_live spl_balance spl_token"
proof -
  have "(\<exists>x. tk_account spl_token l src = Some x \<and> to_owner x = auth) \<and> unat a \<le> spl_balance l src
      \<and> tk_account spl_token l' = tk_account spl_token l
      \<and> spl_balance l' = (if src = dst then spl_balance l
           else (spl_balance l)(src := spl_balance l src - unat a, dst := spl_balance l dst + unat a))"
    if t: "tk_transfer spl_token src dst auth a l = Some l'" for src dst auth a l l'
  proof -
    obtain x b y d where "l src = Some (x, b)" "l dst = Some (y, d)" "to_owner x = auth" "unat a \<le> b"
      "l' = (if src = dst then l else l(src \<mapsto> (x, b - unat a), dst \<mapsto> (y, d + unat a)))"
      using spl_transfer_Some [of src dst auth a l l'] t by (auto simp: spl_token_def)
    then show ?thesis by (auto simp: spl_token_def spl_balance_def fun_eq_iff)
  qed
  moreover have "tk_account spl_token l addr = None
      \<and> tk_account spl_token l' = (tk_account spl_token l)(addr \<mapsto> \<lparr>to_owner = owner, to_mint = mint\<rparr>)
      \<and> spl_balance l' = (spl_balance l)(addr := 0)"
    if "tk_init spl_token addr mint owner l = Some l'" for addr mint owner l l'
  proof -
    have "l addr = None \<and> l' = l(addr \<mapsto> (\<lparr>to_owner = owner, to_mint = mint\<rparr>, 0))"
      using that by (simp add: spl_token_def split: if_splits)
    then show ?thesis by (simp add: spl_token_def spl_balance_def fun_eq_iff)
  qed
  ultimately show "token_laws spl_balance spl_token" unfolding token_laws_def by blast
  show "token_live spl_balance spl_token"
    by (auto simp: token_live_def spl_token_def spl_transfer_def spl_balance_def split: option.splits)
qed

text \<open>A client with 5000 puts 1000 into escrow for an agent.\<close>

definition demo_fpa :: pda_fun where
  "demo_fpa seeds program_id = (1 # concat seeds, 255)"

definition demo_env :: "i64 \<Rightarrow> spl escrow_env" where
  "demo_env now = \<lparr>ee_token = spl_token, ee_fpa = demo_fpa, ee_now = now\<rparr>"

definition demo_job :: job where
  "demo_job = new_job (demo_env 10) (zeros 32) (replicate 32 2) (zeros 8) 1000"

abbreviation demo_addr :: pubkey where "demo_addr \<equiv> job_address demo_fpa demo_job"

abbreviation demo_vault :: pubkey where "demo_vault \<equiv> job_vault demo_fpa demo_job"

definition demo_funded :: "spl \<Rightarrow> pubkey \<Rightarrow> pubkey \<Rightarrow> bool" where
  "demo_funded l ata mint \<longleftrightarrow> l ata = Some (\<lparr>to_owner = zeros 32, to_mint = mint\<rparr>, 5000) \<and> l demo_vault = None"

definition demo_create :: "pubkey \<Rightarrow> pubkey \<Rightarrow> escrow_call" where
  "demo_create ata mint = CreateJob demo_addr demo_vault ata (zeros 32) mint (replicate 32 2) (zeros 8) 1000"

definition demo_state :: "spl \<Rightarrow> pubkey \<Rightarrow> pubkey \<Rightarrow> spl escrow_state" where
  "demo_state l ata mint = save_job demo_addr demo_job \<lparr>es_jobs = Map.empty, es_ledger = l
     (demo_vault \<mapsto> (\<lparr>to_owner = demo_vault, to_mint = mint\<rparr>, 1000), ata \<mapsto> (\<lparr>to_owner = zeros 32, to_mint = mint\<rparr>, 4000))\<rparr>"

lemma demo_not_derived: "\<not> derived demo_fpa (zeros 32)"
  by (auto simp: derived_def demo_fpa_def zeros_def numeral_eq_Suc)

lemma demo_vault_cons: "demo_vault = 1 # utf8_ascii ''escrow'' @ zeros 32 @ zeros 8"
  by (simp add: job_vault_def find_escrow_vault_pda_def demo_fpa_def demo_job_def new_job_def)

lemma demo_created:
  assumes "demo_funded l ata mint"
  shows "escrow_exec (demo_env 10) (demo_create ata mint) \<lparr>es_jobs = Map.empty, es_ledger = l\<rparr> = Inr (demo_state l ata mint)"
proof -
  have "fst (find_job_pda demo_fpa (zeros 32) (zeros 8) qietr_escrow_program_id) = demo_addr"
    "fst (find_escrow_vault_pda demo_fpa (zeros 32) (zeros 8) qietr_escrow_program_id) = demo_vault"
    by (simp_all add: job_address_def job_vault_def demo_job_def new_job_def)
  moreover have "new_job (demo_env 10) (zeros 32) (replicate 32 2) (zeros 8) 1000 = demo_job" by (simp add: demo_job_def)
  moreover have "ata \<noteq> demo_vault" using assms by (auto simp: demo_funded_def)
  ultimately show ?thesis
    using assms unfolding demo_env_def
    by (simp add: demo_create_def create_job_def spl_token_def demo_funded_def spl_transfer_def
        demo_state_def fun_upd_twist)
qed

lemma demo_run:
  assumes "demo_funded l ata mint"
  shows "escrow_run spl_balance spl_token demo_fpa l [(10, demo_create ata mint)] (demo_state l ata mint)"
proof (rule escrow_run.call [OF escrow_run.start])
  show "\<not> derived demo_fpa (call_signer (demo_create ata mint))" using demo_not_derived by (simp add: demo_create_def)
  show "escrow_exec \<lparr>ee_token = spl_token, ee_fpa = demo_fpa, ee_now = 10\<rparr> (demo_create ata mint)
      \<lparr>es_jobs = Map.empty, es_ledger = l\<rparr> = Inr (demo_state l ata mint)"
    using demo_created [OF assms] unfolding demo_env_def .
qed

lemma demo_facts:
  assumes "demo_funded l ata mint"
  shows "es_jobs (demo_state l ata mint) demo_addr = Some demo_job" "job_open demo_job" "jb_price_micro demo_job = 1000"
    "jb_client demo_job = zeros 32" "jb_state demo_job = Created"
    "tk_account spl_token (es_ledger (demo_state l ata mint)) ata = Some \<lparr>to_owner = zeros 32, to_mint = mint\<rparr>"
    "tk_account spl_token (es_ledger (demo_state l ata mint)) demo_vault = Some \<lparr>to_owner = demo_vault, to_mint = mint\<rparr>"
    "spl_balance (es_ledger (demo_state l ata mint)) ata = 4000"
    "spl_balance (es_ledger (demo_state l ata mint)) demo_vault = 1000" "demo_vault \<noteq> ata"
proof -
  show n: "demo_vault \<noteq> ata" using assms by (auto simp: demo_funded_def)
  show "es_jobs (demo_state l ata mint) demo_addr = Some demo_job" "job_open demo_job" "jb_price_micro demo_job = 1000"
    "jb_client demo_job = zeros 32" "jb_state demo_job = Created"
    by (simp_all add: demo_state_def save_job_def job_open_def demo_job_def new_job_def)
  show "tk_account spl_token (es_ledger (demo_state l ata mint)) ata = Some \<lparr>to_owner = zeros 32, to_mint = mint\<rparr>"
    "tk_account spl_token (es_ledger (demo_state l ata mint)) demo_vault = Some \<lparr>to_owner = demo_vault, to_mint = mint\<rparr>"
    "spl_balance (es_ledger (demo_state l ata mint)) ata = 4000"
    "spl_balance (es_ledger (demo_state l ata mint)) demo_vault = 1000"
    using n by (simp_all add: demo_state_def save_job_def spl_token_def spl_balance_def)
qed

definition demo_ledger :: spl where
  "demo_ledger = [[2] \<mapsto> (\<lparr>to_owner = zeros 32, to_mint = []\<rparr>, 5000)]"

lemma demo_ledger_funded: "demo_funded demo_ledger [2] []"
  by (simp add: demo_funded_def demo_ledger_def demo_vault_cons)

lemmas demo = demo_facts [OF demo_ledger_funded]

theorem escrow_solvent_and_pays_once_witness:
  "1000 \<le> spl_balance (es_ledger (demo_state demo_ledger [2] [])) demo_vault
     \<and> paid_from demo_vault [(10, demo_create [2] [])] \<le> 1"
  using escrow_solvent_and_pays_once [OF demo_run [OF demo_ledger_funded] spl_laws(1), of demo_addr demo_job demo_vault]
    demo(1-3) by simp

theorem client_can_always_recover_witness:
  "\<exists>st'. foldE (escrow_exec (demo_env 20)) (recovery_calls demo_fpa [2] demo_job) (demo_state demo_ledger [2] []) = Inr st'
     \<and> spl_balance (es_ledger st') [2] = 5000"
proof -
  have t: "recovery_time demo_job \<le> sint (20 :: i64)" by (simp add: recovery_time_def demo(5))
  show ?thesis
    using client_can_always_recover [OF demo_run [OF demo_ledger_funded] spl_laws demo(1,2) t demo(6) _ demo(10) [symmetric]]
      demo by (simp add: demo_env_def) blast
qed

theorem escrow_payout_only_to_party_witness:
  "\<exists>st'. escrow_exec (demo_env 20) (CancelJob demo_addr demo_vault [2] (zeros 32)) (demo_state demo_ledger [2] []) = Inr st'
     \<and> spl_balance (es_ledger st') [2] = 4000 + 1000"
proof -
  let ?c = "CancelJob demo_addr demo_vault [2] (zeros 32)" and ?s = "demo_state demo_ledger [2] []"
  obtain l where l: "tk_transfer spl_token demo_vault [2] demo_vault 1000 (es_ledger ?s) = Some l"
    "spl_balance l demo_vault < 1000"
    using demo(10) by (simp add: spl_token_def spl_transfer_def demo_state_def save_job_def spl_balance_def)
  have ex: "escrow_exec \<lparr>ee_token = spl_token, ee_fpa = demo_fpa, ee_now = 20\<rparr> ?c ?s
      = Inr (save_job demo_addr (settled_form 20 ?c demo_job) (?s\<lparr>es_ledger := l\<rparr>))"
    by (rule settle_succeeds [OF _ demo(1) _ _ demo(6,7)]) (use demo l in \<open>simp_all\<close>)
  have v: "vault_account spl_token demo_fpa (es_ledger ?s) demo_vault"
    using demo(7) by (simp add: vault_account_def)
  show ?thesis
    using escrow_payout_only_to_party [OF spl_laws(1) _ ex, of demo_vault] demo_not_derived v ex l(2) demo
    by (auto simp: demo_env_def save_job_def)
qed

end
