(* ===== verification/EscrowApp.thy ===== *)
theory EscrowApp
  imports EscrowProgram SdkChain PoolDecode
begin

text \<open>
  The escrow page of the web application, \<open>qietr-web/app/app/escrow/EscrowManager.tsx\<close>: which
  instructions a click builds, how the list of jobs is merged and which actions a job offers. Shown
  here too: the instructions of \<open>escrow.ts\<close> dispatch to the handlers they are meant for, and the job
  parser inverts the account layout of the program.
\<close>

section \<open>Creating a job\<close>

datatype app_error =
    ConnectWallet | InvalidAgentAddress | NotPositiveAmount | UncaughtRange | InsufficientUsdc int int
  | NotAvailableBefore int | UnknownAction | InvalidAddress | BuilderFailed sdk_wire_error

record app_env =
  ap_sha :: hash_fun
  ap_fpa :: pda_fun
  ap_b58 :: "pubkey \<Rightarrow> string"
  ap_parse_key :: "string \<Rightarrow> pubkey option"
  ap_date :: "int \<Rightarrow> string"
  ap_now :: int

definition app_cluster :: "string option \<Rightarrow> string" where
  "app_cluster v = to_lower (default_to ''devnet'' v)"

definition app_usdc_mint :: "string \<Rightarrow> pubkey" where
  "app_usdc_mint c = (if contains ''mainnet'' c then usdc_mint_mainnet else usdc_mint_devnet)"

text \<open>
  \<open>amount\<close> is what \<open>Number.parseFloat\<close> made of the field (\<open>NonFinite\<close> covers \<open>NaN\<close>), \<open>balance\<close>
  the balance read of the client's token account, \<open>None\<close> if reading it failed.
\<close>

definition handle_create ::
    "app_env \<Rightarrow> string option \<Rightarrow> pubkey option \<Rightarrow> string \<Rightarrow> js_float \<Rightarrow> bytes \<Rightarrow> int option \<Rightarrow> app_error + instruction list" where
  "handle_create env cl wallet agent amount nonce balance =
     bindE (optE ConnectWallet wallet) (\<lambda>me.
     bindE (optE InvalidAgentAddress (ap_parse_key env agent)) (\<lambda>agent_key.
     bindE (guardE (case amount of Dyadic m k \<Rightarrow> \<not> m \<le> 0 | NonFinite \<Rightarrow> False) NotPositiveAmount) (\<lambda>_.
     bindE (optE UncaughtRange (usdc_to_micro amount)) (\<lambda>price.
     let mint = app_usdc_mint (app_cluster cl); ata = find_associated_token_address (ap_fpa env) me mint;
         have_micro = default_to 0 balance in
     bindE (guardE (\<not> have_micro < price) (InsufficientUsdc have_micro price)) (\<lambda>_.
     case build_create_job_ix (ap_sha env) (ap_fpa env) agent_key nonce price me ata mint qietr_escrow_program_id of
       Inl e \<Rightarrow> Inl (BuilderFailed e)
     | Inr ix \<Rightarrow> Inr [build_create_ata_idempotent_ix (ap_fpa env) me me mint, ix])))))"

section \<open>Listing jobs\<close>

record job_row =
  jr_job :: parsed_job
  jr_pda :: string

fun merge_loop ::
    "app_env \<Rightarrow> (pubkey \<times> bytes) list \<Rightarrow> string list \<Rightarrow> job_row list \<Rightarrow> job_row list" where
  "merge_loop env [] seen all = all"
| "merge_loop env ((pk, data) # accs) seen all =
     (let key = ap_b58 env pk in
      if key \<in> set seen then merge_loop env accs seen all
      else merge_loop env accs (key # seen)
        (case parse_job_account (ap_sha env) (ap_b58 env) data of
           None \<Rightarrow> all
         | Some j \<Rightarrow> all @ [\<lparr>jr_job = j, jr_pda = key\<rparr>]))"

definition fetch_jobs :: "app_env \<Rightarrow> (pubkey \<times> bytes) list \<Rightarrow> (pubkey \<times> bytes) list \<Rightarrow> job_row list" where
  "fetch_jobs env as_client as_agent =
     sort_key (\<lambda>r. - pj_created_at (jr_job r)) (merge_loop env (as_client @ as_agent) [] [])"

section \<open>Acting on a job\<close>

definition app_timeout :: int where
  "app_timeout = 7 * 24 * 3600"

definition row_vault :: "app_env \<Rightarrow> parsed_job \<Rightarrow> app_error + pubkey" where
  "row_vault env j =
     bindE (optE InvalidAddress (ap_parse_key env (pj_client j))) (\<lambda>client.
     Inr (fst (find_escrow_vault_pda (ap_fpa env) client (buffer_from_hex (pj_nonce j)) qietr_escrow_program_id)))"

definition row_ata :: "app_env \<Rightarrow> string \<Rightarrow> app_error + pubkey" where
  "row_ata env owner =
     bindE (optE InvalidAddress (ap_parse_key env owner)) (\<lambda>k.
     Inr (find_associated_token_address (ap_fpa env) k usdc_mint_devnet))"

definition handle_action :: "app_env \<Rightarrow> pubkey \<Rightarrow> job_row \<Rightarrow> string \<Rightarrow> app_error + instruction list" where
  "handle_action env me row action =
     (let j = jr_job row; sha = ap_sha env; pid = qietr_escrow_program_id in
     bindE (optE InvalidAddress (ap_parse_key env (jr_pda row))) (\<lambda>pda.
     if action = ''accept'' then Inr [build_accept_job_ix sha pda me pid]
     else if action = ''complete'' then Inr [build_complete_job_ix sha pda me pid]
     else if action = ''release'' then
       bindE (row_vault env j) (\<lambda>vault.
       bindE (row_ata env (pj_agent j)) (\<lambda>ata.
       bindE (optE InvalidAddress (ap_parse_key env (pj_agent j))) (\<lambda>agent.
       Inr [build_create_ata_idempotent_ix (ap_fpa env) me agent usdc_mint_devnet,
            build_release_payment_ix sha pda vault ata me pid])))
     else if action = ''dispute'' then Inr [build_dispute_job_ix sha pda me pid]
     else if action = ''resolve'' then
       bindE (guardE (\<not> ap_now env < pj_completed_at j + app_timeout)
                (NotAvailableBefore (pj_completed_at j + app_timeout))) (\<lambda>_.
       bindE (row_vault env j) (\<lambda>vault.
       bindE (row_ata env (pj_client j)) (\<lambda>ata.
       Inr [build_resolve_dispute_ix sha pda vault ata me pid])))
     else if action = ''cancel'' then
       bindE (guardE (\<not> (pj_state j = job_state_code Accepted \<and> ap_now env < pj_accepted_at j + app_timeout))
                (NotAvailableBefore (pj_accepted_at j + app_timeout))) (\<lambda>_.
       bindE (row_vault env j) (\<lambda>vault.
       bindE (row_ata env (pj_client j)) (\<lambda>ata.
       Inr [build_cancel_job_ix sha pda vault ata me pid])))
     else if action = ''close'' then Inr [build_close_job_ix sha pda me pid]
     else Inl UnknownAction))"

text \<open>The buttons of a job: label and action. The dash of a label is one UTF-8 em dash.\<close>

definition em_dash :: string where
  "em_dash = [CHR 0xE2, CHR 0x80, CHR 0x94]"

definition available_actions :: "app_env \<Rightarrow> string option \<Rightarrow> parsed_job \<Rightarrow> (string \<times> string) list" where
  "available_actions env address j =
     (let is_client = (address = Some (pj_client j)); is_agent = (address = Some (pj_agent j));
          state = (\<lambda>s. pj_state j = job_state_code s);
          gated = (\<lambda>now_label later since. if ap_now env \<ge> since + app_timeout then now_label
                     else later @ ap_date env (since + app_timeout))
      in if state Created \<and> (is_client \<or> is_agent)
         then (if is_client then [(''Cancel'', ''cancel'')] else []) @ (if is_agent then [(''Accept'', ''accept'')] else [])
         else if state Accepted \<and> is_agent then [(''Complete'', ''complete'')]
         else if state Accepted \<and> is_client
         then [(gated ''Cancel (refund)'' (''Cancel '' @ em_dash @ '' available '') (pj_accepted_at j), ''cancel'')]
         else if state Completed \<and> is_client then [(''Release payment'', ''release''), (''Dispute'', ''dispute'')]
         else if state Disputed \<and> is_client
         then [(gated ''Resolve (refund)'' (''Resolve '' @ em_dash @ '' available '') (pj_completed_at j), ''resolve'')]
         else if (state Released \<or> state Refunded) \<and> is_client then [(''Close'', ''close'')]
         else [])"

section \<open>The account on chain\<close>

definition job_layout :: "hash_fun \<Rightarrow> job \<Rightarrow> bytes" where
  "job_layout sha j = account_disc sha ''Job'' @ jb_client j @ jb_agent j @ jb_nonce j @ i64_le (jb_price_micro j)
     @ i64_le (jb_created_at j) @ i64_le (jb_accepted_at j) @ i64_le (jb_completed_at j) @ i64_le (jb_resolved_at j)
     @ [job_state_code (jb_state j)] @ [jb_bump j] @ [jb_escrow_bump j]"

definition job_view :: "(pubkey \<Rightarrow> string) \<Rightarrow> job \<Rightarrow> parsed_job" where
  "job_view b58 j = \<lparr>pj_client = b58 (jb_client j), pj_agent = b58 (jb_agent j), pj_nonce = buffer_to_hex (jb_nonce j),
     pj_price_micro = unat (jb_price_micro j), pj_created_at = dbl (sint (jb_created_at j)),
     pj_accepted_at = dbl (sint (jb_accepted_at j)), pj_completed_at = dbl (sint (jb_completed_at j)),
     pj_resolved_at = dbl (sint (jb_resolved_at j)), pj_state = job_state_code (jb_state j),
     pj_bump = jb_bump j, pj_escrow_bump = jb_escrow_bump j\<rparr>"

definition job_sized :: "job \<Rightarrow> bool" where
  "job_sized j \<longleftrightarrow> length (jb_client j) = 32 \<and> length (jb_agent j) = 32 \<and> length (jb_nonce j) = 8"

lemma read_i64_after: "length xs = b \<Longrightarrow> read_i64_le (xs @ i64_le w @ zs) b = sint w"
  by (simp add: read_i64_le_def read_u64_after)

lemma disc_loop: "length d = 8 \<Longrightarrow> list_all (\<lambda>i. (d @ xs) ! i = d ! i) [0..<8]"
  by (simp add: list_all_iff nth_append)

interpretation job_wire: wire_format "job_layout sha" "parse_job_account sha b58" "job_view b58"
    "\<lambda>j. sha_ok sha \<and> job_sized j" 123
  for sha :: hash_fun and b58 :: "pubkey \<Rightarrow> string"
proof unfold_locales
  fix j rest
  assume wf: "sha_ok sha \<and> job_sized j"
  let ?d = "account_disc sha ''Job''" and ?data = "job_layout sha j @ rest"
  show "length (job_layout sha j) = 123" using wf by (simp add: job_layout_def job_sized_def)
  have l: "length ?d = 8" "length (jb_client j) = 32" "length (jb_agent j) = 32" "length (jb_nonce j) = 8"
    using wf by (simp_all add: job_sized_def)
  let ?p1 = "?d @ jb_client j" and ?p2 = "?d @ jb_client j @ jb_agent j"
  let ?p3 = "?p2 @ jb_nonce j"
  let ?p4 = "?p3 @ i64_le (jb_price_micro j)"
  let ?p5 = "?p4 @ i64_le (jb_created_at j)"
  let ?p6 = "?p5 @ i64_le (jb_accepted_at j)"
  let ?p7 = "?p6 @ i64_le (jb_completed_at j)"
  let ?p8 = "?p7 @ i64_le (jb_resolved_at j)"
  have "slice 8 40 ?data = jb_client j" "slice 40 72 ?data = jb_agent j" "slice 72 80 ?data = jb_nonce j"
    using l slice_after [of ?d 8 "jb_client j" 32] slice_after [of ?p1 40 "jb_agent j" 32]
      slice_after [of ?p2 72 "jb_nonce j" 8] by (simp_all add: job_layout_def)
  moreover have "read_u64_le ?data 80 = unat (jb_price_micro j)" "read_i64_le ?data 88 = sint (jb_created_at j)"
    "read_i64_le ?data 96 = sint (jb_accepted_at j)" "read_i64_le ?data 104 = sint (jb_completed_at j)"
    "read_i64_le ?data 112 = sint (jb_resolved_at j)"
    using l read_u64_after [of ?p3 80] read_i64_after [of ?p4 88] read_i64_after [of ?p5 96]
      read_i64_after [of ?p6 104] read_i64_after [of ?p7 112] by (simp_all add: job_layout_def)
  moreover have "?data ! 120 = job_state_code (jb_state j)" "?data ! 121 = jb_bump j" "?data ! 122 = jb_escrow_bump j"
    using l nth_after [of ?p8 120] nth_after [of "?p8 @ [job_state_code (jb_state j)]" 121]
      nth_after [of "?p8 @ [job_state_code (jb_state j), jb_bump j]" 122] by (simp_all add: job_layout_def)
  moreover have "list_all (\<lambda>i. ?data ! i = ?d ! i) [0..<8]"
    using disc_loop [OF l(1)] by (simp add: job_layout_def)
  moreover have "\<not> length ?data < job_account_size"
    using l by (simp add: job_layout_def job_account_size_def)
  ultimately show "parse_job_account sha b58 ?data = Some (job_view b58 j)"
    by (simp add: parse_job_account_def job_view_def)
next
  show "length bs < 123 \<Longrightarrow> parse_job_account sha b58 bs = None" for bs
    by (simp add: parse_job_account_def job_account_size_def)
qed

section \<open>Builders and dispatch\<close>

definition escrow_names :: "string list" where
  "escrow_names = [''create_job'', ''accept_job'', ''complete_job'', ''release_payment'', ''dispute_job'',
     ''cancel_job'', ''resolve_dispute'', ''close_job'']"

text \<open>SHA-256 does not collide on the eight names.\<close>

definition escrow_sha_ok :: "hash_fun \<Rightarrow> bool" where
  "escrow_sha_ok sha \<longleftrightarrow> sha_ok sha \<and> distinct (map (anchor_ix_discriminator sha) escrow_names)"

lemma slice_0_8: "length d = 8 \<Longrightarrow> slice 0 8 d = d" "length d = 8 \<Longrightarrow> slice 0 8 (d @ xs) = d"
  by (simp_all add: slice_def)

lemma escrow_discs:
  assumes "escrow_sha_ok sha" "a \<in> set escrow_names" "b \<in> set escrow_names"
  shows "anchor_ix_discriminator sha a = anchor_ix_discriminator sha b \<longleftrightarrow> a = b"
proof -
  have "inj_on (anchor_ix_discriminator sha) (set escrow_names)"
    using assms(1) by (simp add: escrow_sha_ok_def distinct_map)
  then show ?thesis using assms(2,3) by (auto dest: inj_onD)
qed

lemma escrow_names_mem [simp]:
  "''create_job'' \<in> set escrow_names" "''accept_job'' \<in> set escrow_names" "''complete_job'' \<in> set escrow_names"
  "''release_payment'' \<in> set escrow_names" "''dispute_job'' \<in> set escrow_names" "''cancel_job'' \<in> set escrow_names"
  "''resolve_dispute'' \<in> set escrow_names" "''close_job'' \<in> set escrow_names"
  by (simp_all add: escrow_names_def)

lemma dispatch_builders:
  assumes sha: "escrow_sha_ok sha"
  shows "escrow_dispatch sha (build_accept_job_ix sha job s pid) = Inr (AcceptJob job s)"
    and "escrow_dispatch sha (build_complete_job_ix sha job s pid) = Inr (CompleteJob job s)"
    and "escrow_dispatch sha (build_release_payment_ix sha job v ata s pid) = Inr (ReleasePayment job v ata s)"
    and "escrow_dispatch sha (build_dispute_job_ix sha job s pid) = Inr (DisputeJob job s)"
    and "escrow_dispatch sha (build_cancel_job_ix sha job v ata s pid) = Inr (CancelJob job v ata s)"
    and "escrow_dispatch sha (build_refund_job_ix sha job v ata s pid) = Inr (CancelJob job v ata s)"
    and "escrow_dispatch sha (build_resolve_dispute_ix sha job v ata s pid) = Inr (ResolveDispute job v ata s)"
    and "escrow_dispatch sha (build_close_job_ix sha job s pid) = Inr (CloseJob job s)"
proof -
  have l: "length (anchor_ix_discriminator sha n) = 8" for n using sha by (simp add: escrow_sha_ok_def)
  note d = escrow_discs [OF sha] slice_0_8(1) [OF l] l
  note u = escrow_dispatch_def signed_key_def
  show "escrow_dispatch sha (build_accept_job_ix sha job s pid) = Inr (AcceptJob job s)"
    by (simp add: u build_accept_job_ix_def d)
  show "escrow_dispatch sha (build_complete_job_ix sha job s pid) = Inr (CompleteJob job s)"
    by (simp add: u build_complete_job_ix_def d)
  show "escrow_dispatch sha (build_release_payment_ix sha job v ata s pid) = Inr (ReleasePayment job v ata s)"
    by (simp add: u build_release_payment_ix_def d numeral_3_eq_3)
  show "escrow_dispatch sha (build_dispute_job_ix sha job s pid) = Inr (DisputeJob job s)"
    by (simp add: u build_dispute_job_ix_def d)
  show c: "escrow_dispatch sha (build_cancel_job_ix sha job v ata s pid) = Inr (CancelJob job v ata s)"
    by (simp add: u build_cancel_job_ix_def d numeral_3_eq_3)
  show "escrow_dispatch sha (build_refund_job_ix sha job v ata s pid) = Inr (CancelJob job v ata s)"
    using c by (simp add: build_refund_job_ix_def)
  show "escrow_dispatch sha (build_resolve_dispute_ix sha job v ata s pid) = Inr (ResolveDispute job v ata s)"
    by (simp add: u build_resolve_dispute_ix_def d numeral_3_eq_3)
  show "escrow_dispatch sha (build_close_job_ix sha job s pid) = Inr (CloseJob job s)"
    by (simp add: u build_close_job_ix_def d)
qed

lemma dispatch_create:
  assumes sha: "escrow_sha_ok sha" and len: "length agent = 32" "length nonce = 8"
  shows "\<exists>ix. build_create_job_ix sha fpa agent nonce price client ata mint pid = Inr ix
     \<and> escrow_dispatch sha ix = Inr (CreateJob (fst (find_job_pda fpa client nonce pid))
         (fst (find_escrow_vault_pda fpa client nonce pid)) ata client mint agent nonce (word_of_int price))"
proof -
  let ?d = "anchor_ix_discriminator sha ''create_job''" and ?data = "create_job_bytes sha agent nonce price"
  have l: "length ?d = 8" "sha_ok sha" using sha by (simp_all add: escrow_sha_ok_def)
  have "slice 8 40 ?data = agent" "slice 40 48 ?data = nonce" "slice 0 8 ?data = ?d"
    using l len slice_after [of ?d 8 agent 32] slice_after [of "?d @ agent" 40 nonce 8]
    by (simp_all add: create_job_bytes_def slice_0_8(2))
  moreover have "word_of_nat (read_u64_le ?data 48) = (word_of_int price :: 64 word)"
  proof -
    have "slice 48 56 ?data = u64_le price"
      using l len slice_after [of "?d @ agent @ nonce" 48 "u64_le price" 8 "[]"] by (simp add: create_job_bytes_def)
    then have "int (read_u64_le ?data 48) = price mod 2 ^ 64" by (simp add: read_u64_le_def le_val_u64_le)
    then have "word_of_nat (read_u64_le ?data 48) = (word_of_int (price mod 2 ^ 64) :: 64 word)"
      by (metis of_int_of_nat_eq)
    also have "\<dots> = word_of_int price" by (simp add: word_of_int_eq_iff take_bit_eq_mod)
    finally show ?thesis .
  qed
  moreover have "length ?data = 56" using l len by (simp add: create_job_bytes_def)
  ultimately show ?thesis
    using l len
    by (simp add: build_create_job_ix_def put_all_exact [of _ "[?d, agent, nonce, u64_le price]" 56]
        create_job_bytes_def [symmetric] escrow_dispatch_def signed_key_def)
qed

section \<open>What the page offers, the program accepts\<close>

lemma job_state_code_inject [simp]: "job_state_code a = job_state_code b \<longleftrightarrow> a = b"
  by (cases a; cases b; simp)

text \<open>The token account of \<open>owner\<close> at its associated address for the devnet mint, with room for \<open>n\<close>.\<close>

definition has_ata :: "('l \<Rightarrow> pubkey \<Rightarrow> nat) \<Rightarrow> 'l token_program \<Rightarrow> pda_fun \<Rightarrow> 'l \<Rightarrow> pubkey \<Rightarrow> pubkey \<Rightarrow> nat \<Rightarrow> bool" where
  "has_ata bal tp fpa l v owner n \<longleftrightarrow>
     (let ata = find_associated_token_address fpa owner usdc_mint_devnet in
      tk_account tp l ata = Some \<lparr>to_owner = owner, to_mint = usdc_mint_devnet\<rparr> \<and> ata \<noteq> v \<and> bal l ata + n < 2 ^ 64)"

definition app_row :: "app_env \<Rightarrow> pubkey \<Rightarrow> job \<Rightarrow> job_row" where
  "app_row env addr j = \<lparr>jr_job = job_view (ap_b58 env) j, jr_pda = ap_b58 env addr\<rparr>"

definition times_safe :: "job \<Rightarrow> bool" where
  "times_safe j \<longleftrightarrow> safe_int (sint (jb_accepted_at j)) \<and> safe_int (sint (jb_completed_at j))"

lemma view_simps:
  assumes "times_safe j"
  shows "pj_client (job_view b j) = b (jb_client j)" "pj_agent (job_view b j) = b (jb_agent j)"
    "pj_nonce (job_view b j) = buffer_to_hex (jb_nonce j)" "pj_state (job_view b j) = job_state_code (jb_state j)"
    "pj_accepted_at (job_view b j) = sint (jb_accepted_at j)" "pj_completed_at (job_view b j) = sint (jb_completed_at j)"
  using assms by (simp_all add: job_view_def times_safe_def dbl_safe)

text \<open>Which calls the offered actions are, and that their guards hold.\<close>

fun action_call :: "pda_fun \<Rightarrow> pubkey \<Rightarrow> job \<Rightarrow> string \<Rightarrow> escrow_call" where
  "action_call fpa me j action =
     (let addr = job_address fpa j; v = job_vault fpa j; ata = (\<lambda>k. find_associated_token_address fpa k usdc_mint_devnet) in
      if action = ''accept'' then AcceptJob addr me
      else if action = ''complete'' then CompleteJob addr me
      else if action = ''release'' then ReleasePayment addr v (ata (jb_agent j)) me
      else if action = ''dispute'' then DisputeJob addr me
      else if action = ''resolve'' then ResolveDispute addr v (ata (jb_client j)) me
      else if action = ''cancel'' then CancelJob addr v (ata (jb_client j)) me
      else CloseJob addr me)"

lemma handle_action_call:
  assumes sha: "escrow_sha_ok (ap_sha env)" and keys: "\<And>k. ap_parse_key env (ap_b58 env k) = Some k"
    and j: "times_safe j" "addr = job_address (ap_fpa env) j"
    and handled: "handle_action env me (app_row env addr j) action = Inr ixs"
  shows "escrow_dispatch (ap_sha env) (last ixs) = Inr (action_call (ap_fpa env) me j action)"
    and "action = ''resolve'' \<longrightarrow> ap_now env \<ge> sint (jb_completed_at j) + app_timeout"
    and "action = ''cancel'' \<and> jb_state j = Accepted \<longrightarrow> ap_now env \<ge> sint (jb_accepted_at j) + app_timeout"
proof -
  have pda: "ap_parse_key env (jr_pda (app_row env addr j)) = Some addr" by (simp add: app_row_def keys)
  have vault: "row_vault env (jr_job (app_row env addr j)) = Inr (job_vault (ap_fpa env) j)"
    by (simp add: row_vault_def app_row_def view_simps [OF j(1)] keys buffer_hex_roundtrip job_vault_def)
  have ata: "row_ata env (ap_b58 env k) = Inr (find_associated_token_address (ap_fpa env) k usdc_mint_devnet)" for k
    by (simp add: row_ata_def keys)
  note v = view_simps [OF j(1), of "ap_b58 env"]
  have row: "jr_job (app_row env addr j) = job_view (ap_b58 env) j" by (simp add: app_row_def)
  let ?sha = "ap_sha env" and ?pid = qietr_escrow_program_id and ?v = "job_vault (ap_fpa env) j"
    and ?ata = "\<lambda>k. find_associated_token_address (ap_fpa env) k usdc_mint_devnet"
  note vault' = vault [unfolded row] and run = handle_action_def pda row v ata keys
  have accept: "action = ''accept'' \<Longrightarrow> ixs = [build_accept_job_ix ?sha addr me ?pid]"
    using handled by (simp add: run vault' res_simps)
  have complete: "action = ''complete'' \<Longrightarrow> ixs = [build_complete_job_ix ?sha addr me ?pid]"
    using handled by (simp add: run vault' res_simps)
  have release: "action = ''release'' \<Longrightarrow> ixs = [build_create_ata_idempotent_ix (ap_fpa env) me (jb_agent j) usdc_mint_devnet,
     build_release_payment_ix ?sha addr ?v (?ata (jb_agent j)) me ?pid]"
    using handled by (simp add: run vault' res_simps)
  have dispute: "action = ''dispute'' \<Longrightarrow> ixs = [build_dispute_job_ix ?sha addr me ?pid]"
    using handled by (simp add: run vault' res_simps)
  have resolve: "action = ''resolve'' \<Longrightarrow> ixs = [build_resolve_dispute_ix ?sha addr ?v (?ata (jb_client j)) me ?pid] \<and> ap_now env \<ge> sint (jb_completed_at j) + app_timeout"
    using handled by (simp add: run vault' res_simps)
  have cancel: "action = ''cancel'' \<Longrightarrow> ixs = [build_cancel_job_ix ?sha addr ?v (?ata (jb_client j)) me ?pid]
     \<and> (jb_state j = Accepted \<longrightarrow> ap_now env \<ge> sint (jb_accepted_at j) + app_timeout)"
    using handled by (auto simp: run vault' res_simps)
  have close: "action = ''close'' \<Longrightarrow> ixs = [build_close_job_ix ?sha addr me ?pid]"
    using handled by (simp add: run vault' res_simps)
  have cases: "action \<in> {''accept'', ''complete'', ''release'', ''dispute'', ''resolve'', ''cancel'', ''close''}"
    using handled by (rule contrapos_pp) (simp add: handle_action_def pda)
  then show "escrow_dispatch (ap_sha env) (last ixs) = Inr (action_call (ap_fpa env) me j action)"
    by (elim insertE emptyE)
      (simp_all add: accept complete release dispute resolve cancel close j(2) [symmetric] dispatch_builders [OF sha])
  show "action = ''resolve'' \<longrightarrow> ap_now env \<ge> sint (jb_completed_at j) + app_timeout" using resolve by blast
  show "action = ''cancel'' \<and> jb_state j = Accepted \<longrightarrow> ap_now env \<ge> sint (jb_accepted_at j) + app_timeout"
    using cancel by blast
qed

text \<open>The two waits: when the page starts to act on a job, where it waits at all.\<close>

definition opens_at :: "job \<Rightarrow> string \<Rightarrow> int option" where
  "opens_at j action =
     (if action = ''resolve'' then Some (sint (jb_completed_at j) + 7 * 24 * 3600)
      else if action = ''cancel'' \<and> jb_state j = Accepted then Some (sint (jb_accepted_at j) + 7 * 24 * 3600)
      else None)"

definition still_waits :: "int \<Rightarrow> job \<Rightarrow> string \<Rightarrow> bool" where
  "still_waits now j action \<longleftrightarrow> (case opens_at j action of None \<Rightarrow> False | Some t \<Rightarrow> now < t)"

lemma handle_action_builds:
  assumes keys: "\<And>k. ap_parse_key env (ap_b58 env k) = Some k" and j: "times_safe j"
    and action: "action \<in> {''accept'', ''complete'', ''release'', ''dispute'', ''resolve'', ''cancel'', ''close''}"
  shows "if still_waits (ap_now env) j action
     then handle_action env me (app_row env addr j) action = Inl (NotAvailableBefore (the (opens_at j action)))
     else \<exists>ixs. handle_action env me (app_row env addr j) action = Inr ixs"
proof -
  have pda: "ap_parse_key env (jr_pda (app_row env addr j)) = Some addr" by (simp add: app_row_def keys)
  have row: "jr_job (app_row env addr j) = job_view (ap_b58 env) j" by (simp add: app_row_def)
  have vault: "row_vault env (job_view (ap_b58 env) j) = Inr (job_vault (ap_fpa env) j)"
    by (simp add: row_vault_def view_simps [OF j] keys buffer_hex_roundtrip job_vault_def)
  have ata: "row_ata env (ap_b58 env k) = Inr (find_associated_token_address (ap_fpa env) k usdc_mint_devnet)" for k
    by (simp add: row_ata_def keys)
  have code: "job_state_code (jb_state j) = 1 \<longleftrightarrow> jb_state j = Accepted" by (cases "jb_state j") simp_all
  note run = handle_action_def pda row view_simps [OF j] vault ata keys still_waits_def opens_at_def app_timeout_def code
  show ?thesis using action by (elim insertE emptyE) (auto simp: run)
qed

lemma offered_guard:
  assumes inj: "\<And>a b. ap_b58 env a = ap_b58 env b \<longleftrightarrow> a = b" and j: "times_safe j"
    and offered: "(label, action) \<in> set (available_actions env (Some (ap_b58 env me)) (job_view (ap_b58 env) j))"
  shows "action = ''accept'' \<and> jb_state j = Created \<and> me = jb_agent j
     \<or> action = ''cancel'' \<and> jb_state j \<in> {Created, Accepted} \<and> me = jb_client j
     \<or> action = ''complete'' \<and> jb_state j = Accepted \<and> me = jb_agent j
     \<or> action = ''release'' \<and> jb_state j = Completed \<and> me = jb_client j
     \<or> action = ''dispute'' \<and> jb_state j = Completed \<and> me = jb_client j
     \<or> action = ''resolve'' \<and> jb_state j = Disputed
     \<or> action = ''close'' \<and> jb_state j \<in> {Released, Refunded}"
  using offered
  by (cases "jb_state j") (auto simp: available_actions_def view_simps [OF j] inj Let_def split: if_splits)

lemma settle_live:
  assumes laws: "token_live bal tp" and inv: "vault_account tp fpa (es_ledger st) (job_vault fpa j)"
    "unat (jb_price_micro j) \<le> bal (es_ledger st) (job_vault fpa j)"
    and mint: "map_option to_mint (tk_account tp (es_ledger st) (job_vault fpa j)) = Some usdc_mint_devnet"
    and ata: "has_ata bal tp fpa (es_ledger st) (job_vault fpa j) owner (unat (jb_price_micro j))"
    and c: "call_pays c = Some (addr, job_vault fpa j, find_associated_token_address fpa owner usdc_mint_devnet)"
      "payee_ok now c j owner" "es_jobs st addr = Some j" "addr = job_address fpa j"
  shows "\<exists>st'. escrow_exec \<lparr>ee_token = tp, ee_fpa = fpa, ee_now = now\<rparr> c st = Inr st'"
proof -
  let ?v = "job_vault fpa j" and ?ata = "find_associated_token_address fpa owner usdc_mint_devnet"
  obtain x where x: "tk_account tp (es_ledger st) ?v = Some x" "to_owner x = ?v" "to_mint x = usdc_mint_devnet"
    using inv(1) mint by (auto simp: vault_account_def)
  have a: "tk_account tp (es_ledger st) ?ata = Some \<lparr>to_owner = owner, to_mint = usdc_mint_devnet\<rparr>"
    "bal (es_ledger st) ?ata + unat (jb_price_micro j) < 2 ^ 64"
    using ata by (simp_all add: has_ata_def Let_def)
  have "tk_transfer tp ?v ?ata ?v (jb_price_micro j) (es_ledger st) \<noteq> None"
    using laws x a inv(2) unfolding token_live_def by (metis token_account.select_convs(2))
  then obtain l where l: "tk_transfer tp ?v ?ata ?v (jb_price_micro j) (es_ledger st) = Some l" by blast
  show ?thesis
    using settle_succeeds [OF c(1,3,4) _ a(1) x(1) _ l, of now] c(2) x(3) by auto
qed

lemma built_action_succeeds:
  assumes run: "escrow_run bal tp fpa l0 h st" "token_laws bal tp" "token_live bal tp"
    and env: "escrow_sha_ok (ap_sha env)" "ap_fpa env = fpa" "\<And>k. ap_parse_key env (ap_b58 env k) = Some k"
    and j: "es_jobs st addr = Some j" "times_safe j"
    and click: "(label, action) \<in> set (available_actions env (Some (ap_b58 env me)) (jr_job (app_row env addr j)))"
      "handle_action env me (app_row env addr j) action = Inr ixs"
    and clock: "ap_now env \<le> sint now"
    and mint: "map_option to_mint (tk_account tp (es_ledger st) (job_vault fpa j)) = Some usdc_mint_devnet"
    and payee: "\<And>owner. owner \<in> {jb_client j, jb_agent j} \<Longrightarrow>
       has_ata bal tp fpa (es_ledger st) (job_vault fpa j) owner (unat (jb_price_micro j))"
  shows "\<exists>st'. escrow_process (ap_sha env) \<lparr>ee_token = tp, ee_fpa = fpa, ee_now = now\<rparr> (last ixs) st = Inr st'"
proof -
  let ?env = "\<lparr>ee_token = tp, ee_fpa = fpa, ee_now = now\<rparr>" and ?c = "action_call fpa me j action"
  have addr: "addr = job_address fpa j" and vault: "vault_account tp fpa (es_ledger st) (job_vault fpa j)"
    and solvent: "job_open j \<Longrightarrow> unat (jb_price_micro j) \<le> bal (es_ledger st) (job_vault fpa j)"
    using escrow_run_inv [OF run(1,2)] j(1) unfolding escrow_inv_def by blast+
  have inj: "ap_b58 env a = ap_b58 env b \<longleftrightarrow> a = b" for a b using env(3) by (metis option.inject)
  note h = handle_action_call [OF env(1,3) j(2) _ click(2), unfolded env(2), OF addr]
  have load: "load_job ?env addr st = Inr j" using j(1) addr by (simp add: load_job_def)
  have timed: "app_timeout = dispute_timeout_seconds" "app_timeout = accept_timeout_seconds"
    by (simp_all add: app_timeout_def dispute_timeout_seconds_def accept_timeout_seconds_def)
  have live: "call_pays c = Some (addr, job_vault fpa j, find_associated_token_address fpa owner usdc_mint_devnet) \<Longrightarrow>
      payee_ok now c j owner \<Longrightarrow> owner \<in> {jb_client j, jb_agent j} \<Longrightarrow> \<exists>st'. escrow_exec ?env c st = Inr st'" for c owner
    by (rule settle_live [OF run(3) vault solvent mint payee _ _ j(1) addr]) (auto intro: payee_ok_open)
  note guard = offered_guard [OF inj j(2), of label action me] and g = click(1) [unfolded app_row_def, simplified]
  have "\<exists>st'. escrow_exec ?env ?c st = Inr st'"
    using guard [OF g]
  proof (elim disjE conjE)
    assume "action = ''accept''" "jb_state j = Created" "me = jb_agent j"
    then show ?thesis using load by (simp add: accept_job_def addr [symmetric])
  next
    assume a: "action = ''cancel''" "jb_state j \<in> {Created, Accepted}" "me = jb_client j"
    then have "payee_ok now (CancelJob addr (job_vault fpa j) (find_associated_token_address fpa (jb_client j) usdc_mint_devnet) me) j (jb_client j)"
      using h(3) clock timed(2) by auto
    then have "\<exists>st'. escrow_exec ?env (CancelJob addr (job_vault fpa j) (find_associated_token_address fpa (jb_client j) usdc_mint_devnet) me) st = Inr st'"
      by (intro live [of _ "jb_client j"]) simp_all
    then show ?thesis by (simp add: a(1) addr [symmetric])
  next
    assume "action = ''complete''" "jb_state j = Accepted" "me = jb_agent j"
    then show ?thesis using load by (simp add: complete_job_def addr [symmetric])
  next
    assume a: "action = ''release''" "jb_state j = Completed" "me = jb_client j"
    then have "\<exists>st'. escrow_exec ?env (ReleasePayment addr (job_vault fpa j) (find_associated_token_address fpa (jb_agent j) usdc_mint_devnet) me) st = Inr st'"
      by (intro live [of _ "jb_agent j"]) simp_all
    then show ?thesis by (simp add: a(1) addr [symmetric])
  next
    assume "action = ''dispute''" "jb_state j = Completed" "me = jb_client j"
    then show ?thesis using load by (simp add: dispute_job_def addr [symmetric])
  next
    assume a: "action = ''resolve''" "jb_state j = Disputed"
    then have "payee_ok now (ResolveDispute addr (job_vault fpa j) (find_associated_token_address fpa (jb_client j) usdc_mint_devnet) me) j (jb_client j)"
      using h(2) clock timed(1) by simp
    then have "\<exists>st'. escrow_exec ?env (ResolveDispute addr (job_vault fpa j) (find_associated_token_address fpa (jb_client j) usdc_mint_devnet) me) st = Inr st'"
      by (intro live [of _ "jb_client j"]) simp_all
    then show ?thesis by (simp add: a(1) addr [symmetric])
  next
    assume "action = ''close''" "jb_state j \<in> {Released, Refunded}"
    then show ?thesis using load by (auto simp: close_job_def addr [symmetric])
  qed
  then show ?thesis using h(1) by (simp add: escrow_process_def)
qed

lemma offered_known:
  "(label, action) \<in> set (available_actions env address pj) \<Longrightarrow>
     action \<in> {''accept'', ''complete'', ''release'', ''dispute'', ''resolve'', ''cancel'', ''close''}"
  by (auto simp: available_actions_def Let_def split: if_splits)

text \<open>
  C25. What the page offers works: take any job of a reachable state and any button the page shows the
  connected wallet for it. If the button is one of the two that wait for seven days and they have not
  passed on the page's clock, the click is refused with the moment it opens, and nothing is built. Otherwise the
  click builds its instructions and the program accepts the last of them, the one that is its own. This
  holds while the chain's clock is not behind the page's, the escrowed token is the devnet mint the page
  settles in, and the payee's associated token account exists with room for the price.
\<close>

theorem offered_actions_succeed:
  assumes run: "escrow_run bal tp fpa l0 h st" "token_laws bal tp" "token_live bal tp"
    and env: "escrow_sha_ok (ap_sha env)" "ap_fpa env = fpa" "\<And>k. ap_parse_key env (ap_b58 env k) = Some k"
    and j: "es_jobs st addr = Some j" "times_safe j"
    and click: "(label, action) \<in> set (available_actions env (Some (ap_b58 env me)) (jr_job (app_row env addr j)))"
    and clock: "ap_now env \<le> sint now"
    and mint: "map_option to_mint (tk_account tp (es_ledger st) (job_vault fpa j)) = Some usdc_mint_devnet"
    and payee: "\<And>owner. owner \<in> {jb_client j, jb_agent j} \<Longrightarrow>
       has_ata bal tp fpa (es_ledger st) (job_vault fpa j) owner (unat (jb_price_micro j))"
  shows "if still_waits (ap_now env) j action
     then handle_action env me (app_row env addr j) action = Inl (NotAvailableBefore (the (opens_at j action)))
     else \<exists>ixs st'. handle_action env me (app_row env addr j) action = Inr ixs
       \<and> escrow_process (ap_sha env) \<lparr>ee_token = tp, ee_fpa = fpa, ee_now = now\<rparr> (last ixs) st = Inr st'"
proof (cases "still_waits (ap_now env) j action")
  case True
  then show ?thesis using handle_action_builds [OF env(3) j(2) offered_known [OF click]] by simp
next
  case False
  then obtain ixs where ixs: "handle_action env me (app_row env addr j) action = Inr ixs"
    using handle_action_builds [OF env(3) j(2) offered_known [OF click]] by auto
  then show ?thesis using built_action_succeeds [OF run env j click ixs clock mint payee] False by auto
qed

text \<open>
  The page funds a job with the mint of its cluster but settles it in the devnet mint: a job escrowed
  in any other mint cannot be released from the page.
\<close>

lemma page_release_off_devnet_fails:
  assumes sha: "escrow_sha_ok sha" and j: "es_jobs st addr = Some j" "addr = job_address fpa j"
    and v: "tk_account tp (es_ledger st) (job_vault fpa j) = Some x" "to_mint x \<noteq> usdc_mint_devnet"
    and a: "tk_account tp (es_ledger st) ata = Some \<lparr>to_owner = jb_agent j, to_mint = usdc_mint_devnet\<rparr>"
  shows "escrow_process sha \<lparr>ee_token = tp, ee_fpa = fpa, ee_now = now\<rparr>
       (build_release_payment_ix sha addr (job_vault fpa j) ata me pid) st = Inl MintMismatch"
  using assms by (auto simp: escrow_process_def dispatch_builders [OF sha] release_payment_def escrow_loads)

text \<open>The escrow of the demonstration run, with the devnet mint, seen by its client.\<close>

definition page_sha :: hash_fun where
  "page_sha bs = (word_of_nat (length bs) :: byte) # (bs ! 9) # zeros 30"

definition page_env :: app_env where
  "page_env = \<lparr>ap_sha = page_sha, ap_fpa = demo_fpa, ap_b58 = map (\<lambda>b. char_of (unat b)),
     ap_parse_key = (\<lambda>s. Some (map (\<lambda>c. word_of_nat (of_char c)) s)), ap_date = (\<lambda>_. []), ap_now = 15\<rparr>"

lemma page_sha_ok: "escrow_sha_ok page_sha"
proof -
  have "anchor_ix_discriminator page_sha n = slice 0 8 (page_sha (utf8_ascii (''global:'' @ n)))" for n
    by (simp add: anchor_ix_discriminator_def)
  moreover have "distinct (map (\<lambda>n. slice 0 8 (page_sha (utf8_ascii (''global:'' @ n)))) escrow_names)"
    by code_simp
  ultimately show ?thesis by (simp add: escrow_sha_ok_def sha_ok_def page_sha_def cong: map_cong)
qed

lemma page_keys: "ap_parse_key page_env (ap_b58 page_env k) = Some k"
  by (simp add: page_env_def comp_def map_idI)

definition page_ata :: "pubkey \<Rightarrow> pubkey" where
  "page_ata owner = find_associated_token_address demo_fpa owner usdc_mint_devnet"

lemma page_ata_eq: "page_ata owner = 1 # owner @ token_program_id @ usdc_mint_devnet"
  by (simp add: page_ata_def find_associated_token_address_def demo_fpa_def)

definition page_ledger :: spl where
  "page_ledger = [page_ata (zeros 32) \<mapsto> (\<lparr>to_owner = zeros 32, to_mint = usdc_mint_devnet\<rparr>, 5000),
     page_ata (replicate 32 2) \<mapsto> (\<lparr>to_owner = replicate 32 2, to_mint = usdc_mint_devnet\<rparr>, 0)]"

lemma page_atas_differ:
  "page_ata (replicate 32 2) \<noteq> page_ata (zeros 32)" "page_ata (replicate 32 2) \<noteq> demo_vault" "page_ata (zeros 32) \<noteq> demo_vault"
proof -
  have "page_ata (zeros 32) ! 1 = 0" "page_ata (replicate 32 2) ! 1 = 2"
    by (simp_all add: page_ata_eq zeros_def nth_append)
  moreover have "demo_vault ! 1 = 101" by (simp add: demo_vault_cons utf8_ascii_def)
  ultimately show "page_ata (replicate 32 2) \<noteq> page_ata (zeros 32)" "page_ata (replicate 32 2) \<noteq> demo_vault"
    "page_ata (zeros 32) \<noteq> demo_vault" by auto
qed

lemma page_funded: "demo_funded page_ledger (page_ata (zeros 32)) usdc_mint_devnet"
  using page_atas_differ by (simp add: demo_funded_def page_ledger_def)

abbreviation page_state :: "spl escrow_state" where
  "page_state \<equiv> demo_state page_ledger (page_ata (zeros 32)) usdc_mint_devnet"

theorem offered_actions_succeed_witness:
  "\<exists>ixs st'. available_actions page_env (Some (ap_b58 page_env (zeros 32))) (job_view (ap_b58 page_env) demo_job)
       = [(''Cancel'', ''cancel'')]
     \<and> handle_action page_env (zeros 32) (app_row page_env demo_addr demo_job) ''cancel'' = Inr ixs
     \<and> escrow_process page_sha (demo_env 20) (last ixs) page_state = Inr st'"
proof -
  have fpa: "ap_fpa page_env = demo_fpa" "ap_sha page_env = page_sha" by (simp_all add: page_env_def)
  have safe: "times_safe demo_job" by (simp add: times_safe_def demo_job_def new_job_def safe_int_def)
  have b: "ap_b58 page_env (zeros 32) \<noteq> ap_b58 page_env (replicate 32 2)"
    using page_keys [of "zeros 32"] page_keys [of "replicate 32 2"] by (auto simp: zeros_def replicate_eq_replicate)
  have agent: "jb_agent demo_job = replicate 32 2" by (simp add: demo_job_def new_job_def)
  note facts = demo_facts [OF page_funded]
  have off: "available_actions page_env (Some (ap_b58 page_env (zeros 32))) (job_view (ap_b58 page_env) demo_job)
      = [(''Cancel'', ''cancel'')]"
    using b by (simp add: available_actions_def view_simps [OF safe] facts(4,5) agent)
  have waits: "\<not> still_waits (ap_now page_env) demo_job ''cancel''" by (simp add: still_waits_def opens_at_def facts(5))
  have payee: "has_ata spl_balance spl_token demo_fpa (es_ledger page_state) demo_vault owner (unat (jb_price_micro demo_job))"
    if "owner \<in> {jb_client demo_job, jb_agent demo_job}" for owner
    using that page_atas_differ facts(3,4,6,8,10) agent
    by (auto simp: has_ata_def page_ata_def [symmetric] spl_token_def spl_balance_def demo_state_def save_job_def page_ledger_def)
  have "if still_waits (ap_now page_env) demo_job ''cancel''
     then handle_action page_env (zeros 32) (app_row page_env demo_addr demo_job) ''cancel''
       = Inl (NotAvailableBefore (the (opens_at demo_job ''cancel'')))
     else \<exists>ixs st'. handle_action page_env (zeros 32) (app_row page_env demo_addr demo_job) ''cancel'' = Inr ixs
       \<and> escrow_process (ap_sha page_env) \<lparr>ee_token = spl_token, ee_fpa = demo_fpa, ee_now = 20\<rparr> (last ixs) page_state = Inr st'"
    by (rule offered_actions_succeed [OF demo_run [OF page_funded] spl_laws _ fpa(1) page_keys facts(1) safe])
      (use off payee facts in \<open>simp_all add: page_sha_ok fpa app_row_def\<close>, simp add: page_env_def)
  with off waits show ?thesis by (auto simp: demo_env_def fpa)
qed

end
