(* ===== verification/MsgProgram.thy ===== *)
theory MsgProgram
  imports SdkMsg PoolDecode
begin

text \<open>
  The on-chain program \<open>qietr_msg/src/lib.rs\<close> with its account constraints and dispatch, the layout of
  its accounts, and the path of a message from the sender's form to the recipient's screen.
\<close>

section \<open>State and handlers\<close>

record message =
  mg_from :: pubkey
  mg_to :: pubkey
  mg_nonce :: bytes
  mg_timestamp :: "64 word"
  mg_body_len :: "16 word"
  mg_bump :: byte
  mg_body :: bytes

type_synonym msg_state = "pubkey \<rightharpoonup> message"

record msg_env =
  me_fpa :: pda_fun
  me_now :: "64 word"

datatype msg_program_error =
    MsgBodyTooLong | NotRecipient | MsgExists | MsgNotInitialized | MsgSeeds | MsgUnknownInstruction

definition max_msg_bytes :: nat where
  "max_msg_bytes = 1024"

definition message_address :: "pda_fun \<Rightarrow> message \<Rightarrow> pubkey" where
  "message_address fpa m = fst (find_msg_pda fpa (mg_from m) (mg_to m) (mg_nonce m) qietr_msg_program_id)"

definition msg_send ::
    "msg_env \<Rightarrow> pubkey \<Rightarrow> pubkey \<Rightarrow> pubkey \<Rightarrow> bytes \<Rightarrow> bytes \<Rightarrow> msg_state \<Rightarrow> msg_program_error + msg_state" where
  "msg_send env addr sender to_key nonce body st =
     (let pda = find_msg_pda (me_fpa env) sender to_key nonce qietr_msg_program_id in
     bindE (guardE (addr = fst pda) MsgSeeds) (\<lambda>_.
     bindE (guardE (st addr = None) MsgExists) (\<lambda>_.
     bindE (guardE (length body \<le> max_msg_bytes) MsgBodyTooLong) (\<lambda>_.
     Inr (st(addr \<mapsto> \<lparr>mg_from = sender, mg_to = to_key, mg_nonce = nonce, mg_timestamp = me_now env,
            mg_body_len = word_of_nat (length body), mg_bump = word_of_nat (snd pda),
            mg_body = body @ zeros (max_msg_bytes - length body)\<rparr>))))))"

definition msg_load :: "msg_env \<Rightarrow> pubkey \<Rightarrow> pubkey \<Rightarrow> msg_state \<Rightarrow> msg_program_error + message" where
  "msg_load env addr recipient st =
     bindE (optE MsgNotInitialized (st addr)) (\<lambda>m.
     bindE (guardE (addr = message_address (me_fpa env) m) MsgSeeds) (\<lambda>_.
     bindE (guardE (mg_to m = recipient) NotRecipient) (\<lambda>_. Inr m)))"

definition msg_delete :: "msg_env \<Rightarrow> pubkey \<Rightarrow> pubkey \<Rightarrow> msg_state \<Rightarrow> msg_program_error + msg_state" where
  "msg_delete env addr recipient st =
     bindE (msg_load env addr recipient st) (\<lambda>m.
     Inr (st(addr \<mapsto> m\<lparr>mg_body_len := 0, mg_body := zeros max_msg_bytes\<rparr>)))"

definition msg_close :: "msg_env \<Rightarrow> pubkey \<Rightarrow> pubkey \<Rightarrow> msg_state \<Rightarrow> msg_program_error + msg_state" where
  "msg_close env addr recipient st =
     bindE (msg_load env addr recipient st) (\<lambda>_. Inr (st(addr := None)))"

text \<open>Anchor's dispatch on the discriminator, with Borsh arguments and the \<open>Signer\<close> check.\<close>

definition msg_process ::
    "hash_fun \<Rightarrow> msg_env \<Rightarrow> instruction \<Rightarrow> msg_state \<Rightarrow> msg_program_error + msg_state" where
  "msg_process sha env ix st =
     (let data = ix_data ix; keys = ix_keys ix; d = slice 0 8 data; key = (\<lambda>i. am_pubkey (keys ! i)); n = le_val (slice 48 52 data)
      in if length keys < 2 \<or> \<not> am_signer (keys ! 1) then Inl MsgUnknownInstruction
         else if d = anchor_ix_discriminator sha ''send'' \<and> length data \<ge> 52 + n
         then msg_send env (key 0) (key 1) (slice 8 40 data) (slice 40 48 data) (slice 52 (52 + n) data) st
         else if d = anchor_ix_discriminator sha ''delete'' then msg_delete env (key 0) (key 1) st
         else if d = anchor_ix_discriminator sha ''close'' then msg_close env (key 0) (key 1) st
         else Inl MsgUnknownInstruction)"

section \<open>Layout\<close>

definition u16_le :: "16 word \<Rightarrow> bytes" where
  "u16_le w = le_bytes 2 (unat w)"

definition message_layout :: "hash_fun \<Rightarrow> message \<Rightarrow> bytes" where
  "message_layout sha m = account_disc sha ''Message'' @ mg_from m @ mg_to m @ mg_nonce m @ i64_le (mg_timestamp m)
     @ u16_le (mg_body_len m) @ [mg_bump m] @ mg_body m"

definition message_sized :: "message \<Rightarrow> bool" where
  "message_sized m \<longleftrightarrow> length (mg_from m) = 32 \<and> length (mg_to m) = 32 \<and> length (mg_nonce m) = 8
     \<and> length (mg_body m) = max_msg_bytes \<and> unat (mg_body_len m) \<le> max_msg_bytes"

definition message_view :: "pda_fun \<Rightarrow> (pubkey \<Rightarrow> string) \<Rightarrow> message \<Rightarrow> encrypted_message" where
  "message_view fpa b58 m = \<lparr>em_pda = b58 (message_address fpa m), em_from = b58 (mg_from m), em_to = b58 (mg_to m),
     em_timestamp = dbl (sint (mg_timestamp m)), em_body_base64 = b64_encode (take (unat (mg_body_len m)) (mg_body m))\<rparr>"

lemma le_val_u16: "le_val (u16_le w) = unat w"
proof -
  have "unat w < 2 ^ 16" using unsigned_less [of w] by simp
  then show ?thesis by (simp add: u16_le_def le_val_le_bytes)
qed

lemma length_u16_le [simp]: "length (u16_le w) = 2"
  by (simp add: u16_le_def)

interpretation message_wire: wire_format "message_layout sha" "parse_message_account sha fpa b58"
    "message_view fpa b58" "\<lambda>m. sha_ok sha \<and> message_sized m" 1115
  for sha :: hash_fun and fpa :: pda_fun and b58 :: "pubkey \<Rightarrow> string"
proof unfold_locales
  fix m rest
  assume wf: "sha_ok sha \<and> message_sized m"
  let ?d = "account_disc sha ''Message''" and ?data = "message_layout sha m @ rest"
  have l: "length ?d = 8" "length (mg_from m) = 32" "length (mg_to m) = 32" "length (mg_nonce m) = 8"
    "length (mg_body m) = 1024" "unat (mg_body_len m) \<le> 1024"
    using wf by (simp_all add: message_sized_def max_msg_bytes_def)
  show len: "length (message_layout sha m) = 1115" using l by (simp add: message_layout_def)
  let ?p1 = "?d @ mg_from m" and ?p2 = "?d @ mg_from m @ mg_to m"
  let ?p3 = "?p2 @ mg_nonce m"
  let ?p4 = "?p3 @ i64_le (mg_timestamp m)"
  let ?p5 = "?p4 @ u16_le (mg_body_len m)"
  have "slice 8 40 ?data = mg_from m" "slice 40 72 ?data = mg_to m" "slice 72 80 ?data = mg_nonce m"
    using l slice_after [of ?d 8 "mg_from m" 32] slice_after [of ?p1 40 "mg_to m" 32]
      slice_after [of ?p2 72 "mg_nonce m" 8] by (simp_all add: message_layout_def)
  moreover have "read_i64_le ?data 80 = sint (mg_timestamp m)"
    using l by (simp add: read_i64_le_def message_layout_def read_u64_after [of ?p3 80, simplified])
  moreover have "read_u16_le ?data 88 = unat (mg_body_len m)"
    using l slice_after [of ?p4 88 "u16_le (mg_body_len m)" 2] le_val_u16
    by (simp add: read_u16_le_def message_layout_def)
  moreover have "slice 91 (91 + unat (mg_body_len m)) ?data = take (unat (mg_body_len m)) (mg_body m)"
    using l by (simp add: slice_def message_layout_def)
  moreover have "list_all (\<lambda>i. ?data ! i = ?d ! i) [0..<8]"
    using l(1) by (simp add: message_layout_def list_all_iff nth_append)
  moreover have "\<not> length ?data < message_account_size" using len by (simp add: message_account_size_def)
  ultimately show "parse_message_account sha fpa b58 ?data = Some (message_view fpa b58 m)"
    by (simp add: parse_message_account_def message_view_def message_address_def Let_def)
next
  show "length bs < 1115 \<Longrightarrow> parse_message_account sha fpa b58 bs = None" for bs
    by (simp add: parse_message_account_def message_account_size_def)
qed

section \<open>Delivery\<close>

lemma build_send_inr:
  assumes "sha_ok sha" "length to_key = 32" "length nonce = 8" "length body \<le> 1024"
  shows "build_send_msg_ix sha fpa to_key nonce body sender pid = Inr \<lparr>ix_program = pid,
     ix_keys = [meta (fst (find_msg_pda fpa sender to_key nonce pid)) False True, meta sender True True,
                meta system_program_id False False],
     ix_data = anchor_ix_discriminator sha ''send'' @ to_key @ nonce @ le_bytes 4 (length body) @ body\<rparr>"
  using assms put_all_exact [of _ "[anchor_ix_discriminator sha ''send'', to_key, nonce, le_bytes 4 (length body), body]"]
  by (simp add: build_send_msg_ix_def max_message_bytes_def)

definition encrypted_length :: "nat \<Rightarrow> nat" where
  "encrypted_length n = 4 * ((n + 46) div 3)"

lemma encrypted_length_le: "encrypted_length n \<le> 1024 \<longleftrightarrow> n \<le> 724"
  by (simp add: encrypted_length_def) presburger

lemma encrypt_msg_body_inr:
  assumes "crypto_ok cr" "length salt = 16" "length iv = 12"
  shows "\<exists>s. encrypt_msg_body (Some cr) salt iv body passphrase = Inr s \<and> length s = encrypted_length (length body)
     \<and> decrypt_msg_body (Some cr) s passphrase = Inr body"
proof -
  let ?ct = "nc_encrypt cr (derive_key cr passphrase salt) iv (utf8_ascii body)"
  let ?s = "b64_encode (salt @ iv @ ?ct)"
  have c: "length ?ct = length body + 16"
    "nc_decrypt cr (derive_key cr passphrase salt) iv ?ct = Some (utf8_ascii body)"
    using assms(1) by (simp_all add: crypto_ok_def)
  have "encrypt_msg_body (Some cr) salt iv body passphrase = Inr ?s"
    by (simp add: encrypt_msg_body_def Let_def sealed_blob [OF assms(2,3)])
  moreover have "length ?s = encrypted_length (length body)"
    using c assms by (simp add: length_b64_encode encrypted_length_def algebra_simps)
  moreover have "decrypt_msg_body (Some cr) ?s passphrase = Inr body"
    using c assms by (simp add: decrypt_msg_body_def Let_def b64_decode_encode opened_blob)
  ultimately show ?thesis by blast
qed

text \<open>The page's form as one case distinction on the length of the text.\<close>

lemma handle_send_cases:
  assumes pg: "mp_crypto pg = Some cr" "crypto_ok cr" "sha_ok (mp_sha pg)"
    and to_key: "mp_parse_key pg recipient = Some to_key" "length to_key = 32"
    and rnd: "length nonce = 8" "length salt = 16" "length iv = 12"
    and typed: "js_trim body \<noteq> []" "passphrase \<noteq> []"
  shows "\<exists>s. encrypt_msg_body (Some cr) salt iv body passphrase = Inr s \<and> length s = encrypted_length (length body)
     \<and> decrypt_msg_body (Some cr) s passphrase = Inr body
     \<and> handle_send pg (Some me) recipient body passphrase nonce salt iv =
         (if length body > 1024 then Inl BodyOverLimit
          else if length body > 724 then Inl (MsgBuilder BodyTooLong)
          else Inr \<lparr>ix_program = qietr_msg_program_id,
            ix_keys = [meta (fst (find_msg_pda (mp_fpa pg) me to_key nonce qietr_msg_program_id)) False True,
                       meta me True True, meta system_program_id False False],
            ix_data = anchor_ix_discriminator (mp_sha pg) ''send'' @ to_key @ nonce @ le_bytes 4 (length s) @ utf8_ascii s\<rparr>)"
proof -
  obtain s where s: "encrypt_msg_body (Some cr) salt iv body passphrase = Inr s"
    "length s = encrypted_length (length body)" "decrypt_msg_body (Some cr) s passphrase = Inr body"
    using encrypt_msg_body_inr [OF pg(2) rnd(2,3)] by blast
  have long: "build_send_msg_ix (mp_sha pg) (mp_fpa pg) to_key nonce (utf8_ascii s) me qietr_msg_program_id = Inl BodyTooLong"
    if "length body > 724"
    using that s(2) encrypted_length_le [of "length body"] rnd(1) by (simp add: build_send_msg_ix_def max_message_bytes_def)
  have short: "length (utf8_ascii s) \<le> 1024" if "\<not> length body > 724"
    using that s(2) encrypted_length_le [of "length body"] by simp
  show ?thesis
    using s typed pg(1) to_key rnd(1) long build_send_inr [OF pg(3) to_key(2) rnd(1) short]
    by (auto simp: handle_send_def)
qed

text \<open>
  The page promises 1024 bytes and delivers 724: a text of more than 724 bytes passes the form's
  own check but, once encrypted and encoded, is refused by the instruction builder, so the form
  builds an instruction exactly for texts of at most 724 bytes.
\<close>

theorem message_form_limit:
  assumes "mp_crypto pg = Some cr" "crypto_ok cr" "sha_ok (mp_sha pg)"
    and "mp_parse_key pg recipient = Some to_key" "length to_key = 32"
    and "length nonce = 8" "length salt = 16" "length iv = 12"
    and "js_trim body \<noteq> []" "passphrase \<noteq> []"
  shows "((\<exists>ix. handle_send pg (Some me) recipient body passphrase nonce salt iv = Inr ix) \<longleftrightarrow> length body \<le> 724)
    \<and> (724 < length body \<and> length body \<le> 1024 \<longrightarrow>
       handle_send pg (Some me) recipient body passphrase nonce salt iv = Inl (MsgBuilder BodyTooLong))"
proof -
  obtain s where s: "handle_send pg (Some me) recipient body passphrase nonce salt iv =
     (if length body > 1024 then Inl BodyOverLimit
      else if length body > 724 then Inl (MsgBuilder BodyTooLong)
      else Inr \<lparr>ix_program = qietr_msg_program_id,
        ix_keys = [meta (fst (find_msg_pda (mp_fpa pg) me to_key nonce qietr_msg_program_id)) False True,
                   meta me True True, meta system_program_id False False],
        ix_data = anchor_ix_discriminator (mp_sha pg) ''send'' @ to_key @ nonce @ le_bytes 4 (length s) @ utf8_ascii s\<rparr>)"
    using handle_send_cases [OF assms, of me] by blast
  show ?thesis unfolding s by simp
qed

lemma msg_process_send:
  assumes "sha_ok sha" "length to_key = 32" "length nonce = 8" "length body \<le> 1024"
  shows "msg_process sha env \<lparr>ix_program = pid, ix_keys = [meta a False True, meta sender True True, k],
       ix_data = anchor_ix_discriminator sha ''send'' @ to_key @ nonce @ le_bytes 4 (length body) @ body\<rparr> st
     = msg_send env a sender to_key nonce body st"
proof -
  define data where "data = anchor_ix_discriminator sha ''send'' @ to_key @ nonce @ le_bytes 4 (length body) @ body"
  have l: "length (anchor_ix_discriminator sha ''send'') = 8" using assms(1) by simp
  have parts: "slice 0 8 data = anchor_ix_discriminator sha ''send''" "slice 8 40 data = to_key"
    "slice 40 48 data = nonce" "slice 48 52 data = le_bytes 4 (length body)"
    "slice 52 (52 + length body) data = body" "length data = 52 + length body"
    using l assms by (simp_all add: slice_def data_def)
  have n: "le_val (le_bytes 4 (length body)) = length body" using assms(4) by (simp add: le_val_le_bytes)
  show ?thesis unfolding data_def [symmetric] msg_process_def Let_def
    by (simp add: parts n del: One_nat_def)
qed

text \<open>
  C28. A message arrives: the instruction the sender's form builds for a text of at most 724 bytes is
  accepted by the program if the nonce is fresh; the account it stores is parsed by the recipient's
  page, which decrypts it with the same passphrase to exactly that text; and nobody but the recipient
  can blank it.
\<close>

theorem message_delivered:
  assumes pg: "mp_crypto pg = Some cr" "crypto_ok cr" "sha_ok (mp_sha pg)" "me_fpa env = mp_fpa pg"
    and to_key: "mp_parse_key pg recipient = Some to_key" "length to_key = 32" "length me = 32"
    and rnd: "length nonce = 8" "length salt = 16" "length iv = 12"
    and typed: "js_trim body \<noteq> []" "passphrase \<noteq> []" "length body \<le> 724"
    and fresh: "st (fst (find_msg_pda (mp_fpa pg) me to_key nonce qietr_msg_program_id)) = None"
  shows "\<exists>ix st' addr m em. handle_send pg (Some me) recipient body passphrase nonce salt iv = Inr ix
     \<and> msg_process (mp_sha pg) env ix st = Inr st' \<and> st' addr = Some m
     \<and> parse_message_account (mp_sha pg) (mp_fpa pg) (mp_b58 pg) (message_layout (mp_sha pg) m) = Some em
     \<and> em_from em = mp_b58 pg me \<and> handle_decrypt pg passphrase em = Inr body
     \<and> (\<forall>other. other \<noteq> to_key \<longrightarrow> msg_delete env addr other st' = Inl NotRecipient)"
proof -
  let ?pda = "find_msg_pda (mp_fpa pg) me to_key nonce qietr_msg_program_id"
  obtain s where s: "length s = encrypted_length (length body)" "decrypt_msg_body (Some cr) s passphrase = Inr body"
    and ix: "handle_send pg (Some me) recipient body passphrase nonce salt iv = Inr
       \<lparr>ix_program = qietr_msg_program_id,
        ix_keys = [meta (fst ?pda) False True, meta me True True, meta system_program_id False False],
        ix_data = anchor_ix_discriminator (mp_sha pg) ''send'' @ to_key @ nonce @ le_bytes 4 (length s) @ utf8_ascii s\<rparr>"
    using handle_send_cases [OF pg(1-3) to_key(1,2) rnd typed(1,2), of me] typed(3) by auto
  have len: "length s \<le> 1024" using s(1) typed(3) encrypted_length_le by simp
  let ?m = "\<lparr>mg_from = me, mg_to = to_key, mg_nonce = nonce, mg_timestamp = me_now env,
    mg_body_len = word_of_nat (length s), mg_bump = word_of_nat (snd ?pda), mg_body = utf8_ascii s @ zeros (max_msg_bytes - length s)\<rparr>"
  have run: "msg_process (mp_sha pg) env \<lparr>ix_program = qietr_msg_program_id,
        ix_keys = [meta (fst ?pda) False True, meta me True True, meta system_program_id False False],
        ix_data = anchor_ix_discriminator (mp_sha pg) ''send'' @ to_key @ nonce @ le_bytes 4 (length s) @ utf8_ascii s\<rparr> st
      = Inr (st(fst ?pda \<mapsto> ?m))"
    using fresh len pg(4) msg_process_send [OF pg(3) to_key(2) rnd(1), of "utf8_ascii s"]
    by (simp add: msg_send_def max_msg_bytes_def Let_def)
  have bl: "unat (word_of_nat (length s) :: 16 word) = length s" using len by (simp add: unat_of_nat take_bit_eq_mod)
  have sized: "message_sized ?m" using len to_key rnd(1) bl by (simp add: message_sized_def max_msg_bytes_def)
  have parsed: "parse_message_account (mp_sha pg) (mp_fpa pg) (mp_b58 pg) (message_layout (mp_sha pg) ?m)
      = Some (message_view (mp_fpa pg) (mp_b58 pg) ?m)"
    using message_wire.roundtrip [of "mp_sha pg" ?m] pg(3) sized by simp
  have read: "handle_decrypt pg passphrase (message_view (mp_fpa pg) (mp_b58 pg) ?m) = Inr body"
    using typed(2) s(2) pg(1) bl by (simp add: handle_decrypt_def message_view_def b64_decode_encode)
  have only: "msg_delete env (fst ?pda) other (st(fst ?pda \<mapsto> ?m)) = Inl NotRecipient" if "other \<noteq> to_key" for other
    using that pg(4) by (simp add: msg_delete_def msg_load_def message_address_def)
  show ?thesis
    using ix run parsed read only
    by (intro exI [of _ "fst ?pda"] exI [of _ ?m] exI [of _ "message_view (mp_fpa pg) (mp_b58 pg) ?m"] exI
        [of _ "st(fst ?pda \<mapsto> ?m)"] exI conjI) (auto simp: message_view_def)
qed

definition demo_msg_page :: msg_page where
  "demo_msg_page = \<lparr>mp_sha = (\<lambda>_. zeros 32), mp_fpa = (\<lambda>seeds p. (concat seeds, 255)), mp_b58 = ascii_of,
     mp_parse_key = (\<lambda>_. Some (replicate 32 2)), mp_crypto = Some plain_crypto\<rparr>"

lemma demo_msg_page_ok:
  "mp_crypto demo_msg_page = Some plain_crypto" "sha_ok (mp_sha demo_msg_page)"
  "mp_parse_key demo_msg_page ''bob'' = Some (replicate 32 2)"
  by (simp_all add: demo_msg_page_def sha_ok_def)

lemma trim_a: "js_trim (replicate (Suc n) (CHR ''a'')) \<noteq> []"
proof -
  have "\<not> js_space (CHR ''a'')" by code_simp
  then have "js_trim (replicate (Suc n) (CHR ''a'')) = replicate (Suc n) (CHR ''a'')"
    by (intro js_trim_no_space) (simp only: hd_replicate last_replicate nat.distinct(2) simp_thms if_False)
  then show ?thesis by (simp only: replicate_Suc list.distinct(2) simp_thms)
qed

lemma some_passphrase: "''pw'' \<noteq> []"
  by simp

lemma zeros_lengths: "length (zeros 8) = 8" "length (zeros 16) = 16" "length (zeros 12) = 12" "length (zeros 32) = 32"
  by (simp_all only: zeros_def length_replicate)

theorem message_form_limit_witness:
  "(\<exists>ix. handle_send demo_msg_page (Some (zeros 32)) ''bob'' (replicate (Suc 723) (CHR ''a'')) ''pw'' (zeros 8) (zeros 16) (zeros 12) = Inr ix)
   \<and> handle_send demo_msg_page (Some (zeros 32)) ''bob'' (replicate (Suc 724) (CHR ''a'')) ''pw'' (zeros 8) (zeros 16) (zeros 12)
     = Inl (MsgBuilder BodyTooLong)"
proof -
  note limit = message_form_limit [OF demo_msg_page_ok(1) plain_crypto_ok demo_msg_page_ok(2,3) length_replicate
      zeros_lengths(1-3) _ some_passphrase, where me = "zeros 32"]
  have "length (replicate (Suc 723) (CHR ''a'')) \<le> 724" "724 < length (replicate (Suc 724) (CHR ''a''))"
    "length (replicate (Suc 724) (CHR ''a'')) \<le> 1024"
    unfolding length_replicate by simp_all
  then show ?thesis using limit [OF trim_a [of 723]] limit [OF trim_a [of 724]] by blast
qed

theorem message_delivered_witness:
  "\<exists>ix st' addr m em. handle_send demo_msg_page (Some (zeros 32)) ''bob'' ''a'' ''pw'' (zeros 8) (zeros 16) (zeros 12) = Inr ix
     \<and> msg_process (mp_sha demo_msg_page) \<lparr>me_fpa = mp_fpa demo_msg_page, me_now = 7\<rparr> ix Map.empty = Inr st' \<and> st' addr = Some m
     \<and> parse_message_account (mp_sha demo_msg_page) (mp_fpa demo_msg_page) (mp_b58 demo_msg_page)
         (message_layout (mp_sha demo_msg_page) m) = Some em
     \<and> handle_decrypt demo_msg_page ''pw'' em = Inr ''a''"
proof -
  have "js_trim ''a'' \<noteq> []" "length ''a'' \<le> 724" using trim_a [of 0] by simp_all
  then show ?thesis
    using message_delivered [OF demo_msg_page_ok(1) plain_crypto_ok demo_msg_page_ok(2) _ demo_msg_page_ok(3) length_replicate
      zeros_lengths(4,1-3) _ some_passphrase, where env = "\<lparr>me_fpa = mp_fpa demo_msg_page, me_now = 7\<rparr>"
      and body = "''a''" and st = Map.empty]
    by (simp only: msg_env.simps) blast
qed

end
