(* ===== verification/WebPages.thy ===== *)
theory WebPages
  imports WebWallet EscrowApp MsgProgram
begin

text \<open>
  The escrow and messaging pages of \<open>qietr-web/app/app\<close> from a click to the status shown: building the
  instructions (\<open>EscrowApp\<close>, \<open>SdkMsg\<close>), signing in the wallet, sending and waiting (\<open>confirm-tx.ts\<close>), the
  activity log, the form fields and the refreshed lists; the balance check; and the activity page.
  Form texts are ASCII. A handler that waits for ever on the node is \<open>None\<close>.
\<close>

section \<open>Signing and sending\<close>

text \<open>
  The connected wallet, if any, the latest blockhash with its last valid height, \<open>signTransaction\<close>
  followed by \<open>serialize\<close>, and the node as it answers for the transaction of some bytes.
\<close>

record wallet_net =
  wl_key :: "pubkey option"
  wl_blockhash :: "string + string \<times> nat"
  wl_sign :: "instruction list \<Rightarrow> pubkey \<Rightarrow> string \<Rightarrow> string + bytes"
  wl_node :: "bytes \<Rightarrow> confirm_net"
  wl_confirm_text :: "confirm_error \<Rightarrow> string"
  wl_wire_text :: "sdk_wire_error \<Rightarrow> string"

text \<open>\<open>useWalletSigner\<close>: a wallet that can sign is connected and shows its address.\<close>

record wallet_snapshot =
  ws_signer :: "pubkey option"
  ws_connected :: bool
  ws_address :: "string option"

definition use_wallet_signer :: "(pubkey \<Rightarrow> string) \<Rightarrow> pubkey option \<Rightarrow> wallet_snapshot" where
  "use_wallet_signer b58 key =
     (case key of
        None \<Rightarrow> \<lparr>ws_signer = None, ws_connected = False, ws_address = None\<rparr>
      | Some k \<Rightarrow> \<lparr>ws_signer = Some k, ws_connected = True, ws_address = Some (b58 k)\<rparr>)"

definition submit_instructions :: "wallet_net \<Rightarrow> pubkey \<Rightarrow> instruction list \<Rightarrow> (string + string) option" where
  "submit_instructions w me ixs =
     (case wl_blockhash w of
        Inl e \<Rightarrow> Some (Inl e)
      | Inr (hash, lvh) \<Rightarrow>
          (case wl_sign w ixs me hash of
             Inl e \<Rightarrow> Some (Inl e)
           | Inr raw \<Rightarrow> map_option (map_sum (wl_confirm_text w) id) (send_and_confirm (wl_node w raw) lvh)))"

section \<open>EscrowManager.tsx: creating a job\<close>

record create_form =
  cf_agent :: string
  cf_amount :: string
  cf_status :: page_status
  cf_balance :: "string option"

definition micro_to_usdc :: "int \<Rightarrow> string" where
  "micro_to_usdc micro = (let x = dbl_quot (nat (dbl micro)) 1000000 in to_fixed (if fst x < 2 ^ snd x then 6 else 2) x)"

definition fund_hint :: "app_env \<Rightarrow> string option \<Rightarrow> string" where
  "fund_hint app cl =
     (let mint = ap_b58 app (app_usdc_mint (app_cluster cl)) in
      if contains ''mainnet'' (app_cluster cl) then ''Fund your wallet with USDC (mint '' @ mint @ '').''
      else ''Claim devnet USDC at faucet.circle.com (Solana Devnet) for mint '' @ mint @ ''.'')"

definition short_key :: "string \<Rightarrow> string" where
  "short_key s = take 4 s @ ellipsis @ slice_end 4 s"

definition create_failed :: "web_env \<Rightarrow> string \<Rightarrow> create_form \<times> browser \<Rightarrow> create_form \<times> browser" where
  "create_failed env message = (\<lambda>(f, b).
     (f\<lparr>cf_status := Problem message\<rparr>,
      log_activity env Payment StatusError (Some (''escrow create'' @ mid_dot @ take 100 message)) b))"

definition create_done :: "web_env \<Rightarrow> string \<Rightarrow> create_form \<times> browser \<Rightarrow> create_form \<times> browser" where
  "create_done env sig = (\<lambda>(f, b).
     (f\<lparr>cf_status := Success sig, cf_agent := [], cf_amount := []\<rparr>,
      log_activity env Payment StatusOk (Some (''escrow '' @ wb_number env (parse_float (cf_amount f)) @ '' USDC to ''
        @ short_key (cf_agent f) @ mid_dot @ take 8 sig @ ellipsis)) b))"

text \<open>A price whose conversion throws does so outside the handler's \<open>try\<close>: the page does not change.\<close>

definition create_click ::
    "web_env \<Rightarrow> app_env \<Rightarrow> wallet_net \<Rightarrow> string option \<Rightarrow> bytes \<Rightarrow> int option \<Rightarrow> create_form \<times> browser
      \<Rightarrow> (create_form \<times> browser) option" where
  "create_click env app w cl nonce balance = (\<lambda>(f, b).
     (let amount = parse_float (cf_amount f); shown = (\<lambda>m. Some (f\<lparr>cf_status := Problem m\<rparr>, b)) in
      case handle_create app cl (wl_key w) (cf_agent f) amount nonce balance of
        Inl ConnectWallet \<Rightarrow> shown ''Connect a wallet first.''
      | Inl InvalidAgentAddress \<Rightarrow> shown ''Invalid agent Solana address.''
      | Inl NotPositiveAmount \<Rightarrow> shown ''Enter a positive USDC amount.''
      | Inl (InsufficientUsdc have_micro price) \<Rightarrow> shown (''Insufficient USDC: you have '' @ micro_to_usdc have_micro
          @ '', need '' @ wb_number env amount @ ''. '' @ fund_hint app cl)
      | Inl (BuilderFailed e) \<Rightarrow> Some (create_failed env (wl_wire_text w e) (f, b))
      | Inl _ \<Rightarrow> Some (f, b)
      | Inr ixs \<Rightarrow> map_option (\<lambda>r. case r of Inl m \<Rightarrow> create_failed env m (f, b) | Inr sig \<Rightarrow> create_done env sig (f, b))
                   (Option.bind (wl_key w) (\<lambda>me. submit_instructions w me ixs))))"

text \<open>\<open>checkBalance\<close>: whether the token account exists, and the balance read of it.\<close>

definition check_balance ::
    "app_env \<Rightarrow> wallet_net \<Rightarrow> string + bool \<Rightarrow> string + int \<Rightarrow> create_form \<Rightarrow> create_form" where
  "check_balance app w account balance f =
     (case wl_key w of
        None \<Rightarrow> f\<lparr>cf_status := Problem ''Connect a wallet first.''\<rparr>
      | Some me \<Rightarrow>
          (let short = short_key (ap_b58 app me);
               failed = (\<lambda>e. f\<lparr>cf_balance := None, cf_status := Problem (''Balance check failed (RPC): '' @ e)\<rparr>) in
           case account of
             Inl e \<Rightarrow> failed e
           | Inr False \<Rightarrow> f\<lparr>cf_balance := Some (''0.000000 USDC '' @ em_dash @ '' '' @ short @ '' has no USDC account yet'')\<rparr>
           | Inr True \<Rightarrow> (case balance of
               Inl e \<Rightarrow> failed e
             | Inr n \<Rightarrow> f\<lparr>cf_balance := Some (micro_to_usdc n @ '' USDC '' @ em_dash @ '' '' @ short)\<rparr>)))"

section \<open>EscrowManager.tsx: the list of jobs\<close>

record browse_page =
  bp_jobs :: "job_row list"
  bp_loading :: bool
  bp_error :: "string option"
  bp_status :: page_status

definition open_browse_page :: browse_page where
  "open_browse_page = \<lparr>bp_jobs = [], bp_loading = False, bp_error = None, bp_status = Idle\<rparr>"

fun state_label :: "job_state \<Rightarrow> string" where
  "state_label Created = ''Created''"
| "state_label Accepted = ''Accepted''"
| "state_label Completed = ''Completed''"
| "state_label Released = ''Released''"
| "state_label Disputed = ''Disputed''"
| "state_label Refunded = ''Refunded''"

text \<open>The answers of the node to the two queries, as client and as agent, or the error of one of them.\<close>

type_synonym job_answer = "string + (pubkey \<times> bytes) list \<times> (pubkey \<times> bytes) list"

definition refresh_jobs :: "app_env \<Rightarrow> wallet_snapshot \<Rightarrow> job_answer \<Rightarrow> browse_page \<Rightarrow> browse_page" where
  "refresh_jobs app ws answer p =
     (case truthy (ws_address ws) of
        None \<Rightarrow> p
      | Some _ \<Rightarrow>
          (case answer of
             Inl e \<Rightarrow> p\<lparr>bp_error := Some e, bp_loading := False\<rparr>
           | Inr (as_client, as_agent) \<Rightarrow>
               p\<lparr>bp_error := None, bp_jobs := fetch_jobs app as_client as_agent, bp_loading := False\<rparr>))"

definition browse_effect :: "app_env \<Rightarrow> wallet_snapshot \<Rightarrow> job_answer \<Rightarrow> browse_page \<Rightarrow> browse_page" where
  "browse_effect app ws answer p =
     (case truthy (ws_address ws) of None \<Rightarrow> p\<lparr>bp_jobs := []\<rparr> | Some _ \<Rightarrow> refresh_jobs app ws answer p)"

definition job_click ::
    "app_env \<Rightarrow> (app_error \<Rightarrow> string) \<Rightarrow> wallet_net \<Rightarrow> job_answer \<Rightarrow> job_row \<Rightarrow> string
      \<Rightarrow> browse_page \<Rightarrow> browse_page option" where
  "job_click app error_text w answer row action p =
     (case wl_key w of
        None \<Rightarrow> Some p
      | Some me \<Rightarrow>
          (case handle_action app me row action of
             Inl e \<Rightarrow> Some (p\<lparr>bp_status := Problem (error_text e)\<rparr>)
           | Inr ixs \<Rightarrow> map_option (\<lambda>r. case r of
                 Inl m \<Rightarrow> p\<lparr>bp_status := Problem m\<rparr>
               | Inr sig \<Rightarrow> refresh_jobs app (use_wallet_signer (ap_b58 app) (wl_key w)) answer (p\<lparr>bp_status := Success sig\<rparr>))
               (submit_instructions w me ixs)))"

section \<open>MessagingManager.tsx\<close>

record send_form =
  sf_recipient :: string
  sf_passphrase :: string
  sf_body :: string
  sf_status :: page_status

definition send_failed :: "web_env \<Rightarrow> string \<Rightarrow> send_form \<times> browser \<Rightarrow> send_form \<times> browser" where
  "send_failed env message = (\<lambda>(f, b).
     (f\<lparr>sf_status := Problem message\<rparr>,
      log_activity env Payment StatusError (Some (''msg send'' @ mid_dot @ take 100 message)) b))"

definition send_done :: "web_env \<Rightarrow> string \<Rightarrow> send_form \<times> browser \<Rightarrow> send_form \<times> browser" where
  "send_done env sig = (\<lambda>(f, b).
     (\<lparr>sf_recipient = [], sf_passphrase = [], sf_body = [], sf_status = Success sig\<rparr>,
      log_activity env Payment StatusOk (Some (''msg to '' @ short_key (sf_recipient f) @ mid_dot @ take 8 sig @ ellipsis)) b))"

definition send_click ::
    "web_env \<Rightarrow> msg_page \<Rightarrow> (msg_error \<Rightarrow> string) \<Rightarrow> wallet_net \<Rightarrow> bytes \<Rightarrow> bytes \<Rightarrow> bytes \<Rightarrow> send_form \<times> browser
      \<Rightarrow> (send_form \<times> browser) option" where
  "send_click env pg error_text w nonce salt iv = (\<lambda>(f, b).
     (let shown = (\<lambda>m. Some (f\<lparr>sf_status := Problem m\<rparr>, b)) in
      case handle_send pg (wl_key w) (sf_recipient f) (sf_body f) (sf_passphrase f) nonce salt iv of
        Inl MsgConnectWallet \<Rightarrow> shown ''Connect a wallet first.''
      | Inl MsgInvalidAddress \<Rightarrow> shown ''Invalid Solana address.''
      | Inl EmptyBody \<Rightarrow> shown ''Message body cannot be empty.''
      | Inl BodyOverLimit \<Rightarrow> shown ''Message body exceeds 1024 bytes.''
      | Inl MissingPassphrase \<Rightarrow> shown ''Enter a passphrase for encryption.''
      | Inl e \<Rightarrow> Some (send_failed env (error_text e) (f, b))
      | Inr ix \<Rightarrow> map_option (\<lambda>r. case r of Inl m \<Rightarrow> send_failed env m (f, b) | Inr sig \<Rightarrow> send_done env sig (f, b))
                  (Option.bind (wl_key w) (\<lambda>me. submit_instructions w me [ix]))))"

record inbox_page =
  ip_messages :: "encrypted_message list"
  ip_loading :: bool
  ip_error :: "string option"
  ip_decrypted :: "string \<rightharpoonup> string"
  ip_status :: page_status

definition refresh_inbox :: "msg_page \<Rightarrow> wallet_snapshot \<Rightarrow> string + bytes list \<Rightarrow> inbox_page \<Rightarrow> inbox_page" where
  "refresh_inbox pg ws answer p =
     (case truthy (ws_address ws) of
        None \<Rightarrow> p
      | Some _ \<Rightarrow>
          (case answer of
             Inl e \<Rightarrow> p\<lparr>ip_error := Some e, ip_loading := False\<rparr>
           | Inr accs \<Rightarrow> p\<lparr>ip_error := None, ip_messages := fetch_inbox_page pg accs, ip_loading := False\<rparr>))"

definition inbox_effect :: "msg_page \<Rightarrow> wallet_snapshot \<Rightarrow> string + bytes list \<Rightarrow> inbox_page \<Rightarrow> inbox_page" where
  "inbox_effect pg ws answer p =
     (case truthy (ws_address ws) of None \<Rightarrow> p\<lparr>ip_messages := []\<rparr> | Some _ \<Rightarrow> refresh_inbox pg ws answer p)"

definition decrypt_click :: "msg_page \<Rightarrow> string \<Rightarrow> encrypted_message \<Rightarrow> inbox_page \<Rightarrow> inbox_page" where
  "decrypt_click pg passphrase m p =
     (case handle_decrypt pg passphrase m of
        Inl MissingPassphrase \<Rightarrow> p\<lparr>ip_status := Problem ''Enter passphrase first.''\<rparr>
      | Inl _ \<Rightarrow> p\<lparr>ip_status := Problem ''Decryption failed. Wrong passphrase?''\<rparr>
      | Inr plain \<Rightarrow> p\<lparr>ip_decrypted := (ip_decrypted p)(em_pda m \<mapsto> plain), ip_status := Idle\<rparr>)"

definition delete_click ::
    "msg_page \<Rightarrow> (msg_error \<Rightarrow> string) \<Rightarrow> wallet_net \<Rightarrow> encrypted_message \<Rightarrow> inbox_page \<Rightarrow> inbox_page option" where
  "delete_click pg error_text w m p =
     (case handle_delete pg (wl_key w) m of
        Inl e \<Rightarrow> Some (p\<lparr>ip_status := Problem (error_text e)\<rparr>)
      | Inr None \<Rightarrow> Some p
      | Inr (Some ix) \<Rightarrow> map_option (\<lambda>r. case r of
            Inl e \<Rightarrow> p\<lparr>ip_status := Problem e\<rparr>
          | Inr sig \<Rightarrow> p\<lparr>ip_messages := filter (\<lambda>x. em_pda x \<noteq> em_pda m) (ip_messages p), ip_status := Success sig\<rparr>)
          (Option.bind (wl_key w) (\<lambda>me. submit_instructions w me [ix])))"

section \<open>ActivityList.tsx\<close>

text \<open>What the activity page shows; it reloads when it opens and when the log changes.\<close>

record activity_view =
  av_entries :: "json list"
  av_confirming :: bool

datatype activity_action = AskClear | ConfirmClear | CancelClear

definition open_activity :: "browser \<Rightarrow> activity_view" where
  "open_activity b = \<lparr>av_entries = load_activity b, av_confirming = False\<rparr>"

definition activity_changed :: "browser \<Rightarrow> activity_view \<Rightarrow> activity_view" where
  "activity_changed b v = v\<lparr>av_entries := load_activity b\<rparr>"

fun activity_click :: "activity_action \<Rightarrow> activity_view \<times> browser \<Rightarrow> activity_view \<times> browser" where
  "activity_click AskClear (v, b) = (v\<lparr>av_confirming := True\<rparr>, b)"
| "activity_click ConfirmClear (v, b) = (let b = clear_activity b in ((activity_changed b v)\<lparr>av_confirming := False\<rparr>, b))"
| "activity_click CancelClear (v, b) = (v\<lparr>av_confirming := False\<rparr>, b)"

lemma activity_view_current:
  "av_entries (fst (activity_click a (open_activity b, b))) = load_activity (snd (activity_click a (open_activity b, b)))"
  "av_entries (activity_changed b v) = load_activity b"
  by (cases a) (simp_all add: open_activity_def activity_changed_def Let_def)

section \<open>A success that is shown has been confirmed\<close>

text \<open>The node has confirmed the transaction of these instructions, signed by the wallet.\<close>

definition confirmed :: "wallet_net \<Rightarrow> pubkey \<Rightarrow> instruction list \<Rightarrow> string \<Rightarrow> bool" where
  "confirmed w me ixs sig \<longleftrightarrow> (\<exists>hash lvh raw. wl_blockhash w = Inr (hash, lvh) \<and> wl_sign w ixs me hash = Inr raw
     \<and> verdict_ok (wl_node w raw) sig lvh (Inr sig))"

lemma submit_confirmed:
  assumes "submit_instructions w me ixs = Some (Inr sig)"
  shows "confirmed w me ixs sig"
proof -
  obtain hash lvh raw r where "wl_blockhash w = Inr (hash, lvh)" "wl_sign w ixs me hash = Inr raw"
    and r: "send_and_confirm (wl_node w raw) lvh = Some r" "map_sum (wl_confirm_text w) id r = Inr sig"
    using assms by (auto simp: submit_instructions_def split: sum.splits prod.splits)
  moreover have "r = Inr sig" using r(2) by (cases r) auto
  then have "verdict_ok (wl_node w raw) sig lvh (Inr sig)"
    using r(1) by (auto simp: send_and_confirm_def verdict_ok_def dest!: confirm_loop_verdict split: option.splits)
  ultimately show ?thesis by (auto simp: confirmed_def)
qed

lemma submitted_elim:
  assumes "map_option g (Option.bind (wl_key w) (\<lambda>me. submit_instructions w me ixs)) = Some x"
  obtains (failed) m where "x = g (Inl m)"
    | (sent) me sig where "wl_key w = Some me" "x = g (Inr sig)" "confirmed w me ixs sig"
proof -
  obtain me r where r: "wl_key w = Some me" "submit_instructions w me ixs = Some r" "x = g r"
    using assms by (auto simp: bind_eq_Some_conv)
  then show ?thesis using that submit_confirmed by (cases r) auto
qed

lemma refresh_keeps_status [simp]:
  "bp_status (refresh_jobs app ws answer p) = bp_status p"
  by (simp add: refresh_jobs_def split: option.split sum.split prod.split)

lemma create_click_success:
  assumes "create_click env app w cl nonce balance (f, b) = Some (f', b')" "cf_status f' = Success sig" "cf_status f \<noteq> Success sig"
  shows "\<exists>me ixs. wl_key w = Some me \<and> confirmed w me ixs sig
     \<and> handle_create app cl (Some me) (cf_agent f) (parse_float (cf_amount f)) nonce balance = Inr ixs
     \<and> (f', b') = create_done env sig (f, b)"
proof (cases "handle_create app cl (wl_key w) (cf_agent f) (parse_float (cf_amount f)) nonce balance")
  case (Inl e)
  then show ?thesis
    using assms by (auto simp: create_click_def create_failed_def Let_def split: app_error.splits)
next
  case (Inr ixs)
  let ?g = "\<lambda>r. case r of Inl m \<Rightarrow> create_failed env m (f, b) | Inr sig \<Rightarrow> create_done env sig (f, b)"
  have "map_option ?g (Option.bind (wl_key w) (\<lambda>me. submit_instructions w me ixs)) = Some (f', b')"
    using assms(1) Inr by (simp add: create_click_def)
  then show ?thesis
  proof (cases rule: submitted_elim)
    case (failed m)
    then show ?thesis using assms(2,3) by (simp add: create_failed_def)
  next
    case (sent me sig')
    then have "sig' = sig" using assms(2) by (simp add: create_done_def)
    with sent Inr show ?thesis by auto
  qed
qed

lemma job_click_success:
  assumes "job_click app error_text w answer row action p = Some p'" "bp_status p' = Success sig" "bp_status p \<noteq> Success sig"
  shows "\<exists>me ixs. wl_key w = Some me \<and> handle_action app me row action = Inr ixs \<and> confirmed w me ixs sig"
proof -
  obtain me where me: "wl_key w = Some me" using assms by (auto simp: job_click_def split: option.splits)
  obtain ixs where ixs: "handle_action app me row action = Inr ixs" using assms me by (auto simp: job_click_def split: sum.splits)
  obtain r where r: "submit_instructions w me ixs = Some r" and p': "p' = (case r of
        Inl m \<Rightarrow> p\<lparr>bp_status := Problem m\<rparr>
      | Inr sig \<Rightarrow> refresh_jobs app (use_wallet_signer (ap_b58 app) (Some me)) answer (p\<lparr>bp_status := Success sig\<rparr>))"
    using assms(1) me ixs by (auto simp: job_click_def)
  then have "r = Inr sig" using assms(2) by (cases r) simp_all
  with me ixs r show ?thesis using submit_confirmed by blast
qed

lemma send_click_success:
  assumes "send_click env pg error_text w nonce salt iv (f, b) = Some (f', b')" "sf_status f' = Success sig" "sf_status f \<noteq> Success sig"
  shows "\<exists>me ix. wl_key w = Some me \<and> confirmed w me [ix] sig
     \<and> handle_send pg (Some me) (sf_recipient f) (sf_body f) (sf_passphrase f) nonce salt iv = Inr ix"
proof (cases "handle_send pg (wl_key w) (sf_recipient f) (sf_body f) (sf_passphrase f) nonce salt iv")
  case (Inl e)
  then show ?thesis
    using assms by (auto simp: send_click_def send_failed_def Let_def split: msg_error.splits)
next
  case (Inr ix)
  let ?g = "\<lambda>r. case r of Inl m \<Rightarrow> send_failed env m (f, b) | Inr sig \<Rightarrow> send_done env sig (f, b)"
  have "map_option ?g (Option.bind (wl_key w) (\<lambda>me. submit_instructions w me [ix])) = Some (f', b')"
    using assms(1) Inr by (simp add: send_click_def)
  then show ?thesis
  proof (cases rule: submitted_elim)
    case (failed m)
    then show ?thesis using assms(2,3) by (simp add: send_failed_def)
  next
    case (sent me sig')
    then have "sig' = sig" using assms(2) by (simp add: send_done_def)
    with sent Inr show ?thesis by auto
  qed
qed

lemma delete_click_success:
  assumes "delete_click pg error_text w m p = Some p'" "ip_status p' = Success sig" "ip_status p \<noteq> Success sig"
  shows "\<exists>me ix. wl_key w = Some me \<and> handle_delete pg (Some me) m = Inr (Some ix) \<and> confirmed w me [ix] sig
     \<and> m \<notin> set (ip_messages p')"
proof -
  let ?g = "\<lambda>r. case r of Inl e \<Rightarrow> p\<lparr>ip_status := Problem e\<rparr>
     | Inr sig \<Rightarrow> p\<lparr>ip_messages := filter (\<lambda>x. em_pda x \<noteq> em_pda m) (ip_messages p), ip_status := Success sig\<rparr>"
  obtain ix where ix: "handle_delete pg (wl_key w) m = Inr (Some ix)"
    using assms by (auto simp: delete_click_def split: sum.splits option.splits)
  then have "map_option ?g (Option.bind (wl_key w) (\<lambda>me. submit_instructions w me [ix])) = Some p'"
    using assms(1) by (simp add: delete_click_def)
  then show ?thesis
  proof (cases rule: submitted_elim)
    case (failed e)
    then show ?thesis using assms(2) by simp
  next
    case (sent me sig')
    then show ?thesis using assms(2) ix by auto
  qed
qed

section \<open>A created job is there\<close>

lemma merge_loop_keeps: "set all \<subseteq> set (merge_loop app accs seen all)"
  by (induction accs arbitrary: seen all) (fastforce simp: Let_def split: option.split)+

lemma merge_loop_lists:
  assumes "(pk, d) \<in> set accs" "ap_b58 app pk \<notin> set seen" "parse_job_account (ap_sha app) (ap_b58 app) d = Some j"
    and "\<And>pk' d'. (pk', d') \<in> set accs \<Longrightarrow> ap_b58 app pk' = ap_b58 app pk \<Longrightarrow> d' = d"
  shows "\<lparr>jr_job = j, jr_pda = ap_b58 app pk\<rparr> \<in> set (merge_loop app accs seen all)"
  using assms
proof (induction accs arbitrary: seen all)
  case (Cons a accs)
  obtain pk' d' where a: "a = (pk', d')" by (cases a)
  show ?case
  proof (cases "ap_b58 app pk' = ap_b58 app pk")
    case True
    then have "d' = d" using Cons.prems(4) [of pk' d'] a by simp
    then show ?thesis
      using True Cons.prems(2,3) merge_loop_keeps [of "all @ [\<lparr>jr_job = j, jr_pda = ap_b58 app pk\<rparr>]" app accs]
      by (auto simp: a Let_def)
  next
    case False
    then have "(pk, d) \<in> set accs" using Cons.prems(1) a by auto
    moreover have "d'' = d" if "(pk'', d'') \<in> set accs" "ap_b58 app pk'' = ap_b58 app pk" for pk'' d''
      using Cons.prems(4) [of pk'' d''] that by simp
    ultimately have "\<lparr>jr_job = j, jr_pda = ap_b58 app pk\<rparr> \<in> set (merge_loop app accs seen' all')"
      if "ap_b58 app pk \<notin> set seen'" for seen' all'
      using Cons.IH [OF _ that Cons.prems(3)] by blast
    then show ?thesis using Cons.prems(2) False by (simp add: a Let_def)
  qed
qed simp

lemma fetch_jobs_lists:
  assumes "(pk, d) \<in> set as_client" "parse_job_account (ap_sha app) (ap_b58 app) d = Some j"
    and "\<And>pk' d'. (pk', d') \<in> set (as_client @ as_agent) \<Longrightarrow> ap_b58 app pk' = ap_b58 app pk \<Longrightarrow> d' = d"
  shows "\<lparr>jr_job = j, jr_pda = ap_b58 app pk\<rparr> \<in> set (fetch_jobs app as_client as_agent)"
  unfolding fetch_jobs_def set_sort using assms by (intro merge_loop_lists) auto

lemma handle_create_call:
  assumes ok: "handle_create app cl (Some me) agent amount nonce balance = Inr ixs"
    and sha: "escrow_sha_ok (ap_sha app)" and len: "length nonce = 8" "\<And>k. ap_parse_key app agent = Some k \<Longrightarrow> length k = 32"
  shows "\<exists>agent_key price. ap_parse_key app agent = Some agent_key \<and> usdc_to_micro amount = Some price
     \<and> escrow_dispatch (ap_sha app) (last ixs) = Inr (CreateJob
         (fst (find_job_pda (ap_fpa app) me nonce qietr_escrow_program_id))
         (fst (find_escrow_vault_pda (ap_fpa app) me nonce qietr_escrow_program_id))
         (find_associated_token_address (ap_fpa app) me (app_usdc_mint (app_cluster cl))) me
         (app_usdc_mint (app_cluster cl)) agent_key nonce (word_of_int price))"
proof -
  let ?mint = "app_usdc_mint (app_cluster cl)" and ?pid = qietr_escrow_program_id
  let ?ata = "find_associated_token_address (ap_fpa app) me ?mint"
  obtain k price where k: "ap_parse_key app agent = Some k" "usdc_to_micro amount = Some price"
    using ok by (auto simp: handle_create_def res_simps)
  obtain ix where ix: "build_create_job_ix (ap_sha app) (ap_fpa app) k nonce price me ?ata ?mint ?pid = Inr ix"
    "escrow_dispatch (ap_sha app) ix = Inr (CreateJob (fst (find_job_pda (ap_fpa app) me nonce ?pid))
         (fst (find_escrow_vault_pda (ap_fpa app) me nonce ?pid)) ?ata me ?mint k nonce (word_of_int price))"
    using dispatch_create [OF sha len(2) [OF k(1)] len(1)] by blast
  then have "last ixs = ix" using ok k by (auto simp: handle_create_def res_simps Let_def)
  with k ix(2) show ?thesis by auto
qed

text \<open>
  C26. A job created on the page is there: when the page reports that a job was created and the program
  has executed what the node confirmed, the chain holds a new job of the wallet, for the agent and the
  price that were typed; the page's refreshed list of jobs shows it with the offer to cancel it; and
  the form is cleared and the creation logged.
\<close>

theorem created_job_is_listed:
  assumes keys: "\<And>k. ap_parse_key app (ap_b58 app k) = Some k" "\<And>k. ap_parse_key app (cf_agent f) = Some k \<Longrightarrow> length k = 32"
      "ap_b58 app me \<noteq> []"
    and env: "escrow_sha_ok (ap_sha app)" "ee_fpa eenv = ap_fpa app" "length nonce = 8" "length me = 32" "wl_key w = Some me"
    and click: "create_click env app w cl nonce balance (f, b) = Some (f', b')" "cf_status f' = Success sig" "cf_status f \<noteq> Success sig"
    and executed: "\<And>ixs. confirmed w me ixs sig \<Longrightarrow> escrow_process (ap_sha app) eenv (last ixs) st = Inr st'"
    and mine: "\<And>addr j. es_jobs st' addr = Some j \<Longrightarrow> jb_client j = me \<Longrightarrow> (addr, job_layout (ap_sha app) j) \<in> set as_client"
    and accounts: "\<And>pk d. (pk, d) \<in> set (as_client @ as_agent) \<Longrightarrow> \<exists>j. es_jobs st' pk = Some j \<and> d = job_layout (ap_sha app) j"
  shows "\<exists>addr agent price j row. ap_parse_key app (cf_agent f) = Some agent
     \<and> usdc_to_micro (parse_float (cf_amount f)) = Some price
     \<and> es_jobs st addr = None \<and> es_jobs st' addr = Some j \<and> j = new_job eenv me agent nonce (word_of_int price)
     \<and> row = app_row app addr j
     \<and> row \<in> set (bp_jobs (refresh_jobs app (use_wallet_signer (ap_b58 app) (Some me)) (Inr (as_client, as_agent)) p))
     \<and> (''Cancel'', ''cancel'') \<in> set (available_actions app (Some (ap_b58 app me)) (jr_job row))
     \<and> cf_agent f' = [] \<and> cf_amount f' = []"
proof -
  obtain ixs where made: "handle_create app cl (Some me) (cf_agent f) (parse_float (cf_amount f)) nonce balance = Inr ixs"
    and conf: "confirmed w me ixs sig" and form: "(f', b') = create_done env sig (f, b)"
    using create_click_success [OF click] env(5) by auto
  obtain agent price where typed: "ap_parse_key app (cf_agent f) = Some agent"
    "usdc_to_micro (parse_float (cf_amount f)) = Some price"
    and call: "escrow_dispatch (ap_sha app) (last ixs) = Inr (CreateJob
         (fst (find_job_pda (ap_fpa app) me nonce qietr_escrow_program_id))
         (fst (find_escrow_vault_pda (ap_fpa app) me nonce qietr_escrow_program_id))
         (find_associated_token_address (ap_fpa app) me (app_usdc_mint (app_cluster cl))) me
         (app_usdc_mint (app_cluster cl)) agent nonce (word_of_int price))"
    using handle_create_call [OF made env(1,3) keys(2)] by blast
  let ?addr = "fst (find_job_pda (ap_fpa app) me nonce qietr_escrow_program_id)"
  let ?j = "new_job eenv me agent nonce (word_of_int price)"
  have made: "es_jobs st ?addr = None" "es_jobs st' ?addr = Some ?j"
    using executed [OF conf] call by (auto simp: escrow_process_def create_job_def save_job_def res_simps)
  have sized: "job_sized ?j" using env(3,4) keys(2) [OF typed(1)] by (simp add: job_sized_def new_job_def)
  have safe: "times_safe ?j" by (simp add: times_safe_def new_job_def safe_int_def)
  have inj: "ap_b58 app a = ap_b58 app b \<Longrightarrow> a = b" for a b using keys(1) by (metis option.inject)
  have row: "app_row app ?addr ?j \<in> set (fetch_jobs app as_client as_agent)"
    unfolding app_row_def
  proof (rule fetch_jobs_lists)
    show "(?addr, job_layout (ap_sha app) ?j) \<in> set as_client" by (rule mine [OF made(2)]) (simp add: new_job_def)
    show "parse_job_account (ap_sha app) (ap_b58 app) (job_layout (ap_sha app) ?j) = Some (job_view (ap_b58 app) ?j)"
      by (rule job_wire.roundtrip) (use env(1) sized in \<open>simp add: escrow_sha_ok_def\<close>)
    fix pk d assume "(pk, d) \<in> set (as_client @ as_agent)" "ap_b58 app pk = ap_b58 app ?addr"
    with accounts inj made(2) show "d = job_layout (ap_sha app) ?j" by fastforce
  qed
  have offered: "(''Cancel'', ''cancel'') \<in> set (available_actions app (Some (ap_b58 app me)) (jr_job (app_row app ?addr ?j)))"
    using view_simps [OF safe, of "ap_b58 app"]
    by (simp add: app_row_def available_actions_def Let_def) (simp_all add: new_job_def)
  have "app_row app ?addr ?j \<in> set (bp_jobs (refresh_jobs app (use_wallet_signer (ap_b58 app) (Some me)) (Inr (as_client, as_agent)) p))"
    using row keys(3) by (simp add: refresh_jobs_def use_wallet_signer_def truthy_def)
  moreover have "cf_agent f' = []" "cf_amount f' = []" using form by (simp_all add: create_done_def)
  ultimately show ?thesis using typed made offered by blast
qed

text \<open>The client of the demonstration run types its job into the form; the wallet signs just that.\<close>

definition demo_instructions :: "instruction list" where
  "demo_instructions = (case handle_create page_env None (Some (zeros 32)) (ap_b58 page_env (replicate 32 2))
     (parse_float ''0.001'') (zeros 8) (Some 5000) of Inr ixs \<Rightarrow> ixs | Inl _ \<Rightarrow> [])"

definition demo_wallet :: wallet_net where
  "demo_wallet = \<lparr>wl_key = Some (zeros 32), wl_blockhash = Inr (''hash'', 150),
     wl_sign = (\<lambda>ixs me hash. if ixs = demo_instructions then Inr [1] else Inl ''no''), wl_node = (\<lambda>_. demo_confirm_net),
     wl_confirm_text = (\<lambda>_. ''failed''), wl_wire_text = (\<lambda>_. ''failed'')\<rparr>"

definition demo_form :: create_form where
  "demo_form = \<lparr>cf_agent = ap_b58 page_env (replicate 32 2), cf_amount = ''0.001'', cf_status = Idle, cf_balance = None\<rparr>"

lemma demo_typed: "usdc_to_micro (parse_float ''0.001'') = Some 1000"
proof -
  have "is_digit 10 CHR ''0''" "is_digit 10 CHR ''1''" by (simp_all add: is_digit_def digit_of_def char_code_def)
  moreover have "digits_val 10 ''0001'' = 1" by (simp add: digits_val_def digit_val_def digit_of_def char_code_def)
  ultimately show ?thesis using typed_micro [of "''0''" "''001''" 1000] by (simp add: amount_text_def)
qed

lemma positive_micro:
  assumes "usdc_to_micro x = Some n" "0 < n"
  shows "\<exists>m k. x = Dyadic m k \<and> 0 < m"
proof (cases x)
  case (Dyadic m k)
  have "0 < m"
  proof (rule ccontr)
    assume "\<not> 0 < m"
    then have "m * 10 ^ usdc_decimals \<le> 0" by (simp add: mult_nonpos_nonneg)
    moreover have "dbl 0 = 0" using dbl_safe [of 0] by (simp add: safe_int_def)
    ultimately have "dbl (m * 10 ^ usdc_decimals) \<le> 0"
      by (cases "m * 10 ^ usdc_decimals = 0") (simp_all add: dbl_def)
    then have "2 * dbl (m * 10 ^ usdc_decimals) + 2 ^ k < 2 ^ Suc k"
      using zero_less_power [of "2 :: int" k] by (simp only: power_Suc) linarith
    then have "math_round (dbl (m * 10 ^ usdc_decimals)) k \<le> 0"
      using pos_imp_zdiv_pos_iff [of "2 ^ Suc k" "2 * dbl (m * 10 ^ usdc_decimals) + 2 ^ k"] by (simp add: math_round_def)
    then show False using assms Dyadic by (simp add: Let_def split: if_splits)
  qed
  with Dyadic show ?thesis by blast
qed (use assms in simp)

lemma demo_built:
  "handle_create page_env None (Some (zeros 32)) (ap_b58 page_env (replicate 32 2)) (parse_float ''0.001'') (zeros 8) (Some 5000)
     = Inr demo_instructions"
  "escrow_process page_sha (demo_env 10) (last demo_instructions) \<lparr>es_jobs = Map.empty, es_ledger = page_ledger\<rparr> = Inr page_state"
proof -
  have app: "ap_sha page_env = page_sha" "ap_fpa page_env = demo_fpa" by (simp_all add: page_env_def)
  have "to_lower ''devnet'' = ''devnet''" "\<not> contains ''mainnet'' ''devnet''" by code_simp+
  then have mint: "app_usdc_mint (app_cluster None) = usdc_mint_devnet" by (simp add: app_usdc_mint_def app_cluster_def default_to_def)
  obtain m k where x: "parse_float ''0.001'' = Dyadic m k" "0 < m" using positive_micro [OF demo_typed] by auto
  obtain ix where ix: "build_create_job_ix page_sha demo_fpa (replicate 32 2) (zeros 8) 1000 (zeros 32) (page_ata (zeros 32))
      usdc_mint_devnet qietr_escrow_program_id = Inr ix"
    and call: "escrow_dispatch page_sha ix = Inr (demo_create (page_ata (zeros 32)) usdc_mint_devnet)"
    using dispatch_create [OF page_sha_ok, of "replicate 32 2" "zeros 8" demo_fpa 1000 "zeros 32" "page_ata (zeros 32)" usdc_mint_devnet
        qietr_escrow_program_id]
    by (auto simp: demo_create_def job_address_def job_vault_def demo_job_def new_job_def)
  have built: "handle_create page_env None (Some (zeros 32)) (ap_b58 page_env (replicate 32 2)) (parse_float ''0.001'') (zeros 8) (Some 5000)
     = Inr [build_create_ata_idempotent_ix demo_fpa (zeros 32) (zeros 32) usdc_mint_devnet, ix]"
    using demo_typed x ix by (simp add: handle_create_def page_keys mint app page_ata_def default_to_def Let_def)
  then have built_is: "demo_instructions = [build_create_ata_idempotent_ix demo_fpa (zeros 32) (zeros 32) usdc_mint_devnet, ix]"
    by (simp add: demo_instructions_def)
  show "handle_create page_env None (Some (zeros 32)) (ap_b58 page_env (replicate 32 2)) (parse_float ''0.001'') (zeros 8) (Some 5000)
     = Inr demo_instructions" using built built_is by simp
  show "escrow_process page_sha (demo_env 10) (last demo_instructions) \<lparr>es_jobs = Map.empty, es_ledger = page_ledger\<rparr> = Inr page_state"
    unfolding built_is escrow_process_def using call demo_created [OF page_funded] by simp
qed

lemma demo_sent: "send_and_confirm demo_confirm_net 150 = Some (Inr ''sig'')"
  by (simp add: send_and_confirm_def demo_confirm_net_def confirm_loop.simps tx_state_of_def)

lemma demo_clicked:
  "\<exists>f' b'. create_click demo_web_env page_env demo_wallet None (zeros 8) (Some 5000) (demo_form, b) = Some (f', b')
     \<and> cf_status f' = Success ''sig''"
  using demo_built(1) demo_sent
  by (simp add: create_click_def demo_form_def demo_wallet_def submit_instructions_def create_done_def)

theorem created_job_is_listed_witness:
  "\<exists>row. row \<in> set (bp_jobs (refresh_jobs page_env (use_wallet_signer (ap_b58 page_env) (Some (zeros 32)))
        (Inr ([(demo_addr, job_layout page_sha demo_job)], [])) open_browse_page))
     \<and> (''Cancel'', ''cancel'') \<in> set (available_actions page_env (Some (ap_b58 page_env (zeros 32))) (jr_job row))"
proof -
  obtain f' b' where click: "create_click demo_web_env page_env demo_wallet None (zeros 8) (Some 5000) (demo_form, fresh_browser) = Some (f', b')"
    "cf_status f' = Success ''sig''" using demo_clicked by blast
  have app: "ap_sha page_env = page_sha" "ap_fpa page_env = demo_fpa" by (simp_all add: page_env_def)
  have key: "ap_parse_key page_env (cf_agent demo_form) = Some k \<Longrightarrow> length k = 32" for k
    using page_keys [of "replicate 32 2"] by (auto simp: demo_form_def)
  have b58: "ap_b58 page_env (zeros 32) \<noteq> []" by (simp add: page_env_def zeros_def)
  have jobs: "es_jobs page_state addr = Some j \<longleftrightarrow> addr = demo_addr \<and> j = demo_job" for addr j
    by (simp add: demo_state_def save_job_def eq_commute [of demo_job])
  have only: "confirmed demo_wallet (zeros 32) ixs ''sig'' \<Longrightarrow>
      escrow_process (ap_sha page_env) (demo_env 10) (last ixs) \<lparr>es_jobs = Map.empty, es_ledger = page_ledger\<rparr> = Inr page_state" for ixs
    using demo_built(2) by (auto simp: confirmed_def demo_wallet_def app split: if_splits)
  have "escrow_sha_ok (ap_sha page_env)" "ee_fpa (demo_env 10) = ap_fpa page_env" "length (zeros 8) = 8" "length (zeros 32) = 32"
    "wl_key demo_wallet = Some (zeros 32)" "cf_status demo_form \<noteq> Success ''sig''"
    by (simp_all add: page_sha_ok app demo_env_def demo_wallet_def demo_form_def)
  note created_job_is_listed [OF page_keys key b58 this(1-5) click this(6) only, of "[(demo_addr, job_layout page_sha demo_job)]" "[]" open_browse_page]
  then show ?thesis unfolding jobs app by fastforce
qed

end
