(* ===== verification/WebElements.thy ===== *)
theory WebElements
  imports Prelude
begin

text \<open>
  A page of \<open>qietr-web/app\<close> as the list of its elements in their order, and what can be clicked on it.
\<close>

section \<open>Elements\<close>

datatype 'a ui =
    Heading string
  | Para string
  | Field string string
  | Secret string string
  | Button string bool 'a
  | Link string string
  | Row "string list"

text \<open>\<open>Button label disabled action\<close>; \<open>Link text href\<close>; an input by its label and its value.\<close>

fun clicks :: "'a ui \<Rightarrow> 'a list" where
  "clicks (Button _ disabled a) = (if disabled then [] else [a])"
| "clicks (Heading _) = []"
| "clicks (Para _) = []"
| "clicks (Field _ _) = []"
| "clicks (Secret _ _) = []"
| "clicks (Link _ _) = []"
| "clicks (Row _) = []"

definition clickable :: "'a ui list \<Rightarrow> 'a list" where
  "clickable els = concat (map clicks els)"

lemma clickable_simps [simp]:
  "clickable [] = []"
  "clickable (e # els) = clicks e @ clickable els"
  "clickable (xs @ ys) = clickable xs @ clickable ys"
  "clickable (if c then xs else ys) = (if c then clickable xs else clickable ys)"
  by (simp_all add: clickable_def)

end
