(* ===== verification/NoteManager.thy ===== *)
theory NoteManager
  imports WebWallet WebElements
begin

text \<open>
  The note manager of \<open>qietr-web/app/app/note\<close>: its state, what it shows in each state, the handlers
  with everything they do to the browser's storage, and the sessions a user can have on it by
  clicking what is shown.
\<close>

section \<open>State and handlers\<close>

datatype note_mode = NoteIdle | Creating | Restoring | Clearing | Loaded

record note_page =
  np_mode :: note_mode
  np_has_blob :: bool
  np_note :: "shielded_note option"
  np_error :: "string option"

definition open_note_page :: "browser \<Rightarrow> note_page" where
  "open_note_page b = \<lparr>np_mode = NoteIdle, np_has_blob = (load_encrypted_note b \<noteq> None), np_note = None, np_error = None\<rparr>"

datatype note_action =
    ChooseCreate | ChooseUnlock | ChooseRestore | ChooseClear | CancelForm | DismissError
  | SubmitCreate string string
  | SubmitUnlock string
  | SubmitBackup string
  | SubmitRestore string string
  | SubmitClear string

definition backup_name :: "string \<Rightarrow> string" where
  "backup_name stamp = ''qietr-note-'' @ map (\<lambda>c. if c = CHR '':'' \<or> c = CHR ''.'' then CHR ''-'' else c) stamp @ ''.qietr.note''"

definition create_note :: "web_env \<Rightarrow> string \<Rightarrow> note_page \<times> browser \<Rightarrow> note_page \<times> browser" where
  "create_note env pp = (\<lambda>(p, b).
     (case web_encrypt env empty_note pp of
        Inl e \<Rightarrow> (p\<lparr>np_error := Some (wb_note_text env e)\<rparr>, log_activity env Backup StatusError (Some (wb_note_text env e)) b)
      | Inr blob \<Rightarrow> (p\<lparr>np_error := None, np_has_blob := True, np_note := Some empty_note, np_mode := Loaded\<rparr>,
          log_activity env Backup StatusOk (Some ''new empty note saved'') (save_encrypted_note blob b))))"

definition unlock_note :: "web_env \<Rightarrow> string \<Rightarrow> note_page \<times> browser \<Rightarrow> (note_page \<times> browser) option" where
  "unlock_note env pp = (\<lambda>(p, b).
     (case truthy (load_encrypted_note b) of
        None \<Rightarrow> Some (p\<lparr>np_error := Some ''no encrypted note on this device''\<rparr>, b)
      | Some blob \<Rightarrow>
          (case decrypt_note (wb_crypto env) blob pp of
             Inl e \<Rightarrow> Some (p\<lparr>np_error := Some (wb_note_text env e)\<rparr>, b)
           | Inr obj \<Rightarrow> map_option (\<lambda>n. (p\<lparr>np_error := None, np_note := Some n\<rparr>, b)) (note_of_json obj))))"

definition back_up_note :: "web_env \<Rightarrow> string \<Rightarrow> shielded_note \<Rightarrow> note_page \<times> browser \<Rightarrow> note_page \<times> browser" where
  "back_up_note env pp n = (\<lambda>(p, b).
     (case web_encrypt env n pp of
        Inl e \<Rightarrow> (p\<lparr>np_error := Some (wb_note_text env e)\<rparr>, log_activity env Backup StatusError (Some (wb_note_text env e)) b)
      | Inr blob \<Rightarrow> (p\<lparr>np_error := None\<rparr>,
          log_activity env Backup StatusOk (Some ''downloaded'')
            (download_blob (backup_name (wb_stamp env)) blob (save_encrypted_note blob b)))))"

definition restore_backup :: "web_env \<Rightarrow> string \<Rightarrow> string \<Rightarrow> note_page \<times> browser \<Rightarrow> (note_page \<times> browser) option" where
  "restore_backup env text pp = (\<lambda>(p, b).
     (case decrypt_note (wb_crypto env) (js_trim text) pp of
        Inl e \<Rightarrow> Some (p\<lparr>np_error := Some (wb_note_text env e)\<rparr>, log_activity env Restore StatusError (Some (wb_note_text env e)) b)
      | Inr obj \<Rightarrow> map_option (\<lambda>n. (p\<lparr>np_error := None, np_has_blob := True, np_note := Some n, np_mode := Loaded\<rparr>,
          log_activity env Restore StatusOk (Some (nat_str 10 (length (nt_commitments n)) @ '' commitments''))
            (save_encrypted_note (js_trim text) b))) (note_of_json obj)))"

definition clear_note :: "web_env \<Rightarrow> note_page \<times> browser \<Rightarrow> note_page \<times> browser" where
  "clear_note env = (\<lambda>(p, b). (p\<lparr>np_has_blob := False, np_note := None, np_mode := NoteIdle\<rparr>,
     log_activity env Clear StatusOk None (clear_encrypted_note b)))"

fun note_action_effect :: "web_env \<Rightarrow> note_action \<Rightarrow> note_page \<times> browser \<Rightarrow> (note_page \<times> browser) option" where
  "note_action_effect env ChooseCreate (p, b) = Some (p\<lparr>np_mode := Creating, np_note := None, np_error := None\<rparr>, b)"
| "note_action_effect env ChooseUnlock (p, b) = Some (p\<lparr>np_mode := Loaded, np_note := None, np_error := None\<rparr>, b)"
| "note_action_effect env ChooseRestore (p, b) = Some (p\<lparr>np_mode := Restoring, np_error := None\<rparr>, b)"
| "note_action_effect env ChooseClear (p, b) = Some (p\<lparr>np_mode := Clearing, np_error := None\<rparr>, b)"
| "note_action_effect env CancelForm (p, b) = Some (p\<lparr>np_mode := NoteIdle\<rparr>, b)"
| "note_action_effect env DismissError (p, b) = Some (p\<lparr>np_error := None\<rparr>, b)"
| "note_action_effect env (SubmitCreate pp _) (p, b) = Some (create_note env pp (p, b))"
| "note_action_effect env (SubmitUnlock pp) (p, b) = unlock_note env pp (p, b)"
| "note_action_effect env (SubmitBackup pp) (p, b) = map_option (\<lambda>n. back_up_note env pp n (p, b)) (np_note p)"
| "note_action_effect env (SubmitRestore text pp) (p, b) = restore_backup env text pp (p, b)"
| "note_action_effect env (SubmitClear _) (p, b) = Some (clear_note env (p, b))"

section \<open>What the page shows\<close>

text \<open>The inputs of the form that is shown.\<close>

record note_fields =
  nf_passphrase :: string
  nf_confirm :: string
  nf_blob :: string
  nf_typed :: string

definition tier_counts :: "shielded_note \<Rightarrow> string" where
  "tier_counts n = join '', '' (map (\<lambda>id. nat_str 10 (default_to 0 (sm_by_tier (summarize_note n) id)) @ '' '' @ utf8_of 215
       @ '' tier '' @ int_str 10 id) (sort (remdups (map cm_denom_id (nt_commitments n)))))"

definition busy_label :: "bool \<Rightarrow> string \<Rightarrow> string \<Rightarrow> string" where
  "busy_label busy doing label = (if busy then doing @ ellipsis else label)"

definition summary_row :: "shielded_note option \<Rightarrow> bool \<Rightarrow> 'a ui list" where
  "summary_row loaded_note has_blob =
     (case loaded_note of
        Some n \<Rightarrow> (let s = summarize_note n in
          [Heading ''Loaded note'',
           Para (nat_str 10 (sm_commitment_count s) @ '' commitments. Total '' @ format_usdc (nat (sm_total_micro_usdc s)) @ ''.'')]
          @ (case truthy (Some (tier_counts n)) of None \<Rightarrow> [] | Some t \<Rightarrow> [Para t]))
      | None \<Rightarrow>
          if has_blob then [Heading ''Encrypted note on this device'', Para ''Enter your passphrase to decrypt and view the summary.'']
          else [Heading ''No note loaded'', Para ''Create a fresh note or restore one from a backup file.''])"

definition error_banner :: "string option \<Rightarrow> note_action ui list" where
  "error_banner e = (case truthy e of None \<Rightarrow> [] | Some m \<Rightarrow> [Para m, Button (utf8_of 215) False DismissError])"

definition note_chooser :: "bool \<Rightarrow> bool \<Rightarrow> note_action ui list" where
  "note_chooser busy has_blob =
     (if \<not> has_blob then [Button ''Create a new note'' busy ChooseCreate] else [])
     @ (if has_blob then [Button ''Unlock'' busy ChooseUnlock] else [])
     @ [Button ''Restore from backup'' busy ChooseRestore]
     @ (if has_blob then [Button ''Clear from this device'' busy ChooseClear] else [])"

definition form_actions :: "string \<Rightarrow> note_action \<Rightarrow> note_action option \<Rightarrow> bool \<Rightarrow> bool \<Rightarrow> note_action ui list" where
  "form_actions primary submit cancel disabled busy =
     Button (busy_label busy ''Working'' primary) disabled submit
       # (case cancel of None \<Rightarrow> [] | Some c \<Rightarrow> [Button ''Cancel'' busy c])"

definition create_note_form :: "bool \<Rightarrow> note_fields \<Rightarrow> note_action ui list" where
  "create_note_form busy f =
     (let pp = nf_passphrase f; pp2 = nf_confirm f; mismatch = 0 < length pp \<and> 0 < length pp2 \<and> pp \<noteq> pp2 in
      [Heading ''Create a new note'',
       Para (''Pick a passphrase. Argon2id derives the encryption key. Losing the passphrase means losing the note. ''
         @ ''There is no recovery path.''),
       Secret ''Passphrase'' pp, Secret ''Confirm passphrase'' pp2]
      @ (if mismatch then [Para ''Passphrases do not match.''] else [])
      @ form_actions ''Create'' (SubmitCreate pp pp2) (Some CancelForm) (busy \<or> length pp < 8 \<or> pp \<noteq> pp2) busy)"

definition unlock_form :: "bool \<Rightarrow> note_fields \<Rightarrow> note_action ui list" where
  "unlock_form busy f =
     [Heading ''Unlock note'', Secret ''Passphrase'' (nf_passphrase f)]
     @ form_actions ''Unlock'' (SubmitUnlock (nf_passphrase f)) (Some CancelForm) (busy \<or> length (nf_passphrase f) = 0) busy"

definition backup_panel :: "shielded_note \<Rightarrow> bool \<Rightarrow> note_fields \<Rightarrow> note_action ui list" where
  "backup_panel n busy f =
     [Heading ''Back up'',
      Para (''Encrypt the current in-memory note ('' @ nat_str 10 (length (nt_commitments n))
        @ '' commitments) with a passphrase and download it as a .qietr.note file.''),
      Secret ''Passphrase'' (nf_passphrase f)]
     @ form_actions ''Back up'' (SubmitBackup (nf_passphrase f)) None (busy \<or> length (nf_passphrase f) < 8) busy"

definition restore_form :: "bool \<Rightarrow> note_fields \<Rightarrow> note_action ui list" where
  "restore_form busy f =
     [Heading ''Restore from backup'', Para ''Paste the contents of your .qietr.note file below.'',
      Field [] (nf_blob f), Secret ''Passphrase'' (nf_passphrase f)]
     @ form_actions ''Restore'' (SubmitRestore (nf_blob f) (nf_passphrase f)) (Some CancelForm)
         (busy \<or> length (nf_blob f) = 0 \<or> length (nf_passphrase f) = 0) busy"

definition clear_form :: "bool \<Rightarrow> note_fields \<Rightarrow> note_action ui list" where
  "clear_form busy f =
     (let ready = (nf_typed f = ''CLEAR'') in
      [Heading ''Clear from this device'',
       Para (''This removes the encrypted blob from local storage. If you do not have an off-device backup, ''
         @ ''the funds tied to commitments in that note are unrecoverable.''),
       Para ''Type CLEAR to confirm.'', Field [] (nf_typed f)]
      @ form_actions ''Clear'' (SubmitClear (nf_typed f)) (Some CancelForm) (busy \<or> \<not> ready) busy)"

definition note_view :: "bool \<Rightarrow> note_fields \<Rightarrow> note_page \<Rightarrow> note_action ui list" where
  "note_view busy f p =
     summary_row (np_note p) (np_has_blob p) @ error_banner (np_error p) @ note_chooser busy (np_has_blob p)
     @ (if np_mode p = Creating then create_note_form busy f else [])
     @ (if np_mode p = Loaded \<and> np_has_blob p \<and> np_note p = None then unlock_form busy f else [])
     @ (if np_mode p = Loaded then (case np_note p of None \<Rightarrow> [] | Some n \<Rightarrow> backup_panel n busy f) else [])
     @ (if np_mode p = Restoring then restore_form busy f else [])
     @ (if np_mode p = Clearing then clear_form busy f else [])"

text \<open>
  A session on the page: clicks on enabled buttons, one after the other, with whatever has been typed
  into the inputs, each handler with its own surroundings. While a handler runs nothing else is
  started: everything is disabled but the dismissal of an error.
\<close>

inductive note_session :: "(web_env \<Rightarrow> bool) \<Rightarrow> browser \<Rightarrow> note_page \<times> browser \<Rightarrow> bool" for surroundings b0 where
  opened: "note_session surroundings b0 (open_note_page b0, b0)"
| acted: "note_session surroundings b0 (p, b) \<Longrightarrow> surroundings env \<Longrightarrow> a \<in> set (clickable (note_view False typed p))
    \<Longrightarrow> note_action_effect env a (p, b) = Some (p', b') \<Longrightarrow> note_session surroundings b0 (p', b')"

lemma summary_no_clicks [simp]: "clickable (summary_row n h) = []"
  by (simp add: summary_row_def Let_def split: option.split)

lemmas note_form_defs = error_banner_def note_chooser_def form_actions_def create_note_form_def unlock_form_def
  backup_panel_def restore_form_def clear_form_def

text \<open>The handlers of the page that run on a click find what they assume: a note to back up, a passphrase to use.\<close>

lemma backup_needs_note: "SubmitBackup pp \<in> set (clickable (note_view busy f p)) \<Longrightarrow> np_note p \<noteq> None \<and> 8 \<le> length pp"
  by (auto simp: note_view_def note_form_defs Let_def not_less split: option.splits if_splits)

lemma create_needs_passphrase:
  "SubmitCreate pp pp2 \<in> set (clickable (note_view busy f p)) \<Longrightarrow> pp = pp2 \<and> 8 \<le> length pp"
  by (auto simp: note_view_def note_form_defs Let_def not_less split: option.splits if_splits)

lemma busy_page_is_still: "a \<in> set (clickable (note_view True f p)) \<Longrightarrow> a = DismissError"
  by (auto simp: note_view_def note_form_defs Let_def split: option.splits if_splits)

section \<open>What the note manager keeps\<close>

definition note_page_ok :: "note_crypto \<Rightarrow> browser \<Rightarrow> note_page \<times> browser \<Rightarrow> bool" where
  "note_page_ok cr b0 = (\<lambda>(p, b).
     (np_has_blob p \<longleftrightarrow> load_encrypted_note b \<noteq> None)
     \<and> (\<forall>n. np_note p = Some n \<longrightarrow> (\<exists>blob pp. load_encrypted_note b = Some blob \<and> opens_to cr blob pp n))
     \<and> (\<forall>d \<in> set (br_downloads b). d \<in> set (br_downloads b0) \<or> (\<exists>pp n. opens_to cr (snd d) pp n)))"

lemma note_page_ok_open: "note_page_ok cr b0 (open_note_page b0, b0)"
  by (simp add: note_page_ok_def open_note_page_def)

lemma create_note_ok:
  assumes "web_ok cr env" "note_page_ok cr b0 (p, b)"
  shows "note_page_ok cr b0 (create_note env pp (p, b))"
proof -
  have "nt_version empty_note = note_version" by (simp add: empty_note_def)
  then obtain blob where "web_encrypt env empty_note pp = Inr blob" "opens_to cr blob pp empty_note"
    using web_encrypt_ok [OF assms(1)] by blast
  then show ?thesis using assms(2) by (auto simp: create_note_def note_page_ok_def)
qed

lemma unlock_note_ok:
  assumes "web_ok cr env" "note_page_ok cr b0 (p, b)" "unlock_note env pp (p, b) = Some s'"
  shows "note_page_ok cr b0 s'"
  using assms
  by (auto simp: unlock_note_def note_page_ok_def web_ok_def truthy_def split: option.splits sum.splits if_splits
      intro: opens_to_ex)

lemma back_up_note_ok:
  assumes "web_ok cr env" "note_page_ok cr b0 (p, b)" "np_note p = Some n"
  shows "note_page_ok cr b0 (back_up_note env pp n (p, b))"
proof -
  obtain blob0 pp0 where "opens_to cr blob0 pp0 n" using assms(2,3) by (auto simp: note_page_ok_def)
  then obtain blob where "web_encrypt env n pp = Inr blob" "opens_to cr blob pp n"
    using web_encrypt_ok [OF assms(1)] opens_version by blast
  then show ?thesis using assms(2,3) by (auto simp: back_up_note_def note_page_ok_def)
qed

lemma restore_backup_ok:
  assumes "web_ok cr env" "note_page_ok cr b0 (p, b)" "restore_backup env text pp (p, b) = Some s'"
  shows "note_page_ok cr b0 s'"
  using assms
  by (auto simp: restore_backup_def note_page_ok_def web_ok_def split: sum.splits intro: opens_to_ex)

lemma clear_note_ok: "note_page_ok cr b0 (p, b) \<Longrightarrow> note_page_ok cr b0 (clear_note env (p, b))"
  by (auto simp: clear_note_def note_page_ok_def)

lemma note_session_ok:
  assumes "note_session (web_ok cr) b0 s"
  shows "note_page_ok cr b0 s"
  using assms
proof induction
  case opened
  show ?case by (rule note_page_ok_open)
next
  case (acted p b env a typed p' b')
  note inv = acted.IH and w = acted.hyps(2) and eff = acted.hyps(4)
  show ?case
  proof (cases a)
    case (SubmitCreate pp pp2)
    then show ?thesis using create_note_ok [OF w inv] eff by (metis note_action_effect.simps(7) option.inject)
  next
    case (SubmitUnlock pp)
    then show ?thesis using unlock_note_ok [OF w inv] eff by simp
  next
    case (SubmitBackup pp)
    then obtain n where n: "np_note p = Some n" "back_up_note env pp n (p, b) = (p', b')" using eff by auto
    show ?thesis using back_up_note_ok [OF w inv n(1), of pp] n(2) by simp
  next
    case (SubmitRestore pasted pp)
    then show ?thesis using restore_backup_ok [OF w inv] eff by simp
  next
    case (SubmitClear typed)
    then show ?thesis using clear_note_ok [OF inv] eff by (metis note_action_effect.simps(11) option.inject)
  qed (use inv eff in \<open>auto simp: note_page_ok_def\<close>)
qed

text \<open>
  C30. The note manager never shows a note it has not stored: in every session on the page the note it
  shows is what the blob in the browser's storage opens to under some passphrase, the buttons agree
  with the storage on whether there is a blob, and every backup it has downloaded opens to a note.
\<close>

theorem note_page_shows_stored_note:
  assumes "note_session (web_ok cr) b0 (p, b)"
  shows "(np_has_blob p \<longleftrightarrow> load_encrypted_note b \<noteq> None)
     \<and> (\<forall>n. np_note p = Some n \<longrightarrow> (\<exists>blob pp. load_encrypted_note b = Some blob \<and> opens_to cr blob pp n))
     \<and> (\<forall>d \<in> set (br_downloads b). d \<in> set (br_downloads b0) \<or> (\<exists>pp n. opens_to cr (snd d) pp n))"
  using note_session_ok [OF assms] by (simp add: note_page_ok_def)

theorem note_page_shows_stored_note_witness:
  "\<exists>p b. note_session (web_ok plain_crypto) fresh_browser (p, b) \<and> np_note p = Some empty_note
     \<and> (\<exists>blob pp. load_encrypted_note b = Some blob \<and> opens_to plain_crypto blob pp empty_note)"
proof -
  let ?f = "\<lparr>nf_passphrase = ''password'', nf_confirm = ''password'', nf_blob = [], nf_typed = []\<rparr>"
  let ?p = "(open_note_page fresh_browser)\<lparr>np_mode := Creating, np_note := None, np_error := None\<rparr>"
  have "note_session (web_ok plain_crypto) fresh_browser (?p, fresh_browser)"
    using note_session.acted [of "web_ok plain_crypto" fresh_browser "open_note_page fresh_browser" fresh_browser demo_web_env
        ChooseCreate ?f ?p fresh_browser] note_session.opened [of "web_ok plain_crypto" fresh_browser] demo_web_ok
    by (simp add: open_note_page_def fresh_browser_def load_encrypted_note_def note_view_def note_form_defs)
  moreover have click: "SubmitCreate ''password'' ''password'' \<in> set (clickable (note_view False ?f ?p))"
    by (simp add: note_view_def create_note_form_def form_actions_def Let_def)
  moreover obtain p b where s: "create_note demo_web_env ''password'' (?p, fresh_browser) = (p, b)" by fastforce
  ultimately have run: "note_session (web_ok plain_crypto) fresh_browser (p, b)"
    using note_session.acted [of "web_ok plain_crypto" fresh_browser ?p fresh_browser demo_web_env _ ?f p b, OF _ demo_web_ok click]
    by simp
  have "nt_version empty_note = note_version" by (simp add: empty_note_def)
  then obtain blob where "web_encrypt demo_web_env empty_note ''password'' = Inr blob"
    using web_encrypt_ok [OF demo_web_ok] by blast
  then have "np_note p = Some empty_note" using s by (auto simp: create_note_def)
  with note_page_shows_stored_note [OF run] run show ?thesis by blast
qed

end
