(* ===== verification/WebViews.thy ===== *)
theory WebViews
  imports WebPages NoteManager
begin

text \<open>
  What the pages of \<open>qietr-web/app/app\<close> show, and so what can be clicked on them: the payment, deposit,
  escrow, messaging and activity pages, the balance card and the one-time connect prompt.
  A page is the list of its elements in their order, with the texts of the code; styling and placeholders are
  left out. A click on an enabled button is the action of the page's state machine. Dates and numbers that
  the browser formats for the locale are functions of the surroundings.
\<close>

section \<open>Shared elements\<close>

definition short_signature :: "string \<Rightarrow> string" where
  "short_signature sig = take 8 sig @ ellipsis @ slice_end 8 sig"

definition arrow :: string where
  "arrow = '' '' @ utf8_of 8599"

definition problem_view :: "page_status \<Rightarrow> 'a ui list" where
  "problem_view s = (case s of Problem m \<Rightarrow> [Para m] | _ \<Rightarrow> [])"

definition tx_view :: "string option \<Rightarrow> string \<Rightarrow> string \<Rightarrow> 'a ui list" where
  "tx_view cl intro sig = [Para intro, Link (short_signature sig @ arrow) (explorer_tx_url cl sig)]"

lemma no_clicks_status [simp]: "clickable (problem_view s) = []" "clickable (tx_view cl intro sig) = []"
  by (simp_all add: problem_view_def tx_view_def split: page_status.split)

section \<open>PayForms.tsx\<close>

datatype pay_tab = DirectTab | X402Tab

datatype pay_action = ChoosePayTab pay_tab | PressPay | PressFetch

record pay_form =
  pf_recipient :: string
  pf_amount :: string
  pf_passphrase :: string
  pf_status :: page_status

record fetch_form =
  ff_url :: string
  ff_max_spend :: string
  ff_passphrase :: string
  ff_status :: page_status
  ff_response :: "string option"

definition open_pay_form :: pay_form where
  "open_pay_form = \<lparr>pf_recipient = [], pf_amount = [], pf_passphrase = [], pf_status = Idle\<rparr>"

definition open_fetch_form :: fetch_form where
  "open_fetch_form = \<lparr>ff_url = [], ff_max_spend = ''1'', ff_passphrase = [], ff_status = Idle, ff_response = None\<rparr>"

definition in_progress :: "page_status \<Rightarrow> bool" where
  "in_progress s \<longleftrightarrow> s = Submitting \<or> s = Unlocking"

definition progress_label :: "page_status \<Rightarrow> string \<Rightarrow> string \<Rightarrow> string" where
  "progress_label s submitting label =
     (case s of Submitting \<Rightarrow> submitting @ ellipsis | Unlocking \<Rightarrow> ''Unlocking note'' @ ellipsis | _ \<Rightarrow> label)"

text \<open>\<open>StatusLine\<close>: a success without a signature is "Done.".\<close>

definition pay_status_view :: "string option \<Rightarrow> page_status \<Rightarrow> 'a ui list" where
  "pay_status_view cl s =
     (case s of
        Success sig \<Rightarrow> if sig = [] then [Para ''Done.''] else tx_view cl ''Withdraw submitted. Verify on-chain: '' sig
      | _ \<Rightarrow> problem_view s)"

definition direct_view :: "string option \<Rightarrow> bool \<Rightarrow> pay_form \<Rightarrow> pay_action ui list" where
  "direct_view cl connected f =
     [Field ''Recipient (Solana address)'' (pf_recipient f), Field ''Amount (USDC)'' (pf_amount f),
      Secret ''Note passphrase'' (pf_passphrase f),
      Para (''The note stays encrypted on this device. The passphrase only leaves memory long enough to decrypt ''
        @ ''and re-encrypt the post-payment note.''),
      Button (progress_label (pf_status f) ''Submitting'' ''Send privately'')
        (\<not> connected \<or> pf_status f = Submitting \<or> pf_status f = Unlocking) PressPay]
     @ pay_status_view cl (pf_status f)"

definition x402_view :: "string option \<Rightarrow> bool \<Rightarrow> fetch_form \<Rightarrow> pay_action ui list" where
  "x402_view cl connected f =
     [Field ''x402 endpoint URL'' (ff_url f), Field ''Max spend (USDC)'' (ff_max_spend f),
      Secret ''Note passphrase'' (ff_passphrase f),
      Para (''The endpoint can charge at most your max spend '' @ em_dash @ '' we refuse any 402 asking for more. ''
        @ ''We call the URL, parse the 402 Payment Required response, match a denomination from your note, and ''
        @ ''resubmit with an X-PAYMENT header signed by a one-time burner pubkey.''),
      Button (progress_label (ff_status f) ''Paying'' ''Pay and retry'')
        (\<not> connected \<or> ff_status f = Submitting \<or> ff_status f = Unlocking) PressFetch]
     @ pay_status_view cl (ff_status f)
     @ (case ff_response f of None \<Rightarrow> [] | Some body \<Rightarrow> [Para body])"

definition pay_view :: "string option \<Rightarrow> bool \<Rightarrow> pay_tab \<Rightarrow> pay_form \<Rightarrow> fetch_form \<Rightarrow> pay_action ui list" where
  "pay_view cl connected tab d x =
     [Button ''Direct payment'' False (ChoosePayTab DirectTab), Button ''x402 endpoint'' False (ChoosePayTab X402Tab)]
     @ (case tab of DirectTab \<Rightarrow> direct_view cl connected d | X402Tab \<Rightarrow> x402_view cl connected x)"

lemma pay_status_no_clicks [simp]: "clickable (pay_status_view cl s) = []"
  by (simp add: pay_status_view_def split: page_status.split)

text \<open>A payment can only be started with a wallet and while none is in progress.\<close>

lemma pay_clicks:
  "PressPay \<in> set (clickable (pay_view cl connected tab d x)) \<longleftrightarrow> tab = DirectTab \<and> connected \<and> \<not> in_progress (pf_status d)"
  "PressFetch \<in> set (clickable (pay_view cl connected tab d x)) \<longleftrightarrow> tab = X402Tab \<and> connected \<and> \<not> in_progress (ff_status x)"
  by (auto simp: pay_view_def direct_view_def x402_view_def in_progress_def split: pay_tab.split option.split)

section \<open>EscrowManager.tsx\<close>

datatype escrow_action = PressCreate | PressBalance | PressRefresh | PressJob job_row string

definition tx_status_view :: "string option \<Rightarrow> page_status \<Rightarrow> 'a ui list" where
  "tx_status_view cl s = (case s of Success sig \<Rightarrow> tx_view cl ''Tx submitted. '' sig | _ \<Rightarrow> problem_view s)"

lemma tx_status_no_clicks [simp]: "clickable (tx_status_view cl s) = []"
  by (simp add: tx_status_view_def split: page_status.split)

definition create_view :: "string option \<Rightarrow> bool \<Rightarrow> create_form \<Rightarrow> escrow_action ui list" where
  "create_view cl connected f =
     [Field ''Agent (Solana address)'' (cf_agent f), Field ''Amount (USDC)'' (cf_amount f),
      Para ''USDC is transferred from your wallet into the escrow vault on creation.'',
      Button (busy_label (cf_status f = Submitting) ''Creating'' ''Create escrow'') (\<not> connected \<or> cf_status f = Submitting) PressCreate,
      Button ''Check balance'' (\<not> connected) PressBalance]
     @ (case cf_balance f of None \<Rightarrow> [] | Some b \<Rightarrow> [Para b])
     @ tx_status_view cl (cf_status f)"

text \<open>\<open>STATE_LABELS[job.state]\<close>: a state byte that is none of the six has no label.\<close>

definition state_text :: "byte \<Rightarrow> string" where
  "state_text code = (case List.find (\<lambda>s. job_state_code s = code) [Created, Accepted, Completed, Released, Disputed, Refunded] of
     None \<Rightarrow> [] | Some s \<Rightarrow> state_label s)"

definition job_card :: "app_env \<Rightarrow> wallet_snapshot \<Rightarrow> page_status \<Rightarrow> job_row \<Rightarrow> escrow_action ui list" where
  "job_card app ws st row =
     (let j = jr_job row in
      [Para (state_text (pj_state j)), Para (take 8 (jr_pda row) @ ellipsis @ slice_end 8 (jr_pda row)),
       Row [''Client'', short_key (pj_client j)], Row [''Agent'', short_key (pj_agent j)],
       Row [''Amount'', micro_to_usdc (int (pj_price_micro j)) @ '' USDC'']]
      @ map (\<lambda>(label, action). Button label (st = Submitting) (PressJob row action)) (available_actions app (ws_address ws) j))"

definition browse_view :: "app_env \<Rightarrow> string option \<Rightarrow> wallet_snapshot \<Rightarrow> browse_page \<Rightarrow> escrow_action ui list" where
  "browse_view app cl ws p =
     (if \<not> ws_connected ws then [Para ''Connect your wallet to view your jobs.'']
      else [Button (busy_label (bp_loading p) ''Refreshing'' ''Refresh'') (bp_loading p) PressRefresh]
        @ (if bp_loading p then [Para (''Loading jobs'' @ ellipsis)]
           else case truthy (bp_error p) of
             Some e \<Rightarrow> [Para e]
           | None \<Rightarrow> if bp_jobs p = [] then [Para ''No escrow jobs found for your wallet.'']
                     else concat (map (job_card app ws (bp_status p)) (bp_jobs p)))
        @ tx_status_view cl (bp_status p))"

lemma clickable_concat: "clickable (concat xss) = concat (map clickable xss)"
  by (induction xss) simp_all

lemma clickable_buttons: "set (clickable (map (\<lambda>(l, a). Button l d (f a)) xs)) = (if d then {} else f ` snd ` set xs)"
  by (induction xs) auto

lemma card_clicks [simp]:
  "PressJob row action \<in> set (clickable (job_card app ws st x)) \<longleftrightarrow>
     st \<noteq> Submitting \<and> x = row \<and> action \<in> snd ` set (available_actions app (ws_address ws) (jr_job x))"
  by (auto simp: job_card_def Let_def clickable_buttons)

text \<open>The buttons of the job list are the actions the page offers on the jobs it shows.\<close>

lemma job_clicks:
  "PressJob row action \<in> set (clickable (browse_view app cl ws p)) \<longleftrightarrow>
     ws_connected ws \<and> \<not> bp_loading p \<and> truthy (bp_error p) = None \<and> bp_status p \<noteq> Submitting
     \<and> row \<in> set (bp_jobs p) \<and> action \<in> snd ` set (available_actions app (ws_address ws) (jr_job row))"
  by (auto simp: browse_view_def clickable_concat split: option.split)

section \<open>MessagingManager.tsx\<close>

datatype msg_action = PressSend | PressRefreshInbox | PressDecrypt encrypted_message | PressDelete encrypted_message

definition msg_status_view :: "string option \<Rightarrow> page_status \<Rightarrow> 'a ui list" where
  "msg_status_view cl s =
     (case s of
        Success sig \<Rightarrow> if sig = [] then [Para ''Done.''] else tx_view cl ''Tx submitted. '' sig
      | _ \<Rightarrow> problem_view s)"

lemma msg_status_no_clicks [simp]: "clickable (msg_status_view cl s) = []"
  by (simp add: msg_status_view_def split: page_status.split)

definition send_view :: "string option \<Rightarrow> bool \<Rightarrow> send_form \<Rightarrow> msg_action ui list" where
  "send_view cl connected f =
     [Field ''Recipient (Solana address)'' (sf_recipient f), Secret ''Encryption passphrase'' (sf_passphrase f),
      Field ''Message body'' (sf_body f), Para ''Encrypted with Argon2id + AES-256-GCM before sending. Max 1024 bytes.'',
      Button (busy_label (sf_status f = Submitting) ''Sending'' ''Send encrypted'') (\<not> connected \<or> sf_status f = Submitting) PressSend]
     @ msg_status_view cl (sf_status f)"

definition message_card :: "(int \<Rightarrow> string) \<Rightarrow> inbox_page \<Rightarrow> encrypted_message \<Rightarrow> msg_action ui list" where
  "message_card locale_date p m =
     (let plain = truthy (ip_decrypted p (em_pda m)) in
      [Para (''From: '' @ short_key (em_from m)), Para (locale_date (em_timestamp m * 1000)),
       Para (case plain of Some t \<Rightarrow> t | None \<Rightarrow> ''Encrypted '' @ em_dash @ '' enter passphrase above and click decrypt.'')]
      @ (if plain = None then [Button ''Decrypt'' False (PressDecrypt m)] else [])
      @ [Button ''Delete'' False (PressDelete m)])"

definition inbox_view :: "(int \<Rightarrow> string) \<Rightarrow> string option \<Rightarrow> wallet_snapshot \<Rightarrow> string \<Rightarrow> inbox_page \<Rightarrow> msg_action ui list" where
  "inbox_view locale_date cl ws passphrase p =
     (if \<not> ws_connected ws then [Para ''Connect your wallet to view your inbox.'']
      else [Secret ''Decryption passphrase'' passphrase,
            Button (busy_label (ip_loading p) ''Refreshing'' ''Refresh'') (ip_loading p) PressRefreshInbox]
        @ (if ip_loading p then [Para (''Loading inbox'' @ ellipsis)]
           else case truthy (ip_error p) of
             Some e \<Rightarrow> [Para e]
           | None \<Rightarrow> if ip_messages p = [] then [Para ''No messages found for your wallet.'']
                     else concat (map (message_card locale_date p) (ip_messages p)))
        @ msg_status_view cl (ip_status p))"

lemma message_clicks:
  "PressDecrypt m \<in> set (clickable (inbox_view d cl ws pp p)) \<longleftrightarrow>
     ws_connected ws \<and> \<not> ip_loading p \<and> truthy (ip_error p) = None \<and> m \<in> set (ip_messages p) \<and> truthy (ip_decrypted p (em_pda m)) = None"
  "PressDelete m \<in> set (clickable (inbox_view d cl ws pp p)) \<longleftrightarrow>
     ws_connected ws \<and> \<not> ip_loading p \<and> truthy (ip_error p) = None \<and> m \<in> set (ip_messages p)"
  by (auto simp: inbox_view_def message_card_def Let_def clickable_concat split: option.split)

section \<open>TierPicker.tsx\<close>

datatype deposit_action = ChooseTier nat | PressDeposit

text \<open>\<open>tier.amount * 1_000_000\<close> is a whole number for each of the four tiers, so rounding it changes nothing.\<close>

definition deposit_label :: "tier_option \<Rightarrow> string" where
  "deposit_label t = ''Deposit '' @ format_usdc (nat (default_to 0 (usdc_to_micro (to_amount t))))"

definition deposit_view :: "string option \<Rightarrow> wallet_snapshot \<Rightarrow> nat \<Rightarrow> page_status \<Rightarrow> deposit_action ui list" where
  "deposit_view cl ws selected st =
     (let tier = tier_options ! selected in
      map (\<lambda>t. Button (to_label t) False (ChooseTier (to_denom_id t))) tier_options
      @ [Row [''Selected tier'', to_label tier],
         Row [''Wallet'', if ws_connected ws then short_key (default_to ''undefined'' (ws_address ws)) else ''Not connected''],
         Row [''Protocol fee'', ''Configured on-chain via PoolConfig.fee_bps.''],
         Button (if st = Submitting then ''Submitting'' @ ellipsis else deposit_label tier)
           (\<not> ws_connected ws \<or> st = Submitting) PressDeposit]
      @ (case st of Success sig \<Rightarrow> tx_view cl ''Deposit submitted. Verify on-chain: '' sig | _ \<Rightarrow> [])
      @ problem_view st)"

text \<open>Whatever is clicked, the selection stays one of the tiers: the index is also the denomination.\<close>

lemma tier_clicks:
  "ChooseTier i \<in> set (clickable (deposit_view cl ws selected st)) \<longleftrightarrow>
     i < length tier_options \<and> to_denom_id (tier_options ! i) = i"
  "PressDeposit \<in> set (clickable (deposit_view cl ws selected st)) \<longleftrightarrow> ws_connected ws \<and> st \<noteq> Submitting"
proof -
  have 1: "clickable (map (\<lambda>t. Button (to_label t) False (ChooseTier (to_denom_id t))) tier_options) = map ChooseTier [0, 1, 2, 3]"
    by (simp add: tier_options_def)
  have 2: "i < 4 \<longleftrightarrow> i \<in> set [0, 1, 2, 3 :: nat]" for i by auto
  have 3: "i < length tier_options \<and> to_denom_id (tier_options ! i) = i \<longleftrightarrow> i \<in> set [0, 1, 2, 3]"
    unfolding 2 [symmetric] by (auto simp: tier_options_def less_Suc_eq numeral_eq_Suc)
  show "ChooseTier i \<in> set (clickable (deposit_view cl ws selected st)) \<longleftrightarrow>
     i < length tier_options \<and> to_denom_id (tier_options ! i) = i"
    unfolding 3 by (auto simp: deposit_view_def Let_def 1 split: page_status.split)
  show "PressDeposit \<in> set (clickable (deposit_view cl ws selected st)) \<longleftrightarrow> ws_connected ws \<and> st \<noteq> Submitting"
    by (auto simp: deposit_view_def Let_def 1 split: page_status.split)
qed

section \<open>WalletBalance.tsx\<close>

definition balance_view :: "(js_float \<Rightarrow> string) \<Rightarrow> bool \<Rightarrow> balance_state \<Rightarrow> unit ui list" where
  "balance_view locale_number connected st =
     [Heading ''Wallet balance'',
      Button (case st of BalanceLoading \<Rightarrow> ''Checking'' @ ellipsis | BalanceLoaded _ _ \<Rightarrow> ''Refresh'' | _ \<Rightarrow> ''Check balance'')
        (\<not> connected \<or> st = BalanceLoading) ()]
     @ (if \<not> connected then [Para ''Connect a wallet to view its balance.''] else [])
     @ (case st of
          BalanceLoaded sol usdc \<Rightarrow> [Row [''USDC'', locale_number usdc @ '' USDC''], Row [''SOL'', locale_number sol @ '' SOL'']]
        | BalanceProblem m \<Rightarrow> [Para m]
        | _ \<Rightarrow> [])"

section \<open>ActivityList.tsx\<close>

text \<open>Entries as \<open>appendActivity\<close> writes them; \<open>local_parts\<close> are year, month from 0, day, hours and minutes.\<close>

definition format_timestamp :: "(int \<Rightarrow> nat \<times> nat \<times> nat \<times> nat \<times> nat) \<Rightarrow> int \<Rightarrow> string" where
  "format_timestamp local_parts ts =
     (case local_parts ts of (y, mo, d, h, mi) \<Rightarrow>
        let pad = (\<lambda>n. pad_start 2 (CHR ''0'') (nat_str 10 n)) in
        nat_str 10 y @ ''-'' @ pad (mo + 1) @ ''-'' @ pad d @ '' '' @ pad h @ '':'' @ pad mi)"

definition activity_row :: "(int \<Rightarrow> nat \<times> nat \<times> nat \<times> nat \<times> nat) \<Rightarrow> json \<Rightarrow> 'a ui" where
  "activity_row local_parts e =
     Row [format_timestamp local_parts (default_to 0 (json_int (json_get ''timestamp'' e))),
          default_to [] (json_str (json_get ''type'' e)), default_to [] (json_str (json_get ''status'' e)),
          default_to em_dash (json_str (json_get ''detail'' e))]"

definition activity_page :: "(int \<Rightarrow> nat \<times> nat \<times> nat \<times> nat \<times> nat) \<Rightarrow> activity_view \<Rightarrow> activity_action ui list" where
  "activity_page local_parts v =
     (if av_entries v = [] then
        [Para (''No activity yet. Backup, restore, and clear actions from the note manager are recorded here.'')]
      else (if av_confirming v then [Button ''Confirm clear'' False ConfirmClear, Button ''Cancel'' False CancelClear]
            else [Button ''Clear activity log'' False AskClear])
        @ Row [''When'', ''Type'', ''Status'', ''Detail''] # map (activity_row local_parts) (av_entries v))"

lemma activity_rows_no_clicks [simp]: "clickable (map (activity_row lp) es) = []"
  by (induction es) (simp_all add: activity_row_def)

text \<open>The log is only cleared after a confirmation, and then the page shows that it is empty.\<close>

lemma clear_needs_confirmation:
  "ConfirmClear \<in> set (clickable (activity_page lp v)) \<Longrightarrow> av_confirming v"
  "ConfirmClear \<notin> set (clickable (activity_page lp (open_activity b)))"
  by (auto simp: activity_page_def open_activity_def split: if_splits)

section \<open>AppConnectPrompt.tsx\<close>

text \<open>
  The effect that opens the wallet dialog once: the session flag survives a reload of the page, the
  reference does not.
\<close>

record prompt_state =
  pm_fired :: bool
  pm_prompted :: bool
  pm_visible :: bool
  pm_opened :: nat

definition connect_prompt :: "bool \<Rightarrow> bool \<Rightarrow> prompt_state \<Rightarrow> prompt_state" where
  "connect_prompt wallet_known remembered s =
     (if pm_fired s then s
      else if wallet_known then s
      else if pm_prompted s then s
      else if remembered then s\<lparr>pm_prompted := True\<rparr>
      else let s = s\<lparr>pm_fired := True, pm_prompted := True\<rparr> in
           if \<not> pm_visible s then s\<lparr>pm_visible := True, pm_opened := pm_opened s + 1\<rparr> else s)"

definition reload_page :: "prompt_state \<Rightarrow> prompt_state" where
  "reload_page s = s\<lparr>pm_fired := False, pm_visible := False\<rparr>"

definition close_dialog :: "prompt_state \<Rightarrow> prompt_state" where
  "close_dialog s = s\<lparr>pm_visible := False\<rparr>"

inductive prompt_run :: "prompt_state \<Rightarrow> bool" where
  started: "prompt_run \<lparr>pm_fired = False, pm_prompted = False, pm_visible = False, pm_opened = 0\<rparr>"
| effect: "prompt_run s \<Longrightarrow> prompt_run (connect_prompt wallet_known remembered s)"
| reload: "prompt_run s \<Longrightarrow> prompt_run (reload_page s)"
| close: "prompt_run s \<Longrightarrow> prompt_run (close_dialog s)"

lemma prompt_at_most_once: "prompt_run s \<Longrightarrow> pm_opened s \<le> (if pm_prompted s then 1 else 0)"
  by (induction rule: prompt_run.induct) (auto simp: connect_prompt_def reload_page_def close_dialog_def Let_def)

section \<open>Small components\<close>

text \<open>\<open>AppOnlyConnectButton\<close>: the wallet button stands on the pages of the app only.\<close>

definition shows_connect_button :: "string option \<Rightarrow> bool" where
  "shows_connect_button pathname =
     (case pathname of None \<Rightarrow> False | Some path \<Rightarrow> path = ''/app'' \<or> starts_with ''/app/'' path)"

text \<open>\<open>WalletAdapterProvider\<close>: the node of the pages; \<open>clusterApiUrl\<close> of the library is an argument.\<close>

definition endpoint_for :: "(cluster \<Rightarrow> string) \<Rightarrow> string option \<Rightarrow> cluster \<Rightarrow> string" where
  "endpoint_for cluster_api_url rpc_url cl =
     (case truthy rpc_url of
        Some url \<Rightarrow> url
      | None \<Rightarrow> if cl = Localnet then ''http://127.0.0.1:8899'' else cluster_api_url cl)"

definition configured_banner :: "sdk option \<Rightarrow> 'b \<Rightarrow> 'b \<Rightarrow> 'b" where
  "configured_banner sdk configured unconfigured = (case sdk of Some _ \<Rightarrow> configured | None \<Rightarrow> unconfigured)"

definition deposit_banner :: "sdk option \<Rightarrow> string" where
  "deposit_banner sdk =
     (case sdk of
        Some _ \<Rightarrow> ''Connected to Solana devnet with a configured indexer and prover '' @ em_dash
          @ '' deposits submit for real and the proof is generated in your browser. Not audited; uses a dev proving key. ''
          @ ''Use throwaway devnet USDC only '' @ em_dash @ '' never real funds.''
      | None \<Rightarrow> ''The pool program is live on Solana devnet. This build has no indexer/prover configured, so it cannot ''
          @ ''submit a real deposit '' @ em_dash @ '' set the env and rebuild, or use the SDK directly. Devnet only; not audited.'')"

text \<open>\<open>FaucetCallout\<close>: hidden on mainnet; its button copies the mint, if the clipboard lets it.\<close>

definition faucet_shown :: "string option \<Rightarrow> bool" where
  "faucet_shown cluster_var \<longleftrightarrow> cluster_env cluster_var \<noteq> ''mainnet'' \<and> cluster_env cluster_var \<noteq> ''mainnet-beta''"

definition copy_mint :: "(pubkey \<Rightarrow> string) \<Rightarrow> bool \<Rightarrow> bool \<times> string option \<Rightarrow> bool \<times> string option" where
  "copy_mint b58 clipboard_ok = (\<lambda>(copied, clipboard).
     if clipboard_ok then (True, Some (b58 usdc_mint_devnet)) else (copied, clipboard))"

text \<open>The faucets are offered exactly where the pages do not read mainnet.\<close>

lemma faucet_shown_iff: "faucet_shown v \<longleftrightarrow> read_cluster v \<noteq> MainnetBeta"
  by (auto simp: faucet_shown_def read_cluster_def Let_def)

end
