(* ===== verification/Attestor.thy ===== *)
theory Attestor
  imports PoolDecode SdkChain Base64 Json
begin

text \<open>
  The cross-chain attestor, \<open>qietr-attestor/src\<close>: a watcher that polls the pool's nullifier accounts and
  a relayer that posts each one as a VAA to a Wormhole endpoint. The answers of the RPC node and of the
  endpoint are arguments.
\<close>

section \<open>chain.ts\<close>

text \<open>The attestor has its own table of chain identifiers, and its inverse.\<close>

definition chain_eid_map :: "(chain_id \<times> nat) list" where
  "chain_eid_map = [(Solana, 1), (Base, 2), (Polygon, 3), (Ethereum, 4)]"

definition chain_names :: "nat \<rightharpoonup> chain_id" where
  "chain_names = [1 \<mapsto> Solana, 2 \<mapsto> Base, 3 \<mapsto> Polygon, 4 \<mapsto> Ethereum]"

definition attestor_chain_eid :: "chain_id \<Rightarrow> nat option" where
  "attestor_chain_eid = map_of chain_eid_map"

definition chain_from_eid :: "nat \<Rightarrow> chain_id option" where
  "chain_from_eid = chain_names"

fun chain_text :: "chain_id \<Rightarrow> string" where
  "chain_text Solana = ''solana''"
| "chain_text Base = ''base''"
| "chain_text Polygon = ''polygon''"
| "chain_text Ethereum = ''ethereum''"

definition format_chain_pair :: "chain_id \<Rightarrow> chain_id \<Rightarrow> string" where
  "format_chain_pair origin target = chain_text origin @ utf8_of 0x2192 @ chain_text target"

lemma attestor_eids: "attestor_chain_eid c = Some (get_chain_eid c)" "chain_from_eid (get_chain_eid c) = Some c"
  by (cases c; simp add: attestor_chain_eid_def chain_eid_map_def chain_from_eid_def chain_names_def)+

lemma chain_from_eid_iff: "chain_from_eid n = Some c \<longleftrightarrow> get_chain_eid c = n"
  by (cases c) (auto simp: chain_from_eid_def chain_names_def)

section \<open>relayer.ts\<close>

record vaa_payload =
  vp_version :: nat
  vp_timestamp :: nat
  vp_origin :: chain_id
  vp_emitter :: string
  vp_sequence :: nat
  vp_payload :: bytes

record vaa_relayer_config =
  vc_rpc_url :: string
  vc_emitter :: string
  vc_target :: chain_id
  vc_max_batch :: nat

definition vaa_hex_bytes :: "string \<Rightarrow> bytes" where
  "vaa_hex_bytes hex =
     (let clean = (if starts_with ''0x'' hex then drop 2 hex else hex)
      in hex_to_bytes (length clean div 2) clean)"

text \<open>The header's fields at their offsets, then the payload; \<open>None\<close> would be a \<open>RangeError\<close>.\<close>

definition serialize_vaa :: "vaa_payload \<Rightarrow> bytes option" where
  "serialize_vaa p =
     (case put_all [(0, [word_of_nat (vp_version p)]), (1, be_bytes 4 (vp_timestamp p)),
                    (5, be_bytes 4 (get_chain_eid (vp_origin p))), (9, take 32 (vaa_hex_bytes (vp_emitter p))),
                    (41, be_bytes 8 (vp_sequence p))] (zeros (1 + 4 + 4 + 32 + 8)) of
        None \<Rightarrow> None
      | Some header \<Rightarrow> put_all [(0, header), (length header, vp_payload p)] (zeros (length header + length (vp_payload p))))"

definition vaa_payload_bytes :: "int \<Rightarrow> string \<Rightarrow> bytes option" where
  "vaa_payload_bytes denom_id hash = put_all [(0, [to_u8 denom_id]), (1, take 32 (vaa_hex_bytes hash))] (zeros (1 + 32))"

definition build_vaa :: "vaa_relayer_config \<Rightarrow> nat \<Rightarrow> nat \<Rightarrow> string \<Rightarrow> int \<Rightarrow> chain_id \<Rightarrow> bytes option" where
  "build_vaa cfg now_ms seq hash denom_id origin =
     (case vaa_payload_bytes denom_id hash of
        None \<Rightarrow> None
      | Some payload \<Rightarrow> serialize_vaa \<lparr>vp_version = 1, vp_timestamp = now_ms div 1000, vp_origin = origin,
          vp_emitter = vc_emitter cfg, vp_sequence = seq, vp_payload = payload\<rparr>)"

definition vaa_request :: "vaa_relayer_config \<Rightarrow> bytes \<Rightarrow> string \<times> string" where
  "vaa_request cfg vaa = (vc_rpc_url cfg @ ''/v1/vaa'',
     json_print (JObj [(''vaa'', JStr (b64_encode vaa)), (''targetChain'', JNum (nat_str 10 (get_chain_eid (vc_target cfg))))]))"

datatype vaa_error = VaaRange | VaaNetwork | VaaRefused nat string | VaaNotJson

record vaa_reply =
  vr_status :: nat
  vr_text :: string

text \<open>What \<open>relayNullifier\<close> makes of the endpoint's answer (\<open>None\<close> where \<open>fetch\<close> throws).\<close>

definition vaa_digest :: "bytes \<Rightarrow> vaa_reply option \<Rightarrow> vaa_error + string" where
  "vaa_digest vaa reply =
     (case reply of
        None \<Rightarrow> Inl VaaNetwork
      | Some r \<Rightarrow>
          if \<not> (200 \<le> vr_status r \<and> vr_status r < 300) then Inl (VaaRefused (vr_status r) (vr_text r))
          else bindE (optE VaaNotJson (json_parse (vr_text r))) (\<lambda>j.
               if j = JNull then Inl VaaNotJson
               else Inr (case json_get ''digest'' j of Some (JStr d) \<Rightarrow> d | _ \<Rightarrow> b64_encode vaa)))"

text \<open>One relay: the sequence number is taken before the request is sent, whatever becomes of it.\<close>

definition relay_nullifier ::
    "vaa_relayer_config \<Rightarrow> (string \<times> string \<Rightarrow> vaa_reply option) \<Rightarrow> nat \<Rightarrow> nat \<Rightarrow> string \<Rightarrow> int \<Rightarrow> chain_id
      \<Rightarrow> (vaa_error + string) \<times> nat" where
  "relay_nullifier cfg post now_ms seq hash denom_id origin =
     (case build_vaa cfg now_ms seq hash denom_id origin of
        None \<Rightarrow> (Inl VaaRange, Suc seq)
      | Some vaa \<Rightarrow> (vaa_digest vaa (post (vaa_request cfg vaa)), Suc seq))"

text \<open>\<open>relayBatch\<close>: slices of \<open>maxBatchSize\<close>, each relayed one after the other; the first failure ends it.\<close>

fun relay_slice ::
    "vaa_relayer_config \<Rightarrow> (string \<times> string \<Rightarrow> vaa_reply option) \<Rightarrow> nat \<Rightarrow> chain_id \<Rightarrow> (string \<times> int) list
      \<Rightarrow> nat \<Rightarrow> string list \<Rightarrow> (vaa_error + string list) \<times> nat" where
  "relay_slice cfg post now_ms origin [] seq ds = (Inr ds, seq)"
| "relay_slice cfg post now_ms origin ((hash, denom_id) # ns) seq ds =
     (case relay_nullifier cfg post now_ms seq hash denom_id origin of
        (Inl e, seq') \<Rightarrow> (Inl e, seq')
      | (Inr d, seq') \<Rightarrow> relay_slice cfg post now_ms origin ns seq' (ds @ [d]))"

text \<open>A batch size of 0 makes the loop of \<open>relayBatch\<close> run for ever on a list that is not empty: \<open>None\<close>.\<close>

function relay_batches ::
    "vaa_relayer_config \<Rightarrow> (string \<times> string \<Rightarrow> vaa_reply option) \<Rightarrow> nat \<Rightarrow> chain_id \<Rightarrow> (string \<times> int) list
      \<Rightarrow> nat \<Rightarrow> string list \<Rightarrow> ((vaa_error + string list) \<times> nat) option" where
  "relay_batches cfg post now_ms origin ns seq ds =
     (if ns = [] then Some (Inr ds, seq)
      else if vc_max_batch cfg = 0 then None
      else (case relay_slice cfg post now_ms origin (take (vc_max_batch cfg) ns) seq ds of
              (Inl e, seq') \<Rightarrow> Some (Inl e, seq')
            | (Inr ds', seq') \<Rightarrow> relay_batches cfg post now_ms origin (drop (vc_max_batch cfg) ns) seq' ds'))"
  by pat_completeness auto
termination by (relation "measure (\<lambda>(_, _, _, _, ns, _, _). length ns)") auto

section \<open>watcher.ts\<close>

record nullifier_event =
  ne_chain :: chain_id
  ne_denom_id :: byte
  ne_hash :: string
  ne_slot :: nat
  ne_signature :: string

text \<open>An account of the node's answer; a missing slot is \<open>undefined\<close>, which compares as false.\<close>

record polled_account =
  pa_pubkey :: string
  pa_data :: string
  pa_slot :: "nat option"

definition b64_standard :: "char \<Rightarrow> bool" where
  "b64_standard c \<longleftrightarrow> (let n = char_code c in
     65 \<le> n \<and> n \<le> 90 \<or> 97 \<le> n \<and> n \<le> 122 \<or> 48 \<le> n \<and> n \<le> 57 \<or> n = 43 \<or> n = 47)"

text \<open>\<open>atob\<close>: white space and the padding go, anything else that is not of the alphabet throws.\<close>

definition atob :: "string \<Rightarrow> bytes option" where
  "atob s =
     (let t = filter (\<lambda>c. char_code c \<notin> {9, 10, 12, 13, 32}) s;
          n = length t;
          u = (if n mod 4 = 0 \<and> 2 \<le> n \<and> drop (n - 2) t = ''=='' then take (n - 2) t
               else if n mod 4 = 0 \<and> 1 \<le> n \<and> drop (n - 1) t = ''='' then take (n - 1) t else t)
      in if length u mod 4 = 1 \<or> \<not> list_all b64_standard u then None else Some (b64_decode u))"

definition read_event :: "chain_id \<Rightarrow> polled_account \<Rightarrow> nullifier_event option" where
  "read_event chain a =
     (case atob (pa_data a) of
        None \<Rightarrow> None
      | Some d \<Rightarrow>
          if length d < 49 then None
          else Some \<lparr>ne_chain = chain, ne_denom_id = d ! 8, ne_hash = buffer_to_hex (slice 9 41 d),
                     ne_slot = read_u64_le d 41, ne_signature = pa_pubkey a\<rparr>)"

definition seen_slot :: "nat option \<Rightarrow> nat option \<Rightarrow> bool" where
  "seen_slot slot last_slot = (case (slot, last_slot) of (Some a, Some b) \<Rightarrow> a \<le> b | _ \<Rightarrow> False)"

text \<open>The loop of \<open>poll\<close>: an account that cannot be read throws and ends the poll.\<close>

fun poll_accounts :: "chain_id \<Rightarrow> nat option \<Rightarrow> polled_account list \<Rightarrow> nat option \<times> nullifier_event list" where
  "poll_accounts chain last_slot [] = (last_slot, [])"
| "poll_accounts chain last_slot (a # as) =
     (if seen_slot (pa_slot a) last_slot then poll_accounts chain last_slot as
      else (case read_event chain a of
              None \<Rightarrow> (last_slot, [])
            | Some ev \<Rightarrow> (let (l, evs) = poll_accounts chain (pa_slot a) as in (l, ev # evs))))"

text \<open>What the watcher asks for: the pool's accounts of this size with these bytes at their start.\<close>

definition watched_size :: nat where
  "watched_size = 42"

definition watched_memcmp :: "nat \<times> string" where
  "watched_memcmp = (0, ''2w=='')"

definition watch_request :: "string \<Rightarrow> json" where
  "watch_request program_id =
     JObj [(''jsonrpc'', JStr ''2.0''), (''id'', JNum ''1''), (''method'', JStr ''getProgramAccounts''),
       (''params'', JArr [JStr program_id,
          JObj [(''encoding'', JStr ''base64''),
                (''filters'', JArr [JObj [(''dataSize'', JNum (nat_str 10 watched_size))],
                   JObj [(''memcmp'', JObj [(''offset'', JNum (nat_str 10 (fst watched_memcmp))),
                      (''bytes'', JStr (snd watched_memcmp))])]])]])]"

text \<open>A node that honours the size filter answers only such accounts.\<close>

definition size_filtered :: "polled_account list \<Rightarrow> bool" where
  "size_filtered accounts \<longleftrightarrow> list_all (\<lambda>a. map_option length (atob (pa_data a)) = Some watched_size) accounts"

section \<open>attestor.ts\<close>

record attestor_config =
  at_origin :: chain_id
  at_target :: chain_id
  at_chain :: chain_id
  at_relayer :: vaa_relayer_config

record attestor =
  as_last_slot :: "nat option"
  as_relayed :: "string list"
  as_sequence :: nat
  as_running :: bool

definition new_attestor :: attestor where
  "new_attestor = \<lparr>as_last_slot = Some 0, as_relayed = [], as_sequence = 0, as_running = False\<rparr>"

text \<open>
  \<open>handleNullifier\<close> runs up to the request before it first waits: the account is marked, the sequence
  number taken, the VAA built and, if that did not throw, the request sent. The answer is only logged.
\<close>

definition handle_nullifier ::
    "attestor_config \<Rightarrow> nat \<Rightarrow> nullifier_event \<Rightarrow> attestor \<Rightarrow> (string \<times> bytes) list \<times> attestor" where
  "handle_nullifier cfg now_ms ev st =
     (if ne_signature ev \<in> set (as_relayed st) then ([], st)
      else (case build_vaa (at_relayer cfg) now_ms (as_sequence st) (ne_hash ev) (uint (ne_denom_id ev)) (ne_chain ev) of
              None \<Rightarrow> []
            | Some vaa \<Rightarrow> [(ne_signature ev, vaa)],
            st\<lparr>as_relayed := as_relayed st @ [ne_signature ev], as_sequence := Suc (as_sequence st)\<rparr>))"

fun handle_events ::
    "attestor_config \<Rightarrow> nat \<Rightarrow> nullifier_event list \<Rightarrow> attestor \<Rightarrow> (string \<times> bytes) list \<times> attestor" where
  "handle_events cfg now_ms [] st = ([], st)"
| "handle_events cfg now_ms (ev # evs) st =
     (let (p, st1) = handle_nullifier cfg now_ms ev st; (q, st2) = handle_events cfg now_ms evs st1 in (p @ q, st2))"

text \<open>One poll: \<open>answer\<close> is \<open>None\<close> where the request fails, is refused or has no result.\<close>

definition attestor_poll ::
    "attestor_config \<Rightarrow> nat \<times> polled_account list option \<Rightarrow> attestor \<Rightarrow> (string \<times> bytes) list \<times> attestor" where
  "attestor_poll cfg p st =
     (case p of
        (now_ms, None) \<Rightarrow> ([], st)
      | (now_ms, Some accounts) \<Rightarrow>
          (let (l, evs) = poll_accounts (at_chain cfg) (as_last_slot st) accounts
           in handle_events cfg now_ms evs (st\<lparr>as_last_slot := l\<rparr>)))"

fun attestor_polls ::
    "attestor_config \<Rightarrow> (nat \<times> polled_account list option) list \<Rightarrow> attestor \<Rightarrow> (string \<times> bytes) list \<times> attestor" where
  "attestor_polls cfg [] st = ([], st)"
| "attestor_polls cfg (p # ps) st =
     (let (o1, st1) = attestor_poll cfg p st; (o2, st2) = attestor_polls cfg ps st1 in (o1 @ o2, st2))"

text \<open>\<open>start\<close>: refused for a pair of equal chains; otherwise one poll at once, then one per interval.\<close>

definition attestor_start ::
    "attestor_config \<Rightarrow> (nat \<times> polled_account list option) list \<Rightarrow> ((string \<times> bytes) list \<times> attestor) option" where
  "attestor_start cfg polls =
     (if \<not> is_cross_chain (at_origin cfg) (at_target cfg) then None
      else Some (attestor_polls cfg polls (new_attestor\<lparr>as_running := True\<rparr>)))"

definition attestor_stop :: "attestor \<Rightarrow> attestor" where
  "attestor_stop st = st\<lparr>as_running := False\<rparr>"

section \<open>What is posted\<close>

lemma b64_char_cases: "i < 64 \<Longrightarrow> b64_standard (b64_char i) \<and> char_code (b64_char i) \<notin> {9, 10, 12, 13, 32}"
  by (auto simp: b64_standard_def b64_char_def char_code_char_of Let_def)

lemma b64_split_chars:
  "list_all b64_standard (map b64_char (b64_split bs))"
  "filter (\<lambda>c. char_code c \<notin> {9, 10, 12, 13, 32}) (map b64_char (b64_split bs)) = map b64_char (b64_split bs)"
  using b64_split_small [of bs] b64_char_cases by (auto simp: list_all_iff intro!: filter_True)

lemma not_padded:
  assumes "list_all b64_standard u"
  shows "drop (length u - 2) u \<noteq> ''==''" "drop (length u - 1) u \<noteq> ''=''"
proof -
  have "\<not> b64_standard CHR ''=''" by (simp add: b64_standard_def char_code_def)
  then have "CHR ''='' \<notin> set u" using assms by (auto simp: list_all_iff)
  then show "drop (length u - 2) u \<noteq> ''==''" "drop (length u - 1) u \<noteq> ''=''" by (metis in_set_dropD list.set_intros(1))+
qed

lemma atob_encode: "atob (b64_encode bs) = Some bs"
proof -
  let ?u = "map b64_char (b64_split bs)"
  have ws: "filter (\<lambda>c. char_code c \<notin> {9, 10, 12, 13, 32}) (b64_encode bs) = b64_encode bs"
    using b64_split_chars(2) [of bs] by (simp add: b64_encode_def b64_padding_def char_code_def)
  have n4: "length (b64_encode bs) mod 4 = 0" by (simp add: length_b64_encode)
  have u: "length ?u mod 4 \<noteq> 1"
  proof -
    define q r where "q = length bs div 3" "r = length bs mod 3"
    then have "length bs = 3 * q + r" "r < 3" by auto
    then show ?thesis by (simp add: length_b64_split) presburger
  qed
  have dec: "b64_decode ?u = bs"
  proof -
    have tw: "takeWhile (\<lambda>c. c \<noteq> CHR ''='') ?u = ?u"
      using b64_split_small [of bs] by (auto simp: takeWhile_eq_all_conv list_all_iff b64_char_not_pad)
    show ?thesis unfolding b64_decode_def b64_sextets_def tw map_filter_b64 [OF b64_split_small] by (rule b64_groups_split)
  qed
  note np = not_padded [OF b64_split_chars(1) [of bs]]
  consider "length bs mod 3 = 0" | "length bs mod 3 = 1" | "length bs mod 3 = 2" by linarith
  then have "(if length (b64_encode bs) mod 4 = 0 \<and> 2 \<le> length (b64_encode bs)
        \<and> drop (length (b64_encode bs) - 2) (b64_encode bs) = ''=='' then take (length (b64_encode bs) - 2) (b64_encode bs)
      else if length (b64_encode bs) mod 4 = 0 \<and> 1 \<le> length (b64_encode bs)
        \<and> drop (length (b64_encode bs) - 1) (b64_encode bs) = ''='' then take (length (b64_encode bs) - 1) (b64_encode bs)
      else b64_encode bs) = ?u"
  proof cases
    case 1
    then show ?thesis using np by (simp add: b64_encode_def b64_padding_def)
  next
    case 2
    then show ?thesis using n4 by (simp add: b64_encode_def b64_padding_def)
  next
    case 3
    have "drop (length ?u - 1) (?u @ ''='') \<noteq> ''==''"
      using np(2) by (cases ?u rule: rev_cases) auto
    then show ?thesis using n4 3 by (simp add: b64_encode_def b64_padding_def)
  qed
  then show ?thesis using u dec b64_split_chars(1) [of bs] by (simp only: atob_def Let_def ws if_False simp_thms)
qed

lemma vaa_hex_field:
  assumes "x < 256 ^ 32"
  shows "vaa_hex_bytes (''0x'' @ hexpad 64 x) = be_bytes 32 x" "vaa_hex_bytes (hexpad 64 x) = be_bytes 32 x"
proof -
  have b: "hex_to_bytes 32 (hexpad 64 x) = be_bytes 32 x" using hex_to_bytes_hexpad [of 32 x] by simp
  then show "vaa_hex_bytes (''0x'' @ hexpad 64 x) = be_bytes 32 x" by (simp add: vaa_hex_bytes_def starts_with_def)
  have "list_all (is_digit 16) (hexpad 64 x)" by (rule hexpad_digits)
  moreover have "\<not> is_digit 16 CHR ''x''" by (simp add: is_digit_def digit_of_def char_code_def)
  ultimately have "\<not> starts_with ''0x'' (hexpad 64 x)"
    by (auto simp: starts_with_def list_all_iff) (metis in_set_takeD list.set_intros(1) list.set_intros(2))
  then show "vaa_hex_bytes (hexpad 64 x) = be_bytes 32 x" using b by (simp add: vaa_hex_bytes_def)
qed

lemma serialize_vaa_layout:
  assumes "vaa_hex_bytes (vp_emitter p) = emitter" "length emitter = 32"
  shows "serialize_vaa p = Some ([word_of_nat (vp_version p)] @ be_bytes 4 (vp_timestamp p)
     @ be_bytes 4 (get_chain_eid (vp_origin p)) @ emitter @ be_bytes 8 (vp_sequence p) @ vp_payload p)"
proof -
  let ?ps = "[[word_of_nat (vp_version p)], be_bytes 4 (vp_timestamp p), be_bytes 4 (get_chain_eid (vp_origin p)),
      emitter, be_bytes 8 (vp_sequence p)]"
  have "put_all [(0, [word_of_nat (vp_version p)]), (1, be_bytes 4 (vp_timestamp p)),
      (5, be_bytes 4 (get_chain_eid (vp_origin p))), (9, emitter), (41, be_bytes 8 (vp_sequence p))] (zeros 49) = Some (concat ?ps)"
    by (rule put_all_exact) (simp_all add: assms(2))
  moreover have "put_all [(0, concat ?ps), (length (concat ?ps), vp_payload p)] (zeros (length (concat ?ps) + length (vp_payload p)))
      = Some (concat [concat ?ps, vp_payload p])"
    by (rule put_all_exact) simp_all
  ultimately show ?thesis using assms by (simp add: serialize_vaa_def)
qed

text \<open>An account the pool program has written, as the watcher gets it.\<close>

lemma read_event_account:
  assumes "sha_ok sha" "length (nr_nullifier_hash a) = 32" "pa_data acc = b64_encode (nullifier_layout sha a)"
  shows "read_event chain acc = Some \<lparr>ne_chain = chain, ne_denom_id = nr_denom_id a,
     ne_hash = buffer_to_hex (nr_nullifier_hash a), ne_slot = unat (nr_spent_at_slot a), ne_signature = pa_pubkey acc\<rparr>"
proof -
  let ?d = "nullifier_layout sha a"
  have len: "length ?d = 50" using assms(1,2) by (simp add: nullifier_layout_def)
  have "?d ! 8 = nr_denom_id a" using assms(1) by (simp add: nullifier_layout_def nth_after)
  moreover have "slice 9 41 ?d = nr_nullifier_hash a"
    using assms(1,2) slice_after [of "account_disc sha ''NullifierRecord'' @ [nr_denom_id a]" 9 "nr_nullifier_hash a" 32]
    by (simp add: nullifier_layout_def)
  moreover have "read_u64_le ?d 41 = unat (nr_spent_at_slot a)"
    using assms(1,2) read_u64_after [of "account_disc sha ''NullifierRecord'' @ [nr_denom_id a] @ nr_nullifier_hash a" 41]
    by (simp add: nullifier_layout_def)
  ultimately show ?thesis using len by (simp add: read_event_def assms(3) atob_encode)
qed

lemma build_vaa_nullifier:
  assumes "vc_emitter cfg = ''0x'' @ hexpad 64 em" "em < 256 ^ 32" "length hash = 32"
  shows "build_vaa cfg now_ms seq (buffer_to_hex hash) denom_id origin =
     Some ([1] @ be_bytes 4 (now_ms div 1000) @ be_bytes 4 (get_chain_eid origin) @ be_bytes 32 em @ be_bytes 8 seq
       @ [to_u8 denom_id] @ hash)"
proof -
  have h: "vaa_hex_bytes (buffer_to_hex hash) = hash"
  proof -
    have "be_val hash < 256 ^ 32" using be_val_less [of hash] assms(3) by simp
    from vaa_hex_field(2) [OF this] show ?thesis
      using buffer_to_hex_be_bytes [of 32 "be_val hash"] be_bytes_be_val [of hash] assms(3) by simp
  qed
  have "put_all [(0, [to_u8 denom_id]), (1, hash)] (zeros 33) = Some (concat [[to_u8 denom_id], hash])"
    by (rule put_all_exact) (simp_all add: assms(3))
  then have "vaa_payload_bytes denom_id (buffer_to_hex hash) = Some ([to_u8 denom_id] @ hash)"
    by (simp add: vaa_payload_bytes_def h assms(3))
  moreover have "vaa_hex_bytes (vc_emitter cfg) = be_bytes 32 em" using vaa_hex_field(1) [OF assms(2)] assms(1) by simp
  ultimately show ?thesis by (simp add: build_vaa_def serialize_vaa_layout [of _ "be_bytes 32 em"])
qed

text \<open>Whatever texts the event and the configuration hold, the VAA is built: every part fits its place.\<close>

lemma put_all_fits: "\<forall>(off, src) \<in> set ws. off + length src \<le> length dst \<Longrightarrow> \<exists>out. put_all ws dst = Some out \<and> length out = length dst"
proof (induction ws arbitrary: dst)
  case (Cons w ws)
  obtain off src where w: "w = (off, src)" by fastforce
  then obtain dst' where d: "ta_set src off dst = Some dst'" "length dst' = length dst"
    using Cons.prems by (auto simp: ta_set_def)
  then show ?case using Cons.IH [of dst'] Cons.prems w by auto
qed simp

lemma build_vaa_total: "\<exists>vaa. build_vaa cfg now_ms seq hash denom_id origin = Some vaa"
proof -
  obtain pl where pl: "vaa_payload_bytes denom_id hash = Some pl"
    using put_all_fits [of "[(0, [to_u8 denom_id]), (1, take 32 (vaa_hex_bytes hash))]" "zeros (1 + 32)"]
    by (auto simp: vaa_payload_bytes_def)
  have "\<exists>vaa. serialize_vaa p = Some vaa" for p
  proof -
    let ?ws = "[(0, [word_of_nat (vp_version p)]), (1, be_bytes 4 (vp_timestamp p)),
        (5, be_bytes 4 (get_chain_eid (vp_origin p))), (9, take 32 (vaa_hex_bytes (vp_emitter p))), (41, be_bytes 8 (vp_sequence p))]"
    obtain header where h: "put_all ?ws (zeros (1 + 4 + 4 + 32 + 8)) = Some header"
      using put_all_fits [of ?ws "zeros (1 + 4 + 4 + 32 + 8)"] by auto
    obtain out where "put_all [(0, header), (length header, vp_payload p)] (zeros (length header + length (vp_payload p))) = Some out"
      using put_all_fits [of "[(0, header), (length header, vp_payload p)]" "zeros (length header + length (vp_payload p))"] by auto
    then show ?thesis using h by (simp add: serialize_vaa_def)
  qed
  then show ?thesis using pl by (simp add: build_vaa_def)
qed

lemma handle_nullifier_new:
  assumes "ne_signature ev \<notin> set (as_relayed st)"
  obtains vaa where "build_vaa (at_relayer cfg) now_ms (as_sequence st) (ne_hash ev) (uint (ne_denom_id ev)) (ne_chain ev) = Some vaa"
    "handle_nullifier cfg now_ms ev st = ([(ne_signature ev, vaa)],
       st\<lparr>as_relayed := as_relayed st @ [ne_signature ev], as_sequence := Suc (as_sequence st)\<rparr>)"
proof -
  obtain vaa where v: "build_vaa (at_relayer cfg) now_ms (as_sequence st) (ne_hash ev) (uint (ne_denom_id ev)) (ne_chain ev) = Some vaa"
    using build_vaa_total by blast
  with that assms show ?thesis by (simp add: handle_nullifier_def)
qed

text \<open>An account of the size asked for is too short to be read: the poll ends there and reports nothing.\<close>

lemma filtered_account_unread: "map_option length (atob (pa_data a)) = Some watched_size \<Longrightarrow> read_event chain a = None"
  by (auto simp: read_event_def watched_size_def split: option.split)

lemma filtered_poll_silent: "size_filtered accounts \<Longrightarrow> poll_accounts chain l accounts = (l, [])"
  by (induction accounts) (auto simp: size_filtered_def filtered_account_unread)

section \<open>Runs of the attestor\<close>

text \<open>
  What holds of the posts so far: each account once, in the order of the sequence numbers, and each the
  VAA of an account that some poll returned.
\<close>

definition post_ok :: "attestor_config \<Rightarrow> (nat \<times> polled_account list option) set \<Rightarrow> nat \<Rightarrow> string \<times> bytes \<Rightarrow> bool" where
  "post_ok cfg polls seq p \<longleftrightarrow> (\<exists>now_ms accounts acc ev. (now_ms, Some accounts) \<in> polls \<and> acc \<in> set accounts
     \<and> read_event (at_chain cfg) acc = Some ev
     \<and> fst p = pa_pubkey acc
     \<and> build_vaa (at_relayer cfg) now_ms seq (ne_hash ev) (uint (ne_denom_id ev)) (ne_chain ev) = Some (snd p))"

definition posts_ok :: "attestor_config \<Rightarrow> (nat \<times> polled_account list option) set \<Rightarrow> nat \<Rightarrow> (string \<times> bytes) list \<Rightarrow> bool" where
  "posts_ok cfg polls seq ps \<longleftrightarrow> (\<forall>i < length ps. post_ok cfg polls (seq + i) (ps ! i))"

definition grows_by :: "attestor \<Rightarrow> (string \<times> bytes) list \<Rightarrow> attestor \<Rightarrow> bool" where
  "grows_by st ps st' \<longleftrightarrow> as_relayed st' = as_relayed st @ map fst ps \<and> as_sequence st' = as_sequence st + length ps
     \<and> distinct (map fst ps) \<and> (\<forall>p \<in> set ps. fst p \<notin> set (as_relayed st))"

lemma grows_by_trans:
  assumes "grows_by st ps st1" "grows_by st1 qs st2"
  shows "grows_by st (ps @ qs) st2"
proof -
  have "\<forall>q \<in> set qs. fst q \<notin> set (as_relayed st) \<and> fst q \<notin> fst ` set ps"
    using assms by (auto simp: grows_by_def)
  then show ?thesis using assms unfolding grows_by_def by (simp add: disjoint_iff ball_Un) blast
qed

lemma posts_ok_append:
  assumes "posts_ok cfg polls seq ps" "posts_ok cfg polls (seq + length ps) qs"
  shows "posts_ok cfg polls seq (ps @ qs)"
  unfolding posts_ok_def
proof (intro allI impI)
  fix i
  assume i: "i < length (ps @ qs)"
  show "post_ok cfg polls (seq + i) ((ps @ qs) ! i)"
  proof (cases "i < length ps")
    case True
    then show ?thesis using assms(1) by (simp add: posts_ok_def nth_append)
  next
    case False
    then obtain j where "i = length ps + j" by (metis le_Suc_ex not_less)
    then show ?thesis using assms(2) i by (simp add: posts_ok_def nth_append add.assoc)
  qed
qed

lemma posts_ok_mono: "posts_ok cfg polls seq ps \<Longrightarrow> polls \<subseteq> polls' \<Longrightarrow> posts_ok cfg polls' seq ps"
  by (auto simp: posts_ok_def post_ok_def) (meson subsetD)

lemma poll_accounts_events:
  "ev \<in> set (snd (poll_accounts chain l as)) \<Longrightarrow> \<exists>acc \<in> set as. read_event chain acc = Some ev"
  by (induction chain l as rule: poll_accounts.induct) (auto split: if_splits option.splits prod.splits)

lemma read_event_key: "read_event chain acc = Some ev \<Longrightarrow> ne_signature ev = pa_pubkey acc"
  by (auto simp: read_event_def split: option.splits if_splits)

lemma handle_events_grow:
  assumes "handle_events cfg now_ms evs st = (ps, st')"
    and "\<forall>ev \<in> set evs. \<exists>acc \<in> set accounts. read_event (at_chain cfg) acc = Some ev"
  shows "grows_by st ps st' \<and> posts_ok cfg {(now_ms, Some accounts)} (as_sequence st) ps"
  using assms
proof (induction evs arbitrary: st ps)
  case Nil
  then show ?case by (simp add: grows_by_def posts_ok_def)
next
  case (Cons ev evs)
  obtain p st1 where one: "handle_nullifier cfg now_ms ev st = (p, st1)" by fastforce
  obtain q where rest: "handle_events cfg now_ms evs st1 = (q, st')" "ps = p @ q"
    using Cons.prems(1) one by (auto split: prod.splits)
  obtain acc where acc: "acc \<in> set accounts" "read_event (at_chain cfg) acc = Some ev" using Cons.prems(2) by auto
  have "grows_by st p st1 \<and> posts_ok cfg {(now_ms, Some accounts)} (as_sequence st) p"
  proof (cases "ne_signature ev \<in> set (as_relayed st)")
    case True
    then show ?thesis using one by (auto simp: handle_nullifier_def grows_by_def posts_ok_def)
  next
    case False
    then show ?thesis
      by (rule handle_nullifier_new [of ev st cfg now_ms])
        (use one acc read_event_key [OF acc(2)] False in \<open>auto simp: grows_by_def posts_ok_def post_ok_def\<close>)
  qed
  then have g: "grows_by st p st1" and "posts_ok cfg {(now_ms, Some accounts)} (as_sequence st) p" by blast+
  moreover have r: "grows_by st1 q st'" "posts_ok cfg {(now_ms, Some accounts)} (as_sequence st1) q"
    using Cons.IH [OF rest(1)] Cons.prems(2) by auto
  ultimately have "posts_ok cfg {(now_ms, Some accounts)} (as_sequence st) (p @ q)"
    using g by (intro posts_ok_append) (simp_all add: grows_by_def)
  then show ?case using grows_by_trans [OF g r(1)] rest(2) by simp
qed

lemma attestor_poll_grows:
  assumes "attestor_poll cfg p st = (ps, st')"
  shows "grows_by st ps st' \<and> posts_ok cfg {p} (as_sequence st) ps"
proof (cases p)
  case (Pair now_ms answer)
  show ?thesis
  proof (cases answer)
    case None
    then show ?thesis using assms Pair by (auto simp: attestor_poll_def grows_by_def posts_ok_def)
  next
    case (Some accounts)
    obtain l evs where pa: "poll_accounts (at_chain cfg) (as_last_slot st) accounts = (l, evs)" by fastforce
    then have h: "handle_events cfg now_ms evs (st\<lparr>as_last_slot := l\<rparr>) = (ps, st')"
      using assms Pair Some by (simp add: attestor_poll_def)
    have "\<forall>ev \<in> set evs. \<exists>acc \<in> set accounts. read_event (at_chain cfg) acc = Some ev"
      using poll_accounts_events pa by (metis snd_conv)
    from handle_events_grow [OF h this] show ?thesis by (auto simp: grows_by_def Pair Some)
  qed
qed

lemma attestor_polls_grow:
  "attestor_polls cfg polls st = (ps, st') \<Longrightarrow> grows_by st ps st' \<and> posts_ok cfg (set polls) (as_sequence st) ps"
proof (induction polls arbitrary: st ps)
  case Nil
  then show ?case by (simp add: grows_by_def posts_ok_def)
next
  case (Cons p polls)
  obtain o1 st1 where one: "attestor_poll cfg p st = (o1, st1)" by fastforce
  obtain o2 where rest: "attestor_polls cfg polls st1 = (o2, st')" "ps = o1 @ o2"
    using Cons.prems one by (auto split: prod.splits)
  have a: "grows_by st o1 st1" "posts_ok cfg {p} (as_sequence st) o1" using attestor_poll_grows [OF one] by blast+
  have b: "grows_by st1 o2 st'" "posts_ok cfg (set polls) (as_sequence st1) o2" using Cons.IH [OF rest(1)] by blast+
  have "posts_ok cfg (set (p # polls)) (as_sequence st) (o1 @ o2)"
    using posts_ok_mono [OF a(2), of "set (p # polls)"] posts_ok_mono [OF b(2), of "set (p # polls)"] a(1)
    by (intro posts_ok_append) (auto simp: grows_by_def)
  then show ?case using grows_by_trans [OF a(1) b(1)] rest(2) by simp
qed

lemma filtered_polls_silent:
  "\<forall>p \<in> set polls. \<forall>accounts. snd p = Some accounts \<longrightarrow> size_filtered accounts \<Longrightarrow> fst (attestor_polls cfg polls st) = []"
proof (induction polls arbitrary: st)
  case (Cons p polls)
  have "fst (attestor_poll cfg p st) = []"
    using Cons.prems filtered_poll_silent by (cases p; cases "snd p") (auto simp: attestor_poll_def)
  then show ?case using Cons.IH Cons.prems by (simp add: Let_def split: prod.split) (metis fst_conv)
qed simp

text \<open>
  C39. The attestor posts each nullifier account at most once: over any run of polls, whatever the
  node answers, no account is posted twice, the posts carry the sequence numbers 0, 1, 2, ... in the
  order in which they are made, and each post is the VAA of an account that a poll returned. But if
  every answer keeps to the size the watcher asks for, nothing is ever posted.
\<close>

theorem attestor_posts_once_in_sequence:
  assumes "attestor_start cfg polls = Some (ps, st)"
  shows "distinct (map fst ps) \<and> as_sequence st = length ps \<and> posts_ok cfg (set polls) 0 ps
     \<and> ((\<forall>p \<in> set polls. \<forall>accounts. snd p = Some accounts \<longrightarrow> size_filtered accounts) \<longrightarrow> ps = [])"
proof -
  have "attestor_polls cfg polls (new_attestor\<lparr>as_running := True\<rparr>) = (ps, st)"
    using assms by (simp add: attestor_start_def split: if_splits)
  from attestor_polls_grow [OF this] filtered_polls_silent [of polls cfg] this show ?thesis
    by (auto simp: grows_by_def new_attestor_def) (metis fst_conv)
qed

text \<open>
  What is posted is what was spent: for an account that the pool program has written, the
  watcher's event and the relayer's bytes are the header with the emitter, the origin and the sequence
  number, followed by the account's denomination and its nullifier hash, at full length.
\<close>

theorem vaa_carries_nullifier:
  assumes "sha_ok sha" "length (nr_nullifier_hash a) = 32" "pa_data acc = b64_encode (nullifier_layout sha a)"
    and "vc_emitter cfg = ''0x'' @ hexpad 64 em" "em < 256 ^ 32"
  shows "\<exists>ev. read_event chain acc = Some ev
     \<and> build_vaa cfg now_ms seq (ne_hash ev) (uint (ne_denom_id ev)) (ne_chain ev)
         = Some ([1] @ be_bytes 4 (now_ms div 1000) @ be_bytes 4 (get_chain_eid chain) @ be_bytes 32 em @ be_bytes 8 seq
             @ [nr_denom_id a] @ nr_nullifier_hash a)"
proof -
  have "to_u8 (uint (nr_denom_id a)) = nr_denom_id a" by (simp add: to_u8_def)
  then show ?thesis
    using read_event_account [OF assms(1-3), of chain] build_vaa_nullifier [OF assms(4,5,2)] by simp
qed

text \<open>What is lost: of two new accounts of the same slot in one answer, the second is never posted.\<close>

lemma same_slot_skipped:
  assumes "pa_slot a1 = Some n" "pa_slot a2 = Some n" "l < n" "read_event chain a1 = Some ev"
  shows "poll_accounts chain (Some l) [a1, a2] = (Some n, [ev])"
  using assms by (simp add: seen_slot_def)

text \<open>The watcher asks for accounts of 42 bytes; the program's have 50.\<close>

lemma watched_size_matches_no_account:
  assumes "sha_ok sha" "length (nr_nullifier_hash a) = 32"
  shows "length (nullifier_layout sha a) \<noteq> watched_size"
  using assms by (simp add: nullifier_layout_def watched_size_def)

text \<open>One account, seen in two polls, and one that cannot be read.\<close>

definition demo_spent :: nullifier_account where
  "demo_spent = \<lparr>nr_denom_id = 1, nr_nullifier_hash = be_bytes 32 9, nr_spent_at_slot = 77, nr_bump = 254\<rparr>"

definition demo_polled :: polled_account where
  "demo_polled = \<lparr>pa_pubkey = ''acct'', pa_data = b64_encode (nullifier_layout toy_sha demo_spent), pa_slot = Some 5\<rparr>"

definition demo_attestor :: attestor_config where
  "demo_attestor = \<lparr>at_origin = Solana, at_target = Base, at_chain = Solana,
     at_relayer = \<lparr>vc_rpc_url = ''http://w'', vc_emitter = ''0x'' @ hexpad 64 3, vc_target = Base, vc_max_batch = 10\<rparr>\<rparr>"

theorem vaa_carries_nullifier_witness:
  "\<exists>ev. read_event Solana demo_polled = Some ev \<and> ne_signature ev = ''acct''
     \<and> build_vaa (at_relayer demo_attestor) 2000 0 (ne_hash ev) (uint (ne_denom_id ev)) (ne_chain ev)
         = Some ([1] @ be_bytes 4 2 @ be_bytes 4 1 @ be_bytes 32 3 @ be_bytes 8 0 @ [1] @ be_bytes 32 9)"
proof -
  have "length (nr_nullifier_hash demo_spent) = 32" by (simp add: demo_spent_def)
  from vaa_carries_nullifier [OF toy_sha_ok this, of demo_polled "at_relayer demo_attestor" 3 Solana 2000 0] show ?thesis
    using read_event_key [of Solana demo_polled] by (auto simp: demo_polled_def demo_attestor_def demo_spent_def)
qed

theorem attestor_posts_once_in_sequence_witness:
  "\<exists>vaa st. attestor_start demo_attestor [(2000, Some [demo_polled]), (4000, Some [demo_polled]), (6000, None)]
       = Some ([(''acct'', vaa)], st) \<and> as_sequence st = 1"
proof -
  have "length (nr_nullifier_hash demo_spent) = 32" by (simp add: demo_spent_def)
  from read_event_account [OF toy_sha_ok this, of demo_polled Solana]
  obtain ev where ev: "read_event Solana demo_polled = Some ev" "ne_signature ev = ''acct''" by (simp add: demo_polled_def)
  have slot: "pa_slot demo_polled = Some 5" by (simp add: demo_polled_def)
  obtain vaa' where "build_vaa (at_relayer demo_attestor) 2000 0 (ne_hash ev) (uint (ne_denom_id ev)) (ne_chain ev) = Some vaa'"
    using build_vaa_total by blast
  then obtain vaa st where run: "attestor_start demo_attestor [(2000, Some [demo_polled]), (4000, Some [demo_polled]), (6000, None)]
      = Some ([(''acct'', vaa)], st)"
    using ev slot
    by (simp add: attestor_start_def demo_attestor_def is_cross_chain_def attestor_poll_def new_attestor_def seen_slot_def
        handle_nullifier_def)
  then show ?thesis using attestor_posts_once_in_sequence [OF run] by auto
qed

end
