(* ===== verification/IndexerBoot.thy ===== *)
theory IndexerBoot
  imports IndexerPoller RelayerBoot
begin

text \<open>
  How the processes of the indexer come up: the TLS option of the database connection (\<open>ssl.ts\<close> of the
  API and \<open>db.ts\<close> of the poller, each with its own copy), the API's database pool and allowed origins
  (\<open>db.ts\<close>, \<open>index.ts\<close>), the poller's configuration (\<open>config.ts\<close>), and the supervisor of both processes
  (\<open>serve.mjs\<close>). The environment is a map from names to texts.
\<close>

section \<open>The TLS option\<close>

datatype tls_option = NoTls | UnverifiedTls | VerifiedTls string

definition wants_tls :: "string \<Rightarrow> string \<Rightarrow> bool" where
  "wants_tls mode url \<longleftrightarrow> mode = ''require'' \<or> mode = ''true'' \<or> contains ''sslmode=require'' url
     \<or> contains ''sslmode=verify'' url \<or> contains ''ssl=true'' url"

definition tls_option :: "(string \<rightharpoonup> string) \<Rightarrow> (string \<Rightarrow> string option) \<Rightarrow> tls_option option" where
  "tls_option vars read_file =
     (case truthy (vars ''PGSSL_CA'') of
        None \<Rightarrow> Some UnverifiedTls
      | Some path \<Rightarrow> map_option VerifiedTls (read_file path))"

text \<open>\<open>None\<close> is a certificate file that cannot be read. The API computes the wish first, the poller the refusal.\<close>

definition resolve_ssl :: "(string \<rightharpoonup> string) \<Rightarrow> (string \<Rightarrow> string option) \<Rightarrow> string \<Rightarrow> tls_option option" where
  "resolve_ssl vars read_file connection_string =
     (let url = to_lower connection_string; mode = to_lower (default_to [] (vars ''PGSSL''));
          wanted = wants_tls mode url
      in if mode = ''disable'' \<or> mode = ''false'' then Some NoTls
         else if \<not> wanted then Some NoTls
         else tls_option vars read_file)"

definition poller_resolve_ssl :: "(string \<rightharpoonup> string) \<Rightarrow> (string \<Rightarrow> string option) \<Rightarrow> string \<Rightarrow> tls_option option" where
  "poller_resolve_ssl vars read_file connection_string =
     (let url = to_lower connection_string; mode = to_lower (default_to [] (vars ''PGSSL''))
      in if mode = ''disable'' \<or> mode = ''false'' then Some NoTls
         else let wanted = wants_tls mode url
              in if \<not> wanted then Some NoTls else tls_option vars read_file)"

lemma resolve_ssl_copies_agree: "poller_resolve_ssl = resolve_ssl"
  by (intro ext) (simp add: poller_resolve_ssl_def resolve_ssl_def Let_def)

text \<open>Certificates are verified only when a bundle is named; refusal in the environment beats the address.\<close>

lemma unverified_iff:
  "resolve_ssl vars read_file c = Some UnverifiedTls \<longleftrightarrow>
     to_lower (default_to [] (vars ''PGSSL'')) \<notin> {''disable'', ''false''}
     \<and> wants_tls (to_lower (default_to [] (vars ''PGSSL''))) (to_lower c) \<and> truthy (vars ''PGSSL_CA'') = None"
  by (auto simp: resolve_ssl_def tls_option_def Let_def split: option.split)

section \<open>The API\<close>

record pg_pool =
  pp_connection :: string
  pp_ssl :: tls_option
  pp_max :: nat
  pp_idle_ms :: nat

datatype pool_open_error = DatabaseUrlMissing | CertificateUnreadable

text \<open>The pool is made once and kept.\<close>

definition get_pool ::
    "(string \<rightharpoonup> string) \<Rightarrow> (string \<Rightarrow> string option) \<Rightarrow> pg_pool option \<Rightarrow> pool_open_error + pg_pool \<times> pg_pool option" where
  "get_pool vars read_file pool =
     (case pool of
        Some p \<Rightarrow> Inr (p, pool)
      | None \<Rightarrow>
          bindE (optE DatabaseUrlMissing (truthy (vars ''DATABASE_URL''))) (\<lambda>c.
          bindE (optE CertificateUnreadable (resolve_ssl vars read_file c)) (\<lambda>ssl.
          let p = \<lparr>pp_connection = c, pp_ssl = ssl, pp_max = 10, pp_idle_ms = 30000\<rparr> in Inr (p, Some p))))"

lemma get_pool_once:
  assumes "get_pool vars read_file pool = Inr (p, pool')"
  shows "get_pool vars' read_file' pool' = Inr (p, pool')"
  using assms by (auto simp: get_pool_def res_simps Let_def split: option.splits)

fun split_on :: "char \<Rightarrow> string \<Rightarrow> string list" where
  "split_on sep [] = [[]]"
| "split_on sep (c # s) =
     (if c = sep then [] # split_on sep s
      else (case split_on sep s of [] \<Rightarrow> [[c]] | w # ws \<Rightarrow> (c # w) # ws))"

datatype origins = AllOrigins | OnlyOrigins "string list"

definition cors_origin :: "(string \<rightharpoonup> string) \<Rightarrow> origins" where
  "cors_origin vars =
     (let raw = js_trim (default_to ''*'' (vars ''CORS_ORIGINS'')) in
      if raw = [] \<or> raw = ''*'' then AllOrigins
      else OnlyOrigins (filter (\<lambda>s. s \<noteq> []) (map js_trim (split_on (CHR '','') raw))))"

lemma split_on_nonempty: "split_on sep s \<noteq> []"
  by (cases s) (simp_all split: list.split)

lemma split_on_join: "sep \<notin> set w \<Longrightarrow> split_on sep (w @ sep # s) = w # split_on sep s"
  by (induction w) auto

lemma split_on_last: "sep \<notin> set w \<Longrightarrow> split_on sep w = [w]"
  by (induction w) auto

section \<open>The poller's configuration\<close>

record poller_settings =
  ps_rpc_url :: string
  ps_program_id :: string
  ps_database_url :: string
  ps_component :: string
  ps_interval_ms :: env_number

definition poller_config :: "(string \<rightharpoonup> string) \<Rightarrow> string + poller_settings" where
  "poller_config vars =
     bindE (optE ''SOLANA_RPC_URL not set'' (truthy (vars ''SOLANA_RPC_URL''))) (\<lambda>rpc.
     bindE (optE ''DATABASE_URL not set'' (truthy (vars ''DATABASE_URL''))) (\<lambda>database.
     Inr \<lparr>ps_rpc_url = rpc, ps_program_id = default_to ''4XH6f74UFTvqx4j9UarXGrRZRrAwbnNNsRFBTfNqmWib'' (vars ''PROGRAM_ID''),
          ps_database_url = database, ps_component = default_to ''poller-devnet'' (vars ''POLLER_COMPONENT''),
          ps_interval_ms = (case vars ''POLL_INTERVAL_MS'' of Some v \<Rightarrow> env_number v | None \<Rightarrow> Num 8000 0)\<rparr>))"

section \<open>serve.mjs: the supervisor\<close>

text \<open>Which child got which signal, whether the supervisor is going down, and its exit code once it has exited.\<close>

record supervisor =
  sv_down :: bool
  sv_signals :: "(string \<times> string) list"
  sv_exit :: "int option"

definition supervisor_children :: "string list" where
  "supervisor_children = [''api'', ''poller'']"

definition supervisor_start :: supervisor where
  "supervisor_start = \<lparr>sv_down = False, sv_signals = [], sv_exit = None\<rparr>"

text \<open>A child exits with a code, or by a signal (\<open>None\<close>).\<close>

definition child_exit :: "int option \<Rightarrow> supervisor \<Rightarrow> supervisor" where
  "child_exit code s =
     (if sv_down s then s
      else s\<lparr>sv_down := True, sv_signals := sv_signals s @ map (\<lambda>c. (c, ''SIGTERM'')) supervisor_children,
             sv_exit := Some (default_to 1 code)\<rparr>)"

definition supervisor_signal :: "string \<Rightarrow> supervisor \<Rightarrow> supervisor" where
  "supervisor_signal sig s =
     s\<lparr>sv_down := True, sv_signals := sv_signals s @ map (\<lambda>c. (c, sig)) supervisor_children, sv_exit := Some 0\<rparr>"

inductive supervisor_step :: "supervisor \<Rightarrow> supervisor \<Rightarrow> bool" where
  child: "sv_exit s = None \<Longrightarrow> supervisor_step s (child_exit code s)"
| signal: "sv_exit s = None \<Longrightarrow> sig \<in> {''SIGINT'', ''SIGTERM''} \<Longrightarrow> supervisor_step s (supervisor_signal sig s)"

inductive_cases supervisor_stepE: "supervisor_step s s'"

text \<open>The first event ends the service, and every child has been told.\<close>

lemma supervisor_stops_all:
  assumes "supervisor_step\<^sup>*\<^sup>* supervisor_start s" "s \<noteq> supervisor_start"
  shows "sv_exit s \<noteq> None \<and> fst ` set (sv_signals s) = set supervisor_children"
proof -
  have "s = supervisor_start \<or> sv_exit s \<noteq> None \<and> fst ` set (sv_signals s) = set supervisor_children"
    using assms(1)
  proof (induction rule: rtranclp_induct)
    case (step t u)
    then have "t = supervisor_start" by (auto elim: supervisor_stepE)
    with step(2) show ?case
      by (auto elim!: supervisor_stepE simp: child_exit_def supervisor_signal_def supervisor_start_def supervisor_children_def)
  qed simp
  with assms(2) show ?thesis by blast
qed

text \<open>A child that ends without an error makes the supervisor end without an error, too.\<close>

lemma clean_child_exit_is_clean: "sv_exit (child_exit (Some 0) supervisor_start) = Some 0"
  by (simp add: child_exit_def supervisor_start_def default_to_def)

end
