(* ===== verification/GeyserPlugin.thy ===== *)
theory GeyserPlugin
  imports IndexerDb PoolDecode
begin

text \<open>
  The Geyser plugin, the indexer's other way in (\<open>qietr-indexer/geyser-plugin/src\<close>): borsh decoding of the
  pool's accounts (\<open>decode.rs\<close>), the validator's callbacks with the cache of leaf indices (\<open>lib.rs\<close>), and
  the bounded queue whose worker writes to the database (\<open>writer.rs\<close>). Its SQL is the poller's, so the
  worker uses the queries of \<open>IndexerDb\<close>. Shown: the decoders agree with the poller's on every account,
  deposits that are notified before their tree update are indexed as the chain numbers them, and where
  that fails: the other order, change commitments, failed transactions and a full queue.
\<close>

section \<open>decode.rs\<close>

definition geyser_account_kind :: "hash_fun \<Rightarrow> bytes \<Rightarrow> account_kind option" where
  "geyser_account_kind sha data =
     (if length data < 8 then None
      else let head = take 8 data in
           if head = account_disc sha ''PoolConfig'' then Some KPoolConfig
           else if head = account_disc sha ''Denomination'' then Some KDenomination
           else if head = account_disc sha ''MerkleTree'' then Some KMerkleTree
           else if head = account_disc sha ''NullifierRecord'' then Some KNullifierRecord
           else None)"

text \<open>\<open>try_from_slice\<close> wants every byte used: the data after the discriminator has the exact length.\<close>

definition u64_at :: "nat \<Rightarrow> bytes \<Rightarrow> u64" where
  "u64_at i data = word_of_nat (read_u64_le data i)"

definition words_at :: "nat \<Rightarrow> nat \<Rightarrow> bytes \<Rightarrow> bytes list" where
  "words_at i n data = map (\<lambda>k. slice (i + k * 32) (i + k * 32 + 32) data) [0..<n]"

definition geyser_denomination :: "bytes \<Rightarrow> denomination_account option" where
  "geyser_denomination data =
     (if length data < 8 \<or> length data - 8 \<noteq> 1 + 8 + 8 + 32 + 32 + 1 + 1 then None
      else Some \<lparr>dn_denom_id = data ! 8, dn_amount = u64_at 9 data, dn_deposit_count = u64_at 17 data,
                 dn_vault = slice 25 57 data, dn_mint = slice 57 89 data, dn_vault_bump = data ! 89, dn_bump = data ! 90\<rparr>)"

definition geyser_merkle_tree :: "bytes \<Rightarrow> merkle_account option" where
  "geyser_merkle_tree data =
     (if length data < 8 \<or> length data - 8 \<noteq> 1 + 8 + 20 * 32 + 30 * 32 + 1 + 1 + 20 * 32 then None
      else Some \<lparr>ma_denom_id = data ! 8, next_leaf_index = u64_at 9 data, filled_subtree = words_at 17 20 data,
                 root_history = words_at 657 30 data, root_cursor = data ! 1617, ma_bump = data ! 1618,
                 zero_hashes_tab = words_at 1619 20 data\<rparr>)"

definition geyser_nullifier :: "bytes \<Rightarrow> nullifier_account option" where
  "geyser_nullifier data =
     (if length data < 8 \<or> length data - 8 \<noteq> 1 + 32 + 8 + 1 then None
      else Some \<lparr>nr_denom_id = data ! 8, nr_nullifier_hash = slice 9 41 data, nr_spent_at_slot = u64_at 41 data,
                 nr_bump = data ! 49\<rparr>)"

definition latest_tree_root :: "merkle_account \<Rightarrow> bytes option" where
  "latest_tree_root t = (if unat (root_cursor t) < length (root_history t) then Some (root_history t ! unat (root_cursor t)) else None)"

section \<open>writer.rs\<close>

datatype write_event =
    UpsertDenomination int int int string int
  | UpsertRoot int int bytes int
  | InsertCommitment int int bytes int
  | InsertNullifier int bytes int
  | Checkpoint string int "string option"

definition queue_capacity :: nat where
  "queue_capacity = 16384"

text \<open>A full queue drops the event.\<close>

definition enqueue :: "write_event \<Rightarrow> write_event list \<Rightarrow> write_event list" where
  "enqueue e q = (if length q < queue_capacity then q @ [e] else q)"

fun handle_write :: "(nat \<Rightarrow> query_fate) \<Rightarrow> int \<Rightarrow> write_event \<Rightarrow> unit query" where
  "handle_write fate now (UpsertDenomination d amount n vault slot) = upsert_denomination fate
     \<lparr>dr_denom_id = d, dr_amount_micro_usdc = amount, dr_deposit_count = n, dr_vault_address = vault,
      dr_last_seen_slot = slot, dr_updated_at = now\<rparr>"
| "handle_write fate now (UpsertRoot d n root slot) = upsert_root fate
     \<lparr>rr_denom_id = d, rr_leaf_count = n, rr_root_be = root, rr_inserted_slot = slot\<rparr>"
| "handle_write fate now (InsertCommitment d i c slot) = insert_commitment fate
     \<lparr>cr_denom_id = d, cr_leaf_index = i, cr_commitment_be = c, cr_inserted_slot = slot\<rparr>"
| "handle_write fate now (InsertNullifier d h slot) = insert_nullifier fate
     \<lparr>nlr_denom_id = d, nlr_hash_be = h, nlr_spent_at_slot = slot, nlr_spent_at = now\<rparr>"
| "handle_write fate now (Checkpoint c slot sig) = db_checkpoint fate
     \<lparr>pr_component = c, pr_last_slot = slot, pr_last_signature = sig\<rparr>"

text \<open>The worker takes the oldest event; a write that fails is logged and lost.\<close>

definition worker_turn :: "(nat \<Rightarrow> query_fate) \<Rightarrow> int \<Rightarrow> write_event list \<times> db \<Rightarrow> write_event list \<times> db" where
  "worker_turn fate now = (\<lambda>(q, s). case q of [] \<Rightarrow> ([], s) | e # es \<Rightarrow> (es, snd (handle_write fate now e s)))"

section \<open>lib.rs\<close>

record geyser =
  gp_program_id :: "pubkey option"
  gp_queue :: "write_event list option"
  gp_cache :: "byte \<rightharpoonup> u64"
  gp_component :: string

definition default_plugin :: geyser where
  "default_plugin = \<lparr>gp_program_id = None, gp_queue = None, gp_cache = Map.empty, gp_component = ''geyser''\<rparr>"

text \<open>
  Loading. The file, its parsing by serde, base58 and the outcomes of the pool, the probe and the thread are
  arguments. A thread that cannot be spawned leaves the new program id and name behind, and the old writer.
\<close>

datatype load_error = ConfigUnread | ConfigUnparsable | InvalidProgramId | PoolNotBuilt | ProbeFailed | WriterNotSpawned

record plugin_config =
  pc_program_id :: string
  pc_db_url :: string
  pc_component_name :: "string option"

record load_env =
  le_read :: "string \<rightharpoonup> string"
  le_parse :: "string \<Rightarrow> plugin_config option"
  le_pubkey :: "string \<Rightarrow> pubkey option"
  le_pool_ok :: "string \<Rightarrow> bool"
  le_probe_ok :: bool
  le_spawn_ok :: bool

definition plugin_load :: "load_env \<Rightarrow> string \<Rightarrow> geyser \<Rightarrow> load_error option \<times> geyser" where
  "plugin_load le config_file g =
     (case le_read le config_file of None \<Rightarrow> (Some ConfigUnread, g) | Some raw \<Rightarrow>
      case le_parse le raw of None \<Rightarrow> (Some ConfigUnparsable, g) | Some cfg \<Rightarrow>
      case le_pubkey le (pc_program_id cfg) of None \<Rightarrow> (Some InvalidProgramId, g) | Some program \<Rightarrow>
      if \<not> le_pool_ok le (pc_db_url cfg) then (Some PoolNotBuilt, g)
      else if \<not> le_probe_ok le then (Some ProbeFailed, g)
      else let g = g\<lparr>gp_program_id := Some program, gp_component := default_to ''geyser'' (pc_component_name cfg)\<rparr> in
           if le_spawn_ok le then (None, g\<lparr>gp_queue := Some []\<rparr>) else (Some WriterNotSpawned, g))"

definition plugin_unload :: "geyser \<Rightarrow> geyser" where
  "plugin_unload g = g\<lparr>gp_queue := None\<rparr>"

definition emit :: "write_event \<Rightarrow> geyser \<Rightarrow> geyser" where
  "emit e g = g\<lparr>gp_queue := map_option (enqueue e) (gp_queue g)\<rparr>"

definition loaded :: "geyser \<Rightarrow> bool" where
  "loaded g \<longleftrightarrow> gp_queue g \<noteq> None \<and> gp_program_id g \<noteq> None"

definition update_account :: "hash_fun \<Rightarrow> (pubkey \<Rightarrow> string) \<Rightarrow> pubkey \<Rightarrow> bytes \<Rightarrow> u64 \<Rightarrow> geyser \<Rightarrow> geyser" where
  "update_account sha b58 owner data slot g =
     (if \<not> loaded g \<or> gp_program_id g \<noteq> Some owner then g
      else case geyser_account_kind sha data of
        None \<Rightarrow> g
      | Some KPoolConfig \<Rightarrow> g
      | Some KDenomination \<Rightarrow>
          (case geyser_denomination data of
             None \<Rightarrow> g
           | Some a \<Rightarrow> emit (UpsertDenomination (uint (dn_denom_id a)) (sint (dn_amount a)) (sint (dn_deposit_count a))
                         (b58 (dn_vault a)) (sint slot)) g)
      | Some KMerkleTree \<Rightarrow>
          (case geyser_merkle_tree data of
             None \<Rightarrow> g
           | Some t \<Rightarrow>
               (let g = g\<lparr>gp_cache := (gp_cache g)(ma_denom_id t \<mapsto> next_leaf_index t)\<rparr> in
                case latest_tree_root t of
                  None \<Rightarrow> g
                | Some root \<Rightarrow> emit (UpsertRoot (uint (ma_denom_id t)) (sint (next_leaf_index t)) root (sint slot)) g))
      | Some KNullifierRecord \<Rightarrow>
          (case geyser_nullifier data of
             None \<Rightarrow> g
           | Some a \<Rightarrow> emit (InsertNullifier (uint (nr_denom_id a)) (nr_nullifier_hash a) (sint (nr_spent_at_slot a))) g))"

definition saturating_suc :: "u64 \<Rightarrow> u64" where
  "saturating_suc n = (if n = -1 then n else n + 1)"

definition handle_pool_ix :: "hash_fun \<Rightarrow> bytes \<Rightarrow> u64 \<Rightarrow> string \<Rightarrow> geyser \<Rightarrow> geyser" where
  "handle_pool_ix sha data slot signature g =
     (if length data < 8 then g
      else if take 8 data \<noteq> anchor_ix_discriminator sha ''deposit'' then g
      else if length data < 8 + 1 + 32 then g
      else let d = data ! 8; i = default_to 0 (gp_cache g d);
               g = g\<lparr>gp_cache := (gp_cache g)(d \<mapsto> saturating_suc i)\<rparr>
           in emit (Checkpoint (gp_component g) (sint slot) (Some signature))
                (emit (InsertCommitment (uint d) (sint i) (slice 9 41 data) (sint slot)) g))"

text \<open>The callback is also called for transactions that failed; it does not look at their status.\<close>

definition notify_transaction ::
    "hash_fun \<Rightarrow> pubkey list \<Rightarrow> (nat \<times> bytes) list \<Rightarrow> string \<Rightarrow> u64 \<Rightarrow> geyser \<Rightarrow> geyser" where
  "notify_transaction sha account_keys ixs signature slot g =
     (if \<not> loaded g then g
      else fold (\<lambda>(program, data) g.
             if program < length account_keys \<and> Some (account_keys ! program) = gp_program_id g
             then handle_pool_ix sha data slot signature g else g) ixs g)"

definition update_slot_status :: "u64 \<Rightarrow> bool \<Rightarrow> geyser \<Rightarrow> geyser" where
  "update_slot_status slot rooted g =
     (if rooted then emit (Checkpoint (gp_component g) (sint slot) None) g else g)"

section \<open>The decoders are the poller's\<close>

lemma geyser_kind: "geyser_account_kind = account_kind"
  by (intro ext) (simp add: geyser_account_kind_def account_kind_def slice_def)

lemma read_u64_bound: "read_u64_le data i < 2 ^ 64"
proof -
  have "le_val (slice i (i + 8) data) < 256 ^ length (slice i (i + 8) data)" by (rule le_val_less)
  also have "\<dots> \<le> (256::nat) ^ 8" by (rule power_increasing) simp_all
  finally show ?thesis by (simp add: read_u64_le_def)
qed

lemma u64_at_unat [simp]: "unat (u64_at i data) = read_u64_le data i"
  using read_u64_bound [of data i] by (simp add: u64_at_def unat_of_nat take_bit_nat_eq_self)

lemma geyser_denomination_view:
  "map_option denomination_view (geyser_denomination data) = (if length data = 91 then decode_denomination data else None)"
  by (auto simp: geyser_denomination_def decode_denomination_def denomination_view_def)

lemma geyser_nullifier_view:
  "map_option nullifier_view (geyser_nullifier data) = (if length data = 50 then decode_nullifier_record data else None)"
  by (auto simp: geyser_nullifier_def decode_nullifier_record_def nullifier_view_def)

lemma geyser_merkle_view:
  "map_option merkle_view (geyser_merkle_tree data) = (if length data = 2259 then decode_merkle_tree data else None)"
  by (auto simp: geyser_merkle_tree_def decode_merkle_tree_def merkle_view_def words_at_def pool_depth_simps Let_def)

section \<open>The order of the callbacks\<close>

definition indexed_commitments :: "geyser \<Rightarrow> (int \<times> int \<times> bytes) list" where
  "indexed_commitments g =
     concat (map (\<lambda>e. case e of InsertCommitment d i c _ \<Rightarrow> [(d, i, c)] | _ \<Rightarrow> []) (default_to [] (gp_queue g)))"

definition deposit_call_bytes :: "hash_fun \<Rightarrow> byte \<Rightarrow> bytes \<Rightarrow> bytes" where
  "deposit_call_bytes sha d c = anchor_ix_discriminator sha ''deposit'' @ d # c"

lemma handle_deposit:
  assumes "sha_ok sha" "length c = 32"
  shows "handle_pool_ix sha (deposit_call_bytes sha d c) slot sig g =
    emit (Checkpoint (gp_component g) (sint slot) (Some sig))
      (emit (InsertCommitment (uint d) (sint (default_to 0 (gp_cache g d))) c (sint slot))
        (g\<lparr>gp_cache := (gp_cache g)(d \<mapsto> saturating_suc (default_to 0 (gp_cache g d)))\<rparr>))"
proof -
  have "length (anchor_ix_discriminator sha ''deposit'') = 8" using assms(1) by simp
  with assms(2) show ?thesis
    by (simp add: handle_pool_ix_def deposit_call_bytes_def Let_def nth_append slice_def)
qed

text \<open>What one notified deposit does while the queue has room for its two events.\<close>

lemma deposit_noticed:
  assumes "sha_ok sha" "length c = 32" "gp_queue g = Some q" "length q + 2 \<le> queue_capacity" "gp_cache g d = Some k"
    and g': "g' = handle_pool_ix sha (deposit_call_bytes sha d c) slot sig g"
  shows "indexed_commitments g' = indexed_commitments g @ [(uint d, sint k, c)]"
    and "gp_cache g' = (gp_cache g)(d \<mapsto> saturating_suc k)"
    and "\<exists>q'. gp_queue g' = Some q' \<and> length q' = length q + 2"
  using assms(3-5) by (simp_all add: g' handle_deposit [OF assms(1,2)] indexed_commitments_def emit_def enqueue_def default_to_def)

lemma full_queue_drops:
  "gp_queue g = Some q \<Longrightarrow> queue_capacity \<le> length q \<Longrightarrow> emit e g = g"
  by (cases g) (simp add: emit_def enqueue_def)

text \<open>
  Deposits whose notices come before the account update of their tree get consecutive indices, starting
  at the count of the last update.
\<close>

lemma deposits_numbered_in_notice_order:
  assumes "sha_ok sha" "\<forall>c \<in> set cs. length c = 32" "gp_queue g = Some q"
    "length q + 2 * length cs \<le> queue_capacity" "gp_cache g d = Some k" "unat k + length cs < 2 ^ 64"
  shows "indexed_commitments (fold (\<lambda>c. handle_pool_ix sha (deposit_call_bytes sha d c) slot sig) cs g) =
    indexed_commitments g @ map (\<lambda>i. (uint d, sint (k + word_of_nat i), cs ! i)) [0..<length cs]"
  using assms(2-)
proof (induction cs arbitrary: g q k)
  case Nil
  then show ?case by simp
next
  case (Cons c cs)
  let ?g = "handle_pool_ix sha (deposit_call_bytes sha d c) slot sig g"
  have k: "k \<noteq> -1"
  proof
    assume "k = -1"
    then have "unat k = 2 ^ 64 - 1" by (simp add: unsigned_minus_1_eq_mask mask_eq_exp_minus_1)
    with Cons.prems(5) show False by simp
  qed
  have un: "unat (k + 1) = Suc (unat k)" using k by (metis add_eq_0_iff2 add.commute unatSuc)
  have "length c = 32" "length q + 2 \<le> queue_capacity" using Cons.prems(1,3) by simp_all
  note step = deposit_noticed [OF assms(1) this(1) Cons.prems(2) this(2) Cons.prems(4) refl, of slot sig]
  have ca: "gp_cache ?g d = Some (k + 1)" using step(2) k by (simp add: saturating_suc_def)
  obtain q' where q': "gp_queue ?g = Some q'" "length q' = length q + 2" using step(3) by blast
  have "indexed_commitments (fold (\<lambda>c. handle_pool_ix sha (deposit_call_bytes sha d c) slot sig) cs ?g) =
      indexed_commitments ?g @ map (\<lambda>i. (uint d, sint (k + 1 + word_of_nat i), cs ! i)) [0..<length cs]"
    using Cons.prems q' un by (intro Cons.IH [OF _ q'(1) _ ca]) auto
  moreover have "[0..<length (c # cs)] = 0 # map Suc [0..<length cs]" by (simp add: upt_conv_Cons map_Suc_upt del: upt_Suc)
  ultimately show ?case by (simp add: step(1) add.assoc o_def del: upt_Suc)
qed

text \<open>The other order, the one of a validator that stores accounts before it records transactions: one too high.\<close>

lemma late_notice_shifts_index:
  assumes sha: "sha_ok sha" "length c = 32" and g: "gp_program_id g = Some p" "gp_queue g = Some q" "length q + 3 \<le> queue_capacity"
    and t: "geyser_account_kind sha data = Some KMerkleTree" "geyser_merkle_tree data = Some t"
  shows "indexed_commitments (handle_pool_ix sha (deposit_call_bytes sha (ma_denom_id t) c) slot sig (update_account sha b58 p data slot g)) =
    indexed_commitments g @ [(uint (ma_denom_id t), sint (next_leaf_index t), c)]"
proof -
  let ?u = "update_account sha b58 p data slot g"
  have u: "gp_cache ?u (ma_denom_id t) = Some (next_leaf_index t)" "indexed_commitments ?u = indexed_commitments g"
    "\<exists>q'. gp_queue ?u = Some q' \<and> length q' + 2 \<le> queue_capacity"
    using g t by (simp_all add: update_account_def loaded_def Let_def indexed_commitments_def emit_def enqueue_def default_to_def
        split: option.split)
  then obtain q' where "gp_queue ?u = Some q'" "length q' + 2 \<le> queue_capacity" by blast
  from deposit_noticed(1) [OF sha this u(1) refl] u(2) show ?thesis by simp
qed

text \<open>A load that reports no error leaves a plugin that listens; a failed first load leaves one that does not.\<close>

lemma plugin_listens_iff_loaded:
  "loaded (snd (plugin_load le file default_plugin)) \<longleftrightarrow> fst (plugin_load le file default_plugin) = None"
  by (auto simp: plugin_load_def loaded_def default_plugin_def Let_def split: option.splits)

text \<open>A withdraw writes no commitment, though it inserts its change leaf into the tree.\<close>

lemma withdraw_writes_nothing:
  "sha_ok sha \<Longrightarrow> anchor_ix_discriminator sha ''withdraw'' \<noteq> anchor_ix_discriminator sha ''deposit'' \<Longrightarrow>
   handle_pool_ix sha (anchor_ix_discriminator sha ''withdraw'' @ body) slot sig g = g"
  by (simp add: handle_pool_ix_def)

section \<open>The queue and its worker\<close>

text \<open>Callbacks and turns of the worker in any order; what the worker wrote is no part of the plugin's state.\<close>

inductive geyser_run :: "hash_fun \<Rightarrow> (pubkey \<Rightarrow> string) \<Rightarrow> geyser \<Rightarrow> bool" for sha b58 where
  created: "geyser_run sha b58 default_plugin"
| load: "geyser_run sha b58 g \<Longrightarrow> geyser_run sha b58 (snd (plugin_load le config_file g))"
| unload: "geyser_run sha b58 g \<Longrightarrow> geyser_run sha b58 (plugin_unload g)"
| account: "geyser_run sha b58 g \<Longrightarrow> geyser_run sha b58 (update_account sha b58 owner data slot g)"
| transaction: "geyser_run sha b58 g \<Longrightarrow> geyser_run sha b58 (notify_transaction sha keys ixs sig slot g)"
| rooted: "geyser_run sha b58 g \<Longrightarrow> geyser_run sha b58 (update_slot_status slot is_rooted g)"
| worker: "geyser_run sha b58 g \<Longrightarrow> geyser_run sha b58 (g\<lparr>gp_queue := map_option tl (gp_queue g)\<rparr>)"

definition queue_ok :: "geyser \<Rightarrow> bool" where
  "queue_ok g = pred_option (\<lambda>q. length q \<le> queue_capacity) (gp_queue g)"

lemma queue_ok_emit: "queue_ok g \<Longrightarrow> queue_ok (emit e g)"
  by (cases "gp_queue g") (auto simp: queue_ok_def emit_def enqueue_def)

lemma queue_ok_update [simp]: "queue_ok (g\<lparr>gp_cache := c\<rparr>) = queue_ok g"
  by (simp add: queue_ok_def)

lemma queue_ok_pool_ix: "queue_ok g \<Longrightarrow> queue_ok (handle_pool_ix sha data slot sig g)"
  by (auto simp: handle_pool_ix_def Let_def intro!: queue_ok_emit)

lemma queue_ok_fold: "(\<And>x g. queue_ok g \<Longrightarrow> queue_ok (f x g)) \<Longrightarrow> queue_ok g \<Longrightarrow> queue_ok (fold f xs g)"
  by (induction xs arbitrary: g) simp_all

lemma queue_ok_transaction: "queue_ok g \<Longrightarrow> queue_ok (notify_transaction sha keys ixs sig slot g)"
  by (auto simp: notify_transaction_def queue_ok_pool_ix intro!: queue_ok_fold)

lemma queue_ok_account: "queue_ok g \<Longrightarrow> queue_ok (update_account sha b58 owner data slot g)"
  by (auto simp: update_account_def Let_def queue_ok_emit split: option.split account_kind.split)

text \<open>The memory a slow database costs the validator is bounded, whatever the chain does.\<close>

lemma queue_bounded: "geyser_run sha b58 g \<Longrightarrow> queue_ok g"
proof (induction rule: geyser_run.induct)
  case (load g le config_file)
  then show ?case by (auto simp: plugin_load_def queue_ok_def Let_def split: option.split)
next
  case (worker g)
  then show ?case by (cases "gp_queue g") (auto simp: queue_ok_def)
qed (simp_all add: queue_ok_account queue_ok_transaction queue_ok_emit update_slot_status_def plugin_unload_def
    default_plugin_def, simp_all add: queue_ok_def)

text \<open>Left alone, the worker writes the whole queue, oldest first, and skips what fails.\<close>

lemma worker_drains:
  "(worker_turn fate now ^^ length q) (q, s) = ([], fold (\<lambda>e s. snd (handle_write fate now e s)) q s)"
proof (induction q arbitrary: s)
  case (Cons e q)
  have "(worker_turn fate now ^^ length (e # q)) (e # q, s)
      = (worker_turn fate now ^^ length q) (worker_turn fate now (e # q, s))" by (simp add: funpow_swap1)
  also have "worker_turn fate now (e # q, s) = (q, snd (handle_write fate now e s))" by (simp add: worker_turn_def)
  finally show ?case by (simp only: Cons.IH fold_simps)
qed simp

end
