(* ===== verification/PoolVerifier.thy ===== *)
theory PoolVerifier
  imports PoolProgram SdkPay
begin

text \<open>
  The pool program's Groth16 wrapper (\<open>verifier.rs\<close>) with its verifying key as \<open>vk-to-rust.js\<close> writes it
  (\<open>dev_vk.rs\<close>): how the proof bytes are taken apart, what the key's hash covers, and how snarkjs's decimal
  points become bytes. The pairing check of groth16-solana and keccak are parameters. Shown: the program
  takes apart what the SDK's prover packs, and the script and the prover write points the same way.
\<close>

section \<open>verifier.rs\<close>

record verifying_key =
  vk_nr_pubinputs :: nat
  vk_alpha_g1 :: bytes
  vk_beta_g2 :: bytes
  vk_gamma_g2 :: bytes
  vk_delta_g2 :: bytes
  vk_ic :: "bytes list"

text \<open>\<open>Groth16Verifier::new\<close> and \<open>verify\<close>: \<open>None\<close> where one of them reports an error.\<close>

type_synonym groth16_library = "bytes \<Rightarrow> bytes \<Rightarrow> bytes \<Rightarrow> bytes list \<Rightarrow> verifying_key \<Rightarrow> unit option"

definition verify_proof :: "groth16_library \<Rightarrow> verifying_key \<Rightarrow> bytes \<Rightarrow> bytes list \<Rightarrow> pool_error + unit" where
  "verify_proof lib vk proof_bytes public_signals =
     (let proof_a = slice 0 64 proof_bytes; proof_b = slice 64 192 proof_bytes; proof_c = slice 192 256 proof_bytes
      in optE InvalidProof (lib proof_a proof_b proof_c public_signals vk))"

definition embedded_vk_hash :: "hash_fun \<Rightarrow> verifying_key \<Rightarrow> bytes" where
  "embedded_vk_hash keccak vk =
     keccak (vk_alpha_g1 vk @ vk_beta_g2 vk @ vk_gamma_g2 vk @ vk_delta_g2 vk @ concat (vk_ic vk))"

section \<open>vk-to-rust.js\<close>

text \<open>\<open>toBE32\<close> reads the first 64 hexadecimal digits.\<close>

definition script_be32 :: "string \<Rightarrow> bytes option" where
  "script_be32 dec = map_option (\<lambda>n. hex_to_bytes 32 (pad_start 64 (CHR ''0'') (int_str 16 n))) (parse_bigint dec)"

definition script_g1 :: "string list \<Rightarrow> bytes option" where
  "script_g1 triple =
     (if length triple < 2 then None
      else Option.bind (script_be32 (triple ! 0)) (\<lambda>x. map_option (\<lambda>y. x @ y) (script_be32 (triple ! 1))))"

definition script_g2 :: "string list list \<Rightarrow> bytes option" where
  "script_g2 triple =
     (if length triple < 2 \<or> length (triple ! 0) < 2 \<or> length (triple ! 1) < 2 then None
      else Option.bind (script_be32 (triple ! 0 ! 0)) (\<lambda>x0. Option.bind (script_be32 (triple ! 0 ! 1)) (\<lambda>x1.
           Option.bind (script_be32 (triple ! 1 ! 0)) (\<lambda>y0. map_option (\<lambda>y1. x1 @ x0 @ y1 @ y0) (script_be32 (triple ! 1 ! 1))))))"

record vk_json =
  vj_protocol :: string
  vj_curve :: string
  vj_n_public :: nat
  vj_alpha :: "string list"
  vj_beta :: "string list list"
  vj_gamma :: "string list list"
  vj_delta :: "string list list"
  vj_ic :: "string list list"

text \<open>The key written, or \<open>None\<close> where the script exits with an error or a conversion throws.\<close>

definition vk_to_rust :: "vk_json \<Rightarrow> verifying_key option" where
  "vk_to_rust vk =
     (if vj_protocol vk \<noteq> ''groth16'' \<or> vj_curve vk \<noteq> ''bn128'' then None
      else Option.bind (script_g1 (vj_alpha vk)) (\<lambda>alpha. Option.bind (script_g2 (vj_beta vk)) (\<lambda>beta.
           Option.bind (script_g2 (vj_gamma vk)) (\<lambda>gamma. Option.bind (script_g2 (vj_delta vk)) (\<lambda>delta.
           let ic = map script_g1 (vj_ic vk) in
           if None \<in> set ic \<or> length ic \<noteq> vj_n_public vk + 1 then None
           else Some \<lparr>vk_nr_pubinputs = vj_n_public vk, vk_alpha_g1 = alpha, vk_beta_g2 = beta, vk_gamma_g2 = gamma,
                      vk_delta_g2 = delta, vk_ic = map the ic\<rparr>)))))"

section \<open>Agreement with the SDK's prover\<close>

lemma be32_length: "dec_string_to_be32 dec = Inr bs \<Longrightarrow> length bs = 32"
  by (auto simp: dec_string_to_be32_def Let_def split: option.splits)

lemma pack_lengths:
  "pack_g1 t = Inr bs \<Longrightarrow> length bs = 64"
  "pack_g2 u = Inr bs \<Longrightarrow> length bs = 128"
  by (auto simp: pack_g1_def pack_g2_def res_simps dest!: be32_length)

text \<open>The three slices of the program are the three points the prover packed, the first one negated.\<close>

lemma packed_proof_taken_apart:
  assumes "pack_groth16 out = Inr groth"
  obtains a b c where "bindE (negate_g1 (so_pi_a out)) pack_g1 = Inr a" "pack_g2 (so_pi_b out) = Inr b" "pack_g1 (so_pi_c out) = Inr c"
    and "\<And>lib vk sigs. verify_proof lib vk (gp_proof_bytes groth) sigs = optE InvalidProof (lib a b c sigs vk)"
proof -
  obtain a b c where p: "bindE (negate_g1 (so_pi_a out)) pack_g1 = Inr a" "pack_g2 (so_pi_b out) = Inr b" "pack_g1 (so_pi_c out) = Inr c"
    "gp_proof_bytes groth = a @ b @ c" using assms by (auto simp: pack_groth16_def res_simps)
  have l: "length a = 64" "length b = 128" "length c = 64" using p by (auto simp: res_simps dest: pack_lengths)
  have "verify_proof lib vk (gp_proof_bytes groth) sigs = optE InvalidProof (lib a b c sigs vk)" for lib vk sigs
    using l by (simp add: verify_proof_def p(4) slice_def)
  with p(1-3) show thesis by (rule that)
qed

text \<open>The script writes coordinates below \<open>2 ^ 256\<close> as the prover does, and the points with them.\<close>

lemma script_be32_eq:
  assumes "parse_bigint dec = Some (int n)" "n < 2 ^ 256"
  shows "dec_string_to_be32 dec = Inr bs \<longleftrightarrow> script_be32 dec = Some bs"
proof -
  have "length (nat_str 16 n) \<le> 64" using assms(2) by (simp add: length_nat_str_16)
  then show ?thesis using assms(1) by (simp add: dec_string_to_be32_def script_be32_def int_str_def Let_def pad_start_def)
qed

definition coordinate :: "string \<Rightarrow> bool" where
  "coordinate dec = pred_option (\<lambda>n. 0 \<le> n \<and> n < 2 ^ 256) (parse_bigint dec)"

lemma coordinate_be32: "coordinate dec \<Longrightarrow> dec_string_to_be32 dec = Inr bs \<longleftrightarrow> script_be32 dec = Some bs"
  using script_be32_eq [of dec "nat (the (parse_bigint dec))"]
  by (cases "parse_bigint dec") (auto simp: coordinate_def dec_string_to_be32_def script_be32_def nat_less_iff)

lemma script_g1_eq:
  "2 \<le> length t \<Longrightarrow> coordinate (t ! 0) \<Longrightarrow> coordinate (t ! 1) \<Longrightarrow> pack_g1 t = Inr bs \<longleftrightarrow> script_g1 t = Some bs"
  by (auto simp: pack_g1_def script_g1_def res_simps coordinate_be32 bind_eq_Some_conv)

lemma script_g2_eq:
  assumes "2 \<le> length t" "2 \<le> length (t ! 0)" "2 \<le> length (t ! 1)"
    and "coordinate (t ! 0 ! 0)" "coordinate (t ! 0 ! 1)" "coordinate (t ! 1 ! 0)" "coordinate (t ! 1 ! 1)"
  shows "pack_g2 t = Inr bs \<longleftrightarrow> script_g2 t = Some bs"
  using assms by (auto simp: pack_g2_def script_g2_def res_simps coordinate_be32 bind_eq_Some_conv)

end
