(* ===== verification/Spec2Isabelle.thy ===== *)
theory Spec2Isabelle
  imports RelayerBoot SdkEndToEnd X402 SdkSupport SdkSession WebViews Attestor IndexerBoot GeyserPlugin PoolVerifier
begin

text \<open>
  A verification library for Qietr, a shielded payment protocol on Solana.

  \<^bold>\<open>The program.\<close> A wallet deposits a fixed amount of USDC into a pool program under a commitment, a Poseidon
  hash of two secrets and the amount; the program appends the commitment to a Merkle tree. To pay, the
  wallet's SDK fetches the commitment's inclusion proof from an indexer, proves in zero knowledge that it
  knows a commitment in the tree, and submits a withdraw that names the recipient, a nullifier that can
  be used once, and a commitment to the change. Around this core stand a relayer that pays the fees of
  others' transactions, an indexer (a poller and a validator plugin that fill a database, and an HTTP API), an
  attestor that reports nullifiers to other chains, an HTTP client that pays on status 402, an escrow
  and a messaging program, and a web application.

  \<^bold>\<open>Conventions.\<close> \<open>Prelude\<close> has the error monad: a call that may throw is a value of \<open>'e + 'a\<close>, and every
  throw, panic and early return of the source is a branch. \<open>JsBase\<close>, \<open>JsString\<close>, \<open>JsNumber\<close>, \<open>Json\<close> and
  \<open>Base64\<close> are the parts of JavaScript the code uses: byte arrays, \<open>BigInt\<close> and \<open>parseFloat\<close>, Numbers as exact
  dyadic fractions rounded to 53 bits, JSON texts, base64. \<open>Wire\<close> has keys, instructions and Anchor's
  discriminators, and two locales for wire formats. A \<open>u64\<close> is a 64-bit word in the programs and in the
  plugin, a Number or a BigInt is an \<open>int\<close>. Poseidon, SHA-256, keccak, Argon2id, AES-GCM, ed25519 signing,
  program-address derivation, snarkjs, the pairing check, base58, the RPC node, the clock and random
  bytes are parameters; what is used of them (lengths, decryption of what was encrypted, distinct
  discriminators) is stated as a hypothesis where it is used.

  \<^bold>\<open>The trees.\<close> \<open>MerkleSpec\<close> is the abstract tree, \<open>Accumulator\<close> the contract of an append-only tree as a locale.
  \<open>SdkMerkle\<close> (\<open>qietr-sdk/src/merkle.ts\<close> and the API's \<open>poseidon-tree.ts\<close>) and \<open>PoolMerkle\<close> (the frontier,
  root ring and zero table of \<open>qietr_pool/src/merkle.rs\<close>, \<open>state.rs\<close>) interpret it, so their roots agree for
  every sequence of leaves; inclusion proofs fold to the root and bind the leaf.

  \<^bold>\<open>The pool.\<close> \<open>PoolProgram\<close> has every handler of \<open>qietr_pool/src/lib.rs\<close> for one denomination and the runs of
  calls: no nullifier is withdrawn twice, the history is that of the SDK's tree. \<open>PoolSpend\<close> says what a spend
  pays, under which key, and which notes can never be spent. \<open>PoolDispatch\<close> puts Anchor in front of the handlers:
  an instruction with its account list and data, the Borsh arguments, the account constraints of the
  \<open>Accounts\<close> structs, and \<open>initialize_denomination\<close> with its admin check, over all denominations; the leaves the
  indexer reads from the accepted instructions are those of the tree accounts. \<open>PoolVerifier\<close> is \<open>verifier.rs\<close> and the script
  that writes its key. \<open>PoolInstructions\<close> and \<open>PoolDecode\<close> are the instruction builders of \<open>program.ts\<close> and the
  account and instruction decoders of the indexer, related by the wire-format locales.

  \<^bold>\<open>The SDK.\<close> \<open>FieldCodec\<close> (field elements as texts and bytes), \<open>SdkChain\<close> (clusters, tiers, amounts), \<open>SdkNote\<close>
  (notes and their encryption), \<open>SdkProver\<close> (witness, packing, and the constraints of
  \<open>qietr_payment.circom\<close>), \<open>SdkWallet\<close> (the class \<open>QietrSDK\<close>), \<open>SdkPay\<close> (what deposit and pay guarantee),
  \<open>SdkSession\<close> (sessions of calls: well-typed notes and the ledger), \<open>SdkEndToEnd\<close> (the instruction pay
  builds, through the program's dispatch), \<open>X402\<close> (\<open>wrapFetch\<close>), \<open>SdkEscrow\<close>, \<open>SdkMsg\<close>, \<open>ServiceClients\<close> and \<open>SdkSupport\<close> (logger, accessors).

  \<^bold>\<open>The services.\<close> \<open>SlidingWindow\<close> is the locale both window guards of the relayer interpret. \<open>RelayerPolicy\<close> (rate
  limit, spend guard, replay guard, sanctions, auth), \<open>RelayerTx\<close> (transaction validation), \<open>RelayerRoutes\<close> (the
  handlers and their wiring), \<open>RelayerBoot\<close> (configuration and backends). \<open>IndexerDb\<close> (the tables and their
  upserts, as idempotent tables), \<open>IndexerPoller\<close> and \<open>IndexerSync\<close> (the poller, and that its rows are leaves of the
  chain in their order whatever fails, and a prefix of them unless a listed transaction is answered \<open>null\<close>), \<open>IndexerApi\<close> (the routes and the proof cache, up to the SDK's client),
  \<open>IndexerBoot\<close> (TLS option, pool, configuration, supervisor), \<open>GeyserPlugin\<close> (\<open>geyser-plugin/src\<close>).
  \<open>Attestor\<close> is \<open>qietr-attestor/src\<close>.

  \<^bold>\<open>Escrow, messages and the web.\<close> \<open>EscrowProgram\<close> and \<open>MsgProgram\<close> are the two other programs with their
  account checks and, for messages, the page's functions; \<open>EscrowApp\<close> is what the escrow page computes. \<open>WebStorage\<close>
  (\<open>app/_lib\<close>), \<open>WebElements\<close> (the elements of a page), \<open>WebWallet\<close> (the payment and deposit pages and the balance
  card), \<open>NoteManager\<close> (the note page and the sessions on it), \<open>WebPages\<close> (the escrow,
  messaging and activity pages from a click to the status), \<open>WebViews\<close> (what the other pages show and let click).

  \<^bold>\<open>State.\<close> A class or an account is a record; the chain is the record of its accounts with a log of leaves,
  spent nullifiers and payouts; the browser is its local storage, its downloads and its events. Runs are
  inductive relations (\<open>pool_run\<close>, \<open>world_run\<close>, \<open>poll_run\<close>, \<open>note_session\<close>, \<open>prompt_run\<close>, \<open>supervisor_step\<close>, \<open>geyser_run\<close>), or lists of
  calls, each with the answers its surroundings give it, so that every interleaving of failures is covered.

  \<^bold>\<open>Bounds and fuel.\<close> The tree has depth 20 and 2 ^ 20 leaves, the ring 30 roots, the activity log 200 entries,
  the plugin's queue 16384 events. The JSON parser runs on the length of its text as fuel, which is
  shown to be enough for everything that is printed. The loop of a wrapped fetch is bounded by the code's own
  \<open>maxRetries\<close>. Two loops of the code have no bound: the paging of \<open>getNewSignatures\<close> and the wait of
  \<open>sendAndConfirm\<close>; both are partial functions, and theorems state when they end. Balances are exact below 2 ^ 53
  micro-USDC, the limit of a double, which is a hypothesis where sums are formed.

  \<^bold>\<open>Not modelled.\<close> Markup, styling, input placeholders and the marketing, documentation and launch pages, which
  have no state; the bodies of log lines; type declarations and re-exports; the one-off scripts that drive a live
  cluster, and the test suites. Subnormal doubles, rent and compute limits of Solana, and texts outside
  ASCII in form fields are left out. The soundness of Groth16 is not a statement here: the circuit's
  constraints are, and that the honest witness satisfies them. A sent transaction either takes effect and
  its sending succeeds, or has none: a payment that lands although sending it reported a failure, after
  which the wallet keeps a note that is spent on the chain, is not represented. The filters of an account
  query are applied by the node, whose answer is an argument.
\<close>

end
